(* ===== verification/Prelude.thy ===== *)
theory Prelude
  imports Complex_Main "HOL-Library.Multiset"
begin

text \<open>
  Vocabulary and lemmas shared by every component.

  \<^item> Python's floating point numbers are modelled by reals (no rounding); where the code asks
    whether a number is finite, the type \<open>pyfloat\<close> keeps the non-finite values apart.
  \<^item> Moments (\<open>datetime\<close>) are reals: seconds since the epoch, in UTC. A \<open>timedelta\<close> is a
    number of seconds.
  \<^item> \<open>None\<close> is the \<open>None\<close> of \<open>'a option\<close>; a raised exception is a value of \<open>py_error\<close>.
  \<^item> \<open>sorted\<close> with \<open>reverse=True\<close> is the stable \<open>sort_desc\<close> below.
\<close>

named_theorems unit_bounds \<open>values that lie in the unit interval\<close>

subsection \<open>Numbers\<close>

datatype pyfloat = Fin real | PosInf | NegInf | NaN

datatype py_error = ZeroDivisionError | ValueError | IndexError | KeyError | RuntimeError | TypeError

type_synonym moment = real

text \<open>\<open>int(x)\<close> truncates towards zero.\<close>

definition py_int :: "real \<Rightarrow> int" where
  "py_int x = (if 0 \<le> x then \<lfloor>x\<rfloor> else \<lceil>x\<rceil>)"

text \<open>\<open>round(x)\<close> rounds to the nearest integer, ties to even.\<close>

definition py_round :: "real \<Rightarrow> int" where
  "py_round x =
     (let f = \<lfloor>x\<rfloor>; d = x - of_int f
      in if d < 1 / 2 then f
         else if 1 / 2 < d then f + 1
         else if even f then f else f + 1)"

text \<open>\<open>max(lo, min(hi, x))\<close>, the clamp idiom of the code.\<close>

definition clamp :: "'a::linorder \<Rightarrow> 'a \<Rightarrow> 'a \<Rightarrow> 'a" where
  "clamp lo hi x = max lo (min hi x)"

lemma clamp_ge [simp]: "lo \<le> clamp lo hi x"
  by (simp add: clamp_def)

lemma clamp_le [simp]: "lo \<le> hi \<Longrightarrow> clamp lo hi x \<le> hi"
  by (simp add: clamp_def)

lemma clamp_id: "lo \<le> x \<Longrightarrow> x \<le> hi \<Longrightarrow> clamp lo hi x = x"
  by (simp add: clamp_def min_absorb2 max_absorb2)

lemma clamp_mono: "x \<le> y \<Longrightarrow> clamp lo hi x \<le> clamp lo hi y"
  by (auto simp: clamp_def max_def min_def)

lemma py_int_nonneg: "0 \<le> x \<Longrightarrow> py_int x = \<lfloor>x\<rfloor>"
  by (simp add: py_int_def)

lemma py_int_of_int [simp]: "py_int (of_int n) = n"
  by (simp add: py_int_def)

lemma py_int_numeral [simp]: "py_int (numeral n) = numeral n"
  using py_int_of_int [of "numeral n"] by simp

lemma py_int_mono:
  assumes "x \<le> y"
  shows "py_int x \<le> py_int y"
proof (cases "0 \<le> x \<or> y < 0")
  case True
  with assms show ?thesis by (auto simp: py_int_def floor_mono ceiling_mono)
next
  case False
  then have "\<lceil>x\<rceil> \<le> 0" and "0 \<le> \<lfloor>y\<rfloor>" by simp_all
  then have "\<lceil>x\<rceil> \<le> \<lfloor>y\<rfloor>" by (rule order_trans)
  with False show ?thesis by (simp add: py_int_def)
qed

lemma py_int_le: "0 \<le> x \<Longrightarrow> of_int (py_int x) \<le> x"
  by (simp add: py_int_def)

lemma py_round_of_int [simp]: "py_round (of_int n) = n"
  by (simp add: py_round_def)

lemma py_round_near: "\<bar>of_int (py_round x) - x\<bar> \<le> 1 / 2"
proof -
  have "real_of_int \<lfloor>x\<rfloor> \<le> x" and "x < real_of_int \<lfloor>x\<rfloor> + 1" by linarith+
  then show ?thesis by (auto simp: py_round_def Let_def)
qed

lemma py_round_mono: "x \<le> y \<Longrightarrow> py_round x \<le> py_round y"
proof (rule ccontr)
  assume le: "x \<le> y" and "\<not> py_round x \<le> py_round y"
  then have gt: "py_round y + 1 \<le> py_round x" by simp
  have "real_of_int (py_round x) \<le> x + 1 / 2" using py_round_near [of x] by linarith
  moreover have "y - 1 / 2 \<le> real_of_int (py_round y)" using py_round_near [of y] by linarith
  ultimately have eq: "py_round x = py_round y + 1" and tie: "x = y" "x = py_round x - 1 / 2"
    using gt le by linarith+
  then show False by simp
qed

subsection \<open>Optional values\<close>

text \<open>\<open>x is not None and P(x)\<close>.\<close>

definition some_and :: "'a option \<Rightarrow> ('a \<Rightarrow> bool) \<Rightarrow> bool" where
  "some_and x P = (case x of None \<Rightarrow> False | Some v \<Rightarrow> P v)"

lemma some_and_simps [simp]:
  "some_and None P = False" "some_and (Some v) P = P v"
  by (simp_all add: some_and_def)

text \<open>\<open>x or d\<close> for an optional value whose falsy value, if any, is \<open>d\<close> itself.\<close>

definition or_default :: "'a option \<Rightarrow> 'a \<Rightarrow> 'a" where
  "or_default x d = (case x of None \<Rightarrow> d | Some v \<Rightarrow> v)"

lemma or_default_simps [simp]:
  "or_default None d = d" "or_default (Some v) d = v"
  by (simp_all add: or_default_def)

text \<open>\<open>a or b\<close> for two optional values whose present values are truthy.\<close>

definition or_else :: "'a option \<Rightarrow> 'a option \<Rightarrow> 'a option" where
  "or_else x y = (case x of None \<Rightarrow> y | Some v \<Rightarrow> Some v)"

lemma or_else_simps [simp]:
  "or_else None y = y" "or_else (Some v) y = Some v"
  by (simp_all add: or_else_def)

subsection \<open>Stable descending sort\<close>

definition sort_desc :: "('a \<Rightarrow> real) \<Rightarrow> 'a list \<Rightarrow> 'a list" where
  "sort_desc k xs = sort_key (\<lambda>x. - k x) xs"

lemma sort_desc_mset [simp]: "mset (sort_desc k xs) = mset xs"
  by (simp add: sort_desc_def)

lemma sort_desc_set [simp]: "set (sort_desc k xs) = set xs"
  by (simp add: sort_desc_def)

lemma sort_desc_length [simp]: "length (sort_desc k xs) = length xs"
  by (simp add: sort_desc_def)

lemma sort_desc_distinct [simp]: "distinct (sort_desc k xs) = distinct xs"
  by (simp add: sort_desc_def)

lemma sort_desc_distinct_map: "distinct (map f (sort_desc k xs)) = distinct (map f xs)"
proof -
  have "mset (map f (sort_desc k xs)) = mset (map f xs)" by simp
  then show ?thesis by (rule mset_eq_imp_distinct_iff)
qed

lemma sort_desc_sorted: "sorted_wrt (\<lambda>x y. k y \<le> k x) (sort_desc k xs)"
proof -
  have "sorted (map (\<lambda>x. - k x) (sort_desc k xs))" by (simp add: sort_desc_def)
  then show ?thesis by (simp add: sorted_map)
qed

lemma sort_desc_stable: "filter (\<lambda>x. k x = v) (sort_desc k xs) = filter (\<lambda>x. k x = v) xs"
  using sort_key_stable [of "\<lambda>x. - k x" "- v" xs] by (simp add: sort_desc_def)

subsection \<open>Convex combinations\<close>

lemma sum_list_mono_map:
  "(\<And>x. x \<in> set xs \<Longrightarrow> f x \<le> (g x :: real)) \<Longrightarrow> sum_list (map f xs) \<le> sum_list (map g xs)"
  by (rule sum_list_mono)

lemma sum_list_scale: "sum_list (map (\<lambda>x. c * x) xs) = c * sum_list (xs :: real list)"
  by (induction xs) (auto simp: algebra_simps)

lemma convex_sum_upper:
  assumes "\<And>x. x \<in> set xs \<Longrightarrow> 0 \<le> w x" and "\<And>x. x \<in> set xs \<Longrightarrow> f x \<le> (1 :: real)"
  shows "sum_list (map (\<lambda>x. w x * f x) xs) \<le> sum_list (map w xs)"
  using assms by (intro sum_list_mono_map) (auto simp: mult_left_le)

lemma convex_sum_lower:
  assumes "\<And>x. x \<in> set xs \<Longrightarrow> 0 \<le> w x" and "\<And>x. x \<in> set xs \<Longrightarrow> 0 \<le> (f x :: real)"
  shows "0 \<le> sum_list (map (\<lambda>x. w x * f x) xs)"
  using assms by (intro sum_list_nonneg) auto

lemma sum_list_if_split:
  "sum_list (map (\<lambda>x. if P x then a x else b x) xs)
    = sum_list (map a (filter P xs)) + (sum_list (map b (filter (\<lambda>x. \<not> P x) xs)) :: real)"
  by (induction xs) auto

lemma sum_list_filter_split:
  "sum_list xs = sum_list (filter P xs) + (sum_list (filter (\<lambda>x. \<not> P x) xs) :: real)"
  by (induction xs) auto

lemma sum_list_upper:
  "(\<And>x. x \<in> set xs \<Longrightarrow> f x \<le> (c :: real)) \<Longrightarrow> sum_list (map f xs) \<le> real (length xs) * c"
  by (induction xs) (auto simp: algebra_simps add_mono)

lemma submset_add_mset: "M \<subseteq># X \<Longrightarrow> M \<subseteq># add_mset r X"
  by (simp add: subseteq_mset_def le_SucI)

lemma distinct_submset:
  assumes "mset xs \<subseteq># mset ys" "distinct ys"
  shows "distinct xs"
proof -
  obtain C where "mset ys = mset xs + C" using assms(1) by (auto simp: mset_subset_eq_exists_conv)
  moreover obtain zs where "mset zs = C" using ex_mset by blast
  ultimately have "mset ys = mset (xs @ zs)" by simp
  then have "distinct ys = distinct (xs @ zs)" by (rule mset_eq_imp_distinct_iff)
  with assms(2) show ?thesis by simp
qed

subsection \<open>Vectors\<close>

text \<open>One-dimensional numpy arrays of floats.\<close>

type_synonym vec = "real list"

definition vdot :: "vec \<Rightarrow> vec \<Rightarrow> real" where
  "vdot u v = sum_list (map2 (*) u v)"

definition vadd :: "vec \<Rightarrow> vec \<Rightarrow> vec" where
  "vadd u v = map2 (+) u v"

definition vsub :: "vec \<Rightarrow> vec \<Rightarrow> vec" where
  "vsub u v = map2 (-) u v"

definition vscale :: "real \<Rightarrow> vec \<Rightarrow> vec" where
  "vscale c u = map (\<lambda>x. c * x) u"

definition vnorm :: "vec \<Rightarrow> real" where
  "vnorm u = sqrt (vdot u u)"

lemma length_vec_ops [simp]:
  "length (vadd u v) = min (length u) (length v)"
  "length (vsub u v) = min (length u) (length v)"
  "length (vscale c u) = length u"
  by (simp_all add: vadd_def vsub_def vscale_def)

lemma vdot_simps [simp]:
  "vdot [] v = 0" "vdot u [] = 0" "vdot (x # u) (y # v) = x * y + vdot u v"
  by (simp_all add: vdot_def)

lemma vdot_commute: "vdot u v = vdot v u"
  by (induction u v rule: list_induct2') (auto simp: mult.commute)

lemma vdot_self_nonneg [simp]: "0 \<le> vdot u u"
  by (induction u) auto

lemma vdot_sub_left:
  "length u = length v \<Longrightarrow> vdot (vsub u v) w = vdot u w - vdot v w"
proof (induction u v arbitrary: w rule: list_induct2)
  case Nil
  then show ?case by (simp add: vsub_def)
next
  case (Cons x xs y ys)
  then show ?case by (cases w) (auto simp: vsub_def algebra_simps)
qed

lemma vdot_add_left:
  "length u = length v \<Longrightarrow> vdot (vadd u v) w = vdot u w + vdot v w"
proof (induction u v arbitrary: w rule: list_induct2)
  case Nil
  then show ?case by (simp add: vadd_def)
next
  case (Cons x xs y ys)
  then show ?case by (cases w) (auto simp: vadd_def algebra_simps)
qed

lemma vdot_scale_left: "vdot (vscale c u) w = c * vdot u w"
proof (induction u arbitrary: w)
  case Nil
  then show ?case by (simp add: vscale_def)
next
  case (Cons x u)
  then show ?case by (cases w) (auto simp: vscale_def algebra_simps)
qed

subsection \<open>Interfaces of state machines\<close>

text \<open>
  A component whose every operation keeps an invariant: the client only has to know one step,
  and gets every run. \<open>ok\<close> is what the component asks of an event.
\<close>

locale preserving =
  fixes step :: "'s \<Rightarrow> 'e \<Rightarrow> 's"
    and inv :: "'s \<Rightarrow> bool"
    and ok :: "'e \<Rightarrow> bool"
  assumes step_inv: "inv s \<Longrightarrow> ok e \<Longrightarrow> inv (step s e)"
begin

lemma run_inv: "inv s \<Longrightarrow> list_all ok es \<Longrightarrow> inv (foldl step s es)"
  by (induction es arbitrary: s) (auto intro: step_inv)

end

text \<open>The same for operations that may raise: the first error ends the run.\<close>

fun run_fallible :: "('s \<Rightarrow> 'e \<Rightarrow> 'x + 's) \<Rightarrow> 's \<Rightarrow> 'e list \<Rightarrow> 'x + 's" where
  "run_fallible step s [] = Inr s"
| "run_fallible step s (e # es) =
     (case step s e of Inl x \<Rightarrow> Inl x | Inr s' \<Rightarrow> run_fallible step s' es)"

locale total_fallible =
  fixes step :: "'s \<Rightarrow> 'e \<Rightarrow> 'x + 's"
    and inv :: "'s \<Rightarrow> bool"
    and ok :: "'e \<Rightarrow> bool"
  assumes step_total: "inv s \<Longrightarrow> ok e \<Longrightarrow> \<exists>s'. step s e = Inr s' \<and> inv s'"
begin

lemma run_total: "inv s \<Longrightarrow> list_all ok es \<Longrightarrow> \<exists>s'. run_fallible step s es = Inr s' \<and> inv s'"
proof (induction es arbitrary: s)
  case Nil
  then show ?case by simp
next
  case (Cons e es)
  then obtain s' where "step s e = Inr s'" "inv s'" using step_total by force
  with Cons show ?case by simp
qed

end

end
