(* ===== verification/Contract.thy ===== *)
theory Contract
  imports Prelude
begin

text \<open>
  The feature contract of the ranker: \<open>backend/weirling_rank/contract.py\<close>, with the table of
  reason tags of \<open>services/ranking/feedback_map.py\<close> and the label function of
  \<open>services/ranking/contract.py\<close>, which consults that table first. The other functions of
  \<open>services/ranking/contract.py\<close> repeat the ones of \<open>weirling_rank/contract.py\<close> word for word.
\<close>

subsection \<open>Signals\<close>

datatype signal = Semantic | ReadingDepth | Suggestion | ExplicitFeedback
  | SourceTrust | ContentQuality | TemporalContext | Novelty

definition SIGNALS :: "signal list" where
  "SIGNALS = [Semantic, ReadingDepth, Suggestion, ExplicitFeedback,
              SourceTrust, ContentQuality, TemporalContext, Novelty]"

primrec signal_name :: "signal \<Rightarrow> string" where
  "signal_name Semantic = ''semantic''"
| "signal_name ReadingDepth = ''reading_depth''"
| "signal_name Suggestion = ''suggestion''"
| "signal_name ExplicitFeedback = ''explicit_feedback''"
| "signal_name SourceTrust = ''source_trust''"
| "signal_name ContentQuality = ''content_quality''"
| "signal_name TemporalContext = ''temporal_context''"
| "signal_name Novelty = ''novelty''"

text \<open>The order of the tuple \<open>SIGNALS\<close> orders the type.\<close>

primrec signal_index :: "signal \<Rightarrow> nat" where
  "signal_index Semantic = 0"
| "signal_index ReadingDepth = 1"
| "signal_index Suggestion = 2"
| "signal_index ExplicitFeedback = 3"
| "signal_index SourceTrust = 4"
| "signal_index ContentQuality = 5"
| "signal_index TemporalContext = 6"
| "signal_index Novelty = 7"

lemma signal_index_inj: "signal_index a = signal_index b \<longleftrightarrow> a = b"
  by (cases a; cases b) simp_all

instantiation signal :: linorder
begin

definition less_eq_signal :: "signal \<Rightarrow> signal \<Rightarrow> bool" where
  "less_eq_signal a b \<longleftrightarrow> signal_index a \<le> signal_index b"

definition less_signal :: "signal \<Rightarrow> signal \<Rightarrow> bool" where
  "less_signal a b \<longleftrightarrow> signal_index a < signal_index b"

instance
  by standard (auto simp: less_eq_signal_def less_signal_def signal_index_inj
      dest: antisym)

end

lemma set_SIGNALS [simp]: "set SIGNALS = UNIV"
proof -
  have "x \<in> set SIGNALS" for x by (cases x) (simp_all add: SIGNALS_def)
  then show ?thesis by auto
qed

lemma length_SIGNALS [simp]: "length SIGNALS = 8"
  by (simp add: SIGNALS_def)

lemma distinct_SIGNALS [simp]: "distinct SIGNALS"
  by (simp add: SIGNALS_def)

lemma sorted_SIGNALS: "sorted SIGNALS"
  by (simp add: SIGNALS_def less_eq_signal_def)

subsection \<open>Clamping\<close>

definition clamp01 :: "pyfloat \<Rightarrow> real" where
  "clamp01 value = (case value of
       NaN \<Rightarrow> 0.5 | PosInf \<Rightarrow> 0.5 | NegInf \<Rightarrow> 0.5
     | Fin x \<Rightarrow> max 0 (min 1 x))"

lemma clamp01_bounds [simp, unit_bounds]: "0 \<le> clamp01 v" "clamp01 v \<le> 1"
  by (simp_all add: clamp01_def split: pyfloat.splits)

lemma clamp01_Fin: "clamp01 (Fin x) = clamp 0 1 x"
  by (simp add: clamp01_def clamp_def)

lemma clamp01_id [simp]: "0 \<le> x \<Longrightarrow> x \<le> 1 \<Longrightarrow> clamp01 (Fin x) = x"
  by (simp add: clamp01_def)

lemma clamp01_mono: "x \<le> y \<Longrightarrow> clamp01 (Fin x) \<le> clamp01 (Fin y)"
  by (simp add: clamp01_Fin clamp_mono)

subsection \<open>Labels\<close>

text \<open>The keyword arguments of \<open>label_event\<close>.\<close>

record event =
  ev_completion :: "real option"
  ev_rating :: "int option"
  ev_saved :: bool
  ev_skipped :: bool
  ev_reread :: int
  ev_viewed :: bool
  ev_reason :: "string option"
  ev_saved_unopened_days :: "real option"

definition no_event :: event where
  "no_event = \<lparr>ev_completion = None, ev_rating = None, ev_saved = False, ev_skipped = False,
     ev_reread = 0, ev_viewed = False, ev_reason = None, ev_saved_unopened_days = None\<rparr>"

definition label_event :: "event \<Rightarrow> (real \<times> real) option" where
  "label_event e =
    (if ev_skipped e \<and> \<not> ev_viewed e then None
     else if some_and (ev_rating e) (\<lambda>r. 0 < r) then Some (1, 1)
     else if some_and (ev_rating e) (\<lambda>r. r < 0) then Some (0, 1)
     else if ev_skipped e \<and> ev_viewed e then Some (0, 0.5)
     else if 0 < ev_reread e then Some (0.95, 0.9)
     else if ev_saved e \<and> some_and (ev_completion e) (\<lambda>c. 0.9 \<le> c) then Some (1, 1.2)
     else if ev_saved e \<and> some_and (ev_saved_unopened_days e) (\<lambda>d. 14 \<le> d) then Some (0.4, 0.3)
     else if ev_saved e then Some (0.9, 0.8)
     else (case ev_completion e of
         None \<Rightarrow> None
       | Some c \<Rightarrow>
           if c < 0.2 then Some (0.1, 0.5)
           else if c < 0.6 then Some (0.45, 0.6)
           else Some (min 1 (0.7 + 0.3 * c), 0.8)))"

text \<open>The reason tags (\<open>REASON_EFFECTS\<close>).\<close>

record reason_effect =
  label_y :: real
  confidence :: real
  cluster_weight_delta :: real
  source_trust_delta :: real

definition REASON_EFFECTS :: "(string \<times> reason_effect) list" where
  "REASON_EFFECTS =
    [(''too_basic'', \<lparr>label_y = 0.35, confidence = 0.8,
        cluster_weight_delta = - 0.10, source_trust_delta = 0\<rparr>),
     (''already_knew'', \<lparr>label_y = 0.35, confidence = 0.8,
        cluster_weight_delta = - 0.10, source_trust_delta = 0\<rparr>),
     (''off_topic'', \<lparr>label_y = 0, confidence = 1,
        cluster_weight_delta = - 0.20, source_trust_delta = 0\<rparr>),
     (''too_tangential'', \<lparr>label_y = 0, confidence = 1,
        cluster_weight_delta = - 0.20, source_trust_delta = 0\<rparr>),
     (''wrong_depth'', \<lparr>label_y = 0.45, confidence = 0.6,
        cluster_weight_delta = 0, source_trust_delta = 0\<rparr>),
     (''clickbait'', \<lparr>label_y = 0.20, confidence = 0.8,
        cluster_weight_delta = 0, source_trust_delta = - 0.10\<rparr>)]"

definition reason_effect :: "string option \<Rightarrow> reason_effect option" where
  "reason_effect reason = (case reason of
       None \<Rightarrow> None
     | Some r \<Rightarrow> if r = '''' then None else map_of REASON_EFFECTS r)"

text \<open>\<open>label_event\<close> of the services package: a mapped reason decides before anything else.\<close>

definition label_event_with_reason :: "event \<Rightarrow> (real \<times> real) option" where
  "label_event_with_reason e = (case reason_effect (ev_reason e) of
       Some eff \<Rightarrow> Some (label_y eff, confidence eff)
     | None \<Rightarrow> label_event e)"

lemma reason_effect_Some_ranges:
  assumes "reason_effect r = Some eff"
  shows "0 \<le> label_y eff \<and> label_y eff < 1 / 2 \<and> 0 < confidence eff \<and> confidence eff \<le> 1
    \<and> cluster_weight_delta eff \<le> 0 \<and> source_trust_delta eff \<le> 0"
  using assms
  by (auto simp: reason_effect_def REASON_EFFECTS_def split: option.splits if_splits)

lemma label_event_range:
  assumes "label_event e = Some (y, c)"
  shows "0 \<le> y \<and> y \<le> 1 \<and> 0.3 \<le> c \<and> c \<le> 1.2"
  using assms by (auto simp: label_event_def split: if_splits option.splits)

lemma label_event_with_reason_range:
  assumes "label_event_with_reason e = Some (y, c)"
  shows "0 \<le> y \<and> y \<le> 1 \<and> 0.3 \<le> c \<and> c \<le> 1.2"
  using assms label_event_range reason_effect_Some_ranges [of "ev_reason e"]
  by (fastforce simp: label_event_with_reason_def reason_effect_def REASON_EFFECTS_def
      split: option.splits if_splits)

subsection \<open>Trust\<close>

record beta_trust =
  bt_mean :: real
  bt_low :: real
  bt_high :: real

text \<open>
  \<open>beta_trust\<close>: the divisions by \<open>half_life_days\<close>, \<open>alpha + beta\<close> and
  \<open>(alpha + beta) ** 2 * (alpha + beta + 1)\<close> raise on zero, and \<open>math.sqrt\<close> on a negative
  variance.
\<close>

definition trust_decay :: "real \<Rightarrow> real \<Rightarrow> real" where
  "trust_decay age_days half_life_days = 0.5 powr (max age_days 0 / half_life_days)"

definition beta_trust ::
  "real \<Rightarrow> real \<Rightarrow> real \<Rightarrow> real \<Rightarrow> real \<Rightarrow> real \<Rightarrow> py_error + beta_trust" where
  "beta_trust successes failures prior_success prior_failure age_days half_life_days =
    (if half_life_days = 0 then Inl ZeroDivisionError else
     let decay = trust_decay age_days half_life_days;
         alpha = prior_success + successes * decay;
         beta = prior_failure + failures * decay
     in if alpha + beta = 0 \<or> alpha + beta + 1 = 0 then Inl ZeroDivisionError else
     let mean = alpha / (alpha + beta);
         variance = (alpha * beta) / ((alpha + beta)\<^sup>2 * (alpha + beta + 1))
     in if variance < 0 then Inl ValueError else
     let spread = 1.96 * sqrt variance
     in Inr \<lparr>bt_mean = clamp01 (Fin mean), bt_low = clamp01 (Fin (mean - spread)),
             bt_high = clamp01 (Fin (mean + spread))\<rparr>)"

lemma trust_decay_pos [simp]: "0 < trust_decay a h"
  by (simp add: trust_decay_def)

lemma trust_decay_le_1: "0 < h \<Longrightarrow> trust_decay a h \<le> 1"
  by (simp add: trust_decay_def powr_le1)

subsection \<open>Temporal scales\<close>

definition long_term_weight :: "real \<Rightarrow> real \<Rightarrow> real" where
  "long_term_weight age_days half_life_days =
     clamp01 (Fin (0.5 powr (max age_days 0 / half_life_days)))"

definition LONG_TERM_HALF_LIFE :: real where
  "LONG_TERM_HALF_LIFE = 120"

definition medium_term_weight :: "real \<Rightarrow> real" where
  "medium_term_weight age_days =
     (if age_days < 14 \<or> 56 < age_days then 0.2
      else clamp01 (Fin (1 - \<bar>age_days - 28\<bar> / 28)))"

definition saturation_penalty :: "int \<Rightarrow> real" where
  "saturation_penalty same_event_count =
     (if same_event_count \<le> 1 then 1 else clamp01 (Fin (1 / of_int same_event_count)))"

definition recency_fit :: "real \<Rightarrow> bool \<Rightarrow> real" where
  "recency_fit age_hours user_prefers_fresh =
     (let fresh = clamp01 (Fin (exp (- age_hours / 72)))
      in if user_prefers_fresh then fresh
         else clamp01 (Fin (0.45 + 0.55 * (1 - fresh))))"

definition temporal_score :: "moment \<Rightarrow> moment \<Rightarrow> int \<Rightarrow> bool \<Rightarrow> real" where
  "temporal_score published_at now same_event_count user_prefers_fresh =
     (let age_hours = max 0 ((now - published_at) / 3600);
          age_days = age_hours / 24;
          blended = 0.4 * long_term_weight age_days LONG_TERM_HALF_LIFE
                  + 0.3 * medium_term_weight age_days
                  + 0.3 * recency_fit age_hours user_prefers_fresh
      in clamp01 (Fin (blended * saturation_penalty same_event_count)))"

lemma long_term_weight_bounds [simp, unit_bounds]:
  "0 \<le> long_term_weight a h" "long_term_weight a h \<le> 1"
  by (simp_all add: long_term_weight_def)

lemma medium_term_weight_bounds [simp, unit_bounds]:
  "0 \<le> medium_term_weight a" "medium_term_weight a \<le> 1"
  by (simp_all add: medium_term_weight_def)

lemma saturation_penalty_bounds [simp, unit_bounds]:
  "0 \<le> saturation_penalty n" "saturation_penalty n \<le> 1"
  by (simp_all add: saturation_penalty_def)

lemma recency_fit_bounds [simp, unit_bounds]:
  "0 \<le> recency_fit a p" "recency_fit a p \<le> 1"
  by (simp_all add: recency_fit_def Let_def)

lemma temporal_score_bounds [simp, unit_bounds]:
  "0 \<le> temporal_score p n c f" "temporal_score p n c f \<le> 1"
  by (simp_all add: temporal_score_def Let_def)

lemma saturation_penalty_antimono:
  assumes "m \<le> n"
  shows "saturation_penalty n \<le> saturation_penalty m"
proof (cases "m \<le> 1")
  case True
  then show ?thesis by (simp add: saturation_penalty_def)
next
  case False
  with assms have "1 / real_of_int n \<le> 1 / real_of_int m" by (simp add: frac_le)
  with False assms show ?thesis by (simp add: saturation_penalty_def clamp01_mono)
qed

subsection \<open>Reading hours\<close>

definition hour_counts :: "int list \<Rightarrow> nat list" where
  "hour_counts open_hours =
     foldl (\<lambda>counts hour. if 0 \<le> hour \<and> hour \<le> 23
              then counts[nat hour := counts ! nat hour + 1] else counts)
       (replicate 24 0) open_hours"

definition hour_histogram :: "int list \<Rightarrow> real list" where
  "hour_histogram open_hours =
     (let counts = hour_counts open_hours;
          total = (if sum_list counts = 0 then 1 else sum_list counts)
      in map (\<lambda>count. real count / real total) counts)"

text \<open>\<open>max(range(24), key=...)\<close> keeps the first maximum.\<close>

fun first_max :: "(nat \<Rightarrow> real) \<Rightarrow> nat \<Rightarrow> nat list \<Rightarrow> nat" where
  "first_max key best [] = best"
| "first_max key best (x # xs) = first_max key (if key best < key x then x else best) xs"

definition preferred_hour :: "int list \<Rightarrow> nat \<Rightarrow> nat" where
  "preferred_hour open_hours default_hour =
     (if open_hours = [] then default_hour
      else let hist = hour_histogram open_hours
           in first_max (\<lambda>hour. hist ! hour) 0 [1..<24])"

subsection \<open>Lengths\<close>

definition length_bucket :: "int option \<Rightarrow> string" where
  "length_bucket word_count =
     (let words = or_default word_count 0
      in if words < 400 then ''short'' else if words < 1500 then ''medium'' else ''long'')"

subsection \<open>Properties of the contract\<close>

lemma beta_trust_eq:
  fixes s f a b d h :: real
  assumes "0 \<le> s" "0 \<le> f" "0 < a" "0 < b" "0 < h"
  defines "al \<equiv> a + s * trust_decay d h" and "be \<equiv> b + f * trust_decay d h"
  shows "beta_trust s f a b d h = Inr
     \<lparr>bt_mean = al / (al + be),
      bt_low = clamp01 (Fin (al / (al + be)
        - 1.96 * sqrt ((al * be) / ((al + be)\<^sup>2 * (al + be + 1))))),
      bt_high = clamp01 (Fin (al / (al + be)
        + 1.96 * sqrt ((al * be) / ((al + be)\<^sup>2 * (al + be + 1)))))\<rparr>"
    and "0 < al" and "0 < be"
proof -
  show al: "0 < al" and be: "0 < be"
    using assms(1-4) by (simp_all add: al_def be_def add_pos_nonneg less_imp_le)
  then have "al / (al + be) \<le> 1" and "0 \<le> al * be / ((al + be)\<^sup>2 * (al + be + 1))" by simp_all
  with al be assms(5) show "beta_trust s f a b d h = Inr
     \<lparr>bt_mean = al / (al + be),
      bt_low = clamp01 (Fin (al / (al + be)
        - 1.96 * sqrt ((al * be) / ((al + be)\<^sup>2 * (al + be + 1))))),
      bt_high = clamp01 (Fin (al / (al + be)
        + 1.96 * sqrt ((al * be) / ((al + be)\<^sup>2 * (al + be + 1)))))\<rparr>"
    by (simp add: beta_trust_def Let_def not_less flip: al_def be_def)
qed

text \<open>with a positive prior and non-negative outcome counts \<open>beta_trust\<close> raises nothing, its
  mean lies strictly between 0 and 1, and its interval is ordered around the mean and stays in
  the unit interval.\<close>

theorem beta_trust_sound:
  assumes "0 \<le> successes" "0 \<le> failures" "0 < prior_success" "0 < prior_failure"
    and "0 < half_life"
  shows "\<exists>t. beta_trust successes failures prior_success prior_failure age half_life = Inr t
    \<and> 0 < bt_mean t \<and> bt_mean t < 1
    \<and> 0 \<le> bt_low t \<and> bt_low t \<le> bt_mean t \<and> bt_mean t \<le> bt_high t \<and> bt_high t \<le> 1"
proof -
  define al where "al = prior_success + successes * trust_decay age half_life"
  define be where "be = prior_failure + failures * trust_decay age half_life"
  define sp where "sp = 1.96 * sqrt ((al * be) / ((al + be)\<^sup>2 * (al + be + 1)))"
  define m where "m = al / (al + be)"
  note eq = beta_trust_eq [OF assms, where d = age, folded al_def be_def, folded m_def sp_def]
  have m: "0 < m" "m < 1" and sp: "0 \<le> sp"
    using eq(2,3) by (simp_all add: m_def sp_def)
  then have "clamp01 (Fin (m - sp)) \<le> m" "m \<le> clamp01 (Fin (m + sp))"
    by (simp_all add: clamp01_def)
  with eq(1) m show ?thesis by (intro exI) auto
qed

theorem beta_trust_sound_witness:
  "\<exists>t. beta_trust 3 1 2 2 30 90 = Inr t
    \<and> 0 < bt_mean t \<and> bt_mean t < 1
    \<and> 0 \<le> bt_low t \<and> bt_low t \<le> bt_mean t \<and> bt_mean t \<le> bt_high t \<and> bt_high t \<le> 1"
  by (rule beta_trust_sound) simp_all

lemma beta_trust_mean:
  assumes "0 \<le> s" "0 \<le> f" "0 < a" "0 < b" "0 < h" and "beta_trust s f a b d h = Inr t"
  shows "bt_mean t = (a + s * trust_decay d h) / (a + s * trust_decay d h + (b + f * trust_decay d h))"
  using assms(6) beta_trust_eq(1) [OF assms(1-5), of d] by (auto simp del: of_nat_add)

text \<open>an outcome counts in its own direction: one more success raises the trust of a source,
  one more failure lowers it, whatever the age of the last outcome.\<close>

theorem beta_trust_monotone:
  assumes "0 \<le> s" "0 \<le> f" "0 < a" "0 < b" "0 < h"
    and "beta_trust s f a b d h = Inr t"
    and "beta_trust (s + 1) f a b d h = Inr t_success"
    and "beta_trust s (f + 1) a b d h = Inr t_failure"
  shows "bt_mean t_failure < bt_mean t \<and> bt_mean t < bt_mean t_success"
proof -
  define k where "k = trust_decay d h"
  define al where "al = a + s * k"
  define be where "be = b + f * k"
  have k: "0 < k" by (simp add: k_def)
  with assms(1-4) have pos: "0 < al" "0 < be" by (simp_all add: al_def be_def add_pos_nonneg less_imp_le)
  have "al / (al + (be + k)) < al / (al + be)" "al / (al + be) < (al + k) / (al + k + be)"
    using pos k by (simp_all add: field_simps)
  moreover have "bt_mean t = al / (al + be)"
    using beta_trust_mean [OF assms(1-5,6)] by (simp add: al_def be_def k_def)
  moreover have "bt_mean t_success = (al + k) / (al + k + be)"
    using beta_trust_mean [OF _ assms(2-5,7)] assms(1)
    by (simp add: al_def be_def k_def algebra_simps)
  moreover have "bt_mean t_failure = al / (al + (be + k))"
    using beta_trust_mean [OF assms(1) _ assms(3-5,8)] assms(2)
    by (simp add: al_def be_def k_def algebra_simps)
  ultimately show ?thesis by simp
qed

theorem beta_trust_monotone_witness:
  "\<exists>t ts tf. beta_trust 0 0 2 2 0 90 = Inr t \<and> beta_trust (0 + 1) 0 2 2 0 90 = Inr ts
    \<and> beta_trust 0 (0 + 1) 2 2 0 90 = Inr tf \<and> bt_mean tf < bt_mean t \<and> bt_mean t < bt_mean ts"
proof -
  have h: "0 \<le> (0::real)" "0 < (2::real)" "0 < (90::real)" "0 \<le> (0 + 1::real)" by simp_all
  obtain t ts tf where "beta_trust 0 0 2 2 0 90 = Inr t" "beta_trust (0 + 1) 0 2 2 0 90 = Inr ts"
    "beta_trust 0 (0 + 1) 2 2 0 90 = Inr tf"
    using beta_trust_eq(1) [OF h(1,1,2,2,3)] beta_trust_eq(1) [OF h(4,1,2,2,3)]
      beta_trust_eq(1) [OF h(1,4,2,2,3)] by blast
  then show ?thesis using beta_trust_monotone [OF h(1,1,2,2,3)] by blast
qed

text \<open>The label of an event: what a reader did, and how sure the code is of it.\<close>

lemma label_event_unseen_skip: "ev_skipped e \<Longrightarrow> \<not> ev_viewed e \<Longrightarrow> label_event e = None"
  by (simp add: label_event_def)

lemma label_event_rating_up:
  "\<not> (ev_skipped e \<and> \<not> ev_viewed e) \<Longrightarrow> ev_rating e = Some r \<Longrightarrow> 0 < r
    \<Longrightarrow> label_event e = Some (1, 1)"
  by (simp add: label_event_def)

lemma label_event_rating_down:
  "\<not> (ev_skipped e \<and> \<not> ev_viewed e) \<Longrightarrow> ev_rating e = Some r \<Longrightarrow> r < 0
    \<Longrightarrow> label_event e = Some (0, 1)"
  by (simp add: label_event_def)

text \<open>every label lies in the unit interval and every confidence in [0.3, 1.2],
  whichever branch decides it; and reading further never lowers the label of an otherwise
  unmarked read.\<close>

theorem label_event_sound:
  "(\<forall>y c. label_event_with_reason e = Some (y, c) \<longrightarrow> 0 \<le> y \<and> y \<le> 1 \<and> 0.3 \<le> c \<and> c \<le> 1.2)
   \<and> (\<forall>a b ya ca yb cb. a \<le> b
        \<longrightarrow> label_event (no_event\<lparr>ev_completion := Some a\<rparr>) = Some (ya, ca)
        \<longrightarrow> label_event (no_event\<lparr>ev_completion := Some b\<rparr>) = Some (yb, cb) \<longrightarrow> ya \<le> yb)"
proof (intro conjI allI impI)
  fix a b ya ca yb cb :: real
  assume "a \<le> b" "label_event (no_event\<lparr>ev_completion := Some a\<rparr>) = Some (ya, ca)"
    "label_event (no_event\<lparr>ev_completion := Some b\<rparr>) = Some (yb, cb)"
  then show "ya \<le> yb"
    by (auto simp: label_event_def no_event_def min_def split: if_splits)
qed (use label_event_with_reason_range in blast)+

theorem label_event_sound_witness:
  "label_event_with_reason (no_event\<lparr>ev_reason := Some ''clickbait''\<rparr>) = Some (0.20, 0.8)
   \<and> (0::real) \<le> 0.20
   \<and> label_event (no_event\<lparr>ev_completion := Some 0.3\<rparr>) = Some (0.45, 0.6)
   \<and> label_event (no_event\<lparr>ev_completion := Some 0.7\<rparr>) = Some (0.7 + 0.3 * 0.7, 0.8)
   \<and> (0.45::real) \<le> 0.7 + 0.3 * 0.7"
proof -
  have c: "label_event_with_reason (no_event\<lparr>ev_reason := Some ''clickbait''\<rparr>) = Some (0.20, 0.8)"
    by (simp add: label_event_with_reason_def reason_effect_def REASON_EFFECTS_def no_event_def)
  have a: "label_event (no_event\<lparr>ev_completion := Some 0.3\<rparr>) = Some (0.45, 0.6)"
    and b: "label_event (no_event\<lparr>ev_completion := Some 0.7\<rparr>) = Some (0.7 + 0.3 * 0.7, 0.8)"
    by (simp_all add: label_event_def no_event_def)
  have "(0::real) \<le> 0.20"
    using label_event_sound [of "no_event\<lparr>ev_reason := Some ''clickbait''\<rparr>"] c by blast
  moreover have "(0.3::real) \<le> 0.7" by simp
  then have "(0.45::real) \<le> 0.7 + 0.3 * 0.7"
    using label_event_sound [of no_event] a b by blast
  ultimately show ?thesis using a b c by blast
qed

lemma hour_counts_aux:
  assumes "length cs = 24"
  defines "step \<equiv> \<lambda>counts hour. if 0 \<le> hour \<and> hour \<le> (23::int)
              then counts[nat hour := counts ! nat hour + (1::nat)] else counts"
  shows "length (foldl step cs hs) = 24 \<and>
    (\<forall>h < 24. foldl step cs hs ! h = cs ! h + count_list hs (int h))"
  using assms(1)
proof (induction hs arbitrary: cs)
  case Nil
  then show ?case by simp
next
  case (Cons x hs)
  have len: "length (step cs x) = 24" using Cons.prems by (simp add: step_def)
  have "step cs x ! h = cs ! h + (if x = int h then 1 else 0)" if "h < 24" for h
    using Cons.prems that by (auto simp: step_def nth_list_update)
  with Cons.IH [OF len] show ?case by auto
qed

lemma hour_counts_length [simp]: "length (hour_counts hs) = 24"
  using hour_counts_aux [of "replicate 24 0" hs] by (simp add: hour_counts_def)

lemma hour_counts_nth: "h < 24 \<Longrightarrow> hour_counts hs ! h = count_list hs (int h)"
  using hour_counts_aux [of "replicate 24 0" hs] by (simp add: hour_counts_def)

lemma sum_list_divide: "sum_list (map (\<lambda>x. real x / t) xs) = real (sum_list xs) / t"
  by (induction xs) (simp_all add: add_divide_distrib)

lemma hour_histogram_sum:
  assumes "hour_counts hs ! h \<noteq> 0" "h < 24"
  shows "sum_list (hour_histogram hs) = 1"
proof -
  have "hour_counts hs ! h \<in> set (hour_counts hs)" using assms(2) by simp
  then have "hour_counts hs ! h \<le> sum_list (hour_counts hs)" by (rule member_le_sum_list) simp
  with assms(1) have "0 < sum_list (hour_counts hs)" by simp
  then show ?thesis
    by (simp add: hour_histogram_def Let_def sum_list_divide del: sum_list_eq_0_iff)
qed

lemma first_max_upper:
  "key best \<le> key (first_max key best xs) \<and> (\<forall>x \<in> set xs. key x \<le> key (first_max key best xs))"
proof (induction xs arbitrary: best)
  case Nil
  then show ?case by simp
next
  case (Cons x xs)
  show ?case using Cons.IH [of "if key best < key x then x else best"] by auto
qed

lemma first_max_mem: "first_max key best xs \<in> insert best (set xs)"
proof (induction xs arbitrary: best)
  case Nil
  then show ?case by simp
next
  case (Cons x xs)
  show ?case using Cons.IH [of "if key best < key x then x else best"] by auto
qed

text \<open>\<open>preferred_hour\<close> is an hour of the day at which the reader opened most often.\<close>

theorem preferred_hour_mode:
  assumes "open_hours \<noteq> []" and "h < 24"
  shows "preferred_hour open_hours d < 24 \<and>
    count_list open_hours (int h) \<le> count_list open_hours (int (preferred_hour open_hours d))"
proof -
  let ?hist = "hour_histogram open_hours"
  let ?p = "preferred_hour open_hours d"
  let ?t = "real (if sum_list (hour_counts open_hours) = 0 then 1 else sum_list (hour_counts open_hours))"
  have p: "?p = first_max (\<lambda>hour. ?hist ! hour) 0 [1..<24]"
    using assms(1) by (simp add: preferred_hour_def)
  have p24: "?p < 24" using first_max_mem [of "\<lambda>hour. ?hist ! hour" 0 "[1..<24]"] p by auto
  have "?hist ! h \<le> ?hist ! ?p"
    using first_max_upper [of "\<lambda>hour. ?hist ! hour" 0 "[1..<24]"] assms(2) p
    by (cases "h = 0") auto
  moreover have "?hist ! k = real (count_list open_hours (int k)) / ?t" if "k < 24" for k
    using that by (simp add: hour_histogram_def Let_def hour_counts_nth)
  moreover have "0 < ?t" by (cases "sum_list (hour_counts open_hours) = 0") (simp_all del: sum_list_eq_0_iff)
  ultimately show ?thesis using assms(2) p24 by (simp add: divide_le_cancel del: sum_list_eq_0_iff)
qed

theorem preferred_hour_mode_witness:
  "preferred_hour [7, 22, 22] 7 < 24 \<and>
    count_list [7, 22, 22] (int 7) \<le> count_list [7, 22, 22] (int (preferred_hour [7, 22, 22] 7))"
  by (rule preferred_hour_mode) simp_all

end
