(* ===== verification/Learning.thy ===== *)
theory Learning
  imports Contract
begin

text \<open>
  Weight learning and exploration: \<open>services/ranking/learning.py\<close>. Weight vectors have one
  entry per signal, in the order of \<open>SIGNALS\<close>. The draws of the random generator are a stream
  \<open>nat \<Rightarrow> real\<close>, one value per call of \<open>rng.random()\<close>.
\<close>

subsection \<open>Projection onto the simplex\<close>

definition FLOOR :: real where
  "FLOOR = 0.02"

definition MIN_PAIRS :: int where
  "MIN_PAIRS = 30"

definition EPS :: real where
  "EPS = 1 / 10 ^ 12"

definition finite_part :: "pyfloat \<Rightarrow> real" where
  "finite_part v = (case v of Fin x \<Rightarrow> max 0 x | _ \<Rightarrow> 0)"

definition is_low :: "real \<Rightarrow> real \<Rightarrow> bool" where
  "is_low fl x \<longleftrightarrow> x < fl - EPS"

text \<open>One pass: weights below the floor are raised to it, the others pay proportionally.\<close>

definition floor_pass :: "real \<Rightarrow> vec \<Rightarrow> vec" where
  "floor_pass fl projected =
     (let deficit = sum_list (map (\<lambda>x. fl - x) (filter (is_low fl) projected));
          high = sum_list (filter (\<lambda>x. \<not> is_low fl x) projected)
      in map (\<lambda>x. if is_low fl x then fl else x - deficit * x / high) projected)"

fun floor_loop :: "nat \<Rightarrow> real \<Rightarrow> vec \<Rightarrow> vec" where
  "floor_loop 0 fl projected = projected"
| "floor_loop (Suc k) fl projected =
     (if list_ex (is_low fl) projected
      then floor_loop k fl (floor_pass fl projected)
      else projected)"

definition normalized :: "pyfloat list \<Rightarrow> vec" where
  "normalized weights =
     (let cleaned = map finite_part weights; total = sum_list cleaned
      in if 0 < total then map (\<lambda>x. x / total) cleaned
         else replicate (length weights) (1 / real (length weights)))"

definition project_simplex :: "pyfloat list \<Rightarrow> real \<Rightarrow> py_error + vec" where
  "project_simplex weights fl0 =
     (if weights = [] then Inl ZeroDivisionError
      else let count = length weights;
               fl = min fl0 (1 / real count);
               projected = floor_loop count fl (normalized weights)
           in Inr (map (\<lambda>x. x / sum_list projected) projected))"

text \<open>A probability distribution over the entries of a vector.\<close>

definition distribution :: "vec \<Rightarrow> bool" where
  "distribution w \<longleftrightarrow> sum_list w = 1 \<and> (\<forall>x \<in> set w. 0 \<le> x)"

lemma finite_part_nonneg [simp]: "0 \<le> finite_part v"
  by (simp add: finite_part_def split: pyfloat.splits)

lemma length_normalized [simp]: "length (normalized ws) = length ws"
  by (simp add: normalized_def Let_def)

lemma sum_list_div: "sum_list (map (\<lambda>x. x / t) xs) = sum_list xs / (t :: real)"
  by (induction xs) (simp_all add: add_divide_distrib)

lemma normalized_distribution: "ws \<noteq> [] \<Longrightarrow> distribution (normalized ws)"
  by (auto simp: distribution_def normalized_def Let_def sum_list_div sum_list_replicate
      divide_nonneg_pos simp del: map_map)

lemma floor_pass_length [simp]: "length (floor_pass f p) = length p"
  by (simp add: floor_pass_def Let_def)

lemma floor_loop_length [simp]: "length (floor_loop k f p) = length p"
  by (induction k arbitrary: p) auto

text \<open>
  The accuracy of a vector: every entry is at least \<open>f - e\<close>. One pass shrinks the error by the
  factor \<open>f m / (1 - f m)\<close>, where \<open>m\<close> is one less than the number of entries.
\<close>

definition near_floor :: "real \<Rightarrow> real \<Rightarrow> vec \<Rightarrow> bool" where
  "near_floor f e p \<longleftrightarrow> (\<forall>x \<in> set p. f - e \<le> x)"

lemma distribution_not_all_low:
  assumes "distribution p" "0 < length p" "f \<le> 1 / real (length p)"
  shows "\<exists>x \<in> set p. \<not> is_low f x"
proof (rule ccontr)
  assume "\<not> (\<exists>x \<in> set p. \<not> is_low f x)"
  then have "\<And>x. x \<in> set p \<Longrightarrow> x \<le> f - EPS" by (auto simp: is_low_def)
  then have "sum_list (map (\<lambda>x. x) p) \<le> real (length p) * (f - EPS)" by (rule sum_list_upper)
  also have "\<dots> < real (length p) * f" using assms(2) by (simp add: EPS_def)
  also have "\<dots> \<le> 1" using assms(2,3) by (simp add: field_simps)
  finally show False using assms(1) by (simp add: distribution_def)
qed

lemma filter_length_less:
  "x \<in> set p \<Longrightarrow> \<not> P x \<Longrightarrow> length (filter P p) \<le> length p - 1"
  using length_filter_less [of x p P] by simp

text \<open>What a pass asks of its input, and what it keeps.\<close>

definition pass_ok :: "real \<Rightarrow> vec \<Rightarrow> bool" where
  "pass_ok f p \<longleftrightarrow> distribution p \<and> 0 < length p \<and> 0 \<le> f \<and> f \<le> 1 / real (length p)"

lemma pass_okD:
  assumes "pass_ok f p"
  shows "distribution p" "0 < length p" "0 \<le> f" "f \<le> 1 / real (length p)"
  using assms by (simp_all add: pass_ok_def)

lemma low_sum_le: "sum_list (filter (is_low f) p) \<le> real (length (filter (is_low f) p)) * f"
  using sum_list_upper [of "filter (is_low f) p" "\<lambda>x. x" f] by (auto simp: is_low_def EPS_def)

lemma deficit_eq:
  "sum_list (map (\<lambda>x. f - x) (filter (is_low f) p))
    = real (length (filter (is_low f) p)) * f - sum_list (filter (is_low f) p)"
  by (induction p) (auto simp: algebra_simps)

lemma deficit_nonneg: "0 \<le> sum_list (map (\<lambda>x. f - x) (filter (is_low f) p))"
  by (intro sum_list_nonneg) (auto simp: is_low_def EPS_def)

lemma few_low:
  assumes "pass_ok f p"
  shows "length (filter (is_low f) p) \<le> length p - 1"
proof -
  obtain x where "x \<in> set p" "\<not> is_low f x"
    using distribution_not_all_low pass_okD [OF assms] by blast
  then show ?thesis by (rule filter_length_less)
qed

lemma lows_bound:
  assumes "pass_ok f p"
  shows "real (length (filter (is_low f) p)) * f \<le> real (length p - 1) * f"
  using few_low [OF assms] pass_okD(3) [OF assms] by (intro mult_right_mono) simp_all

lemma high_eq:
  assumes "pass_ok f p"
  shows "sum_list (filter (\<lambda>x. \<not> is_low f x) p) = 1 - sum_list (filter (is_low f) p)"
  using sum_list_filter_split [of p "is_low f"] pass_okD(1) [OF assms]
  by (simp add: distribution_def)

lemma room:
  assumes "pass_ok f p"
  shows "real (length p - 1) * f < 1"
proof -
  note ok = pass_okD [OF assms]
  have "real (length p - 1) * f \<le> real (length p - 1) * (1 / real (length p))"
    using ok(4) by (intro mult_left_mono) simp_all
  also have "\<dots> < 1" using ok(2) by simp
  finally show ?thesis .
qed

lemma high_lower:
  assumes "pass_ok f p"
  shows "1 - real (length p - 1) * f \<le> sum_list (filter (\<lambda>x. \<not> is_low f x) p)"
  using low_sum_le [of f p] lows_bound [OF assms] high_eq [OF assms] by simp

lemma high_pos:
  assumes "pass_ok f p"
  shows "0 < sum_list (filter (\<lambda>x. \<not> is_low f x) p)"
  using high_lower [OF assms] room [OF assms] by simp

lemma deficit_le_high:
  assumes "pass_ok f p"
  shows "sum_list (map (\<lambda>x. f - x) (filter (is_low f) p)) \<le> sum_list (filter (\<lambda>x. \<not> is_low f x) p)"
  using deficit_eq [of f p] lows_bound [OF assms] high_eq [OF assms] room [OF assms] by simp

lemma sum_list_proportional:
  "sum_list (map (\<lambda>x. x - c * x / t) xs) = sum_list xs - c * sum_list xs / (t :: real)"
  by (induction xs) (simp_all add: algebra_simps add_divide_distrib)

lemma pass_sum:
  assumes "pass_ok f p"
  shows "sum_list (floor_pass f p) = 1"
proof -
  let ?d = "sum_list (map (\<lambda>x. f - x) (filter (is_low f) p))"
  let ?h = "sum_list (filter (\<lambda>x. \<not> is_low f x) p)"
  have "sum_list (floor_pass f p)
      = sum_list (map (\<lambda>x. f) (filter (is_low f) p))
        + sum_list (map (\<lambda>x. x - ?d * x / ?h) (filter (\<lambda>x. \<not> is_low f x) p))"
    by (simp only: floor_pass_def Let_def sum_list_if_split)
  also have "\<dots> = real (length (filter (is_low f) p)) * f + (?h - ?d * ?h / ?h)"
    by (simp only: sum_list_proportional sum_list_triv)
  also have "\<dots> = 1" using high_pos [OF assms] high_eq [OF assms] deficit_eq [of f p] by simp
  finally show ?thesis .
qed

lemma pass_nonneg:
  assumes "pass_ok f p" and "x \<in> set (floor_pass f p)"
  shows "0 \<le> x"
proof -
  let ?d = "sum_list (map (\<lambda>x. f - x) (filter (is_low f) p))"
  let ?h = "sum_list (filter (\<lambda>x. \<not> is_low f x) p)"
  have "0 \<le> y - ?d * y / ?h" if "y \<in> set p" for y
  proof -
    have "0 \<le> y" using that pass_okD(1) [OF assms(1)] by (simp add: distribution_def)
    moreover have "?d / ?h \<le> 1" using high_pos [OF assms(1)] deficit_le_high [OF assms(1)] by simp
    ultimately have "y * (?d / ?h) \<le> y * 1" by (intro mult_left_mono)
    then show ?thesis by (simp add: mult.commute)
  qed
  then show ?thesis
    using assms(2) pass_okD(3) [OF assms(1)] by (auto simp: floor_pass_def Let_def)
qed

lemma pass_keeps_ok: "pass_ok f p \<Longrightarrow> pass_ok f (floor_pass f p)"
  using pass_sum [of f p] pass_nonneg [of f p] pass_okD(2-4) [of f p]
  unfolding pass_ok_def [of f "floor_pass f p"] distribution_def floor_pass_length by blast

definition pass_error :: "nat \<Rightarrow> real \<Rightarrow> real \<Rightarrow> real" where
  "pass_error n f e = EPS + f * (real (n - 1) * e / (1 - real (n - 1) * f))"

lemma pass_near:
  assumes ok: "pass_ok f p" and "near_floor f e p" "0 \<le> e"
  shows "near_floor f (pass_error (length p) f e) (floor_pass f p)"
proof -
  let ?d = "sum_list (map (\<lambda>x. f - x) (filter (is_low f) p))"
  let ?h = "sum_list (filter (\<lambda>x. \<not> is_low f x) p)"
  let ?m = "real (length p - 1)"
  let ?c = "f * (?m * e / (1 - ?m * f))"
  note room = room [OF ok] and f_pos = pass_okD(3) [OF ok]
  have "?d \<le> real (length (filter (is_low f) p)) * e"
    using assms(2) by (intro sum_list_upper) (auto simp: near_floor_def algebra_simps)
  also have "\<dots> \<le> ?m * e" using few_low [OF ok] assms(3) by (intro mult_right_mono) simp_all
  finally have "?d / ?h \<le> ?m * e / (1 - ?m * f)"
    using deficit_nonneg [of f p] high_lower [OF ok] room by (intro frac_le) simp_all
  then have dh: "f * (?d / ?h) \<le> ?c" using f_pos by (rule mult_left_mono)
  have ratio: "0 \<le> 1 - ?d / ?h" using high_pos [OF ok] deficit_le_high [OF ok] by simp
  have "f - (EPS + ?c) \<le> y - ?d * y / ?h" if "y \<in> set p" "\<not> is_low f y" for y
  proof -
    have "f - EPS \<le> y" using that(2) by (simp add: is_low_def)
    then have "(f - EPS) * (1 - ?d / ?h) \<le> y * (1 - ?d / ?h)" using ratio by (rule mult_right_mono)
    moreover have "0 \<le> EPS * (?d / ?h)"
      using deficit_nonneg [of f p] high_pos [OF ok] by (simp add: EPS_def)
    moreover have "(f - EPS) * (1 - ?d / ?h) = f - EPS - f * (?d / ?h) + EPS * (?d / ?h)"
      by (simp only: left_diff_distrib right_diff_distrib mult_1_right)
    moreover have "y * (1 - ?d / ?h) = y - ?d * y / ?h" by (simp add: right_diff_distrib mult.commute)
    ultimately have "f - EPS - f * (?d / ?h) \<le> y - ?d * y / ?h" by linarith
    with dh show ?thesis by linarith
  qed
  moreover have "0 \<le> ?c" using f_pos assms(3) room by simp
  then have "f - (EPS + ?c) \<le> f" by (simp add: EPS_def)
  ultimately show ?thesis by (auto simp: near_floor_def floor_pass_def Let_def pass_error_def)
qed

lemma pass_ok_loop: "pass_ok f p \<Longrightarrow> pass_ok f (floor_loop k f p)"
  by (induction k arbitrary: p) (auto intro: pass_keeps_ok)

fun loop_error :: "nat \<Rightarrow> nat \<Rightarrow> real \<Rightarrow> real \<Rightarrow> real" where
  "loop_error 0 n f e = e"
| "loop_error (Suc k) n f e = max EPS (loop_error k n f (pass_error n f e))"

lemma near_floor_mono: "near_floor f e p \<Longrightarrow> e \<le> e' \<Longrightarrow> near_floor f e' p"
  by (force simp: near_floor_def)

lemma pass_error_nonneg: "pass_ok f p \<Longrightarrow> 0 \<le> e \<Longrightarrow> 0 \<le> pass_error (length p) f e"
  using room [of f p] pass_okD(3) [of f p] by (simp add: pass_error_def EPS_def)

lemma loop_near:
  "pass_ok f p \<Longrightarrow> near_floor f e p \<Longrightarrow> 0 \<le> e
    \<Longrightarrow> near_floor f (loop_error k (length p) f e) (floor_loop k f p)"
proof (induction k arbitrary: p e)
  case 0
  then show ?case by simp
next
  case (Suc k)
  show ?case
  proof (cases "list_ex (is_low f) p")
    case True
    have "near_floor f (loop_error k (length p) f (pass_error (length p) f e))
        (floor_loop k f (floor_pass f p))"
      using Suc.IH [OF pass_keeps_ok pass_near] Suc.prems pass_error_nonneg by simp
    with True show ?thesis by (auto intro: near_floor_mono)
  next
    case False
    then have "near_floor f EPS p" by (auto simp: list_ex_iff near_floor_def is_low_def not_less)
    with False show ?thesis by (auto intro: near_floor_mono)
  qed
qed

lemma project_simplex_eq:
  assumes "ws \<noteq> []" "0 \<le> fl"
  shows "project_simplex ws fl =
      Inr (floor_loop (length ws) (min fl (1 / real (length ws))) (normalized ws))"
    and "pass_ok (min fl (1 / real (length ws)))
      (floor_loop (length ws) (min fl (1 / real (length ws))) (normalized ws))"
proof -
  let ?f = "min fl (1 / real (length ws))"
  have "pass_ok ?f (normalized ws)"
    using assms normalized_distribution [OF assms(1)] by (simp add: pass_ok_def)
  then show ok: "pass_ok ?f (floor_loop (length ws) ?f (normalized ws))" by (rule pass_ok_loop)
  then have "sum_list (floor_loop (length ws) ?f (normalized ws)) = 1"
    by (simp add: pass_ok_def distribution_def)
  then show "project_simplex ws fl = Inr (floor_loop (length ws) ?f (normalized ws))"
    using assms(1) by (simp add: project_simplex_def Let_def)
qed

text \<open>The accuracy that the passes reach for the eight signals: a sixth of the error per pass.\<close>

lemma pass_error_8: "0 \<le> e \<Longrightarrow> pass_error 8 FLOOR e \<le> EPS + e / 6"
  by (simp add: pass_error_def FLOOR_def)

lemma pass_error_mono_8: "e \<le> e' \<Longrightarrow> pass_error 8 FLOOR e \<le> pass_error 8 FLOOR e'"
  by (simp add: pass_error_def FLOOR_def)

lemma loop_error_8:
  "EPS \<le> e \<Longrightarrow> loop_error k 8 FLOOR e \<le> 6 / 5 * EPS + (e - 6 / 5 * EPS) / 6 ^ k"
proof (induction k arbitrary: e)
  case 0
  then show ?case by simp
next
  case (Suc k)
  have e: "0 \<le> e" using Suc.prems by (simp add: EPS_def)
  let ?e = "pass_error 8 FLOOR e"
  have le: "EPS \<le> ?e" and up: "?e \<le> EPS + e / 6"
    using e pass_error_8 [OF e] by (simp_all add: pass_error_def FLOOR_def)
  have "loop_error k 8 FLOOR ?e \<le> 6 / 5 * EPS + (?e - 6 / 5 * EPS) / 6 ^ k"
    by (rule Suc.IH [OF le])
  also have "\<dots> \<le> 6 / 5 * EPS + ((e - 6 / 5 * EPS) / 6) / 6 ^ k"
    using up by (intro add_left_mono divide_right_mono) simp_all
  finally have main: "loop_error k 8 FLOOR ?e \<le> 6 / 5 * EPS + (e - 6 / 5 * EPS) / 6 ^ Suc k"
    by simp
  have "- (1 / 5 * EPS) \<le> (e - 6 / 5 * EPS) / 6 ^ Suc k"
  proof (cases "0 \<le> e - 6 / 5 * EPS")
    case True
    then have "0 \<le> (e - 6 / 5 * EPS) / 6 ^ Suc k" by simp
    then show ?thesis by (simp add: EPS_def)
  next
    case False
    moreover have "1 / 6 ^ Suc k \<le> (1 :: real)"
      using power_le_one [of "1 / 6 :: real" "Suc k"] by (simp only: power_one_over)
    ultimately have "(e - 6 / 5 * EPS) * 1 \<le> (e - 6 / 5 * EPS) * (1 / 6 ^ Suc k)"
      by (intro mult_left_mono_neg) simp_all
    then show ?thesis using Suc.prems by simp
  qed
  with main show ?case by simp
qed

lemma project_simplex_shape:
  assumes "ws \<noteq> []" "0 \<le> fl"
  shows "\<exists>w. project_simplex ws fl = Inr w \<and> length w = length ws \<and> distribution w
    \<and> (length ws = 8 \<and> fl = FLOOR \<longrightarrow> (\<forall>x \<in> set w. FLOOR - 2 / 10 ^ 8 \<le> x))"
proof -
  let ?f = "min fl (1 / real (length ws))"
  let ?w = "floor_loop (length ws) ?f (normalized ws)"
  note eq = project_simplex_eq [OF assms]
  have "FLOOR - 2 / 10 ^ 8 \<le> x" if "length ws = 8" "fl = FLOOR" "x \<in> set ?w" for x
  proof -
    have f: "?f = FLOOR" using that by (simp add: FLOOR_def)
    have "pass_ok FLOOR (normalized ws)"
      using that normalized_distribution [OF assms(1)] by (simp add: pass_ok_def FLOOR_def)
    moreover from this have "near_floor FLOOR FLOOR (normalized ws)"
      by (simp add: pass_ok_def distribution_def near_floor_def)
    moreover have "0 \<le> FLOOR" by (simp add: FLOOR_def)
    ultimately have "near_floor FLOOR (loop_error 8 (length (normalized ws)) FLOOR FLOOR)
        (floor_loop 8 FLOOR (normalized ws))"
      by (rule loop_near)
    then have "near_floor FLOOR (loop_error 8 8 FLOOR FLOOR) ?w"
      using that(1) f by simp
    moreover have "loop_error 8 8 FLOOR FLOOR \<le> 2 / 10 ^ 8"
      using loop_error_8 [of FLOOR 8] by (simp add: EPS_def FLOOR_def)
    ultimately show ?thesis using that(3) by (force simp: near_floor_def)
  qed
  with eq show ?thesis by (auto simp: pass_ok_def)
qed

text \<open>
  the projected weights are a probability distribution, whatever the input (an empty array
  is the one error). For the eight signals every weight is within 2e-8 of the floor or above
  it: the passes are as many as the weights, and each divides the remaining error by six.
\<close>

theorem project_simplex_distribution:
  assumes "ws \<noteq> []" "0 \<le> fl"
  shows "\<exists>w. project_simplex ws fl = Inr w \<and> length w = length ws \<and> distribution w
    \<and> (length ws = 8 \<and> fl = FLOOR \<longrightarrow> (\<forall>x \<in> set w. FLOOR - 2 / 10 ^ 8 \<le> x))"
  using assms by (rule project_simplex_shape)

theorem project_simplex_distribution_witness:
  "\<exists>w. project_simplex [Fin 1, NaN, Fin (-3), PosInf, Fin 0, Fin 0, Fin 0, Fin 0] FLOOR = Inr w
    \<and> length w = length [Fin 1, NaN, Fin (-3), PosInf, Fin 0, Fin 0, Fin 0, Fin 0]
    \<and> distribution w
    \<and> (length [Fin 1, NaN, Fin (-3), PosInf, Fin 0, Fin 0, Fin 0, Fin 0] = 8 \<and> FLOOR = FLOOR
        \<longrightarrow> (\<forall>x \<in> set w. FLOOR - 2 / 10 ^ 8 \<le> x))"
  by (rule project_simplex_distribution) (simp_all add: FLOOR_def)

text \<open>A vector that already satisfies the constraints.\<close>

definition on_simplex :: "real \<Rightarrow> vec \<Rightarrow> bool" where
  "on_simplex f w \<longleftrightarrow> w \<noteq> [] \<and> distribution w \<and> (\<forall>x \<in> set w. f - EPS \<le> x)"

lemma floor_loop_fix: "\<not> list_ex (is_low f) p \<Longrightarrow> floor_loop k f p = p"
  by (cases k) simp_all

lemma map_finite_part: "\<forall>x \<in> set w. 0 \<le> x \<Longrightarrow> map (finite_part \<circ> Fin) w = w"
  by (induction w) (simp_all add: finite_part_def)

lemma project_simplex_fix:
  assumes "on_simplex (min fl (1 / real (length w))) w"
  shows "project_simplex (map Fin w) fl = Inr w"
proof -
  let ?f = "min fl (1 / real (length w))"
  have w: "w \<noteq> []" "sum_list w = 1" "\<forall>x \<in> set w. 0 \<le> x" "\<not> list_ex (is_low ?f) w"
    using assms by (auto simp: on_simplex_def distribution_def list_ex_iff is_low_def not_less)
  then have "normalized (map Fin w) = w"
    using map_finite_part [of w] by (simp add: normalized_def Let_def)
  then have "floor_loop (length (map Fin w)) ?f (normalized (map Fin w)) = w"
    using floor_loop_fix [OF w(4)] by simp
  with w(1,2) show ?thesis by (simp add: project_simplex_def Let_def)
qed

text \<open>\<open>project_simplex\<close> is idempotent: weights that already satisfy the constraints come
  back unchanged.\<close>

theorem project_simplex_idempotent:
  assumes "on_simplex (min fl (1 / real (length w))) w"
  shows "project_simplex (map Fin w) fl = Inr w"
  using assms by (rule project_simplex_fix)

theorem project_simplex_idempotent_witness:
  "project_simplex (map Fin [0.25, 0.15, 0.2, 0.15, 0.1, 0.05, 0.07, 0.03]) FLOOR
    = Inr [0.25, 0.15, 0.2, 0.15, 0.1, 0.05, 0.07, 0.03]"
  by (rule project_simplex_idempotent)
    (simp add: on_simplex_def distribution_def EPS_def FLOOR_def)

subsection \<open>The pairwise update\<close>

record weight_state =
  ws_weights :: vec
  ws_version :: string
  ws_updates :: int
  ws_pairs_seen :: int

definition RANKER_VERSION :: string where
  "RANKER_VERSION = ''2''"

definition prior_weights :: "py_error + vec" where
  "prior_weights = project_simplex (replicate (length SIGNALS) (Fin (1 / real (length SIGNALS)))) FLOOR"

definition sigmoid :: "real \<Rightarrow> real" where
  "sigmoid value = (if 30 < value then 1 else if value < - 30 then 0 else 1 / (1 + exp (- value)))"

text \<open>The gradient of one pair, and the weights before the projection.\<close>

definition pair_gradient :: "vec \<Rightarrow> vec \<Rightarrow> vec \<Rightarrow> real \<Rightarrow> vec" where
  "pair_gradient weights difference prior l2 =
     (let prediction = sigmoid (vdot weights difference)
      in vadd (vscale (prediction - 1) difference) (vscale l2 (vsub weights prior)))"

definition moved_weights :: "weight_state \<Rightarrow> vec \<Rightarrow> real \<Rightarrow> real \<Rightarrow> vec \<Rightarrow> vec" where
  "moved_weights state difference lr l2 prior =
     (let gradient = pair_gradient (ws_weights state) difference prior l2;
          step = lr / sqrt (of_int (ws_updates state + 1))
      in vsub (ws_weights state) (vscale step gradient))"

text \<open>
  \<open>prior = None\<close> is the uniform prior. All vectors have the length of \<open>SIGNALS\<close>, so numpy
  never broadcasts.
\<close>

definition update_weights ::
  "weight_state \<Rightarrow> vec \<Rightarrow> vec \<Rightarrow> real \<Rightarrow> real \<Rightarrow> vec option \<Rightarrow> py_error + weight_state" where
  "update_weights state positive negative lr l2 prior0 =
     (case (case prior0 of None \<Rightarrow> prior_weights | Some p \<Rightarrow> Inr p) of
        Inl e \<Rightarrow> Inl e
      | Inr prior \<Rightarrow>
          let seen = ws_pairs_seen state + 1
          in if seen < MIN_PAIRS then
               (case project_simplex (map Fin prior) FLOOR of
                  Inl e \<Rightarrow> Inl e
                | Inr w \<Rightarrow> Inr (state\<lparr>ws_weights := w, ws_pairs_seen := seen\<rparr>))
             else
               let difference = vsub positive negative
               in (case project_simplex (map Fin (moved_weights state difference lr l2 prior)) FLOOR of
                     Inl e \<Rightarrow> Inl e
                   | Inr w \<Rightarrow> Inr (state\<lparr>ws_weights := w, ws_updates := ws_updates state + 1,
                                         ws_pairs_seen := seen\<rparr>)))"

lemma logistic_bounds: "1 / (1 + exp (v :: real)) \<le> 1" "0 \<le> 1 / (1 + exp (v :: real))"
proof -
  have "0 < 1 + exp v" by (simp add: add_pos_pos)
  then show "1 / (1 + exp v) \<le> 1" "0 \<le> 1 / (1 + exp v)" by (simp_all add: divide_le_eq_1)
qed

lemma logistic_mono: "u \<le> v \<Longrightarrow> 1 / (1 + exp (- u)) \<le> 1 / (1 + exp (- v :: real))"
  by (intro frac_le) (simp_all add: add_pos_pos)

lemma sigmoid_bounds [simp, unit_bounds]: "0 \<le> sigmoid v" "sigmoid v \<le> 1"
  by (simp_all add: sigmoid_def logistic_bounds)

lemma sigmoid_mono: "u \<le> v \<Longrightarrow> sigmoid u \<le> sigmoid v"
  by (auto simp: sigmoid_def logistic_bounds logistic_mono)

lemma length_moved [simp]:
  "length difference = 8 \<Longrightarrow> length prior = 8 \<Longrightarrow> length (ws_weights st) = 8
    \<Longrightarrow> length (moved_weights st difference lr l2 prior) = 8"
  by (simp add: moved_weights_def pair_gradient_def Let_def)

text \<open>The states learning moves between, and the pairs it learns from.\<close>

definition weight_state_ok :: "weight_state \<Rightarrow> bool" where
  "weight_state_ok st \<longleftrightarrow> length (ws_weights st) = 8 \<and> distribution (ws_weights st)
     \<and> (\<forall>x \<in> set (ws_weights st). FLOOR - 2 / 10 ^ 8 \<le> x)
     \<and> 0 \<le> ws_updates st \<and> ws_updates st \<le> ws_pairs_seen st"

lemma project_8:
  assumes "length w = 8"
  obtains w' where "project_simplex (map Fin w) FLOOR = Inr w'" "length w' = 8" "distribution w'"
    "\<forall>x \<in> set w'. FLOOR - 2 / 10 ^ 8 \<le> x"
proof -
  have "map Fin w \<noteq> []" "0 \<le> FLOOR" using assms by (auto simp: FLOOR_def)
  then obtain w' where "project_simplex (map Fin w) FLOOR = Inr w'" "length w' = length (map Fin w)"
    "distribution w'" "length (map Fin w) = 8 \<and> FLOOR = FLOOR \<longrightarrow> (\<forall>x \<in> set w'. FLOOR - 2 / 10 ^ 8 \<le> x)"
    using project_simplex_shape by metis
  with assms that show ?thesis by simp
qed

text \<open>The four numbers of one pair: preferred features, other features, learning rate, l2.\<close>

type_synonym pair_step = "vec \<times> vec \<times> real \<times> real"

definition learn_step :: "vec option \<Rightarrow> weight_state \<Rightarrow> pair_step \<Rightarrow> py_error + weight_state" where
  "learn_step prior st p = (case p of (pos, neg, lr, l2) \<Rightarrow> update_weights st pos neg lr l2 prior)"

definition pair_ok :: "pair_step \<Rightarrow> bool" where
  "pair_ok p \<longleftrightarrow> (case p of (pos, neg, lr, l2) \<Rightarrow> length pos = 8 \<and> length neg = 8)"

lemma update_weights_total:
  assumes "weight_state_ok st" "length pos = 8" "length neg = 8" "length prior = 8"
  shows "\<exists>st'. update_weights st pos neg lr l2 (Some prior) = Inr st' \<and> weight_state_ok st'
    \<and> ws_pairs_seen st' = ws_pairs_seen st + 1
    \<and> ws_updates st' = ws_updates st + (if ws_pairs_seen st + 1 < MIN_PAIRS then 0 else 1)"
proof (cases "ws_pairs_seen st + 1 < MIN_PAIRS")
  case True
  obtain w where "project_simplex (map Fin prior) FLOOR = Inr w" "length w = 8" "distribution w"
    "\<forall>x \<in> set w. FLOOR - 2 / 10 ^ 8 \<le> x"
    using project_8 [OF assms(4)] .
  with True assms(1) show ?thesis by (auto simp: update_weights_def Let_def weight_state_ok_def)
next
  case False
  have "length (moved_weights st (vsub pos neg) lr l2 prior) = 8"
    using assms by (simp add: weight_state_ok_def)
  then obtain w where
    "project_simplex (map Fin (moved_weights st (vsub pos neg) lr l2 prior)) FLOOR = Inr w"
    "length w = 8" "distribution w" "\<forall>x \<in> set w. FLOOR - 2 / 10 ^ 8 \<le> x"
    using project_8 by blast
  with False assms(1) show ?thesis by (auto simp: update_weights_def Let_def weight_state_ok_def)
qed

lemma prior_weights_eq: "prior_weights = Inr (replicate 8 (1 / 8))"
proof -
  have "project_simplex (map Fin (replicate 8 (1 / 8))) FLOOR = Inr (replicate 8 (1 / 8))"
    by (rule project_simplex_fix) (simp add: on_simplex_def distribution_def FLOOR_def EPS_def
        sum_list_replicate)
  then show ?thesis by (simp add: prior_weights_def)
qed

lemma update_weights_default:
  "update_weights st pos neg lr l2 None = update_weights st pos neg lr l2 (Some (replicate 8 (1 / 8)))"
  by (simp add: update_weights_def prior_weights_eq)

text \<open>The learner with its default prior is a total machine on the states of \<open>weight_state_ok\<close>.\<close>

interpretation uniform_learner: total_fallible "learn_step None" weight_state_ok pair_ok
proof unfold_locales
  fix st p
  assume "weight_state_ok st" "pair_ok p"
  then show "\<exists>st'. learn_step None st p = Inr st' \<and> weight_state_ok st'"
    using update_weights_total [of st _ _ "replicate 8 (1 / 8)"]
    by (fastforce simp: learn_step_def pair_ok_def update_weights_default split: prod.splits)
qed

text \<open>
  C34: any run of learning steps from a sound weight state succeeds and ends in a sound state:
  eight weights that form a distribution, none silenced, and a counter of updates that never
  passes the number of pairs seen.
\<close>

theorem learning_run_total:
  assumes "weight_state_ok st" "list_all pair_ok pairs"
  shows "\<exists>st'. run_fallible (learn_step None) st pairs = Inr st' \<and> weight_state_ok st'"
  using assms by (rule uniform_learner.run_total)

definition initial_state :: weight_state where
  "initial_state = \<lparr>ws_weights = replicate 8 (1 / 8), ws_version = RANKER_VERSION,
     ws_updates = 0, ws_pairs_seen = 0\<rparr>"

lemma initial_state_ok: "weight_state_ok initial_state"
  by (simp add: weight_state_ok_def initial_state_def distribution_def FLOOR_def sum_list_replicate)

theorem learning_run_total_witness:
  "\<exists>st'. run_fallible (learn_step None) initial_state
     [([1, 0, 0, 0, 0, 0, 0, 0], [0, 1, 0, 0, 0, 0, 0, 0], 0.05, 0.1)] = Inr st' \<and> weight_state_ok st'"
  by (rule learning_run_total [OF initial_state_ok]) (simp add: pair_ok_def)

text \<open>until \<open>MIN_PAIRS\<close> pairs have been seen the weights stay at the prior, whatever the
  pair says; the pair is counted and no update is.\<close>

theorem update_weights_below_min_pairs:
  assumes "ws_pairs_seen st + 1 < MIN_PAIRS" "on_simplex (min FLOOR (1 / real (length prior))) prior"
  shows "update_weights st pos neg lr l2 (Some prior) =
    Inr (st\<lparr>ws_weights := prior, ws_pairs_seen := ws_pairs_seen st + 1\<rparr>)"
  using assms project_simplex_fix [OF assms(2)] by (simp add: update_weights_def Let_def)

theorem update_weights_below_min_pairs_witness:
  "update_weights initial_state [1, 0, 0, 0, 0, 0, 0, 0] [0, 1, 0, 0, 0, 0, 0, 0] 0.05 0.1
     (Some [0.25, 0.15, 0.2, 0.15, 0.1, 0.05, 0.07, 0.03]) =
   Inr (initial_state\<lparr>ws_weights := [0.25, 0.15, 0.2, 0.15, 0.1, 0.05, 0.07, 0.03],
          ws_pairs_seen := ws_pairs_seen initial_state + 1\<rparr>)"
  by (rule update_weights_below_min_pairs)
    (simp_all add: initial_state_def MIN_PAIRS_def on_simplex_def distribution_def EPS_def FLOOR_def)

text \<open>
  a learning step moves the score difference of its pair by exactly the logistic gain minus
  the pull of the regulariser towards the prior; without regularisation it therefore never
  moves the pair the wrong way.
\<close>

theorem moved_weights_margin:
  fixes lr l2 :: real
  assumes "length (ws_weights st) = length d" "length prior = length d"
  defines "step \<equiv> lr / sqrt (of_int (ws_updates st + 1))"
  shows "vdot (moved_weights st d lr l2 prior) d =
    vdot (ws_weights st) d
      + step * ((1 - sigmoid (vdot (ws_weights st) d)) * vdot d d
                - l2 * (vdot (ws_weights st) d - vdot prior d))
    \<and> (0 \<le> lr \<and> l2 = 0 \<and> 0 \<le> ws_updates st
        \<longrightarrow> vdot (ws_weights st) d \<le> vdot (moved_weights st d lr l2 prior) d)"
proof -
  have eq: "vdot (moved_weights st d lr l2 prior) d =
    vdot (ws_weights st) d
      + step * ((1 - sigmoid (vdot (ws_weights st) d)) * vdot d d
                - l2 * (vdot (ws_weights st) d - vdot prior d))"
    using assms(1,2)
    by (simp add: moved_weights_def pair_gradient_def Let_def vdot_sub_left vdot_add_left
        vdot_scale_left step_def algebra_simps)
  have "vdot (ws_weights st) d \<le> vdot (moved_weights st d lr l2 prior) d"
    if "0 \<le> lr" "l2 = 0" "0 \<le> ws_updates st"
  proof -
    have "0 \<le> step" using that by (simp add: step_def)
    then have "0 \<le> step * ((1 - sigmoid (vdot (ws_weights st) d)) * vdot d d)" by simp
    then show ?thesis unfolding eq using that by simp
  qed
  with eq show ?thesis by blast
qed

theorem moved_weights_margin_witness:
  "vdot (replicate 8 (1 / 8)) [1, 0, 0, 0, 0, 0, 0, 0]
    \<le> vdot (moved_weights initial_state [1, 0, 0, 0, 0, 0, 0, 0] 0.05 0 (replicate 8 (1 / 8)))
        [1, 0, 0, 0, 0, 0, 0, 0 :: real]"
  using moved_weights_margin [of initial_state "[1, 0, 0, 0, 0, 0, 0, 0]" "replicate 8 (1 / 8)"
      "0.05" "0"]
  by (simp add: initial_state_def)

subsection \<open>Exploration\<close>

definition exploration_count :: "nat \<Rightarrow> nat" where
  "exploration_count item_count = nat (min 2 (max 0 \<lceil>0.10 * real item_count\<rceil>))"

definition clipped_ipw :: "real \<Rightarrow> real \<Rightarrow> real" where
  "clipped_ipw propensity cap = (if propensity \<le> 0 then cap else min cap (1 / propensity))"

definition IPW_CAP :: real where
  "IPW_CAP = 5"

definition softmax :: "vec \<Rightarrow> real \<Rightarrow> vec" where
  "softmax pool_scores temperature =
     (let scaled = map (\<lambda>s. s / max temperature (1 / 10 ^ 6)) pool_scores;
          top = Max (set scaled);
          weights = map (\<lambda>s. exp (s - top)) scaled
      in map (\<lambda>w. w / sum_list weights) weights)"

record exploration_row =
  ex_rank :: nat
  ex_index :: nat
  ex_propensity :: real
  ex_exploration :: bool
  ex_ipw :: real

text \<open>The scan for the option at which the running mass reaches the draw; the last available
  option when it never does.\<close>

fun pick_option :: "vec \<Rightarrow> real \<Rightarrow> real \<Rightarrow> nat list \<Rightarrow> nat \<Rightarrow> nat" where
  "pick_option weights draw cursor [] pick = pick"
| "pick_option weights draw cursor (option # options) pick =
     (let cursor' = cursor + weights ! option
      in if draw \<le> cursor' then option else pick_option weights draw cursor' options pick)"

definition available_mass :: "vec \<Rightarrow> nat list \<Rightarrow> real" where
  "available_mass weights available =
     (let m = sum_list (map (\<lambda>option. weights ! option) available) in if m = 0 then 1 else m)"

fun exploration_loop ::
  "nat \<Rightarrow> vec \<Rightarrow> nat list \<Rightarrow> nat list \<Rightarrow> (nat \<Rightarrow> real) \<Rightarrow> nat \<Rightarrow> exploration_row list" where
  "exploration_loop 0 weights pool available rng i = []"
| "exploration_loop (Suc k) weights pool available rng i =
     (let mass = available_mass weights available;
          draw = rng i * mass;
          pick = pick_option weights draw 0 available (last available);
          propensity = weights ! pick / mass
      in \<lparr>ex_rank = pool ! pick + 1, ex_index = pool ! pick, ex_propensity = propensity,
          ex_exploration = True, ex_ipw = clipped_ipw propensity IPW_CAP\<rparr>
         # exploration_loop k weights pool (remove1 pick available) rng (Suc i))"

definition exploration_plan :: "vec \<Rightarrow> (nat \<Rightarrow> real) \<Rightarrow> real \<Rightarrow> exploration_row list" where
  "exploration_plan scores rng temperature =
     (let count = exploration_count (length scores)
      in if count = 0 \<or> length scores < 6 then []
         else let pool = [5 ..< min 40 (length scores)]
              in if pool = [] then []
                 else let weights = softmax (map (\<lambda>i. scores ! i) pool) temperature;
                          available = [0 ..< length pool]
                      in exploration_loop (min count (length available)) weights pool available rng 0)"

lemma clipped_ipw_bounds:
  assumes "0 < p" "p \<le> 1"
  shows "1 \<le> clipped_ipw p IPW_CAP" "clipped_ipw p IPW_CAP \<le> IPW_CAP"
  using assms by (simp_all add: clipped_ipw_def IPW_CAP_def)

lemma pick_option_mem: "pick_option w draw c os pick \<in> insert pick (set os)"
proof (induction os arbitrary: c)
  case Nil
  then show ?case by simp
next
  case (Cons x os)
  then show ?case by (auto simp: Let_def)
qed

lemma length_softmax [simp]: "length (softmax s t) = length s"
  by (simp add: softmax_def Let_def)

lemma softmax_pos: "x \<in> set (softmax s t) \<Longrightarrow> 0 < x"
proof -
  assume x: "x \<in> set (softmax s t)"
  define e where "e = map (\<lambda>v. exp (v - Max (set (map (\<lambda>v. v / max t (1 / 10 ^ 6)) s))))
    (map (\<lambda>v. v / max t (1 / 10 ^ 6)) s)"
  have "0 < sum_list e" if "e \<noteq> []"
    using that by (cases e) (auto simp: e_def intro!: add_pos_nonneg sum_list_nonneg)
  moreover from x obtain y where "y \<in> set e" "x = y / sum_list e"
    by (auto simp: softmax_def Let_def e_def)
  ultimately show "0 < x" by (cases e) (auto simp: e_def)
qed

lemma available_mass_ge:
  assumes "\<And>j. j \<in> set av \<Longrightarrow> 0 < w ! j" "i \<in> set av"
  shows "w ! i \<le> available_mass w av" "0 < available_mass w av"
proof -
  have "w ! i \<le> sum_list (map (\<lambda>j. w ! j) av)"
    using assms by (intro member_le_sum_list) (auto intro: less_imp_le)
  moreover have "0 < w ! i" using assms by simp
  ultimately show "w ! i \<le> available_mass w av" "0 < available_mass w av"
    by (simp_all add: available_mass_def Let_def)
qed

definition exploration_row_ok :: "nat list \<Rightarrow> exploration_row \<Rightarrow> bool" where
  "exploration_row_ok pool r \<longleftrightarrow> ex_index r \<in> set pool \<and> ex_rank r = ex_index r + 1
     \<and> 0 < ex_propensity r \<and> ex_propensity r \<le> 1
     \<and> ex_ipw r = clipped_ipw (ex_propensity r) IPW_CAP"

lemma exploration_loop_sound:
  assumes "\<And>j. j \<in> set av \<Longrightarrow> 0 < w ! j \<and> j < length pool" "distinct av" "distinct pool"
    "k \<le> length av"
  shows "length (exploration_loop k w pool av rng i) = k
    \<and> list_all (exploration_row_ok pool) (exploration_loop k w pool av rng i)
    \<and> distinct (map ex_index (exploration_loop k w pool av rng i))
    \<and> set (map ex_index (exploration_loop k w pool av rng i)) \<subseteq> (\<lambda>j. pool ! j) ` set av"
  using assms
proof (induction k arbitrary: av i)
  case 0
  then show ?case by simp
next
  case (Suc k)
  then have ne: "av \<noteq> []" by auto
  define pick where "pick = pick_option w (rng i * available_mass w av) 0 av (last av)"
  have mem: "pick \<in> set av"
    using pick_option_mem [of w "rng i * available_mass w av" 0 av "last av"] ne
    by (auto simp: pick_def)
  have mass: "w ! pick \<le> available_mass w av" "0 < available_mass w av"
    using available_mass_ge [of av w pick] Suc.prems(1) mem by auto
  have len: "k \<le> length (remove1 pick av)"
    using Suc.prems(4) mem by (simp add: length_remove1)
  have sub: "set (remove1 pick av) = set av - {pick}" using Suc.prems(2) by simp
  note IH = Suc.IH [of "remove1 pick av" "Suc i"]
  have ih: "length (exploration_loop k w pool (remove1 pick av) rng (Suc i)) = k
    \<and> list_all (exploration_row_ok pool) (exploration_loop k w pool (remove1 pick av) rng (Suc i))
    \<and> distinct (map ex_index (exploration_loop k w pool (remove1 pick av) rng (Suc i)))
    \<and> set (map ex_index (exploration_loop k w pool (remove1 pick av) rng (Suc i)))
      \<subseteq> (\<lambda>j. pool ! j) ` (set av - {pick})"
    using IH Suc.prems(1-3) len sub by (simp add: distinct_remove1)
  have fresh: "pool ! pick \<notin> (\<lambda>j. pool ! j) ` (set av - {pick})"
    using Suc.prems(1,3) mem by (auto simp: nth_eq_iff_index_eq)
  have "exploration_row_ok pool \<lparr>ex_rank = pool ! pick + 1, ex_index = pool ! pick,
      ex_propensity = w ! pick / available_mass w av, ex_exploration = True,
      ex_ipw = clipped_ipw (w ! pick / available_mass w av) IPW_CAP\<rparr>"
    using mass mem Suc.prems(1) by (auto simp: exploration_row_ok_def)
  with ih fresh mem show ?case
    by (auto simp: Let_def pick_def [symmetric])
qed

lemma exploration_plan_fix:
  assumes "6 \<le> length scores"
  shows "length (exploration_plan scores rng temperature) = exploration_count (length scores)
    \<and> distinct (map ex_index (exploration_plan scores rng temperature))
    \<and> (\<forall>r \<in> set (exploration_plan scores rng temperature).
         5 \<le> ex_index r \<and> ex_index r < min 40 (length scores) \<and> ex_rank r = ex_index r + 1
         \<and> 0 < ex_propensity r \<and> ex_propensity r \<le> 1 \<and> 1 \<le> ex_ipw r \<and> ex_ipw r \<le> 5)"
proof -
  let ?pool = "[5 ..< min 40 (length scores)]"
  let ?w = "softmax (map (\<lambda>i. scores ! i) ?pool) temperature"
  let ?n = "exploration_count (length scores)"
  have pool: "length ?pool = min 40 (length scores) - 5" "?pool \<noteq> []" using assms by auto
  have n: "0 < ?n" "?n \<le> length ?pool"
    using assms pool by (auto simp: exploration_count_def) linarith+
  have "0 < ?w ! j \<and> j < length ?pool" if "j \<in> set [0 ..< length ?pool]" for j
  proof -
    have "?w ! j \<in> set ?w" using that by (intro nth_mem) simp
    then have "0 < ?w ! j" by (rule softmax_pos)
    with that show ?thesis by simp
  qed
  then have sound: "length (exploration_loop ?n ?w ?pool [0 ..< length ?pool] rng 0) = ?n
    \<and> list_all (exploration_row_ok ?pool) (exploration_loop ?n ?w ?pool [0 ..< length ?pool] rng 0)
    \<and> distinct (map ex_index (exploration_loop ?n ?w ?pool [0 ..< length ?pool] rng 0))"
    using exploration_loop_sound [of "[0 ..< length ?pool]" ?w ?pool ?n rng 0] n(2) by simp
  have "exploration_plan scores rng temperature
      = exploration_loop ?n ?w ?pool [0 ..< length ?pool] rng 0"
    using assms n pool by (simp add: exploration_plan_def Let_def min_absorb1)
  with sound show ?thesis
    using clipped_ipw_bounds by (auto simp: list_all_iff exploration_row_ok_def IPW_CAP_def)
qed

text \<open>
  an exploration plan explores as many slots as \<open>exploration_count\<close> says, all of them
  different and at ranks 6 to 40, and every logged propensity is a probability whose clipped
  inverse lies between 1 and 5.
\<close>

theorem exploration_plan_sound:
  assumes "6 \<le> length scores"
  shows "length (exploration_plan scores rng temperature) = exploration_count (length scores)
    \<and> distinct (map ex_index (exploration_plan scores rng temperature))
    \<and> (\<forall>r \<in> set (exploration_plan scores rng temperature).
         5 \<le> ex_index r \<and> ex_index r < min 40 (length scores) \<and> ex_rank r = ex_index r + 1
         \<and> 0 < ex_propensity r \<and> ex_propensity r \<le> 1 \<and> 1 \<le> ex_ipw r \<and> ex_ipw r \<le> 5)"
  using assms by (rule exploration_plan_fix)

theorem exploration_plan_sound_witness:
  "length (exploration_plan (replicate 12 0.5) (\<lambda>i. 0.3) 0.5) = exploration_count 12
    \<and> distinct (map ex_index (exploration_plan (replicate 12 0.5) (\<lambda>i. 0.3) 0.5))"
  using exploration_plan_sound [of "replicate 12 0.5" "\<lambda>i. 0.3" "0.5"] by simp

subsection \<open>Explanations of a score\<close>

definition contributions_of ::
  "(signal \<Rightarrow> real option) \<Rightarrow> (signal \<Rightarrow> real option) \<Rightarrow> signal \<Rightarrow> real" where
  "contributions_of scores weights name = or_default (weights name) 0 * or_default (scores name) 0"

definition explain ::
  "(signal \<Rightarrow> real option) \<Rightarrow> (signal \<Rightarrow> real option) \<Rightarrow> string \<times> (signal \<Rightarrow> real)" where
  "explain scores weights =
     (let contributions = contributions_of scores weights;
          ordered = sort_desc contributions SIGNALS;
          lead = (case ordered of [] \<Rightarrow> Semantic | name # _ \<Rightarrow> name)
      in (''Ranked mainly by '' @ map (\<lambda>c. if c = CHR ''_'' then CHR '' '' else c) (signal_name lead),
          contributions))"

definition faithful :: "(signal \<Rightarrow> real) \<Rightarrow> real \<Rightarrow> real \<Rightarrow> bool" where
  "faithful contributions score tol \<longleftrightarrow>
     \<bar>sum_list (map contributions SIGNALS) - score\<bar> \<le> tol"

definition score_matrix :: "vec \<Rightarrow> vec list \<Rightarrow> vec" where
  "score_matrix weights features = map (\<lambda>row. clamp 0 1 (vdot row weights)) features"

end
