(* ===== verification/Content.thy ===== *)
theory Content
  imports Contract
begin

text \<open>
  The rows the services share: content items and a reader's interactions with them
  (\<open>models/content.py\<close>), and the row \<open>(item, prs, breakdown)\<close> that the ranker hands to the
  digest builder. Columns that no modelled code reads are left out. Keys (UUIDs) are naturals.
\<close>

datatype origin = Followed | FromDiscovery

record content_item =
  ci_id :: nat
  ci_source_id :: "nat option"
  ci_feed_id :: "nat option"
  ci_creator_platform_id :: "nat option"
  ci_owner_user_id :: "nat option"
  ci_url :: string
  ci_title :: string
  ci_published_at :: "moment option"
  ci_fetched_at :: moment
  ci_reading_time_minutes :: "int option"
  ci_content_depth_score :: "real option"
  ci_word_count :: "int option"
  ci_has_citations :: bool
  ci_is_original_reporting :: "bool option"
  ci_topic_clusters :: "string list"
  ci_language :: "string option"
  ci_rankable :: bool
  ci_origin :: origin
  ci_embedding :: "vec option"
  ci_embedding_model :: "string option"
  ci_embedding_dim :: "nat option"
  ci_discovered_via :: "string option"

record interaction =
  ix_user_id :: nat
  ix_content_item_id :: nat
  ix_prs_score :: "real option"
  ix_was_suggested :: bool
  ix_surfaced_in_digest :: bool
  ix_opened_at :: "moment option"
  ix_read_completion_pct :: "real option"
  ix_time_on_page_seconds :: "int option"
  ix_scroll_depth_pct :: "real option"
  ix_active_time_seconds :: "real option"
  ix_reached_end :: bool
  ix_re_read_count :: int
  ix_explicit_rating :: "int option"
  ix_explicit_rating_reason :: "string option"
  ix_saved :: bool
  ix_saved_at :: "moment option"
  ix_saved_read_at :: "moment option"
  ix_skipped :: bool
  ix_graph_signal_applied :: "real option"
  ix_created_at :: moment
  ix_updated_at :: moment

text \<open>A new item and a new interaction, with the column defaults.\<close>

definition blank_item :: "nat \<Rightarrow> content_item" where
  "blank_item n = \<lparr>ci_id = n, ci_source_id = None, ci_feed_id = None,
     ci_creator_platform_id = None, ci_owner_user_id = None, ci_url = [], ci_title = [],
     ci_published_at = None, ci_fetched_at = 0, ci_reading_time_minutes = None,
     ci_content_depth_score = None, ci_word_count = None, ci_has_citations = False,
     ci_is_original_reporting = None, ci_topic_clusters = [], ci_language = None,
     ci_rankable = True, ci_origin = Followed, ci_embedding = None,
     ci_embedding_model = None, ci_embedding_dim = None,
     ci_discovered_via = None\<rparr>"

definition new_interaction :: "nat \<Rightarrow> nat \<Rightarrow> moment \<Rightarrow> interaction" where
  "new_interaction user item now = \<lparr>ix_user_id = user, ix_content_item_id = item,
     ix_prs_score = None, ix_was_suggested = False, ix_surfaced_in_digest = False,
     ix_opened_at = None, ix_read_completion_pct = None, ix_time_on_page_seconds = None,
     ix_scroll_depth_pct = None, ix_active_time_seconds = None,
     ix_reached_end = False, ix_re_read_count = 0, ix_explicit_rating = None,
     ix_explicit_rating_reason = None, ix_saved = False, ix_saved_at = None,
     ix_saved_read_at = None, ix_skipped = False, ix_graph_signal_applied = None,
     ix_created_at = now, ix_updated_at = now\<rparr>"

text \<open>
  The breakdown of a scored item: the entries of the dictionary that the digest code reads or
  writes. \<open>bd_exploration\<close>, \<open>bd_serendipity\<close>, \<open>bd_propensity\<close> and \<open>bd_team\<close> are the keys
  \<open>exploration\<close>, \<open>_serendipity_candidate\<close>, \<open>_propensity\<close> and \<open>_team\<close>.
\<close>

datatype team = PRS | BASELINE

record breakdown =
  bd_features :: "signal \<Rightarrow> real option"
  bd_contributions :: "signal \<Rightarrow> real"
  bd_no_data :: "signal list"
  bd_explanation :: string
  bd_why_topics :: "string option"
  bd_exploration :: bool
  bd_serendipity :: bool
  bd_propensity :: "real option"
  bd_team :: "team option"

definition empty_breakdown :: breakdown where
  "empty_breakdown = \<lparr>bd_features = (\<lambda>_. None), bd_contributions = (\<lambda>_. 0), bd_no_data = [],
     bd_explanation = [], bd_why_topics = None, bd_exploration = False, bd_serendipity = False,
     bd_propensity = None, bd_team = None\<rparr>"

type_synonym row = "content_item \<times> real \<times> breakdown"

definition row_id :: "row \<Rightarrow> nat" where
  "row_id r = ci_id (fst r)"

lemma row_id_simp [simp]: "row_id (item, prs, bd) = ci_id item"
  by (simp add: row_id_def)

lemma blank_item_simps [simp]:
  "ci_id (blank_item n) = n" "ci_topic_clusters (blank_item n) = []"
  "ci_creator_platform_id (blank_item n) = None" "ci_reading_time_minutes (blank_item n) = None"
  "ci_origin (blank_item n) = Followed" "ci_source_id (blank_item n) = None"
  "ci_published_at (blank_item n) = None" "ci_fetched_at (blank_item n) = 0"
  by (simp_all add: blank_item_def)

end
