(* ===== verification/Sections.thy ===== *)
theory Sections
  imports Content
begin

text \<open>
  The layout of a digest: \<open>services/digest/sections.py\<close>. \<open>builder_state\<close> holds the local
  variables of \<open>SectionBuilder.build\<close>: the sections, \<open>used_ids\<close> and \<open>topic_counts\<close>; every
  loop of the method is a function on it. \<open>place_step\<close> is the abstract specification of one
  placement, and each loop is a sequence of such steps.
\<close>

subsection \<open>Sections\<close>

datatype section_name = Lead | Creators | DeepReads | More | Discovery

record digest_section =
  sec_items :: "row list"
  sec_max_items :: nat

definition section_full :: "digest_section \<Rightarrow> bool" where
  "section_full sec \<longleftrightarrow> sec_max_items sec \<le> length (sec_items sec)"

text \<open>\<open>DigestSection.add\<close>: the section and whether the row was taken.\<close>

definition section_add :: "digest_section \<Rightarrow> row \<Rightarrow> digest_section \<times> bool" where
  "section_add sec r =
     (if section_full sec then (sec, False)
      else (sec\<lparr>sec_items := sec_items sec @ [r]\<rparr>, True))"

subsection \<open>The builder\<close>

record section_builder =
  sb_total_items :: int
  sb_serendipity_pct :: int
  sb_max_topic_pct :: real
  sb_discovery_count :: nat
  sb_lead_count :: nat

definition new_section_builder :: "int \<Rightarrow> int \<Rightarrow> real \<Rightarrow> section_builder" where
  "new_section_builder total_items serendipity_pct max_topic_pct =
     \<lparr>sb_total_items = total_items, sb_serendipity_pct = serendipity_pct,
      sb_max_topic_pct = max_topic_pct,
      sb_discovery_count = nat (max 1 \<lceil>real_of_int (total_items * serendipity_pct) / 100\<rceil>),
      sb_lead_count = nat (max 1 (min 5 (min total_items
        (max 3 (py_round (real_of_int total_items * 0.35))))))\<rparr>"

definition is_lead_eligible :: "row \<Rightarrow> bool" where
  "is_lead_eligible r \<longleftrightarrow> \<not> bd_exploration (snd (snd r))"

definition is_deep_read_eligible :: "row \<Rightarrow> bool" where
  "is_deep_read_eligible r \<longleftrightarrow> 8 \<le> or_default (ci_reading_time_minutes (fst r)) 0"

definition is_discovery_eligible :: "row \<Rightarrow> bool" where
  "is_discovery_eligible r \<longleftrightarrow>
     ci_origin (fst r) = FromDiscovery \<or> bd_serendipity (snd (snd r))"

record builder_state =
  bs_sections :: "section_name \<Rightarrow> digest_section"
  bs_used :: "nat set"
  bs_topics :: "string \<Rightarrow> nat"

definition max_per_topic :: "section_builder \<Rightarrow> nat" where
  "max_per_topic b = nat (max 1 \<lfloor>real_of_int (sb_total_items b) * sb_max_topic_pct b\<rfloor>)"

definition initial_sections :: "section_builder \<Rightarrow> section_name \<Rightarrow> digest_section" where
  "initial_sections b name =
     \<lparr>sec_items = [],
      sec_max_items = (case name of
          Lead \<Rightarrow> sb_lead_count b
        | Creators \<Rightarrow> nat (max 1 (sb_total_items b div 4))
        | DeepReads \<Rightarrow> nat (max 1 (sb_total_items b div 5))
        | More \<Rightarrow> 0
        | Discovery \<Rightarrow> sb_discovery_count b)\<rparr>"

definition initial_state :: "section_builder \<Rightarrow> builder_state" where
  "initial_state b = \<lparr>bs_sections = initial_sections b, bs_used = {}, bs_topics = (\<lambda>_. 0)\<rparr>"

text \<open>\<open>_check_saturation\<close> is true when no topic of the item has reached its cap.\<close>

definition check_saturation :: "nat \<Rightarrow> builder_state \<Rightarrow> row \<Rightarrow> bool" where
  "check_saturation cap st r \<longleftrightarrow>
     list_all (\<lambda>topic. bs_topics st topic < cap) (ci_topic_clusters (fst r))"

definition update_topics :: "(string \<Rightarrow> nat) \<Rightarrow> string list \<Rightarrow> string \<Rightarrow> nat" where
  "update_topics = foldl (\<lambda>counts topic. counts(topic := counts topic + 1))"

text \<open>\<open>if sections[name].add(...): used_ids.add(...); _update_topics(...)\<close>.\<close>

definition place :: "section_name \<Rightarrow> row \<Rightarrow> builder_state \<Rightarrow> builder_state" where
  "place name r st =
     (case section_add (bs_sections st name) r of
        (sec, True) \<Rightarrow> st\<lparr>bs_sections := (bs_sections st)(name := sec),
                          bs_used := insert (row_id r) (bs_used st),
                          bs_topics := update_topics (bs_topics st) (ci_topic_clusters (fst r))\<rparr>
      | (sec, False) \<Rightarrow> st)"

definition full :: "builder_state \<Rightarrow> section_name \<Rightarrow> bool" where
  "full st name = section_full (bs_sections st name)"

fun fill_discovery :: "builder_state \<Rightarrow> row list \<Rightarrow> builder_state" where
  "fill_discovery st [] = st"
| "fill_discovery st (r # rows) =
     (let st' = (if is_discovery_eligible r \<and> row_id r \<notin> bs_used st
                 then place Discovery r st else st)
      in if full st' Discovery then st' else fill_discovery st' rows)"

text \<open>The loops of the lead and of the deep reads differ in the test of eligibility only.\<close>

fun fill_section ::
  "nat \<Rightarrow> section_name \<Rightarrow> (row \<Rightarrow> bool) \<Rightarrow> builder_state \<Rightarrow> row list \<Rightarrow> builder_state" where
  "fill_section cap name eligible st [] = st"
| "fill_section cap name eligible st (r # rows) =
     (if row_id r \<in> bs_used st \<or> \<not> eligible r \<or> \<not> check_saturation cap st r
      then fill_section cap name eligible st rows
      else let st' = place name r st
           in if full st' name then st' else fill_section cap name eligible st' rows)"

text \<open>
  The creator section: \<open>creator_rows\<close> is a dictionary in insertion order, so an association
  list; \<open>creator_best\<close> defaults to 0.
\<close>

type_synonym creator_rows = "(nat \<times> row list) list"

definition rows_of :: "creator_rows \<Rightarrow> nat \<Rightarrow> row list" where
  "rows_of cr cid = (case map_of cr cid of None \<Rightarrow> [] | Some rows \<Rightarrow> rows)"

fun add_creator_row :: "creator_rows \<Rightarrow> nat \<Rightarrow> row \<Rightarrow> creator_rows" where
  "add_creator_row [] cid r = [(cid, [r])]"
| "add_creator_row ((c, rows) # cr) cid r =
     (if c = cid then (c, rows @ [r]) # cr else (c, rows) # add_creator_row cr cid r)"

fun group_creators ::
  "nat \<Rightarrow> builder_state \<Rightarrow> row list \<Rightarrow> creator_rows \<Rightarrow> (nat \<Rightarrow> real)
    \<Rightarrow> creator_rows \<times> (nat \<Rightarrow> real)" where
  "group_creators cap st [] cr best = (cr, best)"
| "group_creators cap st (r # rows) cr best =
     (case ci_creator_platform_id (fst r) of
        None \<Rightarrow> group_creators cap st rows cr best
      | Some cid \<Rightarrow>
          if row_id r \<in> bs_used st \<or> \<not> check_saturation cap st r \<or> 2 \<le> length (rows_of cr cid)
          then group_creators cap st rows cr best
          else group_creators cap st rows (add_creator_row cr cid r)
                 (best(cid := max (best cid) (fst (snd r)))))"

fun emit_creators :: "nat \<Rightarrow> builder_state \<Rightarrow> row list \<Rightarrow> builder_state" where
  "emit_creators cap st [] = st"
| "emit_creators cap st (r # rows) =
     (if \<not> check_saturation cap st r then emit_creators cap st rows
      else emit_creators cap (place Creators r st) rows)"

definition creator_order :: "nat \<Rightarrow> builder_state \<Rightarrow> row list \<Rightarrow> row list" where
  "creator_order cap st ranked =
     (let (cr, best) = group_creators cap st ranked [] (\<lambda>_. 0)
      in concat (map (rows_of cr) (sort_desc best (map fst cr))))"

definition fill_creators :: "nat \<Rightarrow> builder_state \<Rightarrow> row list \<Rightarrow> builder_state" where
  "fill_creators cap st ranked = emit_creators cap st (creator_order cap st ranked)"

fun fill_more :: "nat \<Rightarrow> builder_state \<Rightarrow> row list \<Rightarrow> builder_state" where
  "fill_more cap st [] = st"
| "fill_more cap st (r # rows) =
     (if full st More then st
      else if row_id r \<in> bs_used st \<or> is_discovery_eligible r \<or> \<not> check_saturation cap st r
      then fill_more cap st rows
      else fill_more cap (place More r st) rows)"

definition section_order :: "section_name list" where
  "section_order = [Lead, Creators, DeepReads, More, Discovery]"

definition items_of :: "builder_state \<Rightarrow> section_name \<Rightarrow> row list" where
  "items_of st name = sec_items (bs_sections st name)"

definition placed :: "builder_state \<Rightarrow> row list" where
  "placed st = concat (map (items_of st) section_order)"

definition open_more :: "section_builder \<Rightarrow> builder_state \<Rightarrow> builder_state" where
  "open_more b st =
     st\<lparr>bs_sections := (bs_sections st)(More :=
          (bs_sections st More)\<lparr>sec_max_items :=
             nat (max 0 (sb_total_items b - int (length (placed st))))\<rparr>)\<rparr>"

definition build :: "section_builder \<Rightarrow> row list \<Rightarrow> builder_state" where
  "build b ranked =
     (let cap = max_per_topic b;
          st = fill_discovery (initial_state b) ranked;
          st = fill_section cap Lead is_lead_eligible st ranked;
          st = fill_creators cap st ranked;
          st = fill_section cap DeepReads is_deep_read_eligible st ranked
      in fill_more cap (open_more b st) ranked)"

subsection \<open>The specification of one placement\<close>

text \<open>What a section asks of a row, apart from room: its own test, and for the followed
  sections that no topic of the item is saturated.\<close>

fun section_test :: "section_name \<Rightarrow> row \<Rightarrow> bool" where
  "section_test Lead r = is_lead_eligible r"
| "section_test Creators r = (ci_creator_platform_id (fst r) \<noteq> None)"
| "section_test DeepReads r = is_deep_read_eligible r"
| "section_test More r = (\<not> is_discovery_eligible r)"
| "section_test Discovery r = is_discovery_eligible r"

definition may_place :: "nat \<Rightarrow> section_name \<Rightarrow> row \<Rightarrow> builder_state \<Rightarrow> bool" where
  "may_place cap name r st \<longleftrightarrow>
     section_test name r \<and> (name \<noteq> Discovery \<longrightarrow> check_saturation cap st r)"

inductive place_step :: "nat \<Rightarrow> row list \<Rightarrow> builder_state \<Rightarrow> builder_state \<Rightarrow> bool"
  for cap :: nat and ranked :: "row list" where
  put: "r \<in> set ranked \<Longrightarrow> row_id r \<notin> bs_used st \<Longrightarrow> \<not> full st name
    \<Longrightarrow> may_place cap name r st \<Longrightarrow> place_step cap ranked st (place name r st)"
| widen: "items_of st More = [] \<Longrightarrow> place_step cap ranked st (open_more b st)"

inductive_cases place_stepE: "place_step cap ranked st st'"

lemma place_full [simp]: "full st name \<Longrightarrow> place name r st = st"
  by (simp add: place_def section_add_def full_def)

lemma place_not_full:
  "\<not> full st name \<Longrightarrow> place name r st =
     st\<lparr>bs_sections := (bs_sections st)(name := (bs_sections st name)\<lparr>sec_items := items_of st name @ [r]\<rparr>),
        bs_used := insert (row_id r) (bs_used st),
        bs_topics := update_topics (bs_topics st) (ci_topic_clusters (fst r))\<rparr>"
  by (simp add: place_def section_add_def full_def items_of_def)

lemma place_steps:
  "r \<in> set ranked \<Longrightarrow> row_id r \<notin> bs_used st \<Longrightarrow> may_place cap name r st
    \<Longrightarrow> (place_step cap ranked)\<^sup>*\<^sup>* st (place name r st)"
  by (cases "full st name") (auto intro: place_step.put)

subsection \<open>Every loop is a sequence of placements\<close>

lemma fill_discovery_steps:
  "set rows \<subseteq> set ranked \<Longrightarrow> (place_step cap ranked)\<^sup>*\<^sup>* st (fill_discovery st rows)"
proof (induction rows arbitrary: st)
  case Nil
  then show ?case by simp
next
  case (Cons r rows)
  let ?st = "if is_discovery_eligible r \<and> row_id r \<notin> bs_used st then place Discovery r st else st"
  have "(place_step cap ranked)\<^sup>*\<^sup>* st ?st"
    using Cons.prems by (auto intro: place_steps simp: may_place_def)
  moreover have "(place_step cap ranked)\<^sup>*\<^sup>* ?st (fill_discovery ?st rows)"
    using Cons.prems by (intro Cons.IH) simp
  ultimately show ?case by (auto simp: Let_def)
qed

lemma fill_section_steps:
  assumes "\<And>r. eligible r \<Longrightarrow> section_test name r"
  shows "set rows \<subseteq> set ranked
    \<Longrightarrow> (place_step cap ranked)\<^sup>*\<^sup>* st (fill_section cap name eligible st rows)"
proof (induction rows arbitrary: st)
  case Nil
  then show ?case by simp
next
  case (Cons r rows)
  show ?case
  proof (cases "row_id r \<in> bs_used st \<or> \<not> eligible r \<or> \<not> check_saturation cap st r")
    case True
    with Cons show ?thesis by simp
  next
    case False
    with Cons.prems assms [of r] have "(place_step cap ranked)\<^sup>*\<^sup>* st (place name r st)"
      by (intro place_steps) (simp_all add: may_place_def)
    moreover have "(place_step cap ranked)\<^sup>*\<^sup>* (place name r st)
        (fill_section cap name eligible (place name r st) rows)"
      using Cons.prems by (intro Cons.IH) simp
    ultimately show ?thesis using False by (auto simp: Let_def)
  qed
qed

lemma fill_more_steps:
  "set rows \<subseteq> set ranked \<Longrightarrow> (place_step cap ranked)\<^sup>*\<^sup>* st (fill_more cap st rows)"
proof (induction rows arbitrary: st)
  case Nil
  then show ?case by simp
next
  case (Cons r rows)
  show ?case
  proof (cases "row_id r \<in> bs_used st \<or> is_discovery_eligible r \<or> \<not> check_saturation cap st r")
    case True
    with Cons show ?thesis by simp
  next
    case False
    with Cons.prems have "(place_step cap ranked)\<^sup>*\<^sup>* st (place More r st)"
      by (auto intro!: place_steps simp: may_place_def)
    moreover have "(place_step cap ranked)\<^sup>*\<^sup>* (place More r st) (fill_more cap (place More r st) rows)"
      using Cons.prems by (intro Cons.IH) simp
    ultimately show ?thesis using False by auto
  qed
qed

lemma bs_used_place:
  "bs_used (place name r st) = (if full st name then bs_used st else insert (row_id r) (bs_used st))"
  by (simp add: place_not_full)

lemma emit_creators_steps:
  assumes "set rows \<subseteq> set ranked" "distinct (map row_id rows)"
    "\<forall>r \<in> set rows. row_id r \<notin> bs_used st \<and> section_test Creators r"
  shows "(place_step cap ranked)\<^sup>*\<^sup>* st (emit_creators cap st rows)"
  using assms
proof (induction rows arbitrary: st)
  case Nil
  then show ?case by simp
next
  case (Cons r rows)
  show ?case
  proof (cases "check_saturation cap st r")
    case False
    with Cons show ?thesis by simp
  next
    case True
    with Cons.prems have "(place_step cap ranked)\<^sup>*\<^sup>* st (place Creators r st)"
      by (auto intro!: place_steps simp: may_place_def)
    moreover have "\<forall>x \<in> set rows. row_id x \<notin> bs_used (place Creators r st) \<and> section_test Creators x"
      using Cons.prems by (auto simp: bs_used_place image_iff)
    then have "(place_step cap ranked)\<^sup>*\<^sup>* (place Creators r st) (emit_creators cap (place Creators r st) rows)"
      using Cons.prems by (intro Cons.IH) simp_all
    ultimately show ?thesis using True by auto
  qed
qed

lemma add_creator_row_mset:
  "mset (concat (map snd (add_creator_row cr cid r))) = add_mset r (mset (concat (map snd cr)))"
  by (induction cr cid r rule: add_creator_row.induct) auto

lemma add_creator_row_keys:
  "fst ` set (add_creator_row cr cid r) = insert cid (fst ` set cr)"
  by (induction cr cid r rule: add_creator_row.induct) auto

lemma add_creator_row_distinct:
  "distinct (map fst cr) \<Longrightarrow> distinct (map fst (add_creator_row cr cid r))"
  by (induction cr cid r rule: add_creator_row.induct) (auto simp: add_creator_row_keys image_iff)

text \<open>What the preselection promises of the rows it adds to \<open>creator_rows\<close>.\<close>

definition grouped :: "builder_state \<Rightarrow> row list \<Rightarrow> creator_rows \<Rightarrow> creator_rows \<Rightarrow> bool" where
  "grouped st rows cr cr' \<longleftrightarrow> distinct (map fst cr')
    \<and> mset (concat (map snd cr')) \<subseteq># mset (concat (map snd cr)) + mset rows
    \<and> (\<forall>r \<in> set (concat (map snd cr')). r \<in> set (concat (map snd cr))
         \<or> (row_id r \<notin> bs_used st \<and> section_test Creators r))"

lemma grouped_skip: "grouped st rows cr cr' \<Longrightarrow> grouped st (r # rows) cr cr'"
  unfolding grouped_def mset.simps union_mset_add_mset_right by (blast intro: submset_add_mset)

lemma grouped_add:
  assumes "grouped st rows (add_creator_row cr cid r) cr'"
    and "row_id r \<notin> bs_used st" "section_test Creators r"
  shows "grouped st (r # rows) cr cr'"
proof -
  have ms: "mset (concat (map snd (add_creator_row cr cid r))) = add_mset r (mset (concat (map snd cr)))"
    by (rule add_creator_row_mset)
  then have "set (concat (map snd (add_creator_row cr cid r))) = insert r (set (concat (map snd cr)))"
    by (metis set_mset_add_mset_insert set_mset_mset)
  note mem = this
  have "mset (concat (map snd (add_creator_row cr cid r))) + mset rows
      = mset (concat (map snd cr)) + mset (r # rows)"
    by (simp only: ms mset.simps union_mset_add_mset_left union_mset_add_mset_right)
  moreover have "x \<in> set (concat (map snd cr)) \<or> (row_id x \<notin> bs_used st \<and> section_test Creators x)"
    if "x \<in> set (concat (map snd cr'))" for x
  proof -
    have "x \<in> insert r (set (concat (map snd cr)))
        \<or> (row_id x \<notin> bs_used st \<and> section_test Creators x)"
      using assms(1) that unfolding grouped_def mem by blast
    with assms(2,3) show ?thesis by (cases "x = r") simp_all
  qed
  ultimately show ?thesis using assms(1) unfolding grouped_def by (intro conjI ballI) simp_all
qed

lemma group_creators_sound:
  "group_creators cap st rows cr best = (cr', best') \<Longrightarrow> distinct (map fst cr)
    \<Longrightarrow> grouped st rows cr cr'"
proof (induction rows arbitrary: cr best)
  case Nil
  then show ?case by (simp add: grouped_def)
next
  case (Cons r rows)
  show ?case
  proof (cases "ci_creator_platform_id (fst r)")
    case None
    with Cons show ?thesis by (simp add: grouped_skip)
  next
    case (Some cid)
    show ?thesis
    proof (cases "row_id r \<in> bs_used st \<or> \<not> check_saturation cap st r \<or> 2 \<le> length (rows_of cr cid)")
      case True
      with Cons Some show ?thesis by (simp add: grouped_skip)
    next
      case False
      have "grouped st rows (add_creator_row cr cid r) cr'"
        using Cons.prems Some False add_creator_row_distinct by (intro Cons.IH) simp_all
      then show ?thesis using Some False by (intro grouped_add) simp_all
    qed
  qed
qed

lemma concat_rows_of:
  assumes "distinct (map fst cr)"
  shows "concat (map (rows_of cr) (map fst cr)) = concat (map snd cr)"
proof -
  have "map (rows_of cr) (map fst cr) = map snd cr"
    using assms by (auto simp: rows_of_def)
  then show ?thesis by (simp only:)
qed

lemma mset_concat_map_cong:
  assumes "mset xs = mset ys"
  shows "mset (concat (map f xs)) = mset (concat (map f ys))"
proof -
  have eq: "mset (concat (map f zs)) = (\<Sum>x \<in># mset zs. mset (f x))" for zs
    by (induction zs) simp_all
  show ?thesis by (simp only: eq assms)
qed

lemma creator_order_mset:
  assumes g: "group_creators cap st ranked [] (\<lambda>_. 0) = (cr, best)" and "distinct (map fst cr)"
  shows "mset (creator_order cap st ranked) = mset (concat (map snd cr))"
proof -
  have "mset (concat (map (rows_of cr) (sort_desc best (map fst cr)))) = mset (concat (map snd cr))"
    using mset_concat_map_cong [of "sort_desc best (map fst cr)" "map fst cr" "rows_of cr"] assms(2)
    by (simp only: concat_rows_of sort_desc_mset)
  then show ?thesis by (simp only: creator_order_def g Let_def prod.case)
qed

lemma creator_order_grouped:
  obtains cr where "grouped st ranked [] cr"
    "mset (creator_order cap st ranked) = mset (concat (map snd cr))"
proof -
  obtain cr best where g: "group_creators cap st ranked [] (\<lambda>_. 0) = (cr, best)"
    by (cases "group_creators cap st ranked [] (\<lambda>_. 0)")
  have sound: "grouped st ranked [] cr" using group_creators_sound [OF g] by simp
  moreover have "mset (creator_order cap st ranked) = mset (concat (map snd cr))"
    using sound by (intro creator_order_mset [OF g]) (simp add: grouped_def)
  ultimately show ?thesis by (rule that)
qed

lemma creator_order_sound:
  "mset (creator_order cap st ranked) \<subseteq># mset ranked"
  "\<forall>r \<in> set (creator_order cap st ranked). row_id r \<notin> bs_used st \<and> section_test Creators r"
proof -
  obtain cr where g: "grouped st ranked [] cr"
    and ms: "mset (creator_order cap st ranked) = mset (concat (map snd cr))"
    by (rule creator_order_grouped)
  show "mset (creator_order cap st ranked) \<subseteq># mset ranked"
    using g unfolding ms grouped_def by simp
  show "\<forall>r \<in> set (creator_order cap st ranked). row_id r \<notin> bs_used st \<and> section_test Creators r"
    using g unfolding mset_eq_setD [OF ms] grouped_def by (metis concat.simps(1) empty_iff
        list.simps(8) set_empty)
qed

lemma fill_creators_steps:
  assumes "distinct (map row_id ranked)"
  shows "(place_step cap ranked)\<^sup>*\<^sup>* st (fill_creators cap st ranked)"
  unfolding fill_creators_def
proof (rule emit_creators_steps)
  have sub: "mset (creator_order cap st ranked) \<subseteq># mset ranked" by (rule creator_order_sound)
  then show "set (creator_order cap st ranked) \<subseteq> set ranked"
    by (metis set_mset_mono set_mset_mset)
  have "mset (map row_id (creator_order cap st ranked)) \<subseteq># mset (map row_id ranked)"
    using sub by (simp add: image_mset_subseteq_mono)
  then show "distinct (map row_id (creator_order cap st ranked))"
    using assms by (rule distinct_submset)
qed (use creator_order_sound in blast)

lemma items_of_place:
  "items_of (place name r st) n
    = (if n = name \<and> \<not> full st name then items_of st n @ [r] else items_of st n)"
  by (cases "full st name") (simp_all add: place_not_full items_of_def)

lemma more_untouched:
  "items_of (fill_discovery st rows) More = items_of st More"
  "name \<noteq> More \<Longrightarrow> items_of (fill_section cap name eligible st rows) More = items_of st More"
  "items_of (emit_creators cap st rows) More = items_of st More"
  by (induction rows arbitrary: st) (simp_all add: Let_def items_of_place)

lemma build_steps:
  assumes "distinct (map row_id ranked)"
  shows "(place_step (max_per_topic b) ranked)\<^sup>*\<^sup>* (initial_state b) (build b ranked)"
proof -
  let ?cap = "max_per_topic b"
  define s1 where "s1 = fill_discovery (initial_state b) ranked"
  define s2 where "s2 = fill_section ?cap Lead is_lead_eligible s1 ranked"
  define s3 where "s3 = fill_creators ?cap s2 ranked"
  define s4 where "s4 = fill_section ?cap DeepReads is_deep_read_eligible s3 ranked"
  have "(place_step ?cap ranked)\<^sup>*\<^sup>* (initial_state b) s1"
    unfolding s1_def by (rule fill_discovery_steps) simp
  also have "(place_step ?cap ranked)\<^sup>*\<^sup>* s1 s2"
    unfolding s2_def by (rule fill_section_steps) simp_all
  also have "(place_step ?cap ranked)\<^sup>*\<^sup>* s2 s3"
    unfolding s3_def using assms by (rule fill_creators_steps)
  also have "(place_step ?cap ranked)\<^sup>*\<^sup>* s3 s4"
    unfolding s4_def by (rule fill_section_steps) simp_all
  also have "place_step ?cap ranked s4 (open_more b s4)"
    by (rule place_step.widen)
      (simp add: s4_def s3_def s2_def s1_def fill_creators_def more_untouched,
       simp add: items_of_def initial_state_def initial_sections_def)
  also have "(place_step ?cap ranked)\<^sup>*\<^sup>* (open_more b s4) (fill_more ?cap (open_more b s4) ranked)"
    by (rule fill_more_steps) simp
  finally show ?thesis by (simp add: build_def Let_def s1_def s2_def s3_def s4_def)
qed

subsection \<open>What every placement keeps\<close>

definition topic_count :: "string \<Rightarrow> row list \<Rightarrow> nat" where
  "topic_count t rows = sum_list (map (\<lambda>r. count_list (ci_topic_clusters (fst r)) t) rows)"

definition followed :: "builder_state \<Rightarrow> row list" where
  "followed st = concat (map (items_of st) [Lead, Creators, DeepReads, More])"

lemma placed_followed: "placed st = followed st @ items_of st Discovery"
  by (simp add: placed_def followed_def section_order_def)

lemma topic_count_append: "topic_count t (xs @ ys) = topic_count t xs + topic_count t ys"
  by (simp add: topic_count_def)

lemma topic_count_sum_mset:
  "topic_count t xs = (\<Sum>r \<in># mset xs. count_list (ci_topic_clusters (fst r)) t)"
  unfolding topic_count_def by (induction xs) (simp_all del: sum_mset_sum_list)

lemma topic_count_mset: "mset xs = mset ys \<Longrightarrow> topic_count t xs = topic_count t ys"
  by (simp only: topic_count_sum_mset)

lemma count_list_distinct:
  "distinct ts \<Longrightarrow> count_list ts t = (if t \<in> set ts then 1 else 0)"
  by (induction ts) auto

lemma topic_count_Cons:
  "topic_count t (r # rows) = count_list (ci_topic_clusters (fst r)) t + topic_count t rows"
  by (simp add: topic_count_def)

lemma update_topics_eq: "update_topics f ts t = f t + count_list ts t"
  unfolding update_topics_def by (induction ts arbitrary: f) auto

lemma items_of_open_more [simp]: "items_of (open_more b st) n = items_of st n"
  by (simp add: open_more_def items_of_def)

lemma open_more_simps [simp]:
  "placed (open_more b st) = placed st" "followed (open_more b st) = followed st"
  "bs_used (open_more b st) = bs_used st" "bs_topics (open_more b st) = bs_topics st"
proof -
  have "items_of (open_more b st) = items_of st" by (rule ext) simp
  then show "placed (open_more b st) = placed st" "followed (open_more b st) = followed st"
    by (simp_all only: placed_def followed_def)
qed (simp_all add: open_more_def)

lemma placed_place_mset:
  "\<not> full st name \<Longrightarrow> mset (placed (place name r st)) = mset (r # placed st)"
  by (cases name) (simp_all add: placed_def section_order_def items_of_place)

lemma followed_place_mset:
  "\<not> full st name \<Longrightarrow> name \<noteq> Discovery \<Longrightarrow> mset (followed (place name r st)) = mset (r # followed st)"
  by (cases name) (simp_all add: followed_def items_of_place)

lemma followed_place_discovery: "followed (place Discovery r st) = followed st"
  by (simp add: followed_def items_of_place)

text \<open>The bookkeeping of the builder: the ids are the ids placed, the counters count them.\<close>

definition books_ok :: "row list \<Rightarrow> builder_state \<Rightarrow> bool" where
  "books_ok ranked st \<longleftrightarrow> distinct (map row_id (placed st))
     \<and> bs_used st = row_id ` set (placed st) \<and> set (placed st) \<subseteq> set ranked
     \<and> (\<forall>t. bs_topics st t = topic_count t (placed st))"

definition sections_ok :: "builder_state \<Rightarrow> bool" where
  "sections_ok st \<longleftrightarrow> (\<forall>name. length (items_of st name) \<le> sec_max_items (bs_sections st name)
     \<and> (\<forall>r \<in> set (items_of st name). section_test name r))"

definition topics_ok :: "nat \<Rightarrow> builder_state \<Rightarrow> bool" where
  "topics_ok cap st \<longleftrightarrow> (\<forall>t. topic_count t (followed st) \<le> cap)"

lemma books_ok_put:
  assumes "books_ok ranked st" "r \<in> set ranked" "row_id r \<notin> bs_used st" "\<not> full st name"
  shows "books_ok ranked (place name r st)"
proof -
  have ms: "mset (placed (place name r st)) = mset (r # placed st)"
    using assms(4) by (rule placed_place_mset)
  then have "mset (map row_id (placed (place name r st))) = mset (map row_id (r # placed st))"
    by simp
  then have "distinct (map row_id (placed (place name r st))) = distinct (map row_id (r # placed st))"
    by (rule mset_eq_imp_distinct_iff)
  moreover have "set (placed (place name r st)) = set (r # placed st)"
    using ms by (rule mset_eq_setD)
  moreover have "topic_count t (placed (place name r st))
      = count_list (ci_topic_clusters (fst r)) t + topic_count t (placed st)" for t
    using topic_count_mset [OF ms] by (simp add: topic_count_Cons)
  ultimately show ?thesis
    using assms by (simp add: books_ok_def place_not_full update_topics_eq)
qed

lemma sections_ok_put:
  assumes "sections_ok st" "section_test name r" "\<not> full st name"
  shows "sections_ok (place name r st)"
  using assms
  by (simp add: sections_ok_def place_not_full items_of_def full_def section_full_def)

lemma topics_ok_put:
  assumes "topics_ok cap st" "books_ok ranked st" "\<not> full st name" "may_place cap name r st"
    "distinct (ci_topic_clusters (fst r))"
  shows "topics_ok cap (place name r st)"
proof (cases "name = Discovery")
  case True
  then show ?thesis using assms(1) by (simp add: topics_ok_def followed_place_discovery)
next
  case False
  have "topic_count t (followed (place name r st)) \<le> cap" for t
  proof -
    have "topic_count t (followed (place name r st))
        = count_list (ci_topic_clusters (fst r)) t + topic_count t (followed st)"
      using topic_count_mset [OF followed_place_mset [OF assms(3) False]]
      by (simp add: topic_count_Cons)
    moreover have "topic_count t (followed st) < cap" if "t \<in> set (ci_topic_clusters (fst r))"
    proof -
      have "topic_count t (followed st) \<le> bs_topics st t"
        using assms(2) by (simp add: books_ok_def placed_followed topic_count_append)
      also have "\<dots> < cap"
        using assms(4) False that by (simp add: may_place_def check_saturation_def list_all_iff)
      finally show ?thesis .
    qed
    moreover have "count_list (ci_topic_clusters (fst r)) t
        = (if t \<in> set (ci_topic_clusters (fst r)) then 1 else 0)"
      using assms(5) by (rule count_list_distinct)
    ultimately show ?thesis
      using assms(1) by (cases "t \<in> set (ci_topic_clusters (fst r))") (simp_all add: topics_ok_def)
  qed
  then show ?thesis by (simp add: topics_ok_def)
qed

lemma sections_ok_widen: "sections_ok st \<Longrightarrow> items_of st More = [] \<Longrightarrow> sections_ok (open_more b st)"
  by (auto simp: sections_ok_def open_more_def items_of_def)

lemma place_step_books:
  "place_step cap ranked st st' \<Longrightarrow> books_ok ranked st \<Longrightarrow> books_ok ranked st'"
  by (erule place_stepE) (simp_all add: books_ok_put, simp add: books_ok_def)

lemma place_step_sections: "place_step cap ranked st st' \<Longrightarrow> sections_ok st \<Longrightarrow> sections_ok st'"
  by (erule place_stepE) (simp_all add: sections_ok_put sections_ok_widen may_place_def)

lemma place_step_topics:
  assumes "place_step cap ranked st st'" "topics_ok cap st" "books_ok ranked st"
    "\<forall>r \<in> set ranked. distinct (ci_topic_clusters (fst r))"
  shows "topics_ok cap st'"
  using assms by (elim place_stepE) (simp_all add: topics_ok_put, simp add: topics_ok_def)

lemma initial_ok:
  "books_ok ranked (initial_state b)" "sections_ok (initial_state b)" "topics_ok cap (initial_state b)"
proof -
  have "items_of (initial_state b) n = []" for n
    by (simp add: items_of_def initial_state_def initial_sections_def)
  moreover from this have "placed (initial_state b) = []" "followed (initial_state b) = []"
    by (simp_all add: placed_def followed_def)
  ultimately show "books_ok ranked (initial_state b)" "sections_ok (initial_state b)"
    "topics_ok cap (initial_state b)"
    by (simp_all add: books_ok_def sections_ok_def topics_ok_def topic_count_def initial_state_def)
qed

lemma build_ok:
  assumes "distinct (map row_id ranked)"
  shows "books_ok ranked (build b ranked)" "sections_ok (build b ranked)"
proof -
  have "(place_step cap ranked)\<^sup>*\<^sup>* st st' \<Longrightarrow> books_ok ranked st \<and> sections_ok st
      \<Longrightarrow> books_ok ranked st' \<and> sections_ok st'" for cap st st'
    by (induction rule: rtranclp_induct) (auto dest: place_step_books place_step_sections)
  with build_steps [OF assms] initial_ok
  show "books_ok ranked (build b ranked)" "sections_ok (build b ranked)" by blast+
qed

subsection \<open>A concrete digest\<close>

definition sample_rows :: "row list" where
  "sample_rows = [(blank_item 1, 0.9, empty_breakdown), (blank_item 2, 0.8, empty_breakdown),
     (blank_item 3, 0.7, empty_breakdown),
     ((blank_item 4)\<lparr>ci_creator_platform_id := Some 9\<rparr>, 0.6, empty_breakdown),
     ((blank_item 5)\<lparr>ci_reading_time_minutes := Some 10\<rparr>, 0.5, empty_breakdown),
     ((blank_item 6)\<lparr>ci_origin := FromDiscovery\<rparr>, 0.4, empty_breakdown)]"

lemma sample_layout:
  "map row_id (placed (build (new_section_builder 5 15 0.3) sample_rows)) = [1, 2, 3, 4, 5, 6]"
  by code_simp

lemma sample_rows_ok:
  "distinct (map row_id sample_rows)"
  "list_all (\<lambda>r. distinct (ci_topic_clusters (fst r))) sample_rows"
  by code_simp+

text \<open>A target of five items, the least the length learner sets, gives a digest of six: the
  capacities of the four sections filled before the last one add up to six.\<close>

lemma five_item_digest_has_six:
  "sb_total_items (new_section_builder 5 15 0.3) = 5
    \<and> length (placed (build (new_section_builder 5 15 0.3) sample_rows)) = 6"
  using arg_cong [OF sample_layout, of length] by (simp add: new_section_builder_def)

text \<open>A second discovery item, when the discovery section has room for one, leads the digest: only
  the loop of the section More asks that a row is not a discovery candidate.\<close>

definition overflow_rows :: "row list" where
  "overflow_rows = map (\<lambda>n. ((blank_item n)\<lparr>ci_origin := FromDiscovery\<rparr>, 0.5, empty_breakdown)) [1, 2]"

lemma discovery_item_leads:
  "list_all is_discovery_eligible overflow_rows
    \<and> map row_id (items_of (build (new_section_builder 5 15 0.3) overflow_rows) Lead) = [2]
    \<and> map row_id (items_of (build (new_section_builder 5 15 0.3) overflow_rows) Discovery) = [1]"
  by code_simp

subsection \<open>What the layout promises\<close>

text \<open>A digest shows every item at most once, only items it was given, no section above its
  capacity, and every item in a section satisfies the section's test: in particular exploration
  items never lead.\<close>

theorem build_layout:
  assumes "distinct (map row_id ranked)"
  shows "distinct (map row_id (placed (build b ranked)))
    \<and> set (placed (build b ranked)) \<subseteq> set ranked
    \<and> (\<forall>name. length (items_of (build b ranked) name) \<le> sec_max_items (bs_sections (build b ranked) name))
    \<and> (\<forall>name. list_all (section_test name) (items_of (build b ranked) name))"
  using build_ok [OF assms] by (simp add: books_ok_def sections_ok_def list_all_iff)

theorem build_layout_witness:
  "distinct (map row_id (placed (build (new_section_builder 5 15 0.3) sample_rows)))"
  using build_layout [OF sample_rows_ok(1), of "new_section_builder 5 15 0.3"] by simp



text \<open>In the sections of followed items no topic is shown more often than its cap, whatever
  discovery does, when no item lists a topic twice.\<close>

theorem build_topic_cap:
  assumes "distinct (map row_id ranked)"
    "list_all (\<lambda>r. distinct (ci_topic_clusters (fst r))) ranked"
  shows "topic_count t (followed (build b ranked)) \<le> max_per_topic b"
proof -
  have "(place_step (max_per_topic b) ranked)\<^sup>*\<^sup>* st st'
      \<Longrightarrow> books_ok ranked st \<and> topics_ok (max_per_topic b) st
      \<Longrightarrow> books_ok ranked st' \<and> topics_ok (max_per_topic b) st'" for st st'
    by (induction rule: rtranclp_induct)
      (use assms(2) in \<open>auto simp: list_all_iff dest: place_step_books place_step_topics\<close>)
  with build_steps [OF assms(1)] initial_ok have "topics_ok (max_per_topic b) (build b ranked)" by blast
  then show ?thesis by (simp add: topics_ok_def)
qed

theorem build_topic_cap_witness:
  "topic_count ''ai'' (followed (build (new_section_builder 5 15 0.3) sample_rows))
    \<le> max_per_topic (new_section_builder 5 15 0.3)"
  by (rule build_topic_cap [OF sample_rows_ok])

lemma items_of_fill_more: "n \<noteq> More \<Longrightarrow> items_of (fill_more cap st rows) n = items_of st n"
  by (induction rows arbitrary: st) (simp_all add: items_of_place)

lemma capacity_place [simp]:
  "sec_max_items (bs_sections (place name r st) n) = sec_max_items (bs_sections st n)"
  by (cases "full st name") (simp_all add: place_not_full)

lemma capacity_loops [simp]:
  "sec_max_items (bs_sections (fill_discovery st rows) n) = sec_max_items (bs_sections st n)"
  "sec_max_items (bs_sections (fill_section cap name e st rows) n) = sec_max_items (bs_sections st n)"
  "sec_max_items (bs_sections (emit_creators cap st rows) n) = sec_max_items (bs_sections st n)"
  "sec_max_items (bs_sections (fill_more cap st rows) n) = sec_max_items (bs_sections st n)"
  by (induction rows arbitrary: st) (simp_all add: Let_def)

text \<open>The state in which the section More is opened.\<close>

definition before_more :: "section_builder \<Rightarrow> row list \<Rightarrow> builder_state" where
  "before_more b ranked =
     (let cap = max_per_topic b;
          st = fill_section cap Lead is_lead_eligible (fill_discovery (initial_state b) ranked) ranked
      in fill_section cap DeepReads is_deep_read_eligible (fill_creators cap st ranked) ranked)"

lemma build_before_more:
  "build b ranked = fill_more (max_per_topic b) (open_more b (before_more b ranked)) ranked"
  by (simp add: build_def before_more_def Let_def)

lemma before_more_empty: "items_of (before_more b ranked) More = []"
  by (simp add: before_more_def Let_def fill_creators_def more_untouched)
    (simp add: items_of_def initial_state_def initial_sections_def)

lemma length_placed:
  "length (placed st) = length (items_of st Lead) + length (items_of st Creators)
     + length (items_of st DeepReads) + length (items_of st More) + length (items_of st Discovery)"
  by (simp add: placed_def section_order_def)

lemma build_length:
  "length (placed (build b ranked))
    = length (placed (before_more b ranked)) + length (items_of (build b ranked) More)"
  by (simp add: length_placed build_before_more items_of_fill_more before_more_empty)

lemma capacity_open_more:
  "sec_max_items (bs_sections (open_more b st) More) = nat (sb_total_items b - int (length (placed st)))"
  "n \<noteq> More \<Longrightarrow> sec_max_items (bs_sections (open_more b st) n) = sec_max_items (bs_sections st n)"
  by (simp_all add: open_more_def)

lemma capacity_before_more:
  "sec_max_items (bs_sections (before_more b ranked) n) = sec_max_items (initial_sections b n)"
  unfolding before_more_def Let_def fill_creators_def capacity_loops by (simp add: initial_state_def)

lemma build_more_capacity:
  "sec_max_items (bs_sections (build b ranked) More)
    = nat (sb_total_items b - int (length (placed (before_more b ranked))))"
  unfolding build_before_more capacity_loops capacity_open_more by (rule refl)

lemma build_capacity:
  "n \<noteq> More \<Longrightarrow> sec_max_items (bs_sections (build b ranked) n) = sec_max_items (initial_sections b n)"
  unfolding build_before_more capacity_loops
  by (rule trans [OF capacity_open_more(2) capacity_before_more])

lemma build_size_max:
  assumes "distinct (map row_id ranked)"
  shows "length (placed (build b ranked))
    \<le> max (nat (sb_total_items b)) (sec_max_items (initial_sections b Lead)
        + sec_max_items (initial_sections b Creators) + sec_max_items (initial_sections b DeepReads)
        + sec_max_items (initial_sections b Discovery))"
proof -
  let ?st = "build b ranked"
  have cap: "length (items_of ?st n) \<le> sec_max_items (bs_sections ?st n)" for n
    using build_ok(2) [OF assms] by (simp add: sections_ok_def)
  have more: "length (items_of ?st More)
      \<le> nat (sb_total_items b - int (length (placed (before_more b ranked))))"
    using cap [of More] by (simp only: build_more_capacity)
  have others: "length (items_of ?st n) \<le> sec_max_items (initial_sections b n)" if "n \<noteq> More" for n
    using cap [of n] build_capacity [OF that] by (simp only:)
  show ?thesis
  proof (cases "length (items_of ?st More) = 0")
    case True
    then show ?thesis
      using others [of Lead] others [of Creators] others [of DeepReads] others [of Discovery]
      unfolding length_placed by simp
  next
    case False
    with more show ?thesis unfolding build_length by linarith
  qed
qed

lemma py_round_upper: "x < of_int m + 1 / 2 \<Longrightarrow> py_round x \<le> m"
  using py_round_near [of x] by linarith

lemma capacities:
  assumes "6 \<le> n" "b = new_section_builder n pct m"
  shows "int (sec_max_items (initial_sections b Lead)) \<le> max 3 (min 5 (py_round (real_of_int n * 0.35)))"
    "int (sec_max_items (initial_sections b Creators)) = max 1 (n div 4)"
    "int (sec_max_items (initial_sections b DeepReads)) = max 1 (n div 5)"
    "int (sec_max_items (initial_sections b Discovery)) = max 1 \<lceil>real_of_int (n * pct) / 100\<rceil>"
  using assms(1) by (auto simp: assms(2) initial_sections_def new_section_builder_def max_def min_def)

lemma lead_capacity_small:
  assumes "6 \<le> n" "b = new_section_builder n pct m"
  shows "n \<le> 9 \<Longrightarrow> int (sec_max_items (initial_sections b Lead)) \<le> 3"
    "n \<le> 12 \<Longrightarrow> int (sec_max_items (initial_sections b Lead)) \<le> 4"
    "int (sec_max_items (initial_sections b Lead)) \<le> 5"
proof -
  note le = capacities(1) [OF assms]
  show "int (sec_max_items (initial_sections b Lead)) \<le> 5" using le by linarith
  show "int (sec_max_items (initial_sections b Lead)) \<le> 3" if "n \<le> 9"
  proof -
    have "real_of_int n \<le> 9" using that by simp
    then have "real_of_int n * 0.35 < of_int 3 + 1 / 2" by simp
    from le py_round_upper [OF this] show ?thesis by linarith
  qed
  show "int (sec_max_items (initial_sections b Lead)) \<le> 4" if "n \<le> 12"
  proof -
    have "real_of_int n \<le> 12" using that by simp
    then have "real_of_int n * 0.35 < of_int 4 + 1 / 2" by simp
    from le py_round_upper [OF this] show ?thesis by linarith
  qed
qed

lemma discovery_capacity:
  assumes "6 \<le> n" "pct \<le> 15" "b = new_section_builder n pct m"
  shows "100 * int (sec_max_items (initial_sections b Discovery)) \<le> max 100 (15 * n + 99)"
proof -
  have "n * pct \<le> n * 15" using assms(1,2) by (intro mult_left_mono) simp_all
  moreover have "real_of_int \<lceil>real_of_int (n * pct) / 100\<rceil> < real_of_int (n * pct) / 100 + 1"
    by linarith
  then have "real_of_int (100 * \<lceil>real_of_int (n * pct) / 100\<rceil>) < real_of_int (n * pct + 100)" by simp
  then have "100 * \<lceil>real_of_int (n * pct) / 100\<rceil> < n * pct + 100" by (simp only: of_int_less_iff)
  ultimately have "100 * \<lceil>real_of_int (n * pct) / 100\<rceil> \<le> 15 * n + 99" by linarith
  with assms(1) show ?thesis unfolding capacities(4) [OF assms(1,3)] by (simp add: max_def)
qed

lemma capacities_fit:
  assumes "6 \<le> n" "pct \<le> 15" "b = new_section_builder n pct m"
  shows "int (sec_max_items (initial_sections b Lead) + sec_max_items (initial_sections b Creators)
    + sec_max_items (initial_sections b DeepReads) + sec_max_items (initial_sections b Discovery)) \<le> n"
proof -
  note c = capacities(2,3) [OF assms(1,3)]
  note l = lead_capacity_small [OF assms(1,3)]
  have d: "100 * int (sec_max_items (initial_sections b Discovery)) \<le> 15 * n + 99"
    using discovery_capacity [OF assms] assms(1) by linarith
  consider "n = 6" | "7 \<le> n" "n \<le> 9" | "10 \<le> n" "n \<le> 12" | "13 \<le> n" "n \<le> 14" | "15 \<le> n"
    using assms(1) by linarith
  then show ?thesis
  proof cases
    case 1
    with c d l(1) show ?thesis by simp
  next
    case 2
    then consider "n = 7" | "n = 8" | "n = 9" by linarith
    then show ?thesis by cases (use c d l(1) in simp_all)
  next
    case 3
    then consider "n = 10" | "n = 11" | "n = 12" by linarith
    then show ?thesis by cases (use c d l(2) in simp_all)
  next
    case 4
    then consider "n = 13" | "n = 14" by linarith
    then show ?thesis by cases (use c d l(3) in simp_all)
  next
    case 5
    then have "max 1 (n div 4) = n div 4" "max 1 (n div 5) = n div 5" by linarith+
    with c d l(3) 5 show ?thesis by linarith
  qed
qed

text \<open>With six or more items asked for and at most 15 per cent of serendipity, the digest is
  never longer than asked.\<close>

theorem build_size:
  assumes "distinct (map row_id ranked)" "6 \<le> n" "pct \<le> 15"
  shows "int (length (placed (build (new_section_builder n pct m) ranked))) \<le> n"
proof -
  have "sb_total_items (new_section_builder n pct m) = n" by (simp add: new_section_builder_def)
  with build_size_max [OF assms(1), of "new_section_builder n pct m"]
    capacities_fit [OF assms(2,3) refl, of m] show ?thesis by linarith
qed


theorem build_size_witness:
  "int (length (placed (build (new_section_builder 12 15 0.3) sample_rows))) \<le> 12"
  by (rule build_size [OF sample_rows_ok(1)]) simp_all

text \<open>Only growth: a row used stays used, a saturated item stays saturated.\<close>

definition grows :: "builder_state \<Rightarrow> builder_state \<Rightarrow> bool" where
  "grows st st' \<longleftrightarrow> bs_used st \<subseteq> bs_used st' \<and> (\<forall>t. bs_topics st t \<le> bs_topics st' t)"

lemma grows_place: "grows st (place name r st)"
  by (cases "full st name") (auto simp: grows_def place_not_full update_topics_eq)

lemma grows_trans: "grows a b \<Longrightarrow> grows b c \<Longrightarrow> grows a c"
  by (auto simp: grows_def intro: order_trans)

lemma grows_fill_more: "grows st (fill_more cap st rows)"
proof (induction rows arbitrary: st)
  case Nil
  then show ?case by (simp add: grows_def)
next
  case (Cons r rows)
  have "grows st (fill_more cap (place More r st) rows)"
    by (rule grows_trans [OF grows_place Cons.IH])
  with Cons.IH show ?case by (simp add: grows_def)
qed

lemma grows_saturation: "grows st st' \<Longrightarrow> check_saturation cap st' r \<Longrightarrow> check_saturation cap st r"
  unfolding grows_def check_saturation_def list_all_iff by (meson le_less_trans)

definition passed_over :: "nat \<Rightarrow> builder_state \<Rightarrow> row \<Rightarrow> bool" where
  "passed_over cap st r \<longleftrightarrow>
     row_id r \<in> bs_used st \<or> is_discovery_eligible r \<or> \<not> check_saturation cap st r"

lemma grows_passed_over: "grows st st' \<Longrightarrow> passed_over cap st r \<Longrightarrow> passed_over cap st' r"
  using grows_saturation [of st st' cap r] unfolding passed_over_def grows_def by blast

lemma fill_more_complete:
  "full (fill_more cap st rows) More \<or> list_all (passed_over cap (fill_more cap st rows)) rows"
proof (induction rows arbitrary: st)
  case Nil
  then show ?case by simp
next
  case (Cons r rows)
  show ?case
  proof (cases "full st More")
    case True
    then show ?thesis by simp
  next
    case nf: False
    show ?thesis
    proof (cases "passed_over cap st r")
      case True
      then have "fill_more cap st (r # rows) = fill_more cap st rows"
        using nf by (auto simp: passed_over_def)
      moreover have "passed_over cap (fill_more cap st rows) r"
        using True by (rule grows_passed_over [OF grows_fill_more])
      ultimately show ?thesis using Cons.IH [of st] by auto
    next
      case False
      then have "fill_more cap st (r # rows) = fill_more cap (place More r st) rows"
        using nf by (auto simp: passed_over_def)
      moreover have "passed_over cap (fill_more cap (place More r st) rows) r"
        by (rule grows_passed_over [OF grows_fill_more]) (simp add: passed_over_def bs_used_place nf)
      ultimately show ?thesis using Cons.IH [of "place More r st"] by auto
    qed
  qed
qed

text \<open>A digest shorter than its target has left out no row that could be shown: each ranked row
  is shown, is a discovery candidate, or has a topic at its cap.\<close>

theorem build_reaches_target:
  assumes "int (length (placed (build b ranked))) < sb_total_items b" "r \<in> set ranked"
  shows "passed_over (max_per_topic b) (build b ranked) r"
proof -
  have "\<not> full (build b ranked) More"
    using assms(1) build_length [of b ranked] build_more_capacity [of b ranked]
    by (simp add: full_def section_full_def items_of_def)
  with fill_more_complete [of "max_per_topic b" "open_more b (before_more b ranked)" ranked] assms(2)
  show ?thesis by (simp add: build_before_more list_all_iff)
qed

theorem build_reaches_target_witness:
  "passed_over (max_per_topic (new_section_builder 12 15 0.3))
     (build (new_section_builder 12 15 0.3) sample_rows) (hd sample_rows)"
proof (rule build_reaches_target)
  show "int (length (placed (build (new_section_builder 12 15 0.3) sample_rows)))
      < sb_total_items (new_section_builder 12 15 0.3)" by code_simp
  show "hd sample_rows \<in> set sample_rows" by (simp add: sample_rows_def)
qed

lemma rows_of_add_creator_row:
  "rows_of (add_creator_row cr cid r) c = (if c = cid then rows_of cr c @ [r] else rows_of cr c)"
  by (induction cr cid r rule: add_creator_row.induct) (auto simp: rows_of_def)

definition from_creator :: "nat \<Rightarrow> row \<Rightarrow> bool" where
  "from_creator c r \<longleftrightarrow> ci_creator_platform_id (fst r) = Some c"

definition two_each :: "creator_rows \<Rightarrow> bool" where
  "two_each cr \<longleftrightarrow> (\<forall>c. length (rows_of cr c) \<le> 2
     \<and> size (filter_mset (from_creator c) (mset (concat (map snd cr)))) = length (rows_of cr c))"

lemma two_each_add:
  assumes "two_each cr" "length (rows_of cr cid) < 2" "ci_creator_platform_id (fst r) = Some cid"
  shows "two_each (add_creator_row cr cid r)"
  using assms unfolding two_each_def add_creator_row_mset
  by (simp add: rows_of_add_creator_row from_creator_def)

lemma group_creators_two_each:
  "group_creators cap st rows cr best = (cr', best') \<Longrightarrow> two_each cr \<Longrightarrow> two_each cr'"
proof (induction rows arbitrary: cr best)
  case Nil
  then show ?case by simp
next
  case (Cons r rows)
  show ?case
  proof (cases "ci_creator_platform_id (fst r)")
    case None
    with Cons show ?thesis by simp
  next
    case (Some cid)
    show ?thesis
    proof (cases "row_id r \<in> bs_used st \<or> \<not> check_saturation cap st r \<or> 2 \<le> length (rows_of cr cid)")
      case True
      with Cons Some show ?thesis by simp
    next
      case False
      then have "two_each (add_creator_row cr cid r)"
        using Cons.prems(2) Some by (intro two_each_add) simp_all
      with Cons Some False show ?thesis by simp
    qed
  qed
qed

lemma emit_creators_items:
  "\<exists>xs. items_of (emit_creators cap st rows) Creators = items_of st Creators @ xs \<and> mset xs \<subseteq># mset rows"
proof (induction rows arbitrary: st)
  case Nil
  then show ?case by simp
next
  case (Cons r rows)
  show ?case
  proof (cases "check_saturation cap st r \<and> \<not> full st Creators")
    case True
    obtain xs where "items_of (emit_creators cap (place Creators r st) rows) Creators
        = items_of (place Creators r st) Creators @ xs" "mset xs \<subseteq># mset rows"
      using Cons.IH by blast
    with True show ?thesis by (intro exI [of _ "r # xs"]) (simp add: items_of_place)
  next
    case False
    then have "emit_creators cap st (r # rows) = emit_creators cap st rows" by auto
    with Cons.IH [of st] show ?thesis by (auto intro: submset_add_mset)
  qed
qed

lemma creators_untouched:
  "items_of (fill_discovery st rows) Creators = items_of st Creators"
  "name \<noteq> Creators \<Longrightarrow> items_of (fill_section cap name e st rows) Creators = items_of st Creators"
  by (induction rows arbitrary: st) (simp_all add: Let_def items_of_place)

lemma creator_order_two_each:
  obtains cr where "two_each cr" "mset (creator_order cap st ranked) = mset (concat (map snd cr))"
proof -
  obtain cr best where g: "group_creators cap st ranked [] (\<lambda>_. 0) = (cr, best)"
    by (cases "group_creators cap st ranked [] (\<lambda>_. 0)")
  have "two_each []" by (simp add: two_each_def rows_of_def)
  with g have "two_each cr" by (rule group_creators_two_each)
  moreover have "mset (creator_order cap st ranked) = mset (concat (map snd cr))"
    using group_creators_sound [OF g] by (intro creator_order_mset [OF g]) (simp add: grouped_def)
  ultimately show ?thesis by (rule that)
qed

text \<open>The creator section shows at most two items of one creator.\<close>

theorem build_two_per_creator:
  "length (filter (\<lambda>r. ci_creator_platform_id (fst r) = Some c) (items_of (build b ranked) Creators)) \<le> 2"
proof -
  define cap where "cap = max_per_topic b"
  define st where "st = fill_section cap Lead is_lead_eligible (fill_discovery (initial_state b) ranked) ranked"
  have none: "items_of st Creators = []"
    unfolding st_def
    by (simp add: creators_untouched) (simp add: items_of_def initial_state_def initial_sections_def)
  have "items_of (build b ranked) Creators = items_of (fill_creators cap st ranked) Creators"
    by (simp add: build_before_more items_of_fill_more before_more_def Let_def st_def cap_def creators_untouched)
  then obtain xs where xs: "items_of (build b ranked) Creators = xs"
    "mset xs \<subseteq># mset (creator_order cap st ranked)"
    using emit_creators_items [of cap st "creator_order cap st ranked"] none by (auto simp: fill_creators_def)
  obtain cr where cr: "two_each cr" "mset (creator_order cap st ranked) = mset (concat (map snd cr))"
    by (rule creator_order_two_each)
  have "length (filter (from_creator c) xs) = size (filter_mset (from_creator c) (mset xs))"
    by (metis mset_filter size_mset)
  also have "\<dots> \<le> size (filter_mset (from_creator c) (mset (concat (map snd cr))))"
    using xs(2) unfolding cr(2) by (intro size_mset_mono multiset_filter_mono)
  also have "\<dots> \<le> 2" using cr(1) by (simp add: two_each_def)
  finally show ?thesis using xs(1) by (simp add: from_creator_def [abs_def])
qed

end
