(* ===== verification/Urls.thy ===== *)
theory Urls
  imports Prelude "HOL-Library.Word"
begin

text \<open>
  The parts of Python's standard library that the network code uses: string methods, the URL
  functions of \<open>urllib.parse\<close> and the addresses of \<open>ipaddress\<close>. Strings are ASCII, so the
  Unicode checks of \<open>urllib\<close> (NFKC) have nothing to do. A \<open>ValueError\<close> is an \<open>Inl\<close>.
  Nothing here is code of the repository; the networks are those of \<open>ipaddress.py\<close>.
\<close>

unbundle bit_operations_syntax

subsection \<open>String methods\<close>

definition char_code :: "char \<Rightarrow> int" where
  "char_code c = of_char c"

definition is_alpha_char :: "char \<Rightarrow> bool" where
  "is_alpha_char c \<longleftrightarrow> (65 \<le> char_code c \<and> char_code c \<le> 90) \<or> (97 \<le> char_code c \<and> char_code c \<le> 122)"

definition is_digit_char :: "char \<Rightarrow> bool" where
  "is_digit_char c \<longleftrightarrow> 48 \<le> char_code c \<and> char_code c \<le> 57"

definition is_alnum_char :: "char \<Rightarrow> bool" where
  "is_alnum_char c \<longleftrightarrow> is_alpha_char c \<or> is_digit_char c"

definition lower_char :: "char \<Rightarrow> char" where
  "lower_char c = (if 65 \<le> char_code c \<and> char_code c \<le> 90 then char_of (char_code c + 32) else c)"

definition lower :: "string \<Rightarrow> string" where
  "lower = map lower_char"

definition is_digit_string :: "string \<Rightarrow> bool" where
  "is_digit_string s \<longleftrightarrow> s \<noteq> [] \<and> list_all is_digit_char s"

fun starts_with :: "string \<Rightarrow> string \<Rightarrow> bool" where
  "starts_with s [] = True"
| "starts_with [] (p # ps) = False"
| "starts_with (c # s) (p # ps) = (c = p \<and> starts_with s ps)"

definition ends_with :: "string \<Rightarrow> string \<Rightarrow> bool" where
  "ends_with s p = starts_with (rev s) (rev p)"

definition remove_prefix :: "string \<Rightarrow> string \<Rightarrow> string" where
  "remove_prefix s p = (if starts_with s p then drop (length p) s else s)"

definition lstrip_chars :: "(char \<Rightarrow> bool) \<Rightarrow> string \<Rightarrow> string" where
  "lstrip_chars P s = dropWhile P s"

definition rstrip_chars :: "(char \<Rightarrow> bool) \<Rightarrow> string \<Rightarrow> string" where
  "rstrip_chars P s = rev (dropWhile P (rev s))"

definition is_space_char :: "char \<Rightarrow> bool" where
  "is_space_char c \<longleftrightarrow> char_code c = 32 \<or> (9 \<le> char_code c \<and> char_code c \<le> 13)
     \<or> (28 \<le> char_code c \<and> char_code c \<le> 31)"

definition strip :: "string \<Rightarrow> string" where
  "strip s = rstrip_chars is_space_char (lstrip_chars is_space_char s)"

text \<open>\<open>s.partition(c)\<close>: what is before the first \<open>c\<close>, and what is after it if there is one.\<close>

fun partition_char :: "char \<Rightarrow> string \<Rightarrow> string \<times> string option" where
  "partition_char c [] = ([], None)"
| "partition_char c (x # s) =
     (if x = c then ([], Some s)
      else case partition_char c s of (a, b) \<Rightarrow> (x # a, b))"

text \<open>\<open>s.rpartition(c)\<close>: what is before the last \<open>c\<close>, if there is one, and what is after it.\<close>

definition rpartition_char :: "char \<Rightarrow> string \<Rightarrow> string option \<times> string" where
  "rpartition_char c s =
     (case partition_char c (rev s) of (a, b) \<Rightarrow> (map_option rev b, rev a))"

fun split_char :: "char \<Rightarrow> string \<Rightarrow> string list" where
  "split_char c [] = [[]]"
| "split_char c (x # s) =
     (if x = c then [] # split_char c s
      else case split_char c s of [] \<Rightarrow> [[x]] | p # ps \<Rightarrow> (x # p) # ps)"

fun join_with :: "string \<Rightarrow> string list \<Rightarrow> string" where
  "join_with sep [] = []"
| "join_with sep [p] = p"
| "join_with sep (p # q # ps) = p @ sep @ join_with sep (q # ps)"

lemma starts_with_append [simp]: "starts_with (p @ s) p"
  by (induction p) auto

lemma starts_with_iff: "starts_with s p \<longleftrightarrow> (\<exists>t. s = p @ t)"
  by (induction s p rule: starts_with.induct) auto

lemma split_char_not_Nil [simp]: "split_char c s \<noteq> []"
  by (induction s) (auto split: list.splits)

lemma join_split_char: "join_with [c] (split_char c s) = s"
proof (induction s)
  case Nil
  then show ?case by simp
next
  case (Cons x s)
  obtain p ps where sp: "split_char c s = p # ps"
    using split_char_not_Nil by (meson neq_Nil_conv)
  show ?case
  proof (cases "x = c")
    case True
    with Cons sp show ?thesis by simp
  next
    case False
    with Cons sp show ?thesis by (cases ps) simp_all
  qed
qed

text \<open>Shifting a word to the right divides its value.\<close>

lemma uint_drop_bit_div: "uint (drop_bit n (w :: 'a::len word)) = uint w div 2 ^ n"
  unfolding unsigned_drop_bit_eq
  by (simp only: take_bit_drop_bit drop_bit_eq_div) (simp add: take_bit_int_eq_self)

subsection \<open>Numerals\<close>

definition digit_value :: "char \<Rightarrow> int" where
  "digit_value c =
     (if is_digit_char c then char_code c - 48
      else if 97 \<le> char_code c \<and> char_code c \<le> 102 then char_code c - 87
      else if 65 \<le> char_code c \<and> char_code c \<le> 70 then char_code c - 55 else 16)"

definition is_hex_char :: "char \<Rightarrow> bool" where
  "is_hex_char c \<longleftrightarrow> digit_value c < 16"

definition digits_value :: "int \<Rightarrow> string \<Rightarrow> int" where
  "digits_value base = foldl (\<lambda>acc c. acc * base + digit_value c) 0"

definition digit_char :: "int \<Rightarrow> char" where
  "digit_char d = (if d < 10 then char_of (48 + d) else char_of (87 + d))"

function show_base :: "int \<Rightarrow> int \<Rightarrow> string" where
  "show_base base n =
     (if n < base \<or> base < 2 then [digit_char n]
      else show_base base (n div base) @ [digit_char (n mod base)])"
  by pat_completeness auto
termination
proof (relation "measure (\<lambda>(base, n). nat n)", simp)
  fix base n :: int
  assume "\<not> (n < base \<or> base < 2)"
  then have "0 < n" "1 < base" by linarith+
  then have "n div base < n" by (rule int_div_less_self)
  with \<open>0 < n\<close> show "((base, n div base), base, n) \<in> measure (\<lambda>(base, n). nat n)" by simp
qed

declare show_base.simps [simp del]

definition show_int :: "int \<Rightarrow> string" where
  "show_int n = show_base 10 n"

text \<open>\<open>int(s)\<close> of a string of digits: \<open>sys.int_max_str_digits\<close> refuses more than 4300.\<close>

definition parse_decimal :: "string \<Rightarrow> int option" where
  "parse_decimal s = (if is_digit_string s \<and> int (length s) \<le> 4300 then Some (digits_value 10 s) else None)"

text \<open>\<open>int(s)\<close>: white space around, a sign, and single underscores between digits.\<close>

definition int_of_text :: "string \<Rightarrow> int option" where
  "int_of_text s =
     (let digits = (\<lambda>t. if list_all is_digit_string (split_char CHR ''_'' t)
                        then Some (digits_value 10 (concat (split_char CHR ''_'' t))) else None)
      in case strip s of
           [] \<Rightarrow> None
         | c # t \<Rightarrow> if c = CHR ''-'' then map_option uminus (digits t) else if c = CHR ''+'' then digits t else digits (c # t))"

text \<open>\<open>int(s, 16)\<close> of a string that starts with 0x: digits with an underscore before any of them.\<close>

fun hex_digits :: "string \<Rightarrow> string option" where
  "hex_digits [] = Some []"
| "hex_digits (c # s) =
     (if is_hex_char c then map_option (Cons c) (hex_digits s)
      else if c = CHR ''_'' then
        (case s of d # s' \<Rightarrow> if is_hex_char d then map_option (Cons d) (hex_digits s') else None
         | [] \<Rightarrow> None)
      else None)"

definition parse_0x :: "string \<Rightarrow> int option" where
  "parse_0x s =
     (case hex_digits (drop 2 (strip s)) of
        Some (d # ds) \<Rightarrow> Some (digits_value 16 (d # ds))
      | _ \<Rightarrow> None)"

subsection \<open>Addresses\<close>

datatype ip_addr = V4 "32 word" | V6 "128 word" "string option"

definition parse_octet :: "string \<Rightarrow> int option" where
  "parse_octet s =
     (if \<not> is_digit_string s \<or> 3 < length s \<or> (s \<noteq> ''0'' \<and> hd s = CHR ''0'') \<or> 255 < digits_value 10 s
      then None else Some (digits_value 10 s))"

fun all_some :: "'a option list \<Rightarrow> 'a list option" where
  "all_some [] = Some []"
| "all_some (None # xs) = None"
| "all_some (Some x # xs) = map_option (Cons x) (all_some xs)"

definition parse_v4 :: "string \<Rightarrow> int option" where
  "parse_v4 s =
     (let octets = split_char (CHR ''.'') s
      in if length octets \<noteq> 4 then None
         else map_option (foldl (\<lambda>acc n. acc * 256 + n) 0) (all_some (map parse_octet octets)))"

definition parse_hextet :: "string \<Rightarrow> int option" where
  "parse_hextet s =
     (if s = [] \<or> \<not> list_all is_hex_char s \<or> 4 < length s then None else Some (digits_value 16 s))"

definition hextets_value :: "int list \<Rightarrow> int" where
  "hextets_value = foldl (\<lambda>acc n. acc * 65536 + n) 0"

text \<open>The parts of an IPv6 address with an IPv4 suffix rewritten as two hextets.\<close>

definition v6_parts :: "string \<Rightarrow> string list option" where
  "v6_parts s =
     (let parts = split_char (CHR '':'') s
      in if length parts < 3 then None
         else if CHR ''.'' \<in> set (last parts) then
           map_option (\<lambda>v. butlast parts @ [show_base 16 (v div 65536), show_base 16 (v mod 65536)])
             (parse_v4 (last parts))
         else Some parts)"

text \<open>The inner parts that are empty mark the run of zeroes; there is at most one.\<close>

definition skip_indices :: "string list \<Rightarrow> nat list" where
  "skip_indices parts = filter (\<lambda>i. parts ! i = []) [1..<length parts - 1]"

definition parse_v6 :: "string \<Rightarrow> int option" where
  "parse_v6 s =
     (case v6_parts s of
        None \<Rightarrow> None
      | Some parts \<Rightarrow>
          if 9 < length parts then None
          else case skip_indices parts of
            [] \<Rightarrow> (if length parts \<noteq> 8 then None
                   else map_option hextets_value (all_some (map parse_hextet parts)))
          | [i] \<Rightarrow>
              (let hi = (if hd parts = [] then i - 1 else i);
                   lo = (if last parts = [] then length parts - i - 2 else length parts - i - 1)
               in if (hd parts = [] \<and> hi \<noteq> 0) \<or> (last parts = [] \<and> lo \<noteq> 0) \<or> 8 < hi + lo + 1 then None
                  else map_option hextets_value (all_some
                    (map parse_hextet (take hi parts) @ replicate (8 - (hi + lo)) (Some 0)
                     @ map parse_hextet (drop (length parts - lo) parts))))
          | _ \<Rightarrow> None)"

text \<open>\<open>ip_address\<close> of a text and of a number.\<close>

definition ip_address :: "string \<Rightarrow> ip_addr option" where
  "ip_address s =
     (if CHR ''/'' \<in> set s then None
      else case parse_v4 s of
        Some n \<Rightarrow> Some (V4 (of_int n))
      | None \<Rightarrow>
          (case partition_char (CHR ''%'') s of (addr, scope) \<Rightarrow>
             if some_and scope (\<lambda>z. z = [] \<or> CHR ''%'' \<in> set z) then None
             else map_option (\<lambda>n. V6 (of_int n) scope) (parse_v6 addr)))"

definition ip_of_int :: "int \<Rightarrow> ip_addr option" where
  "ip_of_int n =
     (if n < 2 ^ 32 then Some (V4 (of_int n))
      else if n < 2 ^ 128 then Some (V6 (of_int n) None) else None)"

definition in_network :: "nat \<Rightarrow> ('a::len) word \<times> nat \<Rightarrow> 'a word \<Rightarrow> bool" where
  "in_network width net x \<longleftrightarrow> drop_bit (width - snd net) x = drop_bit (width - snd net) (fst net)"

definition v4 :: "int \<Rightarrow> int \<Rightarrow> int \<Rightarrow> int \<Rightarrow> 32 word" where
  "v4 a b c d = of_int (((a * 256 + b) * 256 + c) * 256 + d)"

definition v4_private :: "(32 word \<times> nat) list" where
  "v4_private = [(v4 0 0 0 0, 8), (v4 10 0 0 0, 8), (v4 127 0 0 0, 8), (v4 169 254 0 0, 16),
     (v4 172 16 0 0, 12), (v4 192 0 0 0, 24), (v4 192 0 0 170, 31), (v4 192 0 2 0, 24),
     (v4 192 168 0 0, 16), (v4 198 18 0 0, 15), (v4 198 51 100 0, 24), (v4 203 0 113 0, 24),
     (v4 240 0 0 0, 4), (v4 255 255 255 255, 32)]"

definition v4_private_exceptions :: "(32 word \<times> nat) list" where
  "v4_private_exceptions = [(v4 192 0 0 9, 32), (v4 192 0 0 10, 32)]"

definition v6 :: "int list \<Rightarrow> 128 word" where
  "v6 hs = of_int (hextets_value (hs @ replicate (8 - length hs) 0))"

definition v6_private :: "(128 word \<times> nat) list" where
  "v6_private = [(v6 [0,0,0,0,0,0,0,1], 128), (v6 [], 128), (v6 [0,0,0,0,0,0xFFFF], 96),
     (v6 [0x64, 0xFF9B, 1], 48), (v6 [0x100], 64), (v6 [0x2001], 23), (v6 [0x2001, 0xDB8], 32),
     (v6 [0x2002], 16), (v6 [0xFC00], 7), (v6 [0xFE80], 10)]"

definition v6_private_exceptions :: "(128 word \<times> nat) list" where
  "v6_private_exceptions = [(v6 [0x2001,1,0,0,0,0,0,1], 128), (v6 [0x2001,1,0,0,0,0,0,2], 128),
     (v6 [0x2001, 3], 32), (v6 [0x2001, 4, 0x112], 48), (v6 [0x2001, 0x20], 28), (v6 [0x2001, 0x30], 28)]"

definition v6_reserved :: "(128 word \<times> nat) list" where
  "v6_reserved = [(v6 [], 8), (v6 [0x100], 8), (v6 [0x200], 7), (v6 [0x400], 6), (v6 [0x800], 5),
     (v6 [0x1000], 4), (v6 [0x4000], 3), (v6 [0x6000], 3), (v6 [0x8000], 3), (v6 [0xA000], 3),
     (v6 [0xC000], 3), (v6 [0xE000], 4), (v6 [0xF000], 5), (v6 [0xF800], 6), (v6 [0xFE00], 9)]"

definition in_any :: "nat \<Rightarrow> (('a::len) word \<times> nat) list \<Rightarrow> 'a word \<Rightarrow> bool" where
  "in_any width nets x \<longleftrightarrow> list_ex (\<lambda>net. in_network width net x) nets"

definition v4_is_private :: "32 word \<Rightarrow> bool" where
  "v4_is_private x \<longleftrightarrow> in_any 32 v4_private x \<and> \<not> in_any 32 v4_private_exceptions x"

definition ipv4_mapped :: "128 word \<Rightarrow> 32 word option" where
  "ipv4_mapped x = (if drop_bit 32 x = 0xFFFF then Some (ucast x) else None)"

fun is_private :: "ip_addr \<Rightarrow> bool" where
  "is_private (V4 x) = v4_is_private x"
| "is_private (V6 x z) =
     (case ipv4_mapped x of Some m \<Rightarrow> v4_is_private m
      | None \<Rightarrow> in_any 128 v6_private x \<and> \<not> in_any 128 v6_private_exceptions x)"

fun is_loopback :: "ip_addr \<Rightarrow> bool" where
  "is_loopback (V4 x) = in_network 32 (v4 127 0 0 0, 8) x"
| "is_loopback (V6 x z) = (x = 1)"

fun is_link_local :: "ip_addr \<Rightarrow> bool" where
  "is_link_local (V4 x) = in_network 32 (v4 169 254 0 0, 16) x"
| "is_link_local (V6 x z) = in_network 128 (v6 [0xFE80], 10) x"

fun is_reserved :: "ip_addr \<Rightarrow> bool" where
  "is_reserved (V4 x) = in_network 32 (v4 240 0 0 0, 4) x"
| "is_reserved (V6 x z) = in_any 128 v6_reserved x"

fun is_multicast :: "ip_addr \<Rightarrow> bool" where
  "is_multicast (V4 x) = in_network 32 (v4 224 0 0 0, 4) x"
| "is_multicast (V6 x z) = in_network 128 (v6 [0xFF00], 8) x"

fun is_unspecified :: "ip_addr \<Rightarrow> bool" where
  "is_unspecified (V4 x) = (x = 0)"
| "is_unspecified (V6 x z) = (x = 0)"

fun is_global :: "ip_addr \<Rightarrow> bool" where
  "is_global (V4 x) = (\<not> in_network 32 (v4 100 64 0 0, 10) x \<and> \<not> v4_is_private x)"
| "is_global (V6 x z) = (\<not> is_private (V6 x z))"

text \<open>\<open>str(ip)\<close>: the longest run of two or more zero hextets is written as two colons.\<close>

definition v6_hextets :: "128 word \<Rightarrow> int list" where
  "v6_hextets x = map (\<lambda>i. uint x div 65536 ^ (7 - i) mod 65536) [0..<8]"

definition zero_run :: "int list \<Rightarrow> nat \<Rightarrow> nat" where
  "zero_run hs i = length (takeWhile (\<lambda>h. h = 0) (drop i hs))"

definition best_run :: "int list \<Rightarrow> nat \<times> nat" where
  "best_run hs = foldl (\<lambda>(s, l) i. if l < zero_run hs i then (i, zero_run hs i) else (s, l)) (0, 0) [0..<8]"

fun show_ip :: "ip_addr \<Rightarrow> string" where
  "show_ip (V4 x) =
     join_with ''.'' (map (\<lambda>i. show_int (uint x div 256 ^ (3 - i) mod 256)) [0..<4])"
| "show_ip (V6 x z) =
     (let hs = v6_hextets x; (s, l) = best_run hs; text = map (show_base 16) hs
      in (if l \<le> 1 then join_with '':'' text
          else join_with '':'' (take s text) @ ''::'' @ join_with '':'' (drop (s + l) text))
         @ (case z of None \<Rightarrow> [] | Some scope \<Rightarrow> CHR ''%'' # scope))"

subsection \<open>URLs\<close>

record url_parts =
  up_scheme :: string
  up_netloc :: string
  up_path :: string
  up_params :: string
  up_query :: string
  up_fragment :: string

definition is_scheme_char :: "char \<Rightarrow> bool" where
  "is_scheme_char c \<longleftrightarrow> is_alnum_char c \<or> c \<in> set ''+-.''"

definition is_c0_or_space :: "char \<Rightarrow> bool" where
  "is_c0_or_space c \<longleftrightarrow> char_code c \<le> 32"

definition clean_url :: "string \<Rightarrow> string" where
  "clean_url url = filter (\<lambda>c. char_code c \<notin> {9, 10, 13}) (lstrip_chars is_c0_or_space url)"

definition split_scheme :: "string \<Rightarrow> string \<Rightarrow> string \<times> string" where
  "split_scheme dflt url =
     (case partition_char (CHR '':'') url of
        (pre, Some rest) \<Rightarrow>
          if pre \<noteq> [] \<and> is_alpha_char (hd pre) \<and> list_all is_scheme_char pre
          then (lower pre, rest) else (dflt, url)
      | (pre, None) \<Rightarrow> (dflt, url))"

definition split_netloc :: "string \<Rightarrow> string \<times> string" where
  "split_netloc url =
     (if starts_with url ''//'' then
        (takeWhile (\<lambda>c. c \<notin> set ''/?#'') (drop 2 url), dropWhile (\<lambda>c. c \<notin> set ''/?#'') (drop 2 url))
      else ([], url))"

definition is_ipvfuture :: "string \<Rightarrow> bool" where
  "is_ipvfuture h \<longleftrightarrow>
     (case partition_char (CHR ''.'') (drop 1 h) of
        (v, Some rest) \<Rightarrow> v \<noteq> [] \<and> list_all is_hex_char v \<and> rest \<noteq> []
      | _ \<Rightarrow> False)"

definition brackets_ok :: "string \<Rightarrow> bool" where
  "brackets_ok netloc \<longleftrightarrow>
     (CHR ''['' \<in> set netloc \<longleftrightarrow> CHR '']'' \<in> set netloc) \<and>
     (case partition_char (CHR ''['') netloc of
        (_, None) \<Rightarrow> True
      | (_, Some bracketed) \<Rightarrow>
          let h = fst (partition_char (CHR '']'') bracketed)
          in if starts_with h ''v'' then is_ipvfuture h
             else case ip_address h of Some (V6 _ _) \<Rightarrow> True | _ \<Rightarrow> False)"

definition uses_params :: "string list" where
  "uses_params = [[], ''ftp'', ''hdl'', ''prospero'', ''http'', ''imap'', ''https'', ''shttp'', ''rtsp'',
     ''rtsps'', ''rtspu'', ''sip'', ''sips'', ''mms'', ''sftp'', ''tel'']"

definition uses_relative :: "string list" where
  "uses_relative = [[], ''ftp'', ''http'', ''gopher'', ''nntp'', ''imap'', ''wais'', ''file'', ''https'',
     ''shttp'', ''mms'', ''prospero'', ''rtsp'', ''rtsps'', ''rtspu'', ''sftp'', ''svn'', ''svn+ssh'', ''ws'', ''wss'']"

definition uses_netloc :: "string list" where
  "uses_netloc = [[], ''ftp'', ''http'', ''gopher'', ''nntp'', ''telnet'', ''imap'', ''wais'', ''file'', ''mms'',
     ''https'', ''shttp'', ''snews'', ''prospero'', ''rtsp'', ''rtsps'', ''rtspu'', ''rsync'', ''svn'',
     ''svn+ssh'', ''sftp'', ''nfs'', ''git'', ''git+ssh'', ''ws'', ''wss'']"

text \<open>\<open>_splitparams\<close>: the parameters of the last segment of the path.\<close>

definition split_params :: "string \<Rightarrow> string \<times> string" where
  "split_params url =
     (case rpartition_char (CHR ''/'') url of
        (None, seg) \<Rightarrow> (case partition_char (CHR '';'') seg of (p, q) \<Rightarrow> (p, or_default q []))
      | (Some dir, seg) \<Rightarrow>
          (case partition_char (CHR '';'') seg of (p, q) \<Rightarrow> (dir @ CHR ''/'' # p, or_default q [])))"

definition urlparse_with :: "string \<Rightarrow> string \<Rightarrow> py_error + url_parts" where
  "urlparse_with dflt url =
     (let (scheme, rest) = split_scheme dflt (clean_url url);
          (netloc, rest) = split_netloc rest
      in if \<not> brackets_ok netloc then Inl ValueError
         else
           let (rest, fragment) = partition_char (CHR ''#'') rest;
               (path, query) = partition_char (CHR ''?'') rest;
               (path, params) =
                 (if scheme \<in> set uses_params \<and> CHR '';'' \<in> set path then split_params path else (path, []))
           in Inr \<lparr>up_scheme = scheme, up_netloc = netloc, up_path = path, up_params = params,
                up_query = or_default query [], up_fragment = or_default fragment []\<rparr>)"

definition urlparse :: "string \<Rightarrow> py_error + url_parts" where
  "urlparse = urlparse_with []"

definition urlunparse :: "url_parts \<Rightarrow> string" where
  "urlunparse u =
     (let path = (if up_params u \<noteq> [] then up_path u @ CHR '';'' # up_params u else up_path u);
          s = (if up_netloc u \<noteq> [] \<or> (up_scheme u \<noteq> [] \<and> up_scheme u \<in> set uses_netloc) \<or> starts_with path ''//''
               then ''//'' @ up_netloc u
                 @ (if path \<noteq> [] \<and> \<not> starts_with path ''/'' then CHR ''/'' # path else path)
               else path);
          s = (if up_scheme u \<noteq> [] then up_scheme u @ CHR '':'' # s else s);
          s = (if up_query u \<noteq> [] then s @ CHR ''?'' # up_query u else s)
      in if up_fragment u \<noteq> [] then s @ CHR ''#'' # up_fragment u else s)"

definition userinfo :: "string \<Rightarrow> string \<times> string" where
  "userinfo netloc =
     (case rpartition_char (CHR ''@'') netloc of
        (None, _) \<Rightarrow> ([], [])
      | (Some info, _) \<Rightarrow> (case partition_char (CHR '':'') info of (u, p) \<Rightarrow> (u, or_default p [])))"

text \<open>The host without its brackets, and the text of the port if there is one; an empty text
  after the colon counts as no port.\<close>

definition some_port :: "string option \<Rightarrow> string option" where
  "some_port p = (if p = Some [] then None else p)"

definition hostinfo :: "string \<Rightarrow> string \<times> string option" where
  "hostinfo netloc =
     (let h = snd (rpartition_char (CHR ''@'') netloc)
      in case partition_char (CHR ''['') h of
           (_, Some bracketed) \<Rightarrow>
             (case partition_char (CHR '']'') bracketed of (host, rest) \<Rightarrow>
                (host, some_port (snd (partition_char (CHR '':'') (or_default rest [])))))
         | (_, None) \<Rightarrow>
             (case partition_char (CHR '':'') h of (host, port) \<Rightarrow> (host, some_port port)))"

text \<open>\<open>.hostname\<close>: lower case up to a zone; \<open>None\<close> when empty.\<close>

definition hostname :: "url_parts \<Rightarrow> string option" where
  "hostname u =
     (let h = fst (hostinfo (up_netloc u))
      in if h = [] then None
         else case partition_char (CHR ''%'') h of
           (host, None) \<Rightarrow> Some (lower host)
         | (host, Some zone) \<Rightarrow> Some (lower host @ CHR ''%'' # zone))"

definition port :: "url_parts \<Rightarrow> py_error + int option" where
  "port u =
     (case snd (hostinfo (up_netloc u)) of
        None \<Rightarrow> Inr None
      | Some p \<Rightarrow>
          (case parse_decimal p of
             Some n \<Rightarrow> if n \<le> 65535 then Inr (Some n) else Inl ValueError
           | None \<Rightarrow> Inl ValueError))"

definition resolve_segment :: "string list \<Rightarrow> string \<Rightarrow> string list" where
  "resolve_segment acc seg =
     (if seg = ''..'' then butlast acc else if seg = ''.'' then acc else acc @ [seg])"

definition join_segments :: "string \<Rightarrow> string \<Rightarrow> string list" where
  "join_segments base_path path =
     (let base_parts = split_char (CHR ''/'') base_path;
          base_parts = (if last base_parts \<noteq> [] then butlast base_parts else base_parts);
          segments = base_parts @ split_char (CHR ''/'') path
      in if starts_with path ''/'' then split_char (CHR ''/'') path
         else if length segments \<le> 1 then segments
         else hd segments # filter (\<lambda>x. x \<noteq> []) (butlast (tl segments)) @ [last segments])"

definition urljoin :: "string \<Rightarrow> string \<Rightarrow> py_error + string" where
  "urljoin base url =
     (if base = [] then Inr url else if url = [] then Inr base
      else case urlparse base of Inl e \<Rightarrow> Inl e | Inr b \<Rightarrow>
           (case urlparse_with (up_scheme b) url of Inl e \<Rightarrow> Inl e | Inr u \<Rightarrow>
             if up_scheme u \<noteq> up_scheme b \<or> up_scheme u \<notin> set uses_relative then Inr url
             else if up_scheme u \<in> set uses_netloc \<and> up_netloc u \<noteq> [] then Inr (urlunparse u)
             else
               let u = (if up_scheme u \<in> set uses_netloc then u\<lparr>up_netloc := up_netloc b\<rparr> else u)
               in if up_path u = [] \<and> up_params u = [] then
                    Inr (urlunparse (u\<lparr>up_path := up_path b, up_params := up_params b,
                      up_query := (if up_query u = [] then up_query b else up_query u)\<rparr>))
                  else
                    let segments = join_segments (up_path b) (up_path u);
                        resolved = foldl resolve_segment [] segments;
                        resolved = (if last segments \<in> {''.'', ''..''} then resolved @ [[]] else resolved);
                        path = join_with ''/'' resolved
                    in Inr (urlunparse (u\<lparr>up_path := (if path = [] then ''/'' else path)\<rparr>))))"

end
