(* ===== verification/Ssrf.thy ===== *)
theory Ssrf
  imports Urls
begin

text \<open>
  The only way to a user-supplied URL: \<open>utils/ssrf.py\<close>. DNS and the HTTP transport are
  parameters; they take the number of the attempt, so they may answer differently at every call
  (DNS rebinding). \<open>fetch_loop\<close> is the loop of \<open>safe_fetch\<close>: it returns what was sent, hop by
  hop, beside the outcome, so that theorems can speak about the connections that were opened.
\<close>

subsection \<open>Addresses that must not be reached\<close>

definition range_reason :: "ip_addr \<Rightarrow> string option" where
  "range_reason ip =
     (if is_loopback ip then Some ''loopback''
      else if is_private ip then Some ''private''
      else if is_link_local ip then Some ''link-local''
      else if is_reserved ip then Some ''reserved''
      else if is_multicast ip then Some ''multicast''
      else if is_unspecified ip then Some ''unspecified''
      else if \<not> is_global ip then Some ''non-global''
      else None)"

text \<open>An IPv4 address inside an IPv6 one is unwrapped and checked again.\<close>

definition blocked_ip_reason :: "ip_addr \<Rightarrow> string option" where
  "blocked_ip_reason ip =
     (case ip of
        V6 x z \<Rightarrow> (case ipv4_mapped x of Some m \<Rightarrow> range_reason (V4 m) | None \<Rightarrow> range_reason ip)
      | V4 x \<Rightarrow> range_reason ip)"

definition literal_ip :: "string \<Rightarrow> ip_addr option" where
  "literal_ip host =
     (case ip_address host of
        Some ip \<Rightarrow> Some ip
      | None \<Rightarrow>
          if is_digit_string host then
            (case parse_decimal host of Some n \<Rightarrow> ip_of_int n | None \<Rightarrow> None)
          else if starts_with (lower host) ''0x'' then
            (case parse_0x host of Some n \<Rightarrow> ip_of_int n | None \<Rightarrow> None)
          else None)"

subsection \<open>Validation of a URL\<close>

datatype fetch_error =
    BadScheme | HasCredentials | NoHost | HostNotPermitted | BlockedAddress string
  | CannotResolve | DidNotResolve | NoAddress | Cleartext | TooLarge | TooManyRedirects
  | Malformed | TransportFailed

definition allowed_schemes :: "string list" where
  "allowed_schemes = [''http'', ''https'']"

definition blocked_hostnames :: "string list" where
  "blocked_hostnames = [''localhost'', ''metadata.google.internal'', ''metadata'']"

text \<open>Answers that are no address are passed over; one blocked answer refuses the host.\<close>

fun validate_answers :: "bool \<Rightarrow> string list \<Rightarrow> fetch_error + ip_addr list" where
  "validate_answers exempt [] = Inr []"
| "validate_answers exempt (addr # addrs) =
     (case ip_address addr of
        None \<Rightarrow> validate_answers exempt addrs
      | Some ip \<Rightarrow>
          (case (if exempt then None else blocked_ip_reason ip) of
             Some reason \<Rightarrow> Inl (BlockedAddress reason)
           | None \<Rightarrow>
               (case validate_answers exempt addrs of
                  Inl e \<Rightarrow> Inl e
                | Inr ips \<Rightarrow> Inr (ip # ips))))"

definition resolve_public ::
  "(string \<Rightarrow> string list option) \<Rightarrow> bool \<Rightarrow> string \<Rightarrow> fetch_error + ip_addr list" where
  "resolve_public resolver exempt host =
     (case resolver host of
        None \<Rightarrow> Inl CannotResolve
      | Some [] \<Rightarrow> Inl DidNotResolve
      | Some addresses \<Rightarrow>
          (case validate_answers exempt addresses of
             Inl e \<Rightarrow> Inl e
           | Inr [] \<Rightarrow> Inl NoAddress
           | Inr ips \<Rightarrow> Inr ips))"

definition validate_host ::
  "(string \<Rightarrow> string list option) \<Rightarrow> string list \<Rightarrow> string \<Rightarrow> fetch_error + ip_addr list" where
  "validate_host resolver allow_private_hosts hostname_text =
     (let host = rstrip_chars (\<lambda>c. c = CHR ''.'') hostname_text;
          lowered = lower host;
          exempt = lowered \<in> set allow_private_hosts
      in if \<not> exempt \<and> (lowered \<in> set blocked_hostnames \<or> ends_with lowered ''.localhost'')
         then Inl HostNotPermitted
         else case literal_ip lowered of
           Some ip \<Rightarrow>
             (case (if exempt then None else blocked_ip_reason ip) of
                Some reason \<Rightarrow> Inl (BlockedAddress reason)
              | None \<Rightarrow> Inr [ip])
         | None \<Rightarrow> resolve_public resolver exempt host)"

definition validate_public_url ::
  "bool \<Rightarrow> (string \<Rightarrow> string list option) \<Rightarrow> string list \<Rightarrow> string \<Rightarrow> fetch_error + ip_addr list" where
  "validate_public_url protection_enabled resolver allow_private_hosts url =
     (if \<not> protection_enabled then Inr []
      else case urlparse url of
        Inl e \<Rightarrow> Inl Malformed
      | Inr parsed \<Rightarrow>
          if lower (up_scheme parsed) \<notin> set allowed_schemes then Inl BadScheme
          else if userinfo (up_netloc parsed) \<noteq> ([], []) then Inl HasCredentials
          else case hostname parsed of
            None \<Rightarrow> Inl NoHost
          | Some host \<Rightarrow> validate_host resolver allow_private_hosts host)"

definition is_public_url :: "bool \<Rightarrow> (string \<Rightarrow> string list option) \<Rightarrow> string \<Rightarrow> bool" where
  "is_public_url protection_enabled resolver url \<longleftrightarrow>
     (case validate_public_url protection_enabled resolver [] url of Inl _ \<Rightarrow> False | Inr _ \<Rightarrow> True)"

subsection \<open>One request to a validated address\<close>

type_synonym headers = "(string \<times> string) list"

record request =
  rq_url :: string
  rq_headers :: headers
  rq_sni :: "string option"

record response =
  rs_status :: int
  rs_is_redirect :: bool
  rs_location :: "string option"
  rs_content_length :: "string option"
  rs_headers :: headers
  rs_chunks :: "string list"

definition set_default :: "string \<Rightarrow> string \<Rightarrow> headers \<Rightarrow> headers" where
  "set_default key v hs = (if key \<in> fst ` set hs then hs else hs @ [(key, v)])"

definition with_port :: "string \<Rightarrow> int option \<Rightarrow> string" where
  "with_port host p = (case p of None \<Rightarrow> host | Some n \<Rightarrow> host @ CHR '':'' # show_int n)"

definition ip_host :: "ip_addr \<Rightarrow> string" where
  "ip_host ip = (let t = show_ip ip in if CHR '':'' \<in> set t then CHR ''['' # t @ [CHR '']''] else t)"

definition pinned_request :: "string \<Rightarrow> ip_addr \<Rightarrow> headers \<Rightarrow> py_error + request" where
  "pinned_request url ip hs =
     (case urlparse url of Inl e \<Rightarrow> Inl e | Inr parsed \<Rightarrow>
       (case port parsed of Inl e \<Rightarrow> Inl e | Inr p \<Rightarrow>
         let host = or_default (hostname parsed) []
         in Inr \<lparr>rq_url = urlunparse (parsed\<lparr>up_netloc := with_port (ip_host ip) p\<rparr>),
              rq_headers = set_default ''Host'' (with_port host p) hs,
              rq_sni = (if lower (up_scheme parsed) = ''https'' then Some host else None)\<rparr>))"

text \<open>\<open>_read_capped\<close>: the declared length first, then the chunks as they arrive.\<close>

fun read_chunks :: "nat \<Rightarrow> string \<Rightarrow> string list \<Rightarrow> fetch_error + string" where
  "read_chunks max_bytes buf [] = Inr buf"
| "read_chunks max_bytes buf (chunk # chunks) =
     (if max_bytes < length (buf @ chunk) then Inl TooLarge
      else read_chunks max_bytes (buf @ chunk) chunks)"

definition read_capped :: "nat \<Rightarrow> response \<Rightarrow> fetch_error + string" where
  "read_capped max_bytes resp =
     (case rs_content_length resp of
        None \<Rightarrow> read_chunks max_bytes [] (rs_chunks resp)
      | Some declared \<Rightarrow>
          if \<not> is_digit_string declared then read_chunks max_bytes [] (rs_chunks resp)
          else case parse_decimal declared of
            None \<Rightarrow> Inl Malformed
          | Some n \<Rightarrow> if int max_bytes < n then Inl TooLarge
                      else read_chunks max_bytes [] (rs_chunks resp))"

subsection \<open>The fetch\<close>

record fetch_options =
  fo_protection :: bool
  fo_require_https :: bool
  fo_max_bytes :: nat
  fo_allow_private_hosts :: "string list"
  fo_pin_ip :: bool
  fo_headers :: headers

record hop =
  hp_url :: string
  hp_ips :: "ip_addr list"
  hp_request :: request
  hp_response :: "response option"

record fetched =
  fd_status :: int
  fd_headers :: headers
  fd_body :: string

definition hop_by_hop :: "string list" where
  "hop_by_hop = [''content-encoding'', ''content-length'', ''transfer-encoding'']"

definition permanent_header :: string where
  "permanent_header = ''x-weirling-permanent-url''"

definition strip_slashes :: "string \<Rightarrow> string" where
  "strip_slashes = rstrip_chars (\<lambda>c. c = CHR ''/'')"

definition forwarded_headers :: "bool \<Rightarrow> string \<Rightarrow> string \<Rightarrow> headers \<Rightarrow> headers" where
  "forwarded_headers moved url current hs =
     filter (\<lambda>(key, v). lower key \<notin> set hop_by_hop) hs
       @ (if moved \<and> strip_slashes current \<noteq> strip_slashes url
          then [(permanent_header, current)] else [])"

definition hop_request :: "fetch_options \<Rightarrow> string \<Rightarrow> ip_addr list \<Rightarrow> py_error + request" where
  "hop_request opts current ips =
     (if fo_pin_ip opts \<and> ips \<noteq> [] then pinned_request current (hd ips) (fo_headers opts)
      else Inr \<lparr>rq_url = current, rq_headers = fo_headers opts, rq_sni = None\<rparr>)"

text \<open>A hop is checked before anything is sent.\<close>

definition prepare_hop ::
  "fetch_options \<Rightarrow> (string \<Rightarrow> string list option) \<Rightarrow> string \<Rightarrow> fetch_error + ip_addr list \<times> request" where
  "prepare_hop opts resolver current =
     (if fo_require_https opts \<and> \<not> starts_with (lower current) ''https://'' then Inl Cleartext
      else case validate_public_url (fo_protection opts) resolver (fo_allow_private_hosts opts) current of
        Inl e \<Rightarrow> Inl e
      | Inr ips \<Rightarrow>
          (case hop_request opts current ips of Inl e \<Rightarrow> Inl Malformed | Inr rq \<Rightarrow> Inr (ips, rq)))"

definition redirects_to :: "response \<Rightarrow> string option" where
  "redirects_to resp =
     (if rs_is_redirect resp \<and> rs_location resp \<noteq> Some [] then rs_location resp else None)"

fun fetch_loop ::
  "fetch_options \<Rightarrow> (nat \<Rightarrow> string \<Rightarrow> string list option) \<Rightarrow> (nat \<Rightarrow> request \<Rightarrow> response option)
    \<Rightarrow> string \<Rightarrow> nat \<Rightarrow> string \<Rightarrow> bool \<Rightarrow> bool \<Rightarrow> hop list \<times> (fetch_error + fetched)" where
  "fetch_loop opts resolver transport url 0 current saw_redirect all_permanent = ([], Inl TooManyRedirects)"
| "fetch_loop opts resolver transport url (Suc n) current saw_redirect all_permanent =
     (case prepare_hop opts (resolver n) current of
        Inl e \<Rightarrow> ([], Inl e)
      | Inr (ips, rq) \<Rightarrow>
          let reply = transport n rq;
              hop = \<lparr>hp_url = current, hp_ips = ips, hp_request = rq, hp_response = reply\<rparr>
          in case reply of
               None \<Rightarrow> ([hop], Inl TransportFailed)
             | Some resp \<Rightarrow>
                 (case redirects_to resp of
                    Some location \<Rightarrow>
                      (case urljoin current location of
                         Inl e \<Rightarrow> ([hop], Inl Malformed)
                       | Inr next_url \<Rightarrow>
                           (case fetch_loop opts resolver transport url n next_url True
                                   (all_permanent \<and> rs_status resp = 301) of
                              (hops, out) \<Rightarrow> (hop # hops, out)))
                  | None \<Rightarrow>
                      (case read_capped (fo_max_bytes opts) resp of
                         Inl e \<Rightarrow> ([hop], Inl e)
                       | Inr body \<Rightarrow>
                           ([hop], Inr \<lparr>fd_status = rs_status resp,
                              fd_headers = forwarded_headers (saw_redirect \<and> all_permanent) url current
                                (rs_headers resp),
                              fd_body = body\<rparr>))))"

definition safe_fetch ::
  "fetch_options \<Rightarrow> (nat \<Rightarrow> string \<Rightarrow> string list option) \<Rightarrow> (nat \<Rightarrow> request \<Rightarrow> response option)
    \<Rightarrow> nat \<Rightarrow> string \<Rightarrow> hop list \<times> (fetch_error + fetched)" where
  "safe_fetch opts resolver transport max_redirects url =
     fetch_loop opts resolver transport url (max_redirects + 1) url False True"

subsection \<open>The address ranges\<close>

lemma uint_v4:
  assumes "0 \<le> a" "a < 256" "0 \<le> b" "b < 256" "0 \<le> c" "c < 256" "0 \<le> d" "d < 256"
  shows "uint (v4 a b c d) = ((a * 256 + b) * 256 + c) * 256 + d"
proof -
  have "0 \<le> ((a * 256 + b) * 256 + c) * 256 + d" "((a * 256 + b) * 256 + c) * 256 + d < 2 ^ 32"
    using assms by simp_all
  then show ?thesis unfolding v4_def uint_word_of_int by simp
qed

lemma in_network_uint:
  "in_network width net x \<longleftrightarrow> uint x div 2 ^ (width - snd net) = uint (fst net) div 2 ^ (width - snd net)"
  by (simp only: in_network_def word_uint_eq_iff uint_drop_bit_div)

definition octet :: "int \<Rightarrow> bool" where
  "octet a \<longleftrightarrow> 0 \<le> a \<and> a < 256"

definition octets :: "int \<Rightarrow> int \<Rightarrow> int \<Rightarrow> int \<Rightarrow> bool" where
  "octets a b c d \<longleftrightarrow> octet a \<and> octet b \<and> octet c \<and> octet d"

lemma octet_div: "octet d \<Longrightarrow> (x * 256 + d) div 256 = x"
  by (simp add: octet_def)

lemma octet_eq: "octet d \<Longrightarrow> octet d' \<Longrightarrow> x * 256 + d = x' * 256 + d' \<longleftrightarrow> x = x' \<and> d = d'"
  using octet_div [of d x] octet_div [of d' x'] by (metis add_left_cancel)

definition quad :: "int \<Rightarrow> int \<Rightarrow> int \<Rightarrow> int \<Rightarrow> int" where
  "quad a b c d = ((a * 256 + b) * 256 + c) * 256 + d"

lemma in_network_v4:
  assumes "octets a b c d" "octets a' b' c' d'"
  shows "in_network 32 (v4 a' b' c' d', p) (v4 a b c d)
    \<longleftrightarrow> quad a b c d div 2 ^ (32 - p) = quad a' b' c' d' div 2 ^ (32 - p)"
  using assms by (simp only: in_network_uint octets_def octet_def uint_v4 fst_conv snd_conv quad_def)

lemma quad_div_256: "octets a b c d \<Longrightarrow> quad a b c d div 256 = (a * 256 + b) * 256 + c"
  by (simp only: quad_def octets_def octet_div)

lemma quad_div_65536: "octets a b c d \<Longrightarrow> quad a b c d div 65536 = a * 256 + b"
proof -
  assume o: "octets a b c d"
  have "quad a b c d div (256 * 256) = quad a b c d div 256 div 256" by (rule zdiv_zmult2_eq) simp
  with o show ?thesis by (simp only: quad_div_256 octet_div octets_def) simp
qed

lemma quad_div_more:
  assumes "octets a b c d" "0 < k"
  shows "quad a b c d div (65536 * k) = (a * 256 + b) div k"
  using zdiv_zmult2_eq [of k "quad a b c d" 65536] assms by (simp only: quad_div_65536 less_imp_le)

lemma quad_divs:
  assumes "octets a b c d"
  shows "quad a b c d div 2 ^ (32 - 4) = a div 16" "quad a b c d div 2 ^ (32 - 8) = a"
    "quad a b c d div 2 ^ (32 - 10) = (a * 256 + b) div 64"
    "quad a b c d div 2 ^ (32 - 12) = (a * 256 + b) div 16"
    "quad a b c d div 2 ^ (32 - 15) = (a * 256 + b) div 2"
    "quad a b c d div 2 ^ (32 - 16) = a * 256 + b"
    "quad a b c d div 2 ^ (32 - 24) = (a * 256 + b) * 256 + c"
proof -
  have pow: "(2 :: int) ^ (32 - 4) = 65536 * (256 * 16)" "(2 :: int) ^ (32 - 8) = 65536 * 256"
    "(2 :: int) ^ (32 - 10) = 65536 * 64" "(2 :: int) ^ (32 - 12) = 65536 * 16"
    "(2 :: int) ^ (32 - 15) = 65536 * 2" "(2 :: int) ^ (32 - 16) = 65536" "(2 :: int) ^ (32 - 24) = 256"
    by simp_all
  have b: "octet b" using assms by (simp add: octets_def)
  have more: "quad a b c d div (65536 * k) = (a * 256 + b) div k" if "0 < k" for k
    using assms that by (rule quad_div_more)
  have "(a * 256 + b) div (256 * 16) = (a * 256 + b) div 256 div 16" by (rule zdiv_zmult2_eq) simp
  then show "quad a b c d div 2 ^ (32 - 4) = a div 16"
    unfolding pow by (subst more) (simp, simp only: octet_div [OF b])
  show "quad a b c d div 2 ^ (32 - 8) = a"
    unfolding pow by (subst more) (simp, rule octet_div [OF b])
  show "quad a b c d div 2 ^ (32 - 10) = (a * 256 + b) div 64"
    "quad a b c d div 2 ^ (32 - 12) = (a * 256 + b) div 16"
    "quad a b c d div 2 ^ (32 - 15) = (a * 256 + b) div 2"
    unfolding pow by (rule more, simp)+
  show "quad a b c d div 2 ^ (32 - 16) = a * 256 + b" unfolding pow by (rule quad_div_65536 [OF assms])
  show "quad a b c d div 2 ^ (32 - 24) = (a * 256 + b) * 256 + c"
    unfolding pow by (rule quad_div_256 [OF assms])
qed

text \<open>The ranges \<open>ipaddress\<close> calls private or reserved, as intervals of the four numbers.\<close>

definition internal_v4 :: "int \<Rightarrow> int \<Rightarrow> int \<Rightarrow> int \<Rightarrow> bool" where
  "internal_v4 a b c d \<longleftrightarrow> a = 0 \<or> a = 10 \<or> a = 127 \<or> 224 \<le> a
     \<or> (a = 100 \<and> 64 \<le> b \<and> b \<le> 127) \<or> (a = 169 \<and> b = 254) \<or> (a = 172 \<and> 16 \<le> b \<and> b \<le> 31)
     \<or> (a = 192 \<and> b = 168) \<or> (a = 198 \<and> (b = 18 \<or> b = 19))
     \<or> (a = 192 \<and> b = 0 \<and> c = 0 \<and> d \<noteq> 9 \<and> d \<noteq> 10) \<or> (a = 192 \<and> b = 0 \<and> c = 2)
     \<or> (a = 198 \<and> b = 51 \<and> c = 100) \<or> (a = 203 \<and> b = 0 \<and> c = 113)"

lemma networks_8:
  assumes "octets a b c d" "octet a'"
  shows "in_network 32 (v4 a' 0 0 0, 8) (v4 a b c d) \<longleftrightarrow> a = a'"
    "in_network 32 (v4 a' 0 0 0, 4) (v4 a b c d) \<longleftrightarrow> a div 16 = a' div 16"
proof -
  have "octets a' 0 0 0" using assms(2) by (simp add: octets_def octet_def)
  with assms(1) show "in_network 32 (v4 a' 0 0 0, 8) (v4 a b c d) \<longleftrightarrow> a = a'"
    "in_network 32 (v4 a' 0 0 0, 4) (v4 a b c d) \<longleftrightarrow> a div 16 = a' div 16"
    by (simp_all only: in_network_v4 quad_divs)
qed

lemma networks_16:
  assumes "octets a b c d" "octet a'" "octet b'"
  shows "in_network 32 (v4 a' b' 0 0, 16) (v4 a b c d) \<longleftrightarrow> a = a' \<and> b = b'"
    "in_network 32 (v4 a' b' 0 0, 10) (v4 a b c d) \<longleftrightarrow> (a * 256 + b) div 64 = (a' * 256 + b') div 64"
    "in_network 32 (v4 a' b' 0 0, 12) (v4 a b c d) \<longleftrightarrow> (a * 256 + b) div 16 = (a' * 256 + b') div 16"
    "in_network 32 (v4 a' b' 0 0, 15) (v4 a b c d) \<longleftrightarrow> (a * 256 + b) div 2 = (a' * 256 + b') div 2"
proof -
  have "octets a' b' 0 0" using assms(2,3) by (simp add: octets_def octet_def)
  moreover have "octet b" using assms(1) by (simp add: octets_def)
  ultimately show "in_network 32 (v4 a' b' 0 0, 16) (v4 a b c d) \<longleftrightarrow> a = a' \<and> b = b'"
    "in_network 32 (v4 a' b' 0 0, 10) (v4 a b c d) \<longleftrightarrow> (a * 256 + b) div 64 = (a' * 256 + b') div 64"
    "in_network 32 (v4 a' b' 0 0, 12) (v4 a b c d) \<longleftrightarrow> (a * 256 + b) div 16 = (a' * 256 + b') div 16"
    "in_network 32 (v4 a' b' 0 0, 15) (v4 a b c d) \<longleftrightarrow> (a * 256 + b) div 2 = (a' * 256 + b') div 2"
    using assms by (simp_all only: in_network_v4 quad_divs octet_eq)
qed

lemma networks_24:
  assumes "octets a b c d" "octet a'" "octet b'" "octet c'"
  shows "in_network 32 (v4 a' b' c' 0, 24) (v4 a b c d) \<longleftrightarrow> a = a' \<and> b = b' \<and> c = c'"
proof -
  have "octets a' b' c' 0" using assms(2-4) by (simp add: octets_def octet_def)
  moreover have "octet b" "octet c" using assms(1) by (simp_all add: octets_def)
  ultimately show ?thesis using assms by (simp only: in_network_v4 quad_divs octet_eq simp_thms conj_assoc)
qed

lemma networks_32:
  assumes "octets a b c d" "octets a' b' c' d'"
  shows "in_network 32 (v4 a' b' c' d', 32) (v4 a b c d) \<longleftrightarrow> a = a' \<and> b = b' \<and> c = c' \<and> d = d'"
  using assms by (simp add: in_network_v4 octets_def) (simp only: quad_def octet_eq conj_assoc)

lemma split_div:
  assumes "octet b" "0 < k" "256 = k * m"
  shows "(a * 256 + b) div k = a * m + b div k"
proof -
  have "a * 256 + b = b + (a * m) * k" by (simp only: assms(3) ac_simps)
  moreover have "(b + (a * m) * k) div k = a * m + b div k" using assms(2) by (intro div_mult_self1) simp
  ultimately show ?thesis by (simp only:)
qed

lemma digit_eqs:
  "(0 :: int) \<le> q \<Longrightarrow> q < 4 \<Longrightarrow> a * 4 + q = 401 \<longleftrightarrow> a = 100 \<and> q = 1"
  "(0 :: int) \<le> q \<Longrightarrow> q < 16 \<Longrightarrow> a * 16 + q = 2753 \<longleftrightarrow> a = 172 \<and> q = 1"
  "(0 :: int) \<le> q \<Longrightarrow> q < 128 \<Longrightarrow> a * 128 + q = 25353 \<longleftrightarrow> a = 198 \<and> q = 9"
  by presburger+

lemma small_divs:
  "(b :: int) div 64 = 1 \<longleftrightarrow> 64 \<le> b \<and> b \<le> 127" "b div 16 = 1 \<longleftrightarrow> 16 \<le> b \<and> b \<le> 31"
  "b div 2 = 9 \<longleftrightarrow> b = 18 \<or> b = 19"
  by presburger+

lemma odd_ranges:
  assumes "octet a" "octet b"
  shows "(a * 256 + b) div 64 = 401 \<longleftrightarrow> a = 100 \<and> 64 \<le> b \<and> b \<le> 127"
    "(a * 256 + b) div 16 = 2753 \<longleftrightarrow> a = 172 \<and> 16 \<le> b \<and> b \<le> 31"
    "(a * 256 + b) div 2 = 25353 \<longleftrightarrow> a = 198 \<and> (b = 18 \<or> b = 19)"
proof -
  have b: "0 \<le> b" "b < 256" using assms by (simp_all add: octet_def)
  have "(a * 256 + b) div 64 = a * 4 + b div 64" "0 \<le> b div 64" "b div 64 < 4"
    using split_div [of b 64 4 a] assms(2) b by simp_all
  then show "(a * 256 + b) div 64 = 401 \<longleftrightarrow> a = 100 \<and> 64 \<le> b \<and> b \<le> 127"
    by (simp only: digit_eqs small_divs)
  have "(a * 256 + b) div 16 = a * 16 + b div 16" "0 \<le> b div 16" "b div 16 < 16"
    using split_div [of b 16 16 a] assms(2) b by simp_all
  then show "(a * 256 + b) div 16 = 2753 \<longleftrightarrow> a = 172 \<and> 16 \<le> b \<and> b \<le> 31"
    by (simp only: digit_eqs small_divs)
  have "(a * 256 + b) div 2 = a * 128 + b div 2" "0 \<le> b div 2" "b div 2 < 128"
    using split_div [of b 2 128 a] assms(2) b by simp_all
  then show "(a * 256 + b) div 2 = 25353 \<longleftrightarrow> a = 198 \<and> (b = 18 \<or> b = 19)"
    by (simp only: digit_eqs small_divs)
qed

lemma top_range: "octet a \<Longrightarrow> a div 16 = 14 \<or> a div 16 = 15 \<longleftrightarrow> 224 \<le> a"
  unfolding octet_def by presburger

lemma digit_eq_128:
  fixes q :: int
  assumes "0 \<le> q" "q < 128"
  shows "x * 128 + q = y * 128 + 85 \<longleftrightarrow> x = y \<and> q = 85"
proof -
  have "(x * 128 + q) div 128 = x" "(y * 128 + 85) div 128 = y" using assms by simp_all
  then show ?thesis by (metis add_left_cancel)
qed

lemma network_31:
  assumes "octets a b c d"
  shows "in_network 32 (v4 192 0 0 170, 31) (v4 a b c d)
    \<longleftrightarrow> a = 192 \<and> b = 0 \<and> c = 0 \<and> (d = 170 \<or> d = 171)"
proof -
  have o: "octet b" "octet c" "octet d" using assms by (simp_all add: octets_def)
  have z: "octet 0" "octet 170" "octets 192 0 0 170" by (simp_all add: octet_def octets_def)
  have q: "quad a b c d div 2 = ((a * 256 + b) * 256 + c) * 128 + d div 2" if "octet d" for a b c d
    using split_div [of d 2 128 "(a * 256 + b) * 256 + c"] that by (simp only: quad_def)
  have "0 \<le> d div 2" "d div 2 < 128" using o(3) unfolding octet_def by linarith+
  note eq = digit_eq_128 [OF this]
  have "in_network 32 (v4 192 0 0 170, 31) (v4 a b c d)
      \<longleftrightarrow> quad a b c d div 2 = quad 192 0 0 170 div 2"
    using in_network_v4 [OF assms z(3), of 31] by simp
  also have "\<dots> \<longleftrightarrow> ((a * 256 + b) * 256 + c) * 128 + d div 2 = ((192 * 256 + 0) * 256 + 0) * 128 + 85"
    using q [OF o(3), of a b c] q [OF z(2), of 192 0 0] by simp
  also have "\<dots> \<longleftrightarrow> (a * 256 + b) * 256 + c = (192 * 256 + 0) * 256 + 0 \<and> d div 2 = 85" by (rule eq)
  also have "\<dots> \<longleftrightarrow> (a = 192 \<and> b = 0) \<and> c = 0 \<and> d div 2 = 85"
    by (simp only: octet_eq [OF o(2) z(1)] octet_eq [OF o(1) z(1)] conj_assoc)
  also have "d div 2 = 85 \<longleftrightarrow> d = 170 \<or> d = 171" by linarith
  finally show ?thesis by (simp only: conj_assoc)
qed

lemma private_networks:
  assumes "octets a b c d"
  shows "in_any 32 v4_private (v4 a b c d) \<longleftrightarrow> a = 0 \<or> a = 10 \<or> a = 127 \<or> a div 16 = 15
     \<or> (a = 169 \<and> b = 254) \<or> (a = 172 \<and> 16 \<le> b \<and> b \<le> 31)
     \<or> (a = 192 \<and> b = 168) \<or> (a = 198 \<and> (b = 18 \<or> b = 19))
     \<or> (a = 192 \<and> b = 0 \<and> c = 0) \<or> (a = 192 \<and> b = 0 \<and> c = 2)
     \<or> (a = 198 \<and> b = 51 \<and> c = 100) \<or> (a = 203 \<and> b = 0 \<and> c = 113)"
    "in_any 32 v4_private_exceptions (v4 a b c d) \<longleftrightarrow> a = 192 \<and> b = 0 \<and> c = 0 \<and> (d = 9 \<or> d = 10)"
    "in_network 32 (v4 100 64 0 0, 10) (v4 a b c d) \<longleftrightarrow> a = 100 \<and> 64 \<le> b \<and> b \<le> 127"
proof -
  have ab: "octet a" "octet b" using assms by (simp_all add: octets_def)
  have lit: "octet 0" "octet 10" "octet 127" "octet 169" "octet 254" "octet 172" "octet 16" "octet 192"
    "octet 168" "octet 198" "octet 18" "octet 51" "octet 100" "octet 203" "octet 113" "octet 240"
    "octet 64" "octet 2" "octets 192 0 0 9" "octets 192 0 0 10" "octets 255 255 255 255"
    by (simp_all add: octet_def octets_def)
  have n12: "in_network 32 (v4 172 16 0 0, 12) (v4 a b c d) \<longleftrightarrow> a = 172 \<and> 16 \<le> b \<and> b \<le> 31"
    using networks_16(3) [OF assms lit(6) lit(7)] odd_ranges(2) [OF ab] by simp
  have n15: "in_network 32 (v4 198 18 0 0, 15) (v4 a b c d) \<longleftrightarrow> a = 198 \<and> (b = 18 \<or> b = 19)"
    using networks_16(4) [OF assms lit(10) lit(11)] odd_ranges(3) [OF ab] by simp
  have n4: "in_network 32 (v4 240 0 0 0, 4) (v4 a b c d) \<longleftrightarrow> a div 16 = 15"
    using networks_8(2) [OF assms lit(16)] by simp
  show "in_network 32 (v4 100 64 0 0, 10) (v4 a b c d) \<longleftrightarrow> a = 100 \<and> 64 \<le> b \<and> b \<le> 127"
    using networks_16(2) [OF assms lit(13) lit(17)] odd_ranges(1) [OF ab] by simp
  note nets = networks_8(1) [OF assms] networks_16(1) [OF assms] networks_24 [OF assms]
    networks_32 [OF assms] network_31 [OF assms] n12 n15 n4
  show "in_any 32 v4_private_exceptions (v4 a b c d) \<longleftrightarrow> a = 192 \<and> b = 0 \<and> c = 0 \<and> (d = 9 \<or> d = 10)"
    by (simp add: in_any_def v4_private_exceptions_def nets lit) blast
  have split: "in_any 32 v4_private (v4 a b c d) \<longleftrightarrow> a = 0 \<or> a = 10 \<or> a = 127
      \<or> (a = 169 \<and> b = 254) \<or> (a = 172 \<and> 16 \<le> b \<and> b \<le> 31)
      \<or> (a = 192 \<and> b = 0 \<and> c = 0) \<or> (a = 192 \<and> b = 0 \<and> c = 0 \<and> (d = 170 \<or> d = 171))
      \<or> (a = 192 \<and> b = 0 \<and> c = 2)
      \<or> (a = 192 \<and> b = 168) \<or> (a = 198 \<and> (b = 18 \<or> b = 19))
      \<or> (a = 198 \<and> b = 51 \<and> c = 100) \<or> (a = 203 \<and> b = 0 \<and> c = 113) \<or> a div 16 = 15
      \<or> (a = 255 \<and> b = 255 \<and> c = 255 \<and> d = 255)"
    by (simp only: in_any_def v4_private_def nets lit list_ex_Cons_iff list_ex_Nil_iff simp_thms)
  have "a = 255 \<Longrightarrow> a div 16 = 15" by simp
  then show "in_any 32 v4_private (v4 a b c d) \<longleftrightarrow> a = 0 \<or> a = 10 \<or> a = 127 \<or> a div 16 = 15
     \<or> (a = 169 \<and> b = 254) \<or> (a = 172 \<and> 16 \<le> b \<and> b \<le> 31)
     \<or> (a = 192 \<and> b = 168) \<or> (a = 198 \<and> (b = 18 \<or> b = 19))
     \<or> (a = 192 \<and> b = 0 \<and> c = 0) \<or> (a = 192 \<and> b = 0 \<and> c = 2)
     \<or> (a = 198 \<and> b = 51 \<and> c = 100) \<or> (a = 203 \<and> b = 0 \<and> c = 113)"
    unfolding split by satx
qed

text \<open>An IPv4 address is refused exactly when it lies in one of the internal or special ranges.\<close>

theorem blocked_v4_iff:
  assumes "octets a b c d"
  shows "blocked_ip_reason (V4 (v4 a b c d)) = None \<longleftrightarrow> \<not> internal_v4 a b c d"
proof -
  have a: "octet a" using assms by (simp add: octets_def)
  have lit: "octet 0" "octet 127" "octet 240" "octet 224" "octet 169" "octet 254"
    by (simp_all add: octet_def)
  have zero: "v4 a b c d \<noteq> 0" if "a \<noteq> 0"
    using networks_8(1) [OF assms lit(1)] that by (auto simp: in_network_def v4_def)
  have r: "in_network 32 (v4 240 0 0 0, 4) (v4 a b c d) \<longleftrightarrow> a div 16 = 15"
    "in_network 32 (v4 224 0 0 0, 4) (v4 a b c d) \<longleftrightarrow> a div 16 = 14"
    using networks_8(2) [OF assms lit(3)] networks_8(2) [OF assms lit(4)] by simp_all
  note parts = r networks_8(1) [OF assms lit(2)] networks_16(1) [OF assms lit(5) lit(6)]
  have "blocked_ip_reason (V4 (v4 a b c d)) = None \<longleftrightarrow>
      \<not> a = 127 \<and> \<not> v4_is_private (v4 a b c d) \<and> \<not> (a = 169 \<and> b = 254) \<and> a div 16 \<noteq> 15 \<and> a div 16 \<noteq> 14
        \<and> v4 a b c d \<noteq> 0 \<and> \<not> (a = 100 \<and> 64 \<le> b \<and> b \<le> 127)"
    by (simp add: blocked_ip_reason_def range_reason_def parts private_networks(3) [OF assms])
  also have "\<dots> \<longleftrightarrow> \<not> internal_v4 a b c d"
  proof (cases "a = 192 \<and> b = 0 \<and> c = 0")
    case True
    then show ?thesis
      using zero unfolding v4_is_private_def private_networks(1,2) [OF assms] internal_v4_def by simp
  next
    case False
    then show ?thesis
      using zero top_range [OF a]
      unfolding v4_is_private_def private_networks(1,2) [OF assms] internal_v4_def by satx
  qed
  finally show ?thesis .
qed

lemma mapped_address_checked:
  "drop_bit 32 x = 0xFFFF \<Longrightarrow> blocked_ip_reason (V6 x z) = blocked_ip_reason (V4 (ucast x))"
  by (simp add: blocked_ip_reason_def ipv4_mapped_def)

lemma uint_v6_group:
  assumes "0 \<le> g" "g < 65536"
  shows "uint (v6 [g]) = g * 2 ^ 112"
proof -
  have "hextets_value ([g] @ replicate (8 - length [g]) 0) = g * 2 ^ 112"
    by (simp add: hextets_value_def numeral_eq_Suc)
  moreover have "0 \<le> g * 2 ^ 112" "g * 2 ^ 112 < 2 ^ 128" using assms by simp_all
  moreover have "uint (word_of_int n :: 128 word) = n" if "0 \<le> n" "n < 2 ^ 128" for n
    using that by (simp add: uint_word_of_int)
  ultimately show ?thesis by (simp only: v6_def)
qed

lemma v6_network:
  assumes "0 \<le> g" "g < 65536" "p \<le> 16"
  shows "in_network 128 (v6 [g], p) x \<longleftrightarrow> uint x div 2 ^ 112 div 2 ^ (16 - p) = g div 2 ^ (16 - p)"
proof -
  have pow: "(2 :: int) ^ (128 - p) = 2 ^ 112 * 2 ^ (16 - p)"
    using assms(3) power_add [of "2 :: int" 112 "16 - p"] by simp
  have "in_network 128 (v6 [g], p) x \<longleftrightarrow> uint x div 2 ^ (128 - p) = (g * 2 ^ 112) div 2 ^ (128 - p)"
    by (simp only: in_network_uint fst_conv snd_conv uint_v6_group [OF assms(1,2)])
  also have "uint x div 2 ^ (128 - p) = uint x div 2 ^ 112 div 2 ^ (16 - p)"
    unfolding pow by (rule zdiv_zmult2_eq) simp
  also have "(g * 2 ^ 112) div 2 ^ (128 - p) = g * 2 ^ 112 div 2 ^ 112 div 2 ^ (16 - p)"
    unfolding pow by (rule zdiv_zmult2_eq) simp
  also have "g * 2 ^ 112 div 2 ^ 112 = g" by (rule nonzero_mult_div_cancel_right) simp
  finally show ?thesis .
qed

lemma div_interval:
  assumes "0 < (k :: int)"
  shows "h div k = c \<longleftrightarrow> c * k \<le> h \<and> h < c * k + k"
proof
  assume "h div k = c"
  then have "h = c * k + h mod k" by (metis div_mult_mod_eq)
  moreover have "0 \<le> h mod k" "h mod k < k" using assms by simp_all
  ultimately show "c * k \<le> h \<and> h < c * k + k" by linarith
next
  assume "c * k \<le> h \<and> h < c * k + k"
  then show "h div k = c" using assms by (intro int_div_pos_eq [of h k c "h - k * c"]) (simp_all add: mult.commute)
qed

text \<open>The first sixteen bits of an IPv6 address.\<close>

definition v6_head :: "128 word \<Rightarrow> int" where
  "v6_head x = uint x div 2 ^ 112"

lemma v6_ranges:
  "in_network 128 (v6 [], 8) x \<longleftrightarrow> 0 \<le> v6_head x \<and> v6_head x < 0x100"
  "in_network 128 (v6 [0x100], 8) x \<longleftrightarrow> 0x100 \<le> v6_head x \<and> v6_head x < 0x200"
  "in_network 128 (v6 [0x200], 7) x \<longleftrightarrow> 0x200 \<le> v6_head x \<and> v6_head x < 0x400"
  "in_network 128 (v6 [0x400], 6) x \<longleftrightarrow> 0x400 \<le> v6_head x \<and> v6_head x < 0x800"
  "in_network 128 (v6 [0x800], 5) x \<longleftrightarrow> 0x800 \<le> v6_head x \<and> v6_head x < 0x1000"
  "in_network 128 (v6 [0x1000], 4) x \<longleftrightarrow> 0x1000 \<le> v6_head x \<and> v6_head x < 0x2000"
  "in_network 128 (v6 [0x4000], 3) x \<longleftrightarrow> 0x4000 \<le> v6_head x \<and> v6_head x < 0x6000"
  "in_network 128 (v6 [0x6000], 3) x \<longleftrightarrow> 0x6000 \<le> v6_head x \<and> v6_head x < 0x8000"
  "in_network 128 (v6 [0x8000], 3) x \<longleftrightarrow> 0x8000 \<le> v6_head x \<and> v6_head x < 0xA000"
  "in_network 128 (v6 [0xA000], 3) x \<longleftrightarrow> 0xA000 \<le> v6_head x \<and> v6_head x < 0xC000"
  "in_network 128 (v6 [0xC000], 3) x \<longleftrightarrow> 0xC000 \<le> v6_head x \<and> v6_head x < 0xE000"
  "in_network 128 (v6 [0xE000], 4) x \<longleftrightarrow> 0xE000 \<le> v6_head x \<and> v6_head x < 0xF000"
  "in_network 128 (v6 [0xF000], 5) x \<longleftrightarrow> 0xF000 \<le> v6_head x \<and> v6_head x < 0xF800"
  "in_network 128 (v6 [0xF800], 6) x \<longleftrightarrow> 0xF800 \<le> v6_head x \<and> v6_head x < 0xFC00"
  "in_network 128 (v6 [0xFC00], 7) x \<longleftrightarrow> 0xFC00 \<le> v6_head x \<and> v6_head x < 0xFE00"
  "in_network 128 (v6 [0xFE00], 9) x \<longleftrightarrow> 0xFE00 \<le> v6_head x \<and> v6_head x < 0xFE80"
  "in_network 128 (v6 [0xFE80], 10) x \<longleftrightarrow> 0xFE80 \<le> v6_head x \<and> v6_head x < 0xFEC0"
  "in_network 128 (v6 [0xFF00], 8) x \<longleftrightarrow> 0xFF00 \<le> v6_head x \<and> v6_head x < 0x10000"
proof -
  have "v6 [] = v6 [0]" by (simp add: v6_def hextets_value_def numeral_eq_Suc)
  then show "in_network 128 (v6 [], 8) x \<longleftrightarrow> 0 \<le> v6_head x \<and> v6_head x < 0x100"
    by (simp add: v6_network v6_head_def div_interval [of "256"])
qed (simp_all add: v6_network v6_head_def div_interval)

lemma v6_head_range: "0 \<le> v6_head x \<and> v6_head x < 0x10000"
proof -
  have "uint x < 2 ^ 128" using uint_lt2p [of x] by simp
  then have "uint x < 0x10000 * 2 ^ 112" by simp
  then have "v6_head x < 0x10000" unfolding v6_head_def by (simp add: div_less_iff_less_mult)
  moreover have "0 \<le> v6_head x" unfolding v6_head_def by (rule pos_imp_zdiv_nonneg_iff [THEN iffD2]) simp_all
  ultimately show ?thesis by simp
qed

lemma long_network_head:
  assumes "in_network 128 (n, p) x" "16 \<le> p" "p \<le> 128"
  shows "v6_head x = v6_head n"
proof -
  have pow: "(2 :: int) ^ 112 = 2 ^ (128 - p) * 2 ^ (p - 16)"
    using assms(2,3) power_add [of "2 :: int" "128 - p" "p - 16"] by simp
  have "uint y div 2 ^ 112 = uint y div 2 ^ (128 - p) div 2 ^ (p - 16)" for y :: "128 word"
    unfolding pow by (rule zdiv_zmult2_eq) simp
  with assms(1) show ?thesis by (simp only: v6_head_def in_network_uint fst_conv snd_conv)
qed

lemma private_exception_heads:
  "list_all (\<lambda>net. v6_head (fst net) = 0x2001 \<and> 16 \<le> snd net \<and> snd net \<le> 128) v6_private_exceptions"
proof -
  have "uint (word_of_int n :: 128 word) = n" if "0 \<le> n" "n < 2 ^ 128" for n
    using that by (simp add: uint_word_of_int)
  note eval = this
  have "v6_head (v6 [0x2001, a, b, 0, 0, 0, 0, c]) = 0x2001"
    if "0 \<le> a" "a < 0x10000" "0 \<le> b" "b < 0x10000" "0 \<le> c" "c < 0x10000" for a b c
  proof -
    have h: "hextets_value ([0x2001, a, b, 0, 0, 0, 0, c] @ replicate (8 - length [0x2001, a, b, 0, 0, 0, 0, c]) 0)
        = 0x2001 * 2 ^ 112 + (a * 2 ^ 96 + b * 2 ^ 80 + c)"
      by (simp add: hextets_value_def)
    have "0 \<le> a * 2 ^ 96 + b * 2 ^ 80 + c" "a * 2 ^ 96 + b * 2 ^ 80 + c < 2 ^ 112" using that by simp_all
    then show ?thesis
      unfolding v6_head_def v6_def h by (subst eval) simp_all
  qed
  note head = this
  have pad: "v6 [0x2001, a] = v6 [0x2001, a, 0, 0, 0, 0, 0, 0]"
    "v6 [0x2001, a, b] = v6 [0x2001, a, b, 0, 0, 0, 0, 0]" for a b
    by (simp_all add: v6_def numeral_eq_Suc)
  show ?thesis by (simp add: v6_private_exceptions_def pad head)
qed

lemma private_exceptions_head:
  assumes "in_any 128 v6_private_exceptions x"
  shows "v6_head x = 0x2001"
proof -
  from assms obtain net where net: "net \<in> set v6_private_exceptions" "in_network 128 net x"
    by (auto simp: in_any_def list_ex_iff)
  with private_exception_heads have "v6_head (fst net) = 0x2001" "16 \<le> snd net" "snd net \<le> 128"
    by (auto simp: list_all_iff)
  with net(2) show ?thesis using long_network_head [of "fst net" "snd net" x] by simp
qed

text \<open>An IPv6 address that is let through, and holds no IPv4 address, is in the global unicast
  range 2000::/3 or in fec0::/10 up to feff: reserved, unique local, link local and multicast
  addresses are refused.\<close>

theorem open_v6_head:
  assumes "blocked_ip_reason (V6 x z) = None" "ipv4_mapped x = None"
  shows "(0x2000 \<le> v6_head x \<and> v6_head x < 0x4000) \<or> (0xFEC0 \<le> v6_head x \<and> v6_head x < 0xFF00)"
proof -
  have r: "\<not> in_any 128 v6_reserved x" "\<not> is_private (V6 x z)" "\<not> in_network 128 (v6 [0xFF00], 8) x"
    using assms by (auto simp: blocked_ip_reason_def range_reason_def split: if_splits)
  have "\<not> in_network 128 (v6 [0xFE80], 10) x"
    using assms by (auto simp: blocked_ip_reason_def range_reason_def split: if_splits)
  moreover have "\<not> in_network 128 (v6 [0xFC00], 7) x"
  proof
    assume fc: "in_network 128 (v6 [0xFC00], 7) x"
    then have "in_any 128 v6_private x" by (simp add: in_any_def v6_private_def)
    with r(2) assms(2) have "in_any 128 v6_private_exceptions x" by simp
    then have "v6_head x = 0x2001" by (rule private_exceptions_head)
    with fc show False by (simp add: v6_ranges)
  qed
  ultimately have n: "\<not> in_network 128 (v6 [0xFE80], 10) x" "\<not> in_network 128 (v6 [0xFC00], 7) x" by blast+
  note out = r(1) [unfolded in_any_def v6_reserved_def list_ex_Cons_iff list_ex_Nil_iff de_Morgan_disj
      v6_ranges de_Morgan_conj not_less]
  note rest = n [unfolded v6_ranges de_Morgan_conj not_less] r(3) [unfolded v6_ranges de_Morgan_conj not_less]
  have low: "0 \<le> v6_head x" "\<not> 0x10000 \<le> v6_head x" using v6_head_range [of x] by simp_all
  have "0x2000 \<le> v6_head x" using low out by satx
  moreover have "\<not> 0x4000 \<le> v6_head x \<or> 0xFEC0 \<le> v6_head x" using out rest by satx
  moreover have "\<not> 0xFF00 \<le> v6_head x" using low rest by satx
  ultimately show ?thesis unfolding not_le by blast
qed

text \<open>Site-local addresses are the part of fec0::/10 that \<open>ipaddress\<close> calls global.\<close>

lemma site_local_passes:
  "map_option blocked_ip_reason (ip_address ''fec0::1'') = Some None"
  by code_simp

theorem blocked_v4_iff_witness:
  "blocked_ip_reason (V4 (v4 169 254 169 254)) \<noteq> None \<and> blocked_ip_reason (V4 (v4 8 8 8 8)) = None"
proof -
  have "octets 169 254 169 254" "octets 8 8 8 8" by (simp_all add: octets_def octet_def)
  then show ?thesis
    using blocked_v4_iff [of 169 254 169 254] blocked_v4_iff [of 8 8 8 8] by (simp add: internal_v4_def)
qed

theorem open_v6_head_witness:
  "(0x2000 \<le> v6_head (v6 [0x2606, 0x4700]) \<and> v6_head (v6 [0x2606, 0x4700]) < 0x4000)
    \<or> (0xFEC0 \<le> v6_head (v6 [0x2606, 0x4700]) \<and> v6_head (v6 [0x2606, 0x4700]) < 0xFF00)"
proof (rule open_v6_head)
  show "blocked_ip_reason (V6 (v6 [0x2606, 0x4700]) None) = None" by code_simp
  show "ipv4_mapped (v6 [0x2606, 0x4700]) = None" by code_simp
qed

subsection \<open>What a validated URL is\<close>

definition unblocked :: "ip_addr \<Rightarrow> bool" where
  "unblocked ip \<longleftrightarrow> blocked_ip_reason ip = None"

lemma validate_answers_unblocked:
  "validate_answers False addrs = Inr ips \<Longrightarrow> list_all unblocked ips"
  by (induction addrs arbitrary: ips)
    (auto simp: unblocked_def split: option.splits sum.splits)

lemma resolve_public_unblocked:
  "resolve_public resolver exempt host = Inr ips \<Longrightarrow> ips \<noteq> [] \<and> (\<not> exempt \<longrightarrow> list_all unblocked ips)"
proof -
  assume "resolve_public resolver exempt host = Inr ips"
  then obtain addrs where "validate_answers exempt addrs = Inr ips" "ips \<noteq> []"
    by (auto simp: resolve_public_def simp del: validate_answers.simps
        split: option.splits list.splits sum.splits)
  then show ?thesis using validate_answers_unblocked by (cases exempt) auto
qed

lemma validate_host_unblocked:
  assumes "validate_host resolver allow host = Inr ips"
  shows "ips \<noteq> [] \<and> (lower (rstrip_chars (\<lambda>c. c = CHR ''.'') host) \<notin> set allow \<longrightarrow> list_all unblocked ips
     \<and> lower (rstrip_chars (\<lambda>c. c = CHR ''.'') host) \<notin> set blocked_hostnames)"
proof (cases "literal_ip (lower (rstrip_chars (\<lambda>c. c = CHR ''.'') host))")
  case None
  then show ?thesis
    using assms resolve_public_unblocked by (auto simp: validate_host_def Let_def split: if_splits)
next
  case (Some ip)
  then show ?thesis
    using assms by (auto simp: validate_host_def Let_def unblocked_def split: if_splits option.splits)
qed

lemma validate_public_url_fix:
  assumes "validate_public_url True resolver allow url = Inr ips"
  shows "ips \<noteq> [] \<and> (\<exists>parsed host. urlparse url = Inr parsed \<and> hostname parsed = Some host
     \<and> lower (up_scheme parsed) \<in> set allowed_schemes \<and> userinfo (up_netloc parsed) = ([], [])
     \<and> (lower (rstrip_chars (\<lambda>c. c = CHR ''.'') host) \<notin> set allow \<longrightarrow>
          list_all unblocked ips \<and> lower (rstrip_chars (\<lambda>c. c = CHR ''.'') host) \<notin> set blocked_hostnames))"
  using assms validate_host_unblocked
  by (fastforce simp: validate_public_url_def split: sum.splits if_splits option.splits)

text \<open>A URL that passes validation has the scheme http or https, no credentials and a host; at
  least one address comes back, and unless the host is exempt all of them may be reached.\<close>

theorem validate_public_url_sound:
  assumes "validate_public_url True resolver allow url = Inr ips"
  shows "ips \<noteq> [] \<and> (\<exists>parsed host. urlparse url = Inr parsed \<and> hostname parsed = Some host
     \<and> lower (up_scheme parsed) \<in> set allowed_schemes \<and> userinfo (up_netloc parsed) = ([], [])
     \<and> (lower (rstrip_chars (\<lambda>c. c = CHR ''.'') host) \<notin> set allow \<longrightarrow>
          list_all unblocked ips \<and> lower (rstrip_chars (\<lambda>c. c = CHR ''.'') host) \<notin> set blocked_hostnames))"
  using assms by (rule validate_public_url_fix)

text \<open>Every answer counts: one internal address among the answers refuses the host.\<close>

lemma validate_answers_all:
  "validate_answers False addrs = Inr ips \<Longrightarrow> addr \<in> set addrs \<Longrightarrow> ip_address addr = Some ip
    \<Longrightarrow> unblocked ip \<and> ip \<in> set ips"
  by (induction addrs arbitrary: ips) (auto simp: unblocked_def split: option.splits sum.splits)

subsection \<open>What a fetch opens\<close>

definition pinned :: "hop \<Rightarrow> bool" where
  "pinned h \<longleftrightarrow> (\<exists>parsed p. urlparse (hp_url h) = Inr parsed \<and> port parsed = Inr p
     \<and> rq_url (hp_request h) = urlunparse (parsed\<lparr>up_netloc := with_port (ip_host (hd (hp_ips h))) p\<rparr>)
     \<and> (lower (up_scheme parsed) = ''https'' \<longrightarrow> rq_sni (hp_request h) = Some (or_default (hostname parsed) [])))"

definition hop_ok :: "fetch_options \<Rightarrow> hop \<Rightarrow> bool" where
  "hop_ok opts h \<longleftrightarrow> hp_ips h \<noteq> []
     \<and> (fo_allow_private_hosts opts = [] \<longrightarrow> list_all unblocked (hp_ips h))
     \<and> (fo_require_https opts \<longrightarrow> starts_with (lower (hp_url h)) ''https://'')
     \<and> (fo_pin_ip opts \<longrightarrow> pinned h)"

lemma pinned_requestD:
  assumes "pinned_request url ip hs = Inr rq"
  obtains parsed p where "urlparse url = Inr parsed" "port parsed = Inr p"
    "rq_url rq = urlunparse (parsed\<lparr>up_netloc := with_port (ip_host ip) p\<rparr>)"
    "lower (up_scheme parsed) = ''https'' \<longrightarrow> rq_sni rq = Some (or_default (hostname parsed) [])"
  using assms by (auto simp: pinned_request_def Let_def split: sum.splits)

lemma prepare_hop_ok:
  assumes "prepare_hop opts resolver current = Inr (ips, rq)" "fo_protection opts"
  shows "hop_ok opts \<lparr>hp_url = current, hp_ips = ips, hp_request = rq, hp_response = reply\<rparr>"
proof -
  have v: "validate_public_url True resolver (fo_allow_private_hosts opts) current = Inr ips"
    and rq: "hop_request opts current ips = Inr rq"
    and tls: "fo_require_https opts \<longrightarrow> starts_with (lower current) ''https://''"
    using assms by (auto simp: prepare_hop_def split: if_splits sum.splits)
  have ips: "ips \<noteq> []" "fo_allow_private_hosts opts = [] \<longrightarrow> list_all unblocked ips"
    using validate_public_url_fix [OF v] by auto
  have "pinned \<lparr>hp_url = current, hp_ips = ips, hp_request = rq, hp_response = reply\<rparr>" if "fo_pin_ip opts"
  proof -
    have "pinned_request current (hd ips) (fo_headers opts) = Inr rq"
      using rq ips that by (simp add: hop_request_def)
    then show ?thesis by (rule pinned_requestD) (simp add: pinned_def)
  qed
  with ips tls show ?thesis by (simp add: hop_ok_def)
qed

text \<open>The four ways an attempt can go.\<close>

definition sent_hop ::
  "string \<Rightarrow> ip_addr list \<Rightarrow> request \<Rightarrow> response option \<Rightarrow> hop" where
  "sent_hop current ips rq reply = \<lparr>hp_url = current, hp_ips = ips, hp_request = rq, hp_response = reply\<rparr>"

lemma sent_hop_sel [simp]:
  "hp_url (sent_hop current ips rq reply) = current" "hp_ips (sent_hop current ips rq reply) = ips"
  "hp_request (sent_hop current ips rq reply) = rq" "hp_response (sent_hop current ips rq reply) = reply"
  by (simp_all add: sent_hop_def)

lemma fetch_loop_SucE:
  assumes "fetch_loop opts resolver transport url (Suc n) current sr ap = (hops, out)"
  obtains (refused) e where "hops = []" "out = Inl e"
  | (failed) ips rq e where "prepare_hop opts (resolver n) current = Inr (ips, rq)"
      "hops = [sent_hop current ips rq (transport n rq)]" "out = Inl e"
  | (redirected) ips rq resp next_url rest where
      "prepare_hop opts (resolver n) current = Inr (ips, rq)" "transport n rq = Some resp"
      "redirects_to resp \<noteq> None" "hops = sent_hop current ips rq (Some resp) # rest"
      "fetch_loop opts resolver transport url n next_url True (ap \<and> rs_status resp = 301) = (rest, out)"
  | (answered) ips rq resp body where
      "prepare_hop opts (resolver n) current = Inr (ips, rq)" "transport n rq = Some resp"
      "redirects_to resp = None" "hops = [sent_hop current ips rq (Some resp)]"
      "read_capped (fo_max_bytes opts) resp = Inr body"
      "out = Inr \<lparr>fd_status = rs_status resp,
         fd_headers = forwarded_headers (sr \<and> ap) url current (rs_headers resp), fd_body = body\<rparr>"
proof (cases "prepare_hop opts (resolver n) current")
  case (Inl e)
  then show ?thesis using assms by (intro refused [of e]) auto
next
  case (Inr p)
  then obtain ips rq where p: "prepare_hop opts (resolver n) current = Inr (ips, rq)" by (cases p) simp
  show ?thesis
  proof (cases "transport n rq")
    case None
    then show ?thesis using assms p by (intro failed [OF p]) (auto simp: Let_def sent_hop_def)
  next
    case (Some resp)
    show ?thesis
    proof (cases "redirects_to resp")
      case None
      show ?thesis
      proof (cases "read_capped (fo_max_bytes opts) resp")
        case (Inl e)
        with assms p Some None show ?thesis by (intro failed [OF p]) (auto simp: Let_def sent_hop_def)
      next
        case (Inr body)
        with assms p Some None show ?thesis
          by (intro answered [OF p Some None _ Inr]) (auto simp: Let_def sent_hop_def)
      qed
    next
      case redirect: (Some location)
      show ?thesis
      proof (cases "urljoin current location")
        case (Inl e)
        with assms p Some redirect show ?thesis by (intro failed [OF p]) (auto simp: Let_def sent_hop_def)
      next
        case (Inr next_url)
        obtain rest out' where
          rest: "fetch_loop opts resolver transport url n next_url True (ap \<and> rs_status resp = 301) = (rest, out')"
          by (cases "fetch_loop opts resolver transport url n next_url True (ap \<and> rs_status resp = 301)")
        with assms p Some redirect Inr have "hops = sent_hop current ips rq (Some resp) # rest" "out' = out"
          by (simp_all add: Let_def sent_hop_def)
        with rest redirect show ?thesis by (intro redirected [OF p Some]) simp_all
      qed
    qed
  qed
qed

declare fetch_loop.simps(2) [simp del]

lemma fetch_loop_hops:
  assumes "fo_protection opts"
  shows "fetch_loop opts resolver transport url n current sr ap = (hops, out)
    \<Longrightarrow> list_all (hop_ok opts) hops \<and> length hops \<le> n"
proof (induction n arbitrary: current sr ap hops)
  case 0
  then show ?case by simp
next
  case (Suc n)
  have ok: "hop_ok opts (sent_hop current ips rq reply)"
    if "prepare_hop opts (resolver n) current = Inr (ips, rq)" for ips rq reply
    using prepare_hop_ok [OF that assms] by (simp add: sent_hop_def)
  from Suc.prems show ?case
    by (cases rule: fetch_loop_SucE) (use ok Suc.IH in auto)
qed


lemma read_chunks_bound:
  "read_chunks n buf chunks = Inr body \<Longrightarrow> length buf \<le> n \<Longrightarrow> length body \<le> n \<and> body = buf @ concat chunks"
  by (induction n buf chunks rule: read_chunks.induct) (auto split: if_splits)

lemma read_capped_bound:
  "read_capped n resp = Inr body \<Longrightarrow> length body \<le> n \<and> body = concat (rs_chunks resp)"
  using read_chunks_bound [of n "[]" "rs_chunks resp" body]
  by (auto simp: read_capped_def split: option.splits if_splits)

text \<open>The outcome of a fetch in terms of its hops.\<close>

lemma fetch_loop_result:
  "fetch_loop opts resolver transport url n current sr ap = (hops, Inr fd) \<Longrightarrow>
     \<exists>resp. hops \<noteq> [] \<and> hp_response (last hops) = Some resp \<and> redirects_to resp = None
       \<and> list_all (\<lambda>h. \<exists>r. hp_response h = Some r \<and> redirects_to r \<noteq> None) (butlast hops)
       \<and> fd_status fd = rs_status resp \<and> read_capped (fo_max_bytes opts) resp = Inr (fd_body fd)
       \<and> fd_headers fd = forwarded_headers ((sr \<or> butlast hops \<noteq> []) \<and> ap
            \<and> list_all (\<lambda>h. map_option rs_status (hp_response h) = Some 301) (butlast hops))
            url (hp_url (last hops)) (rs_headers resp)"
proof (induction n arbitrary: current sr ap hops)
  case 0
  then show ?case by simp
next
  case (Suc n)
  from Suc.prems show ?case
  proof (cases rule: fetch_loop_SucE)
    case (redirected ips rq resp next_url rest)
    with Suc.IH [OF redirected(5)] show ?thesis by (auto simp: conj_ac)
  qed auto
qed

text \<open>A fetch returns at most \<open>max_bytes\<close>, all of the last response and of no other.\<close>

theorem safe_fetch_body:
  assumes "safe_fetch opts resolver transport max_redirects url = (hops, Inr fd)"
  shows "length (fd_body fd) \<le> fo_max_bytes opts \<and> hops \<noteq> [] \<and>
    (\<exists>resp. hp_response (last hops) = Some resp \<and> fd_status fd = rs_status resp \<and> fd_body fd = concat (rs_chunks resp))"
proof -
  obtain resp where "hops \<noteq> []" "hp_response (last hops) = Some resp" "fd_status fd = rs_status resp"
    "read_capped (fo_max_bytes opts) resp = Inr (fd_body fd)"
    using fetch_loop_result [OF assms [unfolded safe_fetch_def]] by blast
  then show ?thesis using read_capped_bound by auto
qed

lemma forwarded_permanent:
  assumes "(permanent_header, target) \<in> set (forwarded_headers moved url current hs)"
    "list_all (\<lambda>(key, v). key \<noteq> permanent_header) hs"
  shows "moved \<and> target = current \<and> strip_slashes current \<noteq> strip_slashes url"
  using assms by (auto simp: forwarded_headers_def list_all_iff split: if_splits)

lemma fetch_loop_transport:
  "fetch_loop opts resolver transport url n current sr ap = (hops, out) \<Longrightarrow>
     list_all (\<lambda>h. \<exists>k. hp_response h = transport k (hp_request h)) hops"
proof (induction n arbitrary: current sr ap hops)
  case 0
  then show ?case by simp
next
  case (Suc n)
  from Suc.prems show ?case
  proof (cases rule: fetch_loop_SucE)
    case (redirected ips rq resp next_url rest)
    have "list_all (\<lambda>h. \<exists>k. hp_response h = transport k (hp_request h)) rest"
      by (rule Suc.IH [OF redirected(5)])
    with redirected(2,4) show ?thesis by auto metis
  next
    case (answered ips rq resp body)
    then show ?thesis by auto metis
  qed auto
qed

text \<open>Unless a server sends the header itself, a fetch reports a permanent move only after at
  least one redirect, every one of them a 301, and reports the URL that answered.\<close>

theorem safe_fetch_permanent:
  assumes "safe_fetch opts resolver transport max_redirects url = (hops, Inr fd)"
    "(permanent_header, target) \<in> set (fd_headers fd)"
    "\<And>n rq resp. transport n rq = Some resp \<Longrightarrow> list_all (\<lambda>(key, v). key \<noteq> permanent_header) (rs_headers resp)"
  shows "butlast hops \<noteq> [] \<and> target = hp_url (last hops) \<and> strip_slashes target \<noteq> strip_slashes url
    \<and> list_all (\<lambda>h. map_option rs_status (hp_response h) = Some 301) (butlast hops)"
proof -
  obtain resp where r: "hp_response (last hops) = Some resp" "hops \<noteq> []"
    and fh: "fd_headers fd = forwarded_headers (butlast hops \<noteq> []
            \<and> list_all (\<lambda>h. map_option rs_status (hp_response h) = Some 301) (butlast hops))
            url (hp_url (last hops)) (rs_headers resp)"
    using fetch_loop_result [OF assms(1) [unfolded safe_fetch_def]] by auto
  have "list_all (\<lambda>(key, v). key \<noteq> permanent_header) (rs_headers resp)"
  proof -
    have "last hops \<in> set hops" using r(2) by simp
    then obtain k where "hp_response (last hops) = transport k (hp_request (last hops))"
      using fetch_loop_transport [OF assms(1) [unfolded safe_fetch_def]] unfolding list_all_iff by blast
    then show ?thesis using r(1) assms(3) by metis
  qed
  from forwarded_permanent [OF assms(2) [unfolded fh] this] show ?thesis by simp
qed

subsection \<open>A fetch that is redirected, and a forged header\<close>

definition demo_options :: fetch_options where
  "demo_options = \<lparr>fo_protection = True, fo_require_https = False, fo_max_bytes = 100,
     fo_allow_private_hosts = [], fo_pin_ip = True, fo_headers = []\<rparr>"

definition demo_resolver :: "nat \<Rightarrow> string \<Rightarrow> string list option" where
  "demo_resolver n host = Some [''8.8.8.8'']"

definition ok_response :: "headers \<Rightarrow> response" where
  "ok_response hs = \<lparr>rs_status = 200, rs_is_redirect = False, rs_location = None,
     rs_content_length = None, rs_headers = hs, rs_chunks = [''o'', ''k'']\<rparr>"

definition moved_response :: "string \<Rightarrow> response" where
  "moved_response target = \<lparr>rs_status = 301, rs_is_redirect = True, rs_location = Some target,
     rs_content_length = None, rs_headers = [], rs_chunks = []\<rparr>"

text \<open>The server moves /a to /b for good.\<close>

definition demo_transport :: "nat \<Rightarrow> request \<Rightarrow> response option" where
  "demo_transport n rq =
     Some (if rq_url rq = ''https://8.8.8.8/a'' then moved_response ''/b'' else ok_response [])"

abbreviation demo_fetch :: "hop list \<times> (fetch_error + fetched)" where
  "demo_fetch \<equiv> safe_fetch demo_options demo_resolver demo_transport 2 ''https://h.org/a''"

lemma demo_fetch_result:
  "snd demo_fetch = Inr \<lparr>fd_status = 200, fd_headers = [(permanent_header, ''https://h.org/b'')], fd_body = ''ok''\<rparr>"
  "length (fst demo_fetch) = 2"
  by code_simp+

lemma demo_fetch_pair:
  "demo_fetch = (fst demo_fetch, Inr \<lparr>fd_status = 200, fd_headers = [(permanent_header, ''https://h.org/b'')], fd_body = ''ok''\<rparr>)"
  using demo_fetch_result(1) by (metis prod.collapse)

theorem validate_public_url_sound_witness:
  "\<exists>ips. ips \<noteq> [] \<and> validate_public_url True (demo_resolver 0) [] ''https://h.org/a'' = Inr ips \<and> list_all unblocked ips"
proof -
  have v: "validate_public_url True (demo_resolver 0) [] ''https://h.org/a'' = Inr [V4 0x08080808]" by code_simp
  from validate_public_url_sound [OF v] v show ?thesis by auto
qed


theorem safe_fetch_body_witness:
  "length ''ok'' \<le> fo_max_bytes demo_options \<and> fst demo_fetch \<noteq> []"
  using safe_fetch_body [OF demo_fetch_pair] by simp

theorem safe_fetch_permanent_witness:
  "butlast (fst demo_fetch) \<noteq> [] \<and> ''https://h.org/b'' = hp_url (last (fst demo_fetch))"
proof -
  have "list_all (\<lambda>(key, v). key \<noteq> permanent_header) (rs_headers resp)"
    if "demo_transport n rq = Some resp" for n rq resp
    using that by (auto simp: demo_transport_def moved_response_def ok_response_def split: if_splits)
  then show ?thesis using safe_fetch_permanent [OF demo_fetch_pair, of "''https://h.org/b''"] by simp
qed

text \<open>A server that answers at once, and sends the header itself, is believed: the result says the
  feed moved although no redirect happened.\<close>

lemma forged_permanent_move:
  "snd (safe_fetch demo_options demo_resolver
      (\<lambda>n rq. Some (ok_response [(permanent_header, ''https://other.org/'')])) 2 ''https://h.org/a'')
    = Inr \<lparr>fd_status = 200, fd_headers = [(permanent_header, ''https://other.org/'')], fd_body = ''ok''\<rparr>"
  by code_simp

text \<open>The Host header of a URL with an IPv6 literal loses its brackets.\<close>

lemma ipv6_host_header_unbracketed:
  "map_sum id rq_headers (pinned_request ''http://[2606:4700::1111]/'' (V6 (v6 [0x2606, 0x4700, 0, 0, 0, 0, 0, 0x1111]) None) [])
    = Inr [(''Host'', ''2606:4700::1111'')]"
  by code_simp

end
