(* ===== verification/Schedule.thy ===== *)
theory Schedule
  imports Urls
begin

text \<open>
  When a feed is polled next: \<open>services/ingestion/schedule.py\<close>, with the classification of a poll
  in \<open>workers/tasks/ingest_feeds.py\<close> and the revival of a dead feed in
  \<open>services/ingestion/feeds.py\<close>. \<open>feed_row\<close> holds the columns of a source or a feed that the
  schedule reads and writes. The random factor of a poll is an argument.
\<close>

subsection \<open>The schedule of one feed\<close>

definition MIN_INTERVAL :: int where "MIN_INTERVAL = 15 * 60"
definition MAX_INTERVAL :: int where "MAX_INTERVAL = 24 * 60 * 60"
definition DEFAULT_INTERVAL :: int where "DEFAULT_INTERVAL = 60 * 60"
definition ERROR_BASE :: int where "ERROR_BASE = 5 * 60"
definition DEAD_AFTER :: real where "DEAD_AFTER = 7 * 86400"
definition MAX_GAPS :: nat where "MAX_GAPS = 20"

datatype feed_status = Healthy | Degraded | Failing | Dead | PlatformOutage

record schedule_state =
  ss_interval_seconds :: int
  ss_consecutive_errors :: int
  ss_recent_gaps :: "int list"
  ss_status :: feed_status
  ss_failure_since :: "moment option"

definition clamp_interval :: "real \<Rightarrow> int" where
  "clamp_interval seconds = py_int (min (of_int MAX_INTERVAL) (max (of_int MIN_INTERVAL) seconds))"

definition initial_interval :: "int list \<Rightarrow> int" where
  "initial_interval recent_gaps =
     (if recent_gaps = [] then DEFAULT_INTERVAL
      else clamp_interval (of_int (sort recent_gaps ! (length recent_gaps div 2)) / 2))"

definition health_status :: "int \<Rightarrow> moment option \<Rightarrow> moment \<Rightarrow> bool \<Rightarrow> feed_status" where
  "health_status consecutive_errors failure_since now gone =
     (if gone \<or> some_and failure_since (\<lambda>s. 0 < consecutive_errors \<and> DEAD_AFTER \<le> now - s) then Dead
      else if consecutive_errors \<le> 0 then Healthy
      else if consecutive_errors \<le> 2 then Degraded
      else Failing)"

definition jittered :: "moment \<Rightarrow> int \<Rightarrow> real \<Rightarrow> moment" where
  "jittered now interval factor = now + of_int interval * factor"

definition on_quiet :: "schedule_state \<Rightarrow> moment \<Rightarrow> real \<Rightarrow> schedule_state \<times> moment" where
  "on_quiet st now factor =
     (let interval = py_int (min (of_int MAX_INTERVAL) (of_int (ss_interval_seconds st) * 1.25))
      in (\<lparr>ss_interval_seconds = interval, ss_consecutive_errors = 0,
           ss_recent_gaps = ss_recent_gaps st, ss_status = Healthy, ss_failure_since = None\<rparr>,
          jittered now interval factor))"

definition last_n :: "nat \<Rightarrow> 'a list \<Rightarrow> 'a list" where
  "last_n n xs = drop (length xs - n) xs"

definition on_new_items ::
  "schedule_state \<Rightarrow> moment \<Rightarrow> real \<Rightarrow> int \<Rightarrow> schedule_state \<times> moment" where
  "on_new_items st now factor gap_seconds =
     (let gaps = last_n MAX_GAPS (ss_recent_gaps st @ [max 0 gap_seconds]);
          interval = py_int (max (of_int MIN_INTERVAL) (of_int (ss_interval_seconds st) / 1.5))
      in (\<lparr>ss_interval_seconds = interval, ss_consecutive_errors = 0, ss_recent_gaps = gaps,
           ss_status = Healthy, ss_failure_since = None\<rparr>,
          jittered now interval factor))"

definition error_backoff :: "int \<Rightarrow> int \<Rightarrow> int" where
  "error_backoff cap errors = min (ERROR_BASE * 2 ^ nat errors) cap"

definition on_error ::
  "schedule_state \<Rightarrow> moment \<Rightarrow> real option \<Rightarrow> bool \<Rightarrow> schedule_state \<times> moment" where
  "on_error st now retry_after gone =
     (let errors = ss_consecutive_errors st + 1;
          since = or_default (ss_failure_since st) now;
          status = health_status errors (Some since) now gone;
          delay = max (of_int (error_backoff MAX_INTERVAL errors)) (or_default retry_after 0)
      in (st\<lparr>ss_consecutive_errors := errors, ss_status := status, ss_failure_since := Some since\<rparr>,
          now + delay))"

definition on_rate_limited ::
  "schedule_state \<Rightarrow> moment \<Rightarrow> real \<Rightarrow> schedule_state \<times> moment" where
  "on_rate_limited st now retry_after =
     (let errors = ss_consecutive_errors st + 1;
          since = or_default (ss_failure_since st) now;
          delay = (if 0 < retry_after then retry_after
                   else of_int (error_backoff MAX_INTERVAL errors))
      in (st\<lparr>ss_consecutive_errors := errors,
             ss_status := health_status errors (Some since) now False,
             ss_failure_since := Some since\<rparr>,
          now + delay))"

text \<open>\<open>None\<close>: two requests are in flight, the caller waits for one of them.\<close>

definition politeness_delay :: "moment option \<Rightarrow> moment \<Rightarrow> nat \<Rightarrow> real option" where
  "politeness_delay last_request_at now inflight =
     (if 2 \<le> inflight then None
      else case last_request_at of
        None \<Rightarrow> Some 0
      | Some t \<Rightarrow> Some (max 0 (1 - (now - t))))"

subsection \<open>Kinds of feeds\<close>

definition YOUTUBE_MAX_BACKOFF :: int where "YOUTUBE_MAX_BACKOFF = 3 * 60 * 60"

definition is_youtube_feed :: "string option \<Rightarrow> py_error + bool" where
  "is_youtube_feed url =
     (case urlparse (or_default url []) of
        Inl e \<Rightarrow> Inl e
      | Inr parts \<Rightarrow>
          let host = remove_prefix (remove_prefix (lower (up_netloc parts)) ''www.'') ''m.''
          in Inr (host = ''youtube.com''
               \<and> rstrip_chars (\<lambda>c. c = CHR ''/'') (up_path parts) = ''/feeds/videos.xml''))"

definition youtube_error :: "real \<Rightarrow> schedule_state \<Rightarrow> moment \<Rightarrow> schedule_state \<times> moment" where
  "youtube_error youtube_dead_after_days st now =
     (let errors = ss_consecutive_errors st + 1;
          since = or_default (ss_failure_since st) now;
          status = (if youtube_dead_after_days * 86400 \<le> now - since then Dead else PlatformOutage);
          delay = error_backoff YOUTUBE_MAX_BACKOFF errors
      in (st\<lparr>ss_consecutive_errors := errors, ss_status := status, ss_failure_since := Some since\<rparr>,
          now + of_int delay))"

text \<open>Midnight UTC of 13 November 2026.\<close>

definition REDDIT_RSS_END :: moment where "REDDIT_RSS_END = 1794528000"

definition reddit_rss_ended :: "moment \<Rightarrow> bool" where
  "reddit_rss_ended now \<longleftrightarrow> REDDIT_RSS_END \<le> now"

definition reddit_alternatives :: string where
  "reddit_alternatives =
     ''Consider subscribing to an RSS/Atom feed from a blog, Substack, Bluesky, or Mastodon.''"

definition reddit_notice :: "moment \<Rightarrow> string" where
  "reddit_notice now =
     (if reddit_rss_ended now then ''Unsupported: Reddit ended RSS on 13 Nov 2026. '' @ reddit_alternatives
      else ''Unsupported: Reddit ends RSS on 13 Nov 2026. '' @ reddit_alternatives)"

definition is_reddit_feed :: "string option \<Rightarrow> py_error + bool" where
  "is_reddit_feed url =
     (if or_default url [] = [] then Inr False
      else case urlparse (or_default url []) of
        Inl e \<Rightarrow> Inl e
      | Inr parts \<Rightarrow>
          let host = remove_prefix (lower (or_default (hostname parts) [])) ''www.''
          in Inr (host = ''reddit.com'' \<or> ends_with host ''.reddit.com''))"

definition is_dead_reddit_feed :: "string option \<Rightarrow> moment \<Rightarrow> py_error + bool" where
  "is_dead_reddit_feed url now =
     (case is_reddit_feed url of Inl e \<Rightarrow> Inl e | Inr b \<Rightarrow> Inr (b \<and> reddit_rss_ended now))"

subsection \<open>The outcome of a poll\<close>

record feed_row =
  fr_feed_url :: "string option"
  fr_url :: string
  fr_poll_interval_seconds :: "int option"
  fr_fetch_error_count :: "int option"
  fr_recent_gap_seconds :: "int list option"
  fr_feed_status :: "feed_status option"
  fr_failure_since :: "moment option"
  fr_next_poll_at :: "moment option"
  fr_is_active :: bool
  fr_dead_notice_pending :: bool
  fr_last_error :: "string option"
  fr_last_error_at :: "moment option"
  fr_last_fetched_at :: "moment option"
  fr_last_http_status :: "int option"

text \<open>\<open>feed_url or url\<close>: the empty text is falsy.\<close>

definition poll_url :: "feed_row \<Rightarrow> string option" where
  "poll_url row =
     (case fr_feed_url row of
        Some u \<Rightarrow> if u \<noteq> [] then Some u else Some (fr_url row)
      | None \<Rightarrow> Some (fr_url row))"

definition nonzero :: "int option \<Rightarrow> int \<Rightarrow> int" where
  "nonzero x d = (if x = Some 0 then d else or_default x d)"

definition schedule_of :: "feed_row \<Rightarrow> schedule_state" where
  "schedule_of row = \<lparr>ss_interval_seconds = nonzero (fr_poll_interval_seconds row) DEFAULT_INTERVAL,
     ss_consecutive_errors = or_default (fr_fetch_error_count row) 0,
     ss_recent_gaps = or_default (fr_recent_gap_seconds row) [],
     ss_status = or_default (fr_feed_status row) Healthy,
     ss_failure_since = fr_failure_since row\<rparr>"

definition mark_reddit_feed_dead :: "moment \<Rightarrow> feed_row \<Rightarrow> feed_row" where
  "mark_reddit_feed_dead now row =
     row\<lparr>fr_feed_status := Some Dead, fr_is_active := False, fr_last_error := Some (reddit_notice now),
       fr_last_error_at := Some now, fr_next_poll_at := None,
       fr_dead_notice_pending := fr_dead_notice_pending row \<or> fr_feed_status row \<noteq> Some Dead\<rparr>"

record poll =
  po_now :: moment
  po_factor :: real
  po_new_items :: bool
  po_error :: bool
  po_gone :: bool
  po_retry_after :: "real option"
  po_gap_seconds :: int

text \<open>A \<open>Retry-After\<close> of \<open>None\<close> or 0 is falsy.\<close>

definition next_schedule :: "real \<Rightarrow> bool \<Rightarrow> schedule_state \<Rightarrow> poll \<Rightarrow> schedule_state \<times> moment" where
  "next_schedule dead_after_days youtube st po =
     (if (po_error po \<or> po_gone po) \<and> youtube then youtube_error dead_after_days st (po_now po)
      else if po_gone po then on_error st (po_now po) None True
      else if po_error po \<and> some_and (po_retry_after po) (\<lambda>x. x \<noteq> 0)
        then on_rate_limited st (po_now po) (or_default (po_retry_after po) 0)
      else if po_error po then on_error st (po_now po) (po_retry_after po) False
      else if po_new_items po then on_new_items st (po_now po) (po_factor po) (po_gap_seconds po)
      else on_quiet st (po_now po) (po_factor po))"

definition write_schedule :: "schedule_state \<times> moment \<Rightarrow> feed_row \<Rightarrow> feed_row" where
  "write_schedule nxt row =
     row\<lparr>fr_poll_interval_seconds := Some (ss_interval_seconds (fst nxt)),
       fr_fetch_error_count := Some (ss_consecutive_errors (fst nxt)),
       fr_recent_gap_seconds := Some (ss_recent_gaps (fst nxt)),
       fr_feed_status := Some (ss_status (fst nxt)),
       fr_failure_since := ss_failure_since (fst nxt),
       fr_next_poll_at := Some (snd nxt),
       fr_is_active := fr_is_active row \<and> ss_status (fst nxt) \<noteq> Dead,
       fr_dead_notice_pending := fr_dead_notice_pending row
         \<or> (ss_status (fst nxt) = Dead \<and> or_default (fr_feed_status row) Healthy \<noteq> Dead)\<rparr>"

definition apply_poll_result :: "real \<Rightarrow> poll \<Rightarrow> feed_row \<Rightarrow> py_error + feed_row" where
  "apply_poll_result dead_after_days po row =
     (case is_dead_reddit_feed (poll_url row) (po_now po) of
        Inl e \<Rightarrow> Inl e
      | Inr True \<Rightarrow> Inr (mark_reddit_feed_dead (po_now po) row)
      | Inr False \<Rightarrow>
          (case (if po_error po \<or> po_gone po then is_youtube_feed (poll_url row) else Inr False) of
             Inl e \<Rightarrow> Inl e
           | Inr youtube \<Rightarrow>
               Inr (write_schedule (next_schedule dead_after_days youtube (schedule_of row) po) row)))"

definition permanent_redirect_target :: "string option \<Rightarrow> string \<Rightarrow> py_error + string option" where
  "permanent_redirect_target location current_url =
     (if or_default location [] = [] then Inr None
      else case urljoin current_url (or_default location []) of
        Inl e \<Rightarrow> Inl e
      | Inr target \<Rightarrow>
          (case urlparse target of
             Inl e \<Rightarrow> Inl e
           | Inr parsed \<Rightarrow>
               if up_scheme parsed \<notin> {''http'', ''https''} \<or> up_netloc parsed = [] then Inr None
               else if rstrip_chars (\<lambda>c. c = CHR ''/'') target = rstrip_chars (\<lambda>c. c = CHR ''/'') current_url
               then Inr None
               else Inr (Some target)))"

subsection \<open>From an HTTP status to an outcome\<close>

definition seconds_since :: "moment option \<Rightarrow> moment \<Rightarrow> int" where
  "seconds_since t now = (case t of None \<Rightarrow> 0 | Some t \<Rightarrow> max 0 (py_int (now - t)))"

text \<open>The end of \<open>_ingest_source\<close>: \<open>new\<close> says whether new items were stored. No code sets an
  attribute \<open>retry_after\<close> on a source or a feed, so \<open>getattr(..., None)\<close> is \<open>None\<close>.\<close>

definition poll_failed :: "int option \<Rightarrow> bool" where
  "poll_failed status \<longleftrightarrow> status = Some 429 \<or> some_and status (\<lambda>n. 500 \<le> n)"

definition poll_of_status :: "int option \<Rightarrow> bool \<Rightarrow> moment \<Rightarrow> real \<Rightarrow> moment option \<Rightarrow> poll" where
  "poll_of_status status new now factor last_fetched_at =
     (let failed = poll_failed status; gone = (status = Some 410)
      in \<lparr>po_now = now, po_factor = factor, po_new_items = new \<and> \<not> failed \<and> \<not> gone,
          po_error = failed, po_gone = gone, po_retry_after = None,
          po_gap_seconds = seconds_since last_fetched_at now\<rparr>)"

definition show_status :: "int option \<Rightarrow> string" where
  "show_status status = ''HTTP '' @ (case status of Some n \<Rightarrow> show_int n | None \<Rightarrow> ''None'')"

definition finish_ingest :: "real \<Rightarrow> bool \<Rightarrow> moment \<Rightarrow> real \<Rightarrow> feed_row \<Rightarrow> py_error + feed_row" where
  "finish_ingest dead_after_days new now factor row =
     (let status = fr_last_http_status row;
          bad = poll_failed status \<or> status = Some 410;
          row = (if bad then row\<lparr>fr_last_error_at := Some now, fr_last_error := Some (show_status status)\<rparr> else row);
          po = poll_of_status status new now factor (fr_last_fetched_at row)
      in case apply_poll_result dead_after_days po row of
           Inl e \<Rightarrow> Inl e
         | Inr row \<Rightarrow>
             Inr (if bad then row
                  else row\<lparr>fr_last_fetched_at := Some now, fr_last_error := None, fr_last_error_at := None\<rparr>))"

text \<open>\<open>_record_source_failure\<close>: a source whose ingest raised.\<close>

definition record_source_failure ::
  "real \<Rightarrow> string \<Rightarrow> moment \<Rightarrow> real \<Rightarrow> feed_row \<Rightarrow> py_error + feed_row" where
  "record_source_failure dead_after_days message now factor row =
     apply_poll_result dead_after_days
       \<lparr>po_now = now, po_factor = factor, po_new_items = False, po_error = True, po_gone = False,
        po_retry_after = None, po_gap_seconds = 0\<rparr>
       (row\<lparr>fr_last_error_at := Some now, fr_last_error := Some (take 500 message)\<rparr>)"

text \<open>\<open>sync_feeds\<close>: a dead feed someone subscribes to again.\<close>

definition revive_feed :: "feed_row \<Rightarrow> feed_row" where
  "revive_feed feed =
     (if \<not> fr_is_active feed
      then feed\<lparr>fr_is_active := True, fr_feed_status := Some Healthy, fr_next_poll_at := None\<rparr>
      else feed)"

subsection \<open>The state every poll keeps\<close>

definition schedule_ok :: "schedule_state \<Rightarrow> bool" where
  "schedule_ok st \<longleftrightarrow> MIN_INTERVAL \<le> ss_interval_seconds st \<and> ss_interval_seconds st \<le> MAX_INTERVAL
     \<and> 0 \<le> ss_consecutive_errors st \<and> length (ss_recent_gaps st) \<le> MAX_GAPS
     \<and> (ss_failure_since st = None \<longleftrightarrow> ss_consecutive_errors st = 0)
     \<and> (ss_consecutive_errors st = 0 \<longrightarrow> ss_status st = Healthy)"

lemma schedule_constants:
  "MIN_INTERVAL = 900" "MAX_INTERVAL = 86400" "DEFAULT_INTERVAL = 3600" "ERROR_BASE = 300"
  "YOUTUBE_MAX_BACKOFF = 10800" "MAX_GAPS = 20" "DEAD_AFTER = 604800"
  by (simp_all add: MIN_INTERVAL_def MAX_INTERVAL_def DEFAULT_INTERVAL_def ERROR_BASE_def
      YOUTUBE_MAX_BACKOFF_def MAX_GAPS_def DEAD_AFTER_def)

lemma length_last_n: "length (last_n n xs) \<le> n"
  by (simp add: last_n_def)

lemma py_int_bounds:
  "of_int lo \<le> x \<Longrightarrow> x \<le> of_int hi \<Longrightarrow> lo \<le> py_int x \<and> py_int x \<le> hi"
  using py_int_mono [of "of_int lo" x] py_int_mono [of x "of_int hi"] by simp

lemma quiet_interval:
  assumes "schedule_ok st"
  shows "900 \<le> py_int (min 86400 (of_int (ss_interval_seconds st) * 1.25))
    \<and> py_int (min 86400 (of_int (ss_interval_seconds st) * 1.25)) \<le> 86400"
  using assms py_int_bounds [of 900 "min 86400 (of_int (ss_interval_seconds st) * 1.25)" 86400]
  by (simp add: schedule_ok_def schedule_constants)

lemma new_items_interval:
  assumes "schedule_ok st"
  shows "900 \<le> py_int (max 900 (of_int (ss_interval_seconds st) / 1.5))
    \<and> py_int (max 900 (of_int (ss_interval_seconds st) / 1.5)) \<le> 86400"
  using assms py_int_bounds [of 900 "max 900 (of_int (ss_interval_seconds st) / 1.5)" 86400]
  by (simp add: schedule_ok_def schedule_constants)

lemma step_ok:
  assumes "schedule_ok st"
  shows "schedule_ok (fst (on_quiet st now factor))" "schedule_ok (fst (on_new_items st now factor gap))"
    "schedule_ok (fst (on_error st now retry gone))" "schedule_ok (fst (on_rate_limited st now after))"
    "schedule_ok (fst (youtube_error days st now))"
  using assms quiet_interval [OF assms] new_items_interval [OF assms]
    length_last_n [of 20 "ss_recent_gaps st @ [max 0 gap]"]
  by (simp_all add: schedule_ok_def schedule_constants on_quiet_def on_new_items_def on_error_def
      on_rate_limited_def youtube_error_def Let_def)

lemma next_schedule_ok: "schedule_ok st \<Longrightarrow> schedule_ok (fst (next_schedule days youtube st po))"
  by (simp add: next_schedule_def step_ok)

definition poll_step :: "real \<Rightarrow> schedule_state \<Rightarrow> bool \<times> poll \<Rightarrow> schedule_state" where
  "poll_step days st e = fst (next_schedule days (fst e) st (snd e))"

interpretation polling: preserving "poll_step days" schedule_ok "\<lambda>_. True"
  by unfold_locales (simp add: poll_step_def next_schedule_ok)

text \<open>C26: Whatever happens to a feed, in whatever order, its poll interval stays between 15 minutes and
  24 hours, at most 20 gaps are remembered, and the failure clock runs exactly while errors are
  being counted; a feed without errors is healthy.\<close>

theorem schedule_run_ok:
  assumes "schedule_ok st"
  shows "schedule_ok (foldl (poll_step days) st events)"
  using assms by (intro polling.run_inv) (simp_all add: list_all_iff)

definition fresh_schedule :: schedule_state where
  "fresh_schedule = \<lparr>ss_interval_seconds = DEFAULT_INTERVAL, ss_consecutive_errors = 0,
     ss_recent_gaps = [], ss_status = Healthy, ss_failure_since = None\<rparr>"

lemma fresh_schedule_ok: "schedule_ok fresh_schedule"
  by (simp add: schedule_ok_def fresh_schedule_def schedule_constants)

definition error_poll :: "moment \<Rightarrow> poll" where
  "error_poll now = \<lparr>po_now = now, po_factor = 1, po_new_items = False, po_error = True, po_gone = False,
     po_retry_after = None, po_gap_seconds = 0\<rparr>"

theorem schedule_run_ok_witness:
  "schedule_ok (foldl (poll_step 30) fresh_schedule [(False, error_poll 0), (True, error_poll 9)])"
  by (rule schedule_run_ok [OF fresh_schedule_ok])

subsection \<open>When the next poll is due\<close>

lemma error_backoff_bounds:
  assumes "1 \<le> errors" "600 \<le> cap"
  shows "600 \<le> error_backoff cap errors" "error_backoff cap errors \<le> cap"
proof -
  have "(2 :: int) ^ 1 \<le> 2 ^ nat errors" using assms(1) by (intro power_increasing) simp_all
  with assms(2) show "600 \<le> error_backoff cap errors" by (simp add: error_backoff_def schedule_constants)
qed (simp add: error_backoff_def)

lemma error_backoff_mono: "m \<le> n \<Longrightarrow> error_backoff cap m \<le> error_backoff cap n"
proof -
  assume "m \<le> n"
  then have "(2 :: int) ^ nat m \<le> 2 ^ nat n" by (intro power_increasing) simp_all
  then show ?thesis unfolding error_backoff_def schedule_constants by linarith
qed

lemma jitter_bounds:
  assumes "900 \<le> i" "i \<le> 86400" "0.9 \<le> u" "u \<le> (1.1 :: real)"
  shows "now + 810 \<le> jittered now i u" "jittered now i u \<le> now + 95040"
proof -
  have i: "900 \<le> real_of_int i" "real_of_int i \<le> 86400" using assms(1,2) by simp_all
  have "900 * 0.9 \<le> real_of_int i * u" using i assms(3) by (intro mult_mono) simp_all
  moreover have "real_of_int i * u \<le> 86400 * 1.1" using i assms(3,4) by (intro mult_mono) simp_all
  ultimately show "now + 810 \<le> jittered now i u" "jittered now i u \<le> now + 95040"
    by (simp_all add: jittered_def)
qed

lemma error_delay:
  assumes "schedule_ok st"
  shows "now + 600 \<le> snd (on_error st now None gone)" "snd (on_error st now None gone) \<le> now + 86400"
    "now + 600 \<le> snd (youtube_error days st now)" "snd (youtube_error days st now) \<le> now + 10800"
proof -
  have e: "1 \<le> ss_consecutive_errors st + 1" using assms by (simp add: schedule_ok_def)
  note b = error_backoff_bounds [OF e]
  show "now + 600 \<le> snd (on_error st now None gone)" "snd (on_error st now None gone) \<le> now + 86400"
    using b [of 86400] by (simp_all add: on_error_def schedule_constants Let_def)
  show "now + 600 \<le> snd (youtube_error days st now)" "snd (youtube_error days st now) \<le> now + 10800"
    using b [of 10800] by (simp_all add: youtube_error_def schedule_constants Let_def)
qed

lemma ordinary_delay:
  assumes "schedule_ok st" "0.9 \<le> u" "u \<le> 1.1"
  shows "now + 810 \<le> snd (on_quiet st now u)" "snd (on_quiet st now u) \<le> now + 95040"
    "now + 810 \<le> snd (on_new_items st now u gap)" "snd (on_new_items st now u gap) \<le> now + 95040"
  using jitter_bounds [of _ u now] assms(2,3) quiet_interval [OF assms(1)] new_items_interval [OF assms(1)]
  by (simp_all add: on_quiet_def on_new_items_def schedule_constants Let_def)

text \<open>Without a Retry-After header the next poll is at least ten minutes and at most 26.4 hours
  away; after an error of a YouTube feed at most three hours.\<close>

theorem next_poll_bounds:
  assumes "schedule_ok st" "0.9 \<le> po_factor po" "po_factor po \<le> 1.1" "po_retry_after po = None"
  shows "po_now po + 600 \<le> snd (next_schedule days youtube st po)
    \<and> snd (next_schedule days youtube st po) \<le> po_now po + 95040
    \<and> (youtube \<and> (po_error po \<or> po_gone po) \<longrightarrow> snd (next_schedule days youtube st po) \<le> po_now po + 10800)"
proof -
  note error = error_delay [OF assms(1), where now = "po_now po"]
  note ordinary = ordinary_delay [OF assms(1-3), where now = "po_now po"]
  consider "youtube" "po_error po \<or> po_gone po" | "\<not> youtube" "po_gone po" | "\<not> youtube" "\<not> po_gone po" "po_error po"
    | "\<not> po_error po" "\<not> po_gone po" "po_new_items po" | "\<not> po_error po" "\<not> po_gone po" "\<not> po_new_items po"
    by blast
  then show ?thesis
  proof cases
    case 1
    then show ?thesis using error(3,4) [of days] by (simp add: next_schedule_def)
  next
    case 2
    then show ?thesis using error(1,2) [of True] by (simp add: next_schedule_def)
  next
    case 3
    then show ?thesis using error(1,2) [of False] assms(4) by (simp add: next_schedule_def)
  next
    case 4
    then show ?thesis using ordinary(3,4) [of "po_gap_seconds po"] by (simp add: next_schedule_def)
  next
    case 5
    then show ?thesis using ordinary(1,2) by (simp add: next_schedule_def)
  qed
qed

theorem next_poll_bounds_witness:
  "0 + 600 \<le> snd (next_schedule 30 False fresh_schedule (error_poll 0))"
  using next_poll_bounds [OF fresh_schedule_ok, of "error_poll 0" 30 False] by (simp add: error_poll_def)

subsection \<open>How feeds die\<close>

lemma on_error_state:
  "ss_failure_since (fst (on_error st now r g)) = Some (or_default (ss_failure_since st) now)"
  "ss_consecutive_errors (fst (on_error st now r g)) = ss_consecutive_errors st + 1"
  by (simp_all add: on_error_def Let_def)

lemma error_poll_step: "poll_step days st (False, error_poll t) = fst (on_error st t None False)"
  by (simp add: poll_step_def next_schedule_def error_poll_def)

lemma error_run_clock:
  assumes "schedule_ok st" "ss_failure_since st = Some s"
  shows "ss_failure_since (foldl (poll_step days) st (map (\<lambda>t. (False, error_poll t)) ts)) = Some s"
  using assms
proof (induction ts arbitrary: st)
  case Nil
  then show ?case by simp
next
  case (Cons t ts)
  then show ?case by (simp add: error_poll_step on_error_state step_ok)
qed

text \<open>A healthy feed whose polls all fail from \<open>t\<close> on is dead after the last of them exactly when
  seven days have passed since \<open>t\<close>.\<close>

theorem dies_after_seven_days:
  assumes "schedule_ok st" "ss_failure_since st = None"
  shows "ss_status (foldl (poll_step days) st (map (\<lambda>t. (False, error_poll t)) (t # ts @ [u]))) = Dead
    \<longleftrightarrow> 7 * 86400 \<le> u - t"
proof -
  define first where "first = poll_step days st (False, error_poll t)"
  define st' where "st' = foldl (poll_step days) first (map (\<lambda>t. (False, error_poll t)) ts)"
  have first: "schedule_ok first" "ss_failure_since first = Some t"
    using assms by (simp_all add: first_def error_poll_step on_error_state step_ok)
  have since: "ss_failure_since st' = Some t" unfolding st'_def by (rule error_run_clock [OF first])
  have "schedule_ok st'" unfolding st'_def by (rule polling.run_inv [OF first(1)]) (simp add: list_all_iff)
  then have "0 < ss_consecutive_errors st' + 1" by (simp add: schedule_ok_def)
  then have "ss_status (fst (on_error st' u None False)) = Dead \<longleftrightarrow> 7 * 86400 \<le> u - t"
    using since by (simp add: on_error_def health_status_def Let_def DEAD_AFTER_def)
  then show ?thesis by (simp add: st'_def first_def error_poll_step)
qed

theorem dies_after_seven_days_witness:
  "ss_status (foldl (poll_step 30) fresh_schedule (map (\<lambda>t. (False, error_poll t)) (0 # [1000] @ [7 * 86400]))) = Dead"
  by (subst dies_after_seven_days [OF fresh_schedule_ok]) (simp_all add: fresh_schedule_def)

text \<open>After any poll a dead feed is inactive, and it is announced once: a feed that was dead before
  does not get a second notice.\<close>

theorem dead_feeds_stop:
  assumes "apply_poll_result days po row = Inr row'"
  shows "(fr_feed_status row' = Some Dead \<longrightarrow> \<not> fr_is_active row')
    \<and> (fr_feed_status row = Some Dead \<longrightarrow> fr_dead_notice_pending row' = fr_dead_notice_pending row)
    \<and> (fr_feed_status row \<noteq> Some Dead \<and> fr_feed_status row' = Some Dead \<longrightarrow> fr_dead_notice_pending row')
    \<and> (fr_is_active row' \<longrightarrow> fr_is_active row)"
  using assms
  by (cases "fr_feed_status row")
    (auto simp: apply_poll_result_def mark_reddit_feed_dead_def write_schedule_def
      split: sum.splits bool.splits if_splits)


lemma poll_url_cong:
  "fr_feed_url a = fr_feed_url b \<Longrightarrow> fr_url a = fr_url b \<Longrightarrow> poll_url a = poll_url b"
  by (simp add: poll_url_def split: option.split)

definition sample_feed :: feed_row where
  "sample_feed = \<lparr>fr_feed_url = None, fr_url = ''https://blog.org/feed'', fr_poll_interval_seconds = None,
     fr_fetch_error_count = None, fr_recent_gap_seconds = None, fr_feed_status = None,
     fr_failure_since = None, fr_next_poll_at = None, fr_is_active = True,
     fr_dead_notice_pending = False, fr_last_error = None, fr_last_error_at = None,
     fr_last_fetched_at = None, fr_last_http_status = None\<rparr>"

lemma sample_feed_ordinary:
  "is_dead_reddit_feed (poll_url sample_feed) 0 = Inr False" "is_youtube_feed (poll_url sample_feed) = Inr False"
  "is_reddit_feed (poll_url sample_feed) = Inr False"
  by code_simp+

theorem dead_feeds_stop_witness:
  "\<exists>row'. apply_poll_result 30 (error_poll 0) sample_feed = Inr row' \<and> (fr_is_active row' \<longrightarrow> fr_is_active sample_feed)"
proof -
  obtain row' where "apply_poll_result 30 (error_poll 0) sample_feed = Inr row'"
    by (simp add: apply_poll_result_def error_poll_def sample_feed_ordinary)
  then show ?thesis using dead_feeds_stop by blast
qed

subsection \<open>What counts as an error\<close>

lemma finish_ingest_success:
  assumes "is_reddit_feed (poll_url row) = Inr False" "status \<noteq> Some 429" "status \<noteq> Some 410"
    "\<not> some_and status (\<lambda>n. 500 \<le> n)" "fr_last_http_status row = status"
  shows "\<exists>row'. finish_ingest days new now factor row = Inr row' \<and> fr_feed_status row' = Some Healthy
    \<and> fr_fetch_error_count row' = Some 0 \<and> fr_failure_since row' = None \<and> fr_last_error row' = None
    \<and> fr_last_fetched_at row' = Some now"
  using assms
  by (simp add: finish_ingest_def poll_failed_def poll_of_status_def apply_poll_result_def
      is_dead_reddit_feed_def next_schedule_def write_schedule_def on_new_items_def on_quiet_def Let_def)

text \<open>Only 410, 429 and the 5xx count as failures: a poll that ends with any other status, or with
  none because the request failed, leaves the feed healthy with no error recorded.\<close>

theorem finish_ingest_other_status:
  assumes "is_reddit_feed (poll_url row) = Inr False"
    "fr_last_http_status row \<notin> {Some 410, Some 429}" "\<not> some_and (fr_last_http_status row) (\<lambda>n. 500 \<le> n)"
  shows "\<exists>row'. finish_ingest days new now factor row = Inr row' \<and> fr_feed_status row' = Some Healthy
    \<and> fr_fetch_error_count row' = Some 0 \<and> fr_failure_since row' = None \<and> fr_last_error row' = None
    \<and> fr_last_fetched_at row' = Some now"
  using assms by (intro finish_ingest_success) auto

theorem finish_ingest_other_status_witness:
  "\<exists>row'. finish_ingest 30 False 5 1 (sample_feed\<lparr>fr_last_http_status := Some 404\<rparr>) = Inr row'
    \<and> fr_feed_status row' = Some Healthy"
proof -
  have "is_reddit_feed (poll_url (sample_feed\<lparr>fr_last_http_status := Some 404\<rparr>)) = Inr False"
    using sample_feed_ordinary(3) poll_url_cong [of "sample_feed\<lparr>fr_last_http_status := Some 404\<rparr>" sample_feed]
    by simp
  then show ?thesis
    using finish_ingest_other_status [of "sample_feed\<lparr>fr_last_http_status := Some 404\<rparr>" 30 False 5 1] by auto
qed

text \<open>The revival of a dead feed does not reset its failure clock: when the feed had been failing for
  seven days, its first failed poll after the revival kills it again.\<close>

theorem revived_feed_dies_again:
  assumes "\<not> fr_is_active row" "fr_failure_since row = Some s" "7 * 86400 \<le> now - s"
    "0 \<le> or_default (fr_fetch_error_count row) 0" "fr_last_http_status row = Some 503"
    "is_reddit_feed (poll_url row) = Inr False" "is_youtube_feed (poll_url row) = Inr False"
  shows "fr_is_active (revive_feed row) \<and> fr_feed_status (revive_feed row) = Some Healthy
    \<and> (\<exists>row'. finish_ingest days new now factor (revive_feed row) = Inr row'
        \<and> fr_feed_status row' = Some Dead \<and> \<not> fr_is_active row' \<and> fr_dead_notice_pending row')"
proof -
  have url: "poll_url (revive_feed row) = poll_url row"
    by (rule poll_url_cong) (simp_all add: revive_feed_def)
  have url2: "poll_url (revive_feed row\<lparr>fr_last_error_at := a, fr_last_error := b\<rparr>) = poll_url row" for a b
    unfolding url [symmetric] by (rule poll_url_cong) simp_all
  show ?thesis
    using assms
    by (simp add: finish_ingest_def poll_failed_def poll_of_status_def apply_poll_result_def url2
        is_dead_reddit_feed_def next_schedule_def Let_def)
      (simp add: revive_feed_def write_schedule_def on_error_def health_status_def schedule_of_def Let_def
        DEAD_AFTER_def)
qed

definition dead_feed :: feed_row where
  "dead_feed = sample_feed\<lparr>fr_is_active := False, fr_feed_status := Some Dead, fr_failure_since := Some 0,
     fr_fetch_error_count := Some 9, fr_last_http_status := Some 503\<rparr>"

theorem revived_feed_dies_again_witness:
  "\<exists>row'. finish_ingest 30 False (30 * 86400) 1 (revive_feed dead_feed) = Inr row'
    \<and> fr_feed_status row' = Some Dead \<and> \<not> fr_is_active row'"
proof -
  have "poll_url dead_feed = poll_url sample_feed" by (rule poll_url_cong) (simp_all add: dead_feed_def)
  then show ?thesis
    using revived_feed_dies_again [of dead_feed 0 "30 * 86400" 30 False 1] sample_feed_ordinary
    by (auto simp: dead_feed_def)
qed

text \<open>A poll that succeeds ends the failure.\<close>

lemma success_resets:
  "fst (on_quiet st now u) = st' \<or> fst (on_new_items st now u gap) = st'
    \<Longrightarrow> ss_failure_since st' = None \<and> ss_consecutive_errors st' = 0 \<and> ss_status st' = Healthy"
  by (auto simp: on_quiet_def on_new_items_def Let_def)

subsection \<open>Reddit and YouTube\<close>

lemma reddit_hosts:
  "map (\<lambda>u. is_reddit_feed (Some u)) [''https://old.Reddit.com/r/x/.rss'', ''https://reddit.com/.rss'',
      ''https://notreddit.com/.rss'', ''https://reddit.com.evil.org/.rss'', []]
    = [Inr True, Inr True, Inr False, Inr False, Inr False]"
  by code_simp

lemma youtube_hosts:
  "map (\<lambda>u. is_youtube_feed (Some u)) [''https://www.youtube.com/feeds/videos.xml?channel_id=a'',
      ''https://m.youtube.com/feeds/videos.xml/'', ''https://youtube.com/watch?v=a'',
      ''https://notyoutube.com/feeds/videos.xml'']
    = [Inr True, Inr True, Inr False, Inr False]"
  by code_simp

text \<open>From the day Reddit ends RSS every poll of a Reddit feed, whatever it returned, leaves it dead,
  inactive and unscheduled.\<close>

theorem dead_reddit_feed_stops:
  assumes "is_reddit_feed (poll_url row) = Inr True" "REDDIT_RSS_END \<le> po_now po"
  shows "\<exists>row'. apply_poll_result days po row = Inr row' \<and> fr_feed_status row' = Some Dead
    \<and> \<not> fr_is_active row' \<and> fr_next_poll_at row' = None"
  using assms
  by (simp add: apply_poll_result_def is_dead_reddit_feed_def reddit_rss_ended_def mark_reddit_feed_dead_def)

theorem dead_reddit_feed_stops_witness:
  "\<exists>row'. apply_poll_result 30 (error_poll 2000000000) (sample_feed\<lparr>fr_url := ''https://reddit.com/.rss''\<rparr>) = Inr row'
    \<and> \<not> fr_is_active row'"
proof -
  have "is_reddit_feed (poll_url (sample_feed\<lparr>fr_url := ''https://reddit.com/.rss''\<rparr>)) = Inr True" by code_simp
  then show ?thesis
    using dead_reddit_feed_stops [of "sample_feed\<lparr>fr_url := ''https://reddit.com/.rss''\<rparr>" "error_poll 2000000000" 30]
    by (auto simp: error_poll_def REDDIT_RSS_END_def)
qed

end
