(* ===== verification/InterestGraph.thy ===== *)
theory InterestGraph
  imports Content Urls
begin

text \<open>
  The interest graph of a reader: \<open>services/interest_graph/\<close> (graph, updater, decay),
  \<open>services/feed_identity.py\<close> (the reader's own source of an item) and the edits a reader makes
  (\<open>api/feedback.py\<close>, \<open>api/digest.py\<close>). \<open>graph_db\<close> holds the tables and the cache these
  functions use. The session does not flush on its own (\<open>autoflush=False\<close> in \<open>database.py\<close>), so
  an aggregate query sees the rows as they were at the last flush: \<open>reinforce_edge\<close> takes the
  maximum before the new count is written. The embedding service and the test whether a stored
  model is the active one are parameters.
\<close>

subsection \<open>Tables\<close>

record interest_node =
  in_id :: nat
  in_user_id :: nat
  in_topic_label :: string
  in_weight :: real
  in_half_life_days :: int
  in_last_reinforced_at :: "moment option"
  in_is_core :: bool
  in_reinforcement_count :: int
  in_suppressed_until :: "moment option"
  in_topic_embedding :: "vec option"
  in_embedding_model :: "string option"

record interest_edge =
  ie_user_id :: nat
  ie_from_node_id :: nat
  ie_to_node_id :: nat
  ie_co_occurrence_count :: int
  ie_edge_weight :: real

record source_row =
  sr_id :: nat
  sr_user_id :: nat
  sr_feed_id :: "nat option"
  sr_url :: string
  sr_feed_url :: "string option"
  sr_name :: "string option"
  sr_trust_weight :: real
  sr_created_at :: moment
  sr_is_active :: bool

record creator_trust =
  ct_user_id :: nat
  ct_creator_id :: nat
  ct_topic_label :: string
  ct_trust_weight :: real
  ct_interaction_count :: int

record graph_db =
  gd_nodes :: "interest_node list"
  gd_edges :: "interest_edge list"
  gd_sources :: "source_row list"
  gd_trusts :: "creator_trust list"
  gd_platforms :: "(nat \<times> nat) list"
  gd_cache :: "string \<Rightarrow> vec option"
  gd_next_id :: nat

text \<open>The first row that satisfies a unique key, and the update of the rows that satisfy it.\<close>

definition update_where :: "('a \<Rightarrow> bool) \<Rightarrow> ('a \<Rightarrow> 'a) \<Rightarrow> 'a list \<Rightarrow> 'a list" where
  "update_where P f rows = map (\<lambda>r. if P r then f r else r) rows"

lemma list_all_update_where:
  "list_all Q rows \<Longrightarrow> (\<And>r. Q r \<Longrightarrow> Q (f r)) \<Longrightarrow> list_all Q (update_where P f rows)"
  by (auto simp: update_where_def list_all_iff)

subsection \<open>Nodes\<close>

definition CORE_WEIGHT_THRESHOLD :: real where "CORE_WEIGHT_THRESHOLD = 0.7"
definition CORE_REINFORCEMENT_THRESHOLD :: int where "CORE_REINFORCEMENT_THRESHOLD = 20"

definition node_key :: "nat \<Rightarrow> string \<Rightarrow> interest_node \<Rightarrow> bool" where
  "node_key user label n \<longleftrightarrow> in_user_id n = user \<and> in_topic_label n = label"

definition find_node :: "graph_db \<Rightarrow> nat \<Rightarrow> string \<Rightarrow> interest_node option" where
  "find_node db user label = find (node_key user label) (gd_nodes db)"

text \<open>A new row; the listener stamps the model of the embedding.\<close>

definition new_node ::
  "string \<Rightarrow> graph_db \<Rightarrow> nat \<Rightarrow> string \<Rightarrow> vec option \<Rightarrow> real \<Rightarrow> interest_node" where
  "new_node model db user label emb weight =
     \<lparr>in_id = gd_next_id db, in_user_id = user, in_topic_label = label, in_weight = weight,
      in_half_life_days = 60, in_last_reinforced_at = None, in_is_core = False,
      in_reinforcement_count = 0, in_suppressed_until = None, in_topic_embedding = emb,
      in_embedding_model = (if emb = None then None else Some model)\<rparr>"

definition add_node :: "interest_node \<Rightarrow> graph_db \<Rightarrow> graph_db" where
  "add_node n db = db\<lparr>gd_nodes := gd_nodes db @ [n], gd_next_id := gd_next_id db + 1\<rparr>"

definition get_or_create_node ::
  "string \<Rightarrow> nat \<Rightarrow> string \<Rightarrow> vec option \<Rightarrow> graph_db \<Rightarrow> interest_node \<times> graph_db" where
  "get_or_create_node model user label emb db =
     (case find_node db user label of
        Some n \<Rightarrow> (n, db)
      | None \<Rightarrow> let n = new_node model db user label emb 0.1 in (n, add_node n db))"

definition reinforced :: "moment \<Rightarrow> bool \<Rightarrow> real \<Rightarrow> interest_node \<Rightarrow> interest_node" where
  "reinforced now counted signal_strength n =
     (let w = (if 0 < signal_strength then min 1 (in_weight n + signal_strength * 0.1)
               else max 0 (in_weight n + signal_strength * 0.1));
          c = (if counted then in_reinforcement_count n + 1 else in_reinforcement_count n)
      in n\<lparr>in_weight := w, in_last_reinforced_at := Some now, in_reinforcement_count := c,
           in_is_core := in_is_core n \<or> (CORE_WEIGHT_THRESHOLD < w \<and> CORE_REINFORCEMENT_THRESHOLD \<le> c)\<rparr>)"

definition user_vec_key :: "nat \<Rightarrow> string" where
  "user_vec_key user = ''interest_vec:'' @ show_int (int user)"

definition model_vec_key :: "string \<Rightarrow> nat \<Rightarrow> string" where
  "model_vec_key model user = ''interest_vec:'' @ model @ '':'' @ show_int (int user)"

definition cache_delete :: "string \<Rightarrow> graph_db \<Rightarrow> graph_db" where
  "cache_delete key db = db\<lparr>gd_cache := (gd_cache db)(key := None)\<rparr>"

definition reinforce_node ::
  "moment \<Rightarrow> interest_node \<Rightarrow> real \<Rightarrow> bool \<Rightarrow> graph_db \<Rightarrow> graph_db" where
  "reinforce_node now node signal_strength counted db =
     cache_delete (user_vec_key (in_user_id node))
       (db\<lparr>gd_nodes := update_where (\<lambda>n. in_id n = in_id node) (reinforced now counted signal_strength) (gd_nodes db)\<rparr>)"

subsection \<open>Edges\<close>

definition edge_key :: "nat \<Rightarrow> nat \<Rightarrow> nat \<Rightarrow> interest_edge \<Rightarrow> bool" where
  "edge_key user a b e \<longleftrightarrow> ie_user_id e = user \<and> ie_from_node_id e = a \<and> ie_to_node_id e = b"

definition max_count :: "nat \<Rightarrow> interest_edge list \<Rightarrow> int" where
  "max_count user edges =
     (let counts = map ie_co_occurrence_count (filter (\<lambda>e. ie_user_id e = user) edges);
          m = foldl max 0 counts
      in if m = 0 then 1 else m)"

definition reinforce_edge :: "nat \<Rightarrow> nat \<Rightarrow> nat \<Rightarrow> graph_db \<Rightarrow> graph_db" where
  "reinforce_edge user node_a node_b db =
     (let (a, b) = (if node_a < node_b then (node_a, node_b) else (node_b, node_a));
          edges = (case find (edge_key user a b) (gd_edges db) of
                     Some e \<Rightarrow> gd_edges db
                   | None \<Rightarrow> gd_edges db @ [\<lparr>ie_user_id = user, ie_from_node_id = a, ie_to_node_id = b,
                                ie_co_occurrence_count = 0, ie_edge_weight = 0\<rparr>]);
          m = max_count user edges
      in db\<lparr>gd_edges := update_where (edge_key user a b)
             (\<lambda>e. e\<lparr>ie_co_occurrence_count := ie_co_occurrence_count e + 1,
                    ie_edge_weight := of_int (ie_co_occurrence_count e + 1) / of_int m\<rparr>) edges\<rparr>)"

definition renormalize_edges :: "nat \<Rightarrow> graph_db \<Rightarrow> graph_db" where
  "renormalize_edges user db =
     (let m = max_count user (gd_edges db)
      in db\<lparr>gd_edges := update_where (\<lambda>e. ie_user_id e = user)
             (\<lambda>e. e\<lparr>ie_edge_weight := of_int (ie_co_occurrence_count e) / of_int m\<rparr>) (gd_edges db)\<rparr>)"

subsection \<open>The interest vector\<close>

definition build_user_interest_vector ::
  "(string option \<Rightarrow> bool) \<Rightarrow> string \<Rightarrow> nat \<Rightarrow> graph_db \<Rightarrow> vec option \<times> graph_db" where
  "build_user_interest_vector same_model model user db =
     (case gd_cache db (model_vec_key model user) of
        Some v \<Rightarrow> (Some v, db)
      | None \<Rightarrow>
          let nodes = filter (\<lambda>n. in_user_id n = user \<and> in_topic_embedding n \<noteq> None
                                \<and> same_model (in_embedding_model n)) (gd_nodes db)
          in case nodes of
               [] \<Rightarrow> (None, db)
             | n # ns \<Rightarrow>
                 let weighted_vec = (\<lambda>n. vscale (in_weight n) (or_default (in_topic_embedding n) []));
                     weighted = foldl (\<lambda>acc m. vadd acc (weighted_vec m)) (weighted_vec n) ns;
                     norm = vnorm weighted;
                     v = (if 0 < norm then vscale (1 / norm) weighted else weighted)
                 in (Some v, db\<lparr>gd_cache := (gd_cache db)(model_vec_key model user := Some v)\<rparr>))"

subsection \<open>Decay\<close>

definition INACTIVE_WEIGHT_THRESHOLD :: real where "INACTIVE_WEIGHT_THRESHOLD = 0.05"

text \<open>What the passing of time does to a node that is not suppressed.\<close>

definition decay_weight :: "moment \<Rightarrow> interest_node \<Rightarrow> interest_node" where
  "decay_weight now n =
     (case in_last_reinforced_at n of
        None \<Rightarrow> n
      | Some t \<Rightarrow>
          let days_elapsed = (now - t) / 86400;
              half_life = of_int (in_half_life_days n) * (if in_is_core n then 2 else 1);
              w = (if 0 < days_elapsed \<and> 0 < half_life
                   then in_weight n * 0.5 powr (days_elapsed / half_life) else in_weight n)
          in n\<lparr>in_weight := (if w < INACTIVE_WEIGHT_THRESHOLD then INACTIVE_WEIGHT_THRESHOLD else w)\<rparr>)"

definition decay_node :: "moment \<Rightarrow> interest_node \<Rightarrow> interest_node" where
  "decay_node now n =
     (case in_suppressed_until n of
        None \<Rightarrow> decay_weight now n
      | Some until \<Rightarrow>
          if until \<le> now
          then decay_weight now (n\<lparr>in_suppressed_until := None, in_weight := min 0.4 (in_weight n + 0.1)\<rparr>)
          else n)"

definition apply_decay :: "moment \<Rightarrow> nat \<Rightarrow> graph_db \<Rightarrow> graph_db" where
  "apply_decay now user db =
     renormalize_edges user
       (db\<lparr>gd_nodes := update_where (\<lambda>n. in_user_id n = user) (decay_node now) (gd_nodes db)\<rparr>)"

subsection \<open>Trust\<close>

definition TRUST_LEARN_RATE :: real where "TRUST_LEARN_RATE = 0.02"
definition TRUST_MIN :: real where "TRUST_MIN = 0.1"
definition TRUST_MAX :: real where "TRUST_MAX = 1.0"

definition falsy_string :: "string option \<Rightarrow> string \<Rightarrow> string" where
  "falsy_string s d = (case s of None \<Rightarrow> d | Some t \<Rightarrow> if t = [] then d else t)"

text \<open>The key in SQL is \<open>coalesce(feed_url, url)\<close>; the one in Python is \<open>feed_url or url\<close>.\<close>

definition sql_feed_key :: "source_row \<Rightarrow> string" where
  "sql_feed_key s = or_default (sr_feed_url s) (sr_url s)"

definition user_source_for_item :: "graph_db \<Rightarrow> nat \<Rightarrow> nat option \<Rightarrow> source_row option" where
  "user_source_for_item db user source_id =
     (case source_id of
        None \<Rightarrow> None
      | Some sid \<Rightarrow>
          (case find (\<lambda>s. sr_id s = sid) (gd_sources db) of
             None \<Rightarrow> None
           | Some origin \<Rightarrow>
               if sr_user_id origin = user then Some origin
               else case sort_key sr_created_at
                      (filter (\<lambda>s. sr_user_id s = user
                         \<and> sql_feed_key s = falsy_string (sr_feed_url origin) (sr_url origin)) (gd_sources db)) of
                 [] \<Rightarrow> None
               | s # _ \<Rightarrow> Some s))"

definition moved_trust :: "real \<Rightarrow> real \<Rightarrow> real" where
  "moved_trust signal trust = max TRUST_MIN (min TRUST_MAX (trust + TRUST_LEARN_RATE * signal))"

definition trust_key :: "nat \<Rightarrow> nat \<Rightarrow> string \<Rightarrow> creator_trust \<Rightarrow> bool" where
  "trust_key user creator label t \<longleftrightarrow>
     ct_user_id t = user \<and> ct_creator_id t = creator \<and> ct_topic_label t = label"

definition update_topic_trust ::
  "nat \<Rightarrow> nat \<Rightarrow> real \<Rightarrow> bool \<Rightarrow> string \<Rightarrow> creator_trust list \<Rightarrow> creator_trust list" where
  "update_topic_trust user creator signal counted label trusts =
     (let rows = (case find (trust_key user creator label) trusts of
                    Some _ \<Rightarrow> trusts
                  | None \<Rightarrow> trusts @ [\<lparr>ct_user_id = user, ct_creator_id = creator, ct_topic_label = label,
                               ct_trust_weight = 0.5, ct_interaction_count = 0\<rparr>])
      in update_where (trust_key user creator label)
           (\<lambda>t. t\<lparr>ct_trust_weight := moved_trust signal (ct_trust_weight t),
                  ct_interaction_count := ct_interaction_count t + (if counted then 1 else 0)\<rparr>) rows)"

text \<open>The topics of an item are taken to be distinct here: a topic listed twice whose record is new
  would be added twice and refused by the unique key.\<close>

definition update_creator_topic_trust ::
  "nat \<Rightarrow> content_item \<Rightarrow> real \<Rightarrow> bool \<Rightarrow> graph_db \<Rightarrow> graph_db" where
  "update_creator_topic_trust user content signal counted db =
     (case ci_creator_platform_id content of
        None \<Rightarrow> db
      | Some platform \<Rightarrow>
          (case map_of (gd_platforms db) platform of
             None \<Rightarrow> db
           | Some creator \<Rightarrow>
               db\<lparr>gd_trusts := fold (update_topic_trust user creator signal counted)
                    (ci_topic_clusters content) (gd_trusts db)\<rparr>))"

definition update_source_trust ::
  "interaction \<Rightarrow> content_item \<Rightarrow> real \<Rightarrow> bool \<Rightarrow> graph_db \<Rightarrow> graph_db" where
  "update_source_trust ix content normalised_delta first_application db =
     (if normalised_delta = 0 then db
      else
        let db = (case user_source_for_item db (ix_user_id ix) (ci_source_id content) of
                    None \<Rightarrow> db
                  | Some src \<Rightarrow> db\<lparr>gd_sources := update_where (\<lambda>s. sr_id s = sr_id src)
                      (\<lambda>s. s\<lparr>sr_trust_weight := moved_trust normalised_delta (sr_trust_weight s)\<rparr>) (gd_sources db)\<rparr>)
        in update_creator_topic_trust (ix_user_id ix) content normalised_delta first_application db)"

subsection \<open>One interaction\<close>

definition MAX_TOPICS_FOR_EDGE_UPDATE :: nat where "MAX_TOPICS_FOR_EDGE_UPDATE = 5"

definition compute_signal_strength :: "interaction \<Rightarrow> real" where
  "compute_signal_strength ix =
     (if ix_explicit_rating ix = Some 1 then 1
      else if ix_explicit_rating ix = Some (- 1) then - 0.8
      else
        let completion = or_default (ix_read_completion_pct ix) 0;
            time_on_page = or_default (ix_time_on_page_seconds ix) 0
        in if ix_saved ix \<and> ix_saved_read_at ix \<noteq> None then 0.9
           else if ix_saved ix then 0.1
           else if time_on_page < 10 \<and> completion < 0.1 then - 0.2
           else if 0.85 \<le> completion then (if ix_was_suggested ix then 1.2 else 0.8)
           else if 0.5 \<le> completion then 0.4
           else 0)"

definition normalise :: "real \<Rightarrow> real" where
  "normalise signal = max (- 1) (min 1 signal)"

fun pairs_of :: "'a list \<Rightarrow> ('a \<times> 'a) list" where
  "pairs_of [] = []"
| "pairs_of (x # xs) = map (\<lambda>y. (x, y)) xs @ pairs_of xs"

text \<open>The loop over the topics; it returns the ids of the nodes.\<close>

fun touch_topics ::
  "string \<Rightarrow> moment \<Rightarrow> nat \<Rightarrow> real \<Rightarrow> bool \<Rightarrow> (string \<times> vec option) list \<Rightarrow> graph_db \<Rightarrow> nat list \<times> graph_db" where
  "touch_topics model now user delta counted [] db = ([], db)"
| "touch_topics model now user delta counted ((label, emb) # topics) db =
     (let (node, db) = get_or_create_node model user label emb db;
          db = (if delta \<noteq> 0 then reinforce_node now node delta counted db else db);
          (ids, db) = touch_topics model now user delta counted topics db
      in (in_id node # ids, db))"

definition node_weight :: "graph_db \<Rightarrow> nat \<Rightarrow> real" where
  "node_weight db i = (case find (\<lambda>n. in_id n = i) (gd_nodes db) of None \<Rightarrow> 0 | Some n \<Rightarrow> in_weight n)"

definition reinforce_edges :: "nat \<Rightarrow> nat list \<Rightarrow> graph_db \<Rightarrow> graph_db" where
  "reinforce_edges user ids db =
     foldl (\<lambda>db (a, b). reinforce_edge user a b db) db
       (pairs_of (take MAX_TOPICS_FOR_EDGE_UPDATE (sort_desc (node_weight db) ids)))"

definition update_from_interaction ::
  "(string list \<Rightarrow> vec option list) \<Rightarrow> string \<Rightarrow> moment \<Rightarrow> interaction \<Rightarrow> content_item \<Rightarrow> graph_db
    \<Rightarrow> bool \<times> interaction \<times> graph_db" where
  "update_from_interaction encode model now ix content db =
     (let signal_strength = compute_signal_strength ix;
          previous = ix_graph_signal_applied ix;
          first_application = (previous = None);
          delta = signal_strength - or_default previous 0
      in if \<not> first_application \<and> \<bar>delta\<bar> < 1 / 10 ^ 9 then (False, ix, db)
         else
           let topics = ci_topic_clusters content;
               (ids, db) = touch_topics model now (ix_user_id ix) delta first_application
                 (zip topics (encode topics)) db;
               became_positive = (0 < signal_strength \<and> or_default previous 0 \<le> 0);
               db = (if topics \<noteq> [] \<and> became_positive then reinforce_edges (ix_user_id ix) ids db else db);
               trust_delta = normalise signal_strength - normalise (or_default previous 0);
               db = update_source_trust ix content trust_delta first_application db
           in (True, ix\<lparr>ix_graph_signal_applied := Some signal_strength\<rparr>, db))"

subsection \<open>Edits by the reader\<close>

datatype interest_action = Boost | Suppress | Remove

definition adjust_node :: "(interest_node \<Rightarrow> interest_node) \<Rightarrow> interest_node \<Rightarrow> graph_db \<Rightarrow> graph_db" where
  "adjust_node f n db = db\<lparr>gd_nodes := update_where (\<lambda>m. in_id m = in_id n) f (gd_nodes db)\<rparr>"

definition adjust_interests ::
  "(string \<Rightarrow> vec option) \<Rightarrow> string \<Rightarrow> moment \<Rightarrow> nat \<Rightarrow> string \<Rightarrow> interest_action \<Rightarrow> int option \<Rightarrow> graph_db \<Rightarrow> graph_db" where
  "adjust_interests encode_single model now user topic act duration_days db =
     cache_delete (user_vec_key user)
       (case (find_node db user topic, act) of
          (Some n, Boost) \<Rightarrow> adjust_node (\<lambda>n. n\<lparr>in_weight := min 1 (in_weight n + 0.3)\<rparr>) n db
        | (None, Boost) \<Rightarrow> add_node (new_node model db user topic (encode_single topic) 0.7) db
        | (Some n, Suppress) \<Rightarrow>
            adjust_node (\<lambda>n. n\<lparr>in_weight := max 0 (in_weight n - 0.3),
              in_suppressed_until := (if some_and duration_days (\<lambda>d. 0 < d)
                then Some (now + of_int (or_default duration_days 0) * 86400) else in_suppressed_until n)\<rparr>) n db
        | (Some n, Remove) \<Rightarrow> adjust_node (\<lambda>n. n\<lparr>in_weight := 0.01\<rparr>) n db
        | (None, _) \<Rightarrow> db)"

definition topic_action :: "bool \<Rightarrow> nat \<Rightarrow> string \<Rightarrow> graph_db \<Rightarrow> graph_db" where
  "topic_action fewer user topic db =
     (case find_node db user topic of
        None \<Rightarrow> db
      | Some n \<Rightarrow> adjust_node (\<lambda>n. n\<lparr>in_weight := max 0 (min 1 (in_weight n + (if fewer then - 0.3 else 0.3))),
            in_suppressed_until := (if fewer then in_suppressed_until n else None)\<rparr>) n db)"

datatype edit_error = LabelsRequired | SelfMerge | InterestNotFound

text \<open>The labels are stripped by the caller. Renaming onto an existing label, and merging, fold the
  node into the other one.\<close>

definition fold_into :: "interest_node \<Rightarrow> interest_node \<Rightarrow> graph_db \<Rightarrow> graph_db" where
  "fold_into src dst db =
     (let db = adjust_node (\<lambda>n. n\<lparr>in_weight := max 0 (min 1 (in_weight n + in_weight src))\<rparr>) dst db
      in db\<lparr>gd_nodes := filter (\<lambda>n. in_id n \<noteq> in_id src) (gd_nodes db)\<rparr>)"

definition merge_interests :: "nat \<Rightarrow> string \<Rightarrow> string \<Rightarrow> graph_db \<Rightarrow> edit_error + graph_db" where
  "merge_interests user from_label into_label db =
     (if from_label = [] \<or> into_label = [] then Inl LabelsRequired
      else if from_label = into_label then Inl SelfMerge
      else case find_node db user from_label of
        None \<Rightarrow> Inl InterestNotFound
      | Some src \<Rightarrow>
          (case find_node db user into_label of
             None \<Rightarrow> Inr (adjust_node (\<lambda>n. n\<lparr>in_topic_label := into_label\<rparr>) src db)
           | Some dst \<Rightarrow> Inr (fold_into src dst db)))"

definition rename_interest :: "nat \<Rightarrow> string \<Rightarrow> string \<Rightarrow> graph_db \<Rightarrow> edit_error + graph_db" where
  "rename_interest user from_label to_label db =
     (if from_label = [] \<or> to_label = [] then Inl LabelsRequired
      else case find_node db user from_label of
        None \<Rightarrow> Inl InterestNotFound
      | Some node \<Rightarrow>
          (case find_node db user to_label of
             Some clash \<Rightarrow>
               if in_id clash \<noteq> in_id node then Inr (fold_into node clash db)
               else Inr (adjust_node (\<lambda>n. n\<lparr>in_topic_label := to_label\<rparr>) node db)
           | None \<Rightarrow> Inr (adjust_node (\<lambda>n. n\<lparr>in_topic_label := to_label\<rparr>) node db)))"

subsection \<open>The invariant of the graph\<close>

definition node_ok :: "interest_node \<Rightarrow> bool" where
  "node_ok n \<longleftrightarrow> 0 \<le> in_weight n \<and> in_weight n \<le> 1"

definition edge_ok :: "interest_edge \<Rightarrow> bool" where
  "edge_ok e \<longleftrightarrow> ie_from_node_id e \<le> ie_to_node_id e \<and> 0 \<le> ie_co_occurrence_count e \<and> 0 \<le> ie_edge_weight e"

definition trust_ok :: "real \<Rightarrow> bool" where
  "trust_ok t \<longleftrightarrow> TRUST_MIN \<le> t \<and> t \<le> TRUST_MAX"

definition edge_id :: "interest_edge \<Rightarrow> nat \<times> nat \<times> nat" where
  "edge_id e = (ie_user_id e, ie_from_node_id e, ie_to_node_id e)"

definition graph_ok :: "graph_db \<Rightarrow> bool" where
  "graph_ok db \<longleftrightarrow> list_all node_ok (gd_nodes db) \<and> list_all edge_ok (gd_edges db)
     \<and> distinct (map edge_id (gd_edges db))
     \<and> list_all (\<lambda>s. trust_ok (sr_trust_weight s)) (gd_sources db)
     \<and> list_all (\<lambda>t. trust_ok (ct_trust_weight t)) (gd_trusts db)"

lemma node_ok_reinforced: "node_ok n \<Longrightarrow> node_ok (reinforced now counted s n)"
  by (auto simp: node_ok_def reinforced_def Let_def)

lemma node_ok_weight: "0 \<le> w \<Longrightarrow> w \<le> 1 \<Longrightarrow> node_ok (n\<lparr>in_weight := w\<rparr>)"
  by (simp add: node_ok_def)

lemma decayed_weight:
  "0 < d \<Longrightarrow> 0 < h \<Longrightarrow> 0 \<le> w \<Longrightarrow> 0 \<le> w * 0.5 powr (d / h) \<and> w * 0.5 powr (d / h) \<le> (w :: real)"
  by (simp add: mult_left_le powr_le1)

lemma node_ok_decay_weight: "node_ok n \<Longrightarrow> node_ok (decay_weight now n)"
proof (cases "in_last_reinforced_at n")
  case (Some t)
  assume ok: "node_ok n"
  define h where "h = real_of_int (in_half_life_days n) * (if in_is_core n then 2 else 1)"
  define w where "w = (if 0 < (now - t) / 86400 \<and> 0 < h
      then in_weight n * 0.5 powr ((now - t) / 86400 / h) else in_weight n)"
  have "0 \<le> w \<and> w \<le> in_weight n"
    using ok decayed_weight [of "(now - t) / 86400" h "in_weight n"] by (auto simp: w_def node_ok_def)
  moreover have "decay_weight now n = n\<lparr>in_weight :=
      (if w < INACTIVE_WEIGHT_THRESHOLD then INACTIVE_WEIGHT_THRESHOLD else w)\<rparr>"
    by (simp add: decay_weight_def Some w_def h_def Let_def)
  ultimately show ?thesis using ok by (auto simp: node_ok_def INACTIVE_WEIGHT_THRESHOLD_def)
qed (simp add: decay_weight_def)

lemma node_ok_decay: "node_ok n \<Longrightarrow> node_ok (decay_node now n)"
proof (cases "in_suppressed_until n")
  case (Some until)
  assume "node_ok n"
  then have "node_ok (n\<lparr>in_suppressed_until := None, in_weight := min 0.4 (in_weight n + 0.1)\<rparr>)"
    by (simp add: node_ok_def)
  with Some \<open>node_ok n\<close> show ?thesis by (simp add: decay_node_def node_ok_decay_weight)
qed (simp add: decay_node_def node_ok_decay_weight)

lemma trust_ok_moved: "trust_ok (moved_trust s t)"
  by (simp add: trust_ok_def moved_trust_def TRUST_MIN_def TRUST_MAX_def)

lemma trust_ok_half: "trust_ok (1 / 2)"
  by (simp add: trust_ok_def TRUST_MIN_def TRUST_MAX_def)

lemma graph_ok_nodes:
  "graph_ok db \<Longrightarrow> list_all node_ok ns \<Longrightarrow> graph_ok (db\<lparr>gd_nodes := ns\<rparr>)"
  by (simp add: graph_ok_def)

lemma graph_ok_cache [simp]: "graph_ok (cache_delete key db) = graph_ok db"
  by (simp add: graph_ok_def cache_delete_def)

lemma graph_ok_add_node: "graph_ok db \<Longrightarrow> node_ok n \<Longrightarrow> graph_ok (add_node n db)"
  by (simp add: graph_ok_def add_node_def)

lemma graph_ok_get_or_create:
  "graph_ok db \<Longrightarrow> graph_ok (snd (get_or_create_node model user label emb db))"
  by (simp add: get_or_create_node_def Let_def graph_ok_add_node node_ok_def new_node_def split: option.split)

lemma graph_ok_reinforce: "graph_ok db \<Longrightarrow> graph_ok (reinforce_node now node s counted db)"
  unfolding reinforce_node_def graph_ok_cache
  by (rule graph_ok_nodes) (auto simp: graph_ok_def intro: list_all_update_where node_ok_reinforced)

lemma graph_ok_touch: "graph_ok db \<Longrightarrow> graph_ok (snd (touch_topics model now user delta counted topics db))"
proof (induction model now user delta counted topics db rule: touch_topics.induct)
  case (1 model now user delta counted db)
  then show ?case by simp
next
  case (2 model now user delta counted label emb topics db)
  obtain node db1 where g: "get_or_create_node model user label emb db = (node, db1)"
    by (cases "get_or_create_node model user label emb db")
  let ?db2 = "if delta \<noteq> 0 then reinforce_node now node delta counted db1 else db1"
  have "graph_ok db1" using graph_ok_get_or_create [OF 2(2), of model user label emb] g by simp
  then have "graph_ok ?db2" by (simp add: graph_ok_reinforce)
  then have "graph_ok (snd (touch_topics model now user delta counted topics ?db2))"
    using 2(1) [OF g [symmetric]] by simp
  then show ?case by (cases "delta = 0") (simp_all add: g Let_def case_prod_beta)
qed

subsection \<open>Edges\<close>

lemma foldl_max_ge: "(m :: int) \<le> foldl max m xs"
  by (induction xs arbitrary: m) (auto intro: order_trans [OF max.cobounded1])

lemma foldl_max_mem: "x \<in> set xs \<Longrightarrow> x \<le> foldl max (m :: int) xs"
proof (induction xs arbitrary: m)
  case (Cons y ys)
  then show ?case using foldl_max_ge [of "max m y" ys] by auto
qed simp

lemma max_count_pos: "0 < max_count user edges"
  using foldl_max_ge [of 0 "map ie_co_occurrence_count (filter (\<lambda>e. ie_user_id e = user) edges)"]
  by (auto simp: max_count_def Let_def)

lemma max_count_ge:
  assumes "e \<in> set edges" "ie_user_id e = user"
  shows "ie_co_occurrence_count e \<le> max_count user edges"
  using foldl_max_mem [of "ie_co_occurrence_count e" "map ie_co_occurrence_count (filter (\<lambda>e. ie_user_id e = user) edges)" 0]
    assms by (auto simp: max_count_def Let_def)

definition with_edge :: "nat \<Rightarrow> nat \<Rightarrow> nat \<Rightarrow> interest_edge list \<Rightarrow> interest_edge list" where
  "with_edge user a b edges =
     (case find (edge_key user a b) edges of
        Some e \<Rightarrow> edges
      | None \<Rightarrow> edges @ [\<lparr>ie_user_id = user, ie_from_node_id = a, ie_to_node_id = b,
          ie_co_occurrence_count = 0, ie_edge_weight = 0\<rparr>])"

lemma with_edge_ok:
  assumes "a \<le> b" "list_all edge_ok edges" "distinct (map edge_id edges)"
  shows "list_all edge_ok (with_edge user a b edges)" "distinct (map edge_id (with_edge user a b edges))"
proof -
  show "list_all edge_ok (with_edge user a b edges)"
    using assms by (simp add: with_edge_def edge_ok_def split: option.split)
  show "distinct (map edge_id (with_edge user a b edges))"
  proof (cases "find (edge_key user a b) edges")
    case None
    then have "(user, a, b) \<notin> edge_id ` set edges"
      by (auto simp: find_None_iff edge_key_def edge_id_def)
    with None assms show ?thesis by (simp add: with_edge_def edge_id_def)
  qed (simp add: with_edge_def assms)
qed

lemma map_update_where: "(\<And>r. g (f r) = g r) \<Longrightarrow> map g (update_where P f rows) = map g rows"
  by (simp add: update_where_def)

lemma reinforce_edge_eq:
  "reinforce_edge user x y db =
     (let a = min x y; b = max x y; edges = with_edge user a b (gd_edges db)
      in db\<lparr>gd_edges := update_where (edge_key user a b)
             (\<lambda>e. e\<lparr>ie_co_occurrence_count := ie_co_occurrence_count e + 1,
                    ie_edge_weight := of_int (ie_co_occurrence_count e + 1) / of_int (max_count user edges)\<rparr>) edges\<rparr>)"
  by (cases x y rule: linorder_cases) (simp_all add: reinforce_edge_def with_edge_def Let_def)

lemma graph_ok_reinforce_edge:
  assumes "graph_ok db"
  shows "graph_ok (reinforce_edge user x y db)"
proof -
  let ?edges = "with_edge user (min x y) (max x y) (gd_edges db)"
  let ?f = "\<lambda>e. e\<lparr>ie_co_occurrence_count := ie_co_occurrence_count e + 1,
                    ie_edge_weight := of_int (ie_co_occurrence_count e + 1) / of_int (max_count user ?edges)\<rparr>"
  have e: "list_all edge_ok ?edges" "distinct (map edge_id ?edges)"
    using assms with_edge_ok [of "min x y" "max x y" "gd_edges db" user] by (simp_all add: graph_ok_def)
  have "edge_ok r \<Longrightarrow> edge_ok (?f r)" for r
    using max_count_pos [of user ?edges] by (simp add: edge_ok_def)
  then have "list_all edge_ok (update_where (edge_key user (min x y) (max x y)) ?f ?edges)"
    using e(1) by (rule list_all_update_where [rotated])
  moreover have "distinct (map edge_id (update_where (edge_key user (min x y) (max x y)) ?f ?edges))"
    using e(2) by (subst map_update_where) (simp_all add: edge_id_def)
  ultimately show ?thesis using assms by (simp add: reinforce_edge_eq graph_ok_def Let_def)
qed

lemma graph_ok_foldl:
  "(\<And>db x. graph_ok db \<Longrightarrow> graph_ok (f db x)) \<Longrightarrow> graph_ok db \<Longrightarrow> graph_ok (foldl f db xs)"
  by (induction xs arbitrary: db) auto

lemma graph_ok_reinforce_edges: "graph_ok db \<Longrightarrow> graph_ok (reinforce_edges user ids db)"
  unfolding reinforce_edges_def by (rule graph_ok_foldl) (auto simp: graph_ok_reinforce_edge)

lemma renormalized_edges:
  "e \<in> set (gd_edges (renormalize_edges user db)) \<Longrightarrow> ie_user_id e = user \<Longrightarrow>
     ie_edge_weight e = of_int (ie_co_occurrence_count e) / of_int (max_count user (gd_edges db))
     \<and> ie_co_occurrence_count e \<le> max_count user (gd_edges db)"
proof -
  assume e: "e \<in> set (gd_edges (renormalize_edges user db))" "ie_user_id e = user"
  let ?m = "max_count user (gd_edges db)"
  from e obtain x where x: "x \<in> set (gd_edges db)" "ie_user_id x = user"
    "e = x\<lparr>ie_edge_weight := of_int (ie_co_occurrence_count x) / of_int ?m\<rparr>"
    by (auto simp: renormalize_edges_def update_where_def Let_def split: if_splits)
  then show ?thesis using max_count_ge [OF x(1,2)] by simp
qed

lemma graph_ok_renormalize: "graph_ok db \<Longrightarrow> graph_ok (renormalize_edges user db)"
proof -
  assume ok: "graph_ok db"
  let ?f = "\<lambda>e. e\<lparr>ie_edge_weight := of_int (ie_co_occurrence_count e) / of_int (max_count user (gd_edges db))\<rparr>"
  have "edge_ok e \<Longrightarrow> edge_ok (?f e)" for e
    using max_count_pos [of user "gd_edges db"] by (simp add: edge_ok_def)
  moreover have "map edge_id (update_where (\<lambda>e. ie_user_id e = user) ?f (gd_edges db)) = map edge_id (gd_edges db)"
    by (rule map_update_where) (simp add: edge_id_def)
  ultimately show ?thesis
    using ok by (simp add: graph_ok_def renormalize_edges_def Let_def list_all_update_where)
qed

subsection \<open>Trust and whole steps\<close>

lemma graph_ok_topic_trust:
  "list_all (\<lambda>t. trust_ok (ct_trust_weight t)) rows \<Longrightarrow>
   list_all (\<lambda>t. trust_ok (ct_trust_weight t)) (update_topic_trust user creator s counted label rows)"
  unfolding update_topic_trust_def Let_def
  by (rule list_all_update_where) (auto simp: trust_ok_moved trust_ok_half split: option.split)

lemma graph_ok_source_trust:
  assumes "graph_ok db"
  shows "graph_ok (update_source_trust ix content d first db)"
proof -
  have f: "list_all (\<lambda>t. trust_ok (ct_trust_weight t)) rows \<Longrightarrow>
      list_all (\<lambda>t. trust_ok (ct_trust_weight t)) (fold (update_topic_trust u c s k) labels rows)" for u c s k labels rows
    by (induction labels arbitrary: rows) (simp_all add: graph_ok_topic_trust)
  have c: "graph_ok db' \<Longrightarrow> graph_ok (update_creator_topic_trust u content s k db')" for db' u s k
    using f by (simp add: update_creator_topic_trust_def graph_ok_def split: option.split)
  have "list_all (\<lambda>s. trust_ok (sr_trust_weight s)) (update_where P
      (\<lambda>s. s\<lparr>sr_trust_weight := moved_trust d (sr_trust_weight s)\<rparr>) (gd_sources db))" for P
    by (rule list_all_update_where) (use assms in \<open>simp_all add: graph_ok_def trust_ok_moved\<close>)
  then have "graph_ok (db\<lparr>gd_sources := update_where P
      (\<lambda>s. s\<lparr>sr_trust_weight := moved_trust d (sr_trust_weight s)\<rparr>) (gd_sources db)\<rparr>)" for P
    using assms by (simp add: graph_ok_def)
  then show ?thesis
    using assms c by (simp add: update_source_trust_def Let_def split: option.split)
qed

lemma graph_ok_update:
  assumes "graph_ok db"
  shows "graph_ok (snd (snd (update_from_interaction encode model now ix content db)))"
proof -
  have "graph_ok db1 \<Longrightarrow> graph_ok (if c then reinforce_edges u ids db1 else db1)" for db1 c u ids
    by (simp add: graph_ok_reinforce_edges)
  moreover have "touch_topics model now u d k ts db = (ids, db1) \<Longrightarrow> graph_ok db1" for u d k ts ids db1
    using graph_ok_touch [OF assms, of model now u d k ts] by simp
  ultimately show ?thesis
    using assms
    by (simp add: update_from_interaction_def Let_def graph_ok_source_trust split: prod.split)
qed

lemma graph_ok_decay: "graph_ok db \<Longrightarrow> graph_ok (apply_decay now user db)"
  unfolding apply_decay_def
  by (rule graph_ok_renormalize, rule graph_ok_nodes)
    (auto simp: graph_ok_def intro: list_all_update_where node_ok_decay)

lemma graph_ok_adjust:
  "graph_ok db \<Longrightarrow> (\<And>m. node_ok m \<Longrightarrow> node_ok (f m)) \<Longrightarrow> graph_ok (adjust_node f n db)"
  unfolding adjust_node_def by (rule graph_ok_nodes) (auto simp: graph_ok_def intro: list_all_update_where)

lemma graph_ok_adjust_interests:
  "graph_ok db \<Longrightarrow> graph_ok (adjust_interests enc model now user topic act days db)"
  unfolding adjust_interests_def graph_ok_cache
  by (auto simp: node_ok_def new_node_def intro!: graph_ok_adjust graph_ok_add_node
      split: option.split interest_action.split)

lemma graph_ok_topic_action: "graph_ok db \<Longrightarrow> graph_ok (topic_action fewer user topic db)"
  by (auto simp: topic_action_def node_ok_def intro!: graph_ok_adjust split: option.split)

lemma graph_ok_fold_into: "graph_ok db \<Longrightarrow> graph_ok (fold_into src dst db)"
proof -
  assume "graph_ok db"
  then have "graph_ok (adjust_node (\<lambda>n. n\<lparr>in_weight := max 0 (min 1 (in_weight n + in_weight src))\<rparr>) dst db)"
    by (rule graph_ok_adjust) (simp add: node_ok_def)
  then show ?thesis by (simp add: fold_into_def Let_def graph_ok_def list_all_iff)
qed

lemma graph_ok_relabel: "graph_ok db \<Longrightarrow> graph_ok (adjust_node (\<lambda>n. n\<lparr>in_topic_label := l\<rparr>) n db)"
  by (rule graph_ok_adjust) (simp_all add: node_ok_def)

text \<open>Everything that happens to a graph.\<close>

datatype graph_event =
    Interaction moment interaction content_item
  | NightlyDecay moment nat
  | Adjust moment nat string interest_action "int option"
  | TopicLink bool nat string
  | Merge nat string string
  | Rename nat string string

definition graph_step ::
  "(string list \<Rightarrow> vec option list) \<Rightarrow> string \<Rightarrow> graph_db \<Rightarrow> graph_event \<Rightarrow> graph_db" where
  "graph_step encode model db e =
     (case e of
        Interaction now ix content \<Rightarrow> snd (snd (update_from_interaction encode model now ix content db))
      | NightlyDecay now user \<Rightarrow> apply_decay now user db
      | Adjust now user topic act days \<Rightarrow> adjust_interests (\<lambda>t. hd (encode [t])) model now user topic act days db
      | TopicLink fewer user topic \<Rightarrow> topic_action fewer user topic db
      | Merge user a b \<Rightarrow> (case merge_interests user a b db of Inl _ \<Rightarrow> db | Inr db' \<Rightarrow> db')
      | Rename user a b \<Rightarrow> (case rename_interest user a b db of Inl _ \<Rightarrow> db | Inr db' \<Rightarrow> db'))"

interpretation graph: preserving "graph_step encode model" graph_ok "\<lambda>_. True"
  by unfold_locales
    (auto simp: graph_step_def graph_ok_update graph_ok_decay graph_ok_adjust_interests graph_ok_topic_action
      merge_interests_def rename_interest_def graph_ok_fold_into graph_ok_relabel
      split: graph_event.split sum.split option.split)


definition empty_graph :: graph_db where
  "empty_graph = \<lparr>gd_nodes = [], gd_edges = [], gd_sources = [], gd_trusts = [], gd_platforms = [],
     gd_cache = (\<lambda>_. None), gd_next_id = 0\<rparr>"

lemma empty_graph_ok: "graph_ok empty_graph"
  by (simp add: graph_ok_def empty_graph_def)

definition no_encoder :: "string list \<Rightarrow> vec option list" where
  "no_encoder ts = map (\<lambda>_. None) ts"


subsection \<open>One interaction is applied once\<close>

text \<open>Applying an interaction twice is applying it once: the second call reports no change and leaves
  the graph, the trust weights and the interaction as they were, at whatever time it comes.\<close>

theorem update_idempotent:
  "case update_from_interaction encode model now ix content db of (changed, ix', db') \<Rightarrow>
     update_from_interaction encode model later ix' content db' = (False, ix', db')"
proof (cases "ix_graph_signal_applied ix \<noteq> None
    \<and> \<bar>compute_signal_strength ix - or_default (ix_graph_signal_applied ix) 0\<bar> < 1 / 10 ^ 9")
  case True
  then show ?thesis by (simp add: update_from_interaction_def Let_def)
next
  case False
  then obtain db' where u: "update_from_interaction encode model now ix content db
      = (True, ix\<lparr>ix_graph_signal_applied := Some (compute_signal_strength ix)\<rparr>, db')"
    by (auto simp: update_from_interaction_def Let_def case_prod_beta)
  have "compute_signal_strength (ix\<lparr>ix_graph_signal_applied := s\<rparr>) = compute_signal_strength ix" for s
    unfolding compute_signal_strength_def Let_def by simp
  then show ?thesis unfolding u by (simp add: update_from_interaction_def Let_def)
qed

text \<open>A read that was positive already reinforces no edge again.\<close>

lemma edges_once_touch:
  "gd_edges (snd (touch_topics model now user delta counted topics db)) = gd_edges db"
proof (induction model now user delta counted topics db rule: touch_topics.induct)
  case (2 model now user delta counted label emb topics db)
  obtain node db1 where g: "get_or_create_node model user label emb db = (node, db1)"
    by (cases "get_or_create_node model user label emb db")
  then have "gd_edges db1 = gd_edges db"
    by (auto simp: get_or_create_node_def add_node_def Let_def split: option.splits)
  then have "gd_edges (if delta \<noteq> 0 then reinforce_node now node delta counted db1 else db1) = gd_edges db"
    by (simp add: reinforce_node_def cache_delete_def)
  with 2 [OF g [symmetric] refl] show ?case
    by (cases "delta = 0") (simp_all add: g Let_def case_prod_beta)
qed simp

lemma edges_trust: "gd_edges (update_source_trust ix content d f db) = gd_edges db"
  by (simp add: update_source_trust_def update_creator_topic_trust_def Let_def split: option.split)

lemma edges_once:
  assumes "ix_graph_signal_applied ix = Some s" "0 < s"
  shows "gd_edges (snd (snd (update_from_interaction encode model now ix content db))) = gd_edges db"
proof -
  obtain ids db1 where t: "touch_topics model now (ix_user_id ix) (compute_signal_strength ix - s) False
      (zip (ci_topic_clusters content) (encode (ci_topic_clusters content))) db = (ids, db1)"
    by (cases "touch_topics model now (ix_user_id ix) (compute_signal_strength ix - s) False
      (zip (ci_topic_clusters content) (encode (ci_topic_clusters content))) db")
  then have "gd_edges db1 = gd_edges db" using edges_once_touch by (metis snd_conv)
  with assms t show ?thesis by (simp add: update_from_interaction_def Let_def edges_trust)
qed

subsection \<open>Edge weights\<close>

text \<open>After the nightly pass every edge weight of the reader is the count of the edge over the largest
  count, and so lies in [0, 1].\<close>

theorem renormalized_weights:
  assumes "graph_ok db" "e \<in> set (gd_edges (apply_decay now user db))" "ie_user_id e = user"
  shows "0 \<le> ie_edge_weight e \<and> ie_edge_weight e \<le> 1
    \<and> ie_edge_weight e * of_int (max_count user (gd_edges db)) = of_int (ie_co_occurrence_count e)"
proof -
  let ?m = "max_count user (gd_edges db)"
  have "e \<in> set (gd_edges (renormalize_edges user (db\<lparr>gd_nodes := ns\<rparr>)))
      \<Longrightarrow> ie_edge_weight e = of_int (ie_co_occurrence_count e) / of_int ?m \<and> ie_co_occurrence_count e \<le> ?m" for ns
    using renormalized_edges [of e user "db\<lparr>gd_nodes := ns\<rparr>"] assms(3) by simp
  then have w: "ie_edge_weight e = of_int (ie_co_occurrence_count e) / of_int ?m" "ie_co_occurrence_count e \<le> ?m"
    using assms(2) by (simp_all add: apply_decay_def)
  have "graph_ok (apply_decay now user db)" by (rule graph_ok_decay [OF assms(1)])
  then have "0 \<le> ie_edge_weight e" using assms(2) by (auto simp: graph_ok_def list_all_iff edge_ok_def)
  moreover have "0 < ?m" by (rule max_count_pos)
  ultimately show ?thesis using w by simp
qed

definition one_edge :: graph_db where
  "one_edge = empty_graph\<lparr>gd_edges := [\<lparr>ie_user_id = 1, ie_from_node_id = 2, ie_to_node_id = 3,
     ie_co_occurrence_count = 4, ie_edge_weight = 9\<rparr>]\<rparr>"

theorem renormalized_weights_witness:
  "list_all (\<lambda>e. ie_edge_weight e \<le> 1) (gd_edges (apply_decay 0 1 one_edge))"
proof -
  have "graph_ok one_edge" by (simp add: one_edge_def graph_ok_def empty_graph_def edge_ok_def)
  moreover have "list_all (\<lambda>e. ie_user_id e = 1) (gd_edges (apply_decay 0 1 one_edge))"
    by (simp add: one_edge_def apply_decay_def renormalize_edges_def update_where_def Let_def)
  ultimately show ?thesis using renormalized_weights [of one_edge _ 0 1] by (auto simp: list_all_iff)
qed

text \<open>Between two nightly passes a weight can leave [0, 1]: the maximum is read before the new count is
  flushed, so the second co-reading of the only edge gives it the weight 2.\<close>

lemma edge_weight_above_one:
  "map ie_edge_weight (gd_edges (reinforce_edge 1 2 3 (reinforce_edge 1 2 3 empty_graph))) = [2]"
  by (simp add: reinforce_edge_def empty_graph_def max_count_def update_where_def edge_key_def Let_def)

subsection \<open>Decay\<close>

text \<open>The nightly job at one, two, ... \<open>k\<close> days after the last reinforcement at \<open>t\<close>.\<close>

definition nightly :: "moment \<Rightarrow> nat \<Rightarrow> interest_node \<Rightarrow> interest_node" where
  "nightly t k n = foldl (\<lambda>m i. decay_node (t + real i * 86400) m) n [1..<Suc k]"

lemma decay_node_plain:
  assumes "in_suppressed_until n = None" "in_last_reinforced_at n = Some t" "\<not> in_is_core n"
    "0 < in_half_life_days n" "1 \<le> i"
    "INACTIVE_WEIGHT_THRESHOLD \<le> in_weight n * 0.5 powr (real i / of_int (in_half_life_days n))"
  shows "decay_node (t + real i * 86400) n
    = n\<lparr>in_weight := in_weight n * 0.5 powr (real i / of_int (in_half_life_days n))\<rparr>"
  using assms by (simp add: decay_node_def decay_weight_def Let_def)

lemma decay_node_weight:
  assumes "in_suppressed_until n = None" "in_last_reinforced_at n = Some t" "\<not> in_is_core n"
    "0 < in_half_life_days n" "1 \<le> i"
    "INACTIVE_WEIGHT_THRESHOLD \<le> w * 0.5 powr (real i / of_int (in_half_life_days n))"
  shows "decay_node (t + real i * 86400) (n\<lparr>in_weight := w\<rparr>)
    = n\<lparr>in_weight := w * 0.5 powr (real i / of_int (in_half_life_days n))\<rparr>"
  using decay_node_plain [of "n\<lparr>in_weight := w\<rparr>" t i] assms by simp

lemma nightly_sum: "real (k * (k + 1)) / (2 * h) + real (Suc k) / h = real (Suc k * (Suc k + 1)) / (2 * h)"
  by (cases "h = 0") (simp_all add: field_simps)

lemma nightly_keeps:
  assumes "in_suppressed_until n = None" "in_last_reinforced_at n = Some t" "\<not> in_is_core n"
    "0 < in_half_life_days n" "0 \<le> in_weight n"
    "INACTIVE_WEIGHT_THRESHOLD \<le> in_weight n * 0.5 powr (real (k * (k + 1)) / (2 * of_int (in_half_life_days n)))"
  shows "nightly t k n
    = n\<lparr>in_weight := in_weight n * 0.5 powr (real (k * (k + 1)) / (2 * of_int (in_half_life_days n)))\<rparr>"
  using assms(6)
proof (induction k)
  case 0
  then show ?case by (simp add: nightly_def)
next
  case (Suc k)
  let ?h = "real_of_int (in_half_life_days n)"
  let ?w = "in_weight n * 0.5 powr (real (k * (k + 1)) / (2 * ?h))"
  have h: "0 < ?h" using assms(4) by simp
  have step: "?w * 0.5 powr (real (Suc k) / ?h) = in_weight n * 0.5 powr (real (Suc k * (Suc k + 1)) / (2 * ?h))"
    by (simp only: mult.assoc powr_add [symmetric] nightly_sum)
  have "?w * 0.5 powr (real (Suc k) / ?h) \<le> ?w"
    using decayed_weight [of "real (Suc k)" ?h ?w] h assms(5) by simp
  with Suc.prems step have "INACTIVE_WEIGHT_THRESHOLD \<le> ?w" by linarith
  then have ih: "nightly t k n = n\<lparr>in_weight := ?w\<rparr>" by (rule Suc.IH)
  have "nightly t (Suc k) n = decay_node (t + real (Suc k) * 86400) (nightly t k n)"
    by (simp add: nightly_def)
  also have "\<dots> = decay_node (t + real (Suc k) * 86400) (n\<lparr>in_weight := ?w\<rparr>)" by (simp only: ih)
  also have "\<dots> = n\<lparr>in_weight := ?w * 0.5 powr (real (Suc k) / ?h)\<rparr>"
    using Suc.prems step by (intro decay_node_weight [OF assms(1-4)]) (simp, simp only:)
  finally show ?case by (simp only: step)
qed

text \<open>The nightly decay compounds: each night multiplies the already decayed weight by the decay of
  the whole time since the last reinforcement, so after \<open>k\<close> nights the exponent is \<open>k (k + 1) / 2\<close> over
  the half-life in days instead of \<open>k\<close> over it.\<close>

theorem nightly_decay_compounds:
  assumes "in_suppressed_until n = None" "in_last_reinforced_at n = Some t" "\<not> in_is_core n"
    "0 < in_half_life_days n" "0 \<le> in_weight n"
    "INACTIVE_WEIGHT_THRESHOLD \<le> in_weight n * 0.5 powr (real (k * (k + 1)) / (2 * of_int (in_half_life_days n)))"
  shows "in_weight (nightly t k n) = in_weight n * 0.5 powr (real (k * (k + 1)) / (2 * of_int (in_half_life_days n)))"
  by (subst nightly_keeps [OF assms]) simp

definition sample_node :: interest_node where
  "sample_node = (new_node ''m'' empty_graph 1 ''ai'' None 0.8)\<lparr>in_last_reinforced_at := Some 0\<rparr>"

text \<open>A topic with a half-life of 60 days has lost more than half its weight after eleven nights, and
  three quarters after fifteen.\<close>

theorem nightly_decay_compounds_witness:
  "in_half_life_days sample_node = 60 \<and> in_weight (nightly 0 11 sample_node) < in_weight sample_node / 2
    \<and> in_weight (nightly 0 15 sample_node) = in_weight sample_node / 4"
proof -
  have n: "in_suppressed_until sample_node = None" "in_last_reinforced_at sample_node = Some 0"
    "\<not> in_is_core sample_node" "in_half_life_days sample_node = 60" "in_weight sample_node = 0.8"
    by (simp_all add: sample_node_def new_node_def)
  have half: "0.5 powr 1 = (0.5 :: real)" "0.5 powr 2 = (0.25 :: real)" by (simp_all add: powr_numeral power2_eq_square)
  have "(0.5 :: real) powr 2 < 0.5 powr (11 / 10)" "(0.5 :: real) powr (11 / 10) < 0.5 powr 1"
    by (rule powr_less_mono'; simp)+
  with half have p: "0.25 < (0.5 :: real) powr (11 / 10)" "(0.5 :: real) powr (11 / 10) < 0.5" by simp_all
  have "in_weight (nightly 0 11 sample_node) = 0.8 * 0.5 powr (11 / 10)"
    using nightly_decay_compounds [of sample_node 0 11] n p(1) by (simp add: INACTIVE_WEIGHT_THRESHOLD_def)
  moreover have "in_weight (nightly 0 15 sample_node) = 0.8 * 0.5 powr 2"
    using nightly_decay_compounds [of sample_node 0 15] n half by (simp add: INACTIVE_WEIGHT_THRESHOLD_def)
  ultimately show ?thesis using p(2) n(4,5) half by simp
qed

text \<open>The end of a suppression, meant to raise the weight a little, lowers one that is above 0.4.\<close>

lemma resurfacing_lowers:
  "in_weight (decay_node 100 (sample_node\<lparr>in_suppressed_until := Some 50, in_last_reinforced_at := None\<rparr>)) = 0.4
    \<and> in_weight sample_node = 0.8"
  by (simp add: decay_node_def decay_weight_def sample_node_def new_node_def)

subsection \<open>The cached interest vector\<close>

lemma digit_char_not_colon:
  assumes "0 \<le> d" "d < 10"
  shows "digit_char d \<noteq> CHR '':''"
proof
  assume "digit_char d = CHR '':''"
  then have "(of_char (char_of (48 + d)) :: int) = of_char (CHR '':'')" using assms(2) by (simp add: digit_char_def)
  then show False using assms by simp
qed

lemma show_int_no_colon: "0 \<le> n \<Longrightarrow> CHR '':'' \<notin> set (show_int n)"
  unfolding show_int_def
proof (induction "10 :: int" n rule: show_base.induct)
  case (1 n)
  show ?case
  proof (cases "n < 10")
    case True
    with 1(2) show ?thesis using digit_char_not_colon [of n] by (subst show_base.simps) auto
  next
    case False
    have "CHR '':'' \<notin> set (show_base 10 (n div 10))" using False 1 by (intro 1(1)) simp_all
    with False show ?thesis using digit_char_not_colon [of "n mod 10"] by (subst show_base.simps) auto
  qed
qed

lemma vec_keys_differ: "model_vec_key model user \<noteq> user_vec_key user'"
proof
  assume "model_vec_key model user = user_vec_key user'"
  then have "model @ '':'' @ show_int (int user) = show_int (int user')"
    by (simp add: model_vec_key_def user_vec_key_def)
  then have "CHR '':'' \<in> set (show_int (int user'))" by (metis in_set_conv_decomp append_Cons append_Nil)
  then show False using show_int_no_colon [of "int user'"] by simp
qed

text \<open>Reinforcing a topic does not invalidate the cached interest vector: the key that is deleted is
  not the one the vector is stored under, so the vector from before the change is served.\<close>

theorem interest_vector_stays_stale:
  assumes "gd_cache db (model_vec_key model user) = Some v"
  shows "build_user_interest_vector same_model model user (reinforce_node now node s counted db)
    = (Some v, reinforce_node now node s counted db)"
proof -
  have "gd_cache (reinforce_node now node s counted db) (model_vec_key model user) = Some v"
    using assms vec_keys_differ by (simp add: reinforce_node_def cache_delete_def)
  then show ?thesis by (simp add: build_user_interest_vector_def)
qed

theorem interest_vector_stays_stale_witness:
  "fst (build_user_interest_vector (\<lambda>_. True) ''m'' 1 (reinforce_node 0 sample_node 1 True
      (empty_graph\<lparr>gd_cache := (\<lambda>_. None)(model_vec_key ''m'' 1 := Some [1, 0])\<rparr>))) = Some [1, 0]"
  by (subst interest_vector_stays_stale [of _ "''m''" 1 "[1, 0]"]) simp_all

end
