(* ===== verification/Ranker.thy ===== *)
theory Ranker
  imports InterestGraph
begin

text \<open>
  The scoring engine: \<open>weirling_rank/ranker.py\<close> and \<open>weirling_rank/types.py\<close>, and the adapter that
  builds the state of a reader from the database, \<open>services/ranking/ranker.py\<close>. The rows the
  queries return are arguments. numpy arrays are lists of reals; \<open>None\<close> stands for an infinite
  distance. Each signal of \<open>score_candidates\<close> is a definition of its own that returns \<open>None\<close> where
  the code has no evidence. Where Python leaves the order of ties open (a sort over a set, an
  unstable argsort), the model takes the order of the input.
\<close>

subsection \<open>Data\<close>

definition NEUTRAL :: real where "NEUTRAL = 0.5"
definition HISTORY_LIMIT :: nat where "HISTORY_LIMIT = 500"
definition MAX_INTEREST_VECTORS :: nat where "MAX_INTEREST_VECTORS = 80"
definition CLUSTER_DISTANCE :: real where "CLUSTER_DISTANCE = 0.45"
definition BRIDGE_EDGE_WEIGHT :: real where "BRIDGE_EDGE_WEIGHT = 0.5"
definition KNN :: nat where "KNN = 15"
definition SAME_EVENT_COSINE :: real where "SAME_EVENT_COSINE = 0.85"
definition NOVELTY_WINDOW_DAYS :: real where "NOVELTY_WINDOW_DAYS = 30"
definition RECENT_EVENT_HOURS :: real where "RECENT_EVENT_HOURS = 72"

record history_row =
  hr_content_id :: nat
  hr_vector :: "vec option"
  hr_feed_key :: "string option"
  hr_words :: int
  hr_completion :: "real option"
  hr_rating :: "int option"
  hr_reason :: "string option"
  hr_saved :: bool
  hr_skipped :: bool
  hr_was_suggested :: bool
  hr_opened_at :: "moment option"
  hr_created_at :: moment
  hr_published_at :: "moment option"

record interest =
  it_vector :: vec
  it_importance :: real
  it_label :: string

record feed_state =
  fs_name :: string
  fs_trust_weight :: real
  fs_successes :: real
  fs_failures :: real
  fs_last_outcome_at :: "moment option"

record ranking_state =
  rs_weights :: "signal \<Rightarrow> real"
  rs_history :: "history_row list"
  rs_interests :: "interest list"
  rs_bridges :: "(vec \<times> string \<times> string) list"
  rs_feeds :: "string \<Rightarrow> feed_state option"
  rs_source_feed_key :: "nat \<Rightarrow> string option"
  rs_feed_id_key :: "nat \<Rightarrow> string option"
  rs_prefers_fresh :: bool
  rs_novelty_target :: real
  rs_now :: moment

record scored =
  sc_item :: content_item
  sc_prs :: real
  sc_features :: "signal \<Rightarrow> real"
  sc_no_data :: "signal list"
  sc_contributions :: "signal \<Rightarrow> real"
  sc_explanation :: string
  sc_why_topics :: "string option"
  sc_topic :: "string option"
  sc_vector :: "vec option"

subsection \<open>Vectors and arrays\<close>

text \<open>\<open>_vec\<close>: the unit vector, or nothing for a vector that is too short to have a direction.\<close>

definition unit_vec :: "vec option \<Rightarrow> vec option" where
  "unit_vec raw =
     (case raw of None \<Rightarrow> None
      | Some v \<Rightarrow> let norm = vnorm v in if norm < 1 / 10 ^ 8 then None else Some (vscale (1 / norm) v))"

text \<open>\<open>np.argmax\<close>: the first index of a maximum.\<close>

fun argmax_from :: "nat \<Rightarrow> real \<Rightarrow> nat \<Rightarrow> real list \<Rightarrow> nat" where
  "argmax_from best v i [] = best"
| "argmax_from best v i (x # xs) =
     (if v < x then argmax_from i x (i + 1) xs else argmax_from best v (i + 1) xs)"

definition argmax :: "real list \<Rightarrow> nat" where
  "argmax xs = argmax_from 0 (hd xs) 1 (tl xs)"

definition max_list :: "real \<Rightarrow> real list \<Rightarrow> real" where
  "max_list d xs = (if xs = [] then d else foldl max (hd xs) (tl xs))"

definition stackable :: "vec list \<Rightarrow> bool" where
  "stackable vs \<longleftrightarrow> list_all (\<lambda>v. length v = length (hd vs)) vs"

subsection \<open>Outcomes\<close>

definition is_success :: "history_row \<Rightarrow> bool" where
  "is_success row \<longleftrightarrow> some_and (hr_rating row) (\<lambda>r. 0 < r) \<or> hr_saved row
     \<or> some_and (hr_completion row) (\<lambda>c. 0.6 \<le> c)"

definition is_failure :: "history_row \<Rightarrow> bool" where
  "is_failure row \<longleftrightarrow> some_and (hr_rating row) (\<lambda>r. r < 0)
     \<or> (some_and (hr_completion row) (\<lambda>c. c < 0.2) \<and> hr_opened_at row \<noteq> None)
     \<or> (hr_skipped row \<and> hr_opened_at row \<noteq> None)"

subsection \<open>Clustering\<close>

type_synonym distances = "nat \<Rightarrow> nat \<Rightarrow> real option"

record linkage =
  lk_dist :: distances
  lk_sizes :: "nat \<Rightarrow> real"
  lk_members :: "nat \<Rightarrow> nat list"
  lk_active :: "nat list"

definition opt_less :: "real option \<Rightarrow> real option \<Rightarrow> bool" where
  "opt_less a b = (case (a, b) of (Some x, Some y) \<Rightarrow> x < y | (Some x, None) \<Rightarrow> True | _ \<Rightarrow> False)"

fun argmin_pair :: "distances \<Rightarrow> nat \<times> nat \<Rightarrow> (nat \<times> nat) list \<Rightarrow> nat \<times> nat" where
  "argmin_pair d best [] = best"
| "argmin_pair d best (p # ps) =
     argmin_pair d (if opt_less (d (fst p) (snd p)) (d (fst best) (snd best)) then p else best) ps"

definition closest :: "linkage \<Rightarrow> nat \<times> nat" where
  "closest s =
     (let pairs = concat (map (\<lambda>i. map (\<lambda>j. (i, j)) (lk_active s)) (lk_active s))
      in argmin_pair (lk_dist s) (hd pairs) (tl pairs))"

text \<open>The Lance-Williams update of one merge; an infinite summand makes the sum infinite.\<close>

definition merged_dist :: "linkage \<Rightarrow> nat \<Rightarrow> nat \<Rightarrow> nat \<Rightarrow> real option" where
  "merged_dist s i j k =
     (case (lk_dist s i k, lk_dist s j k) of
        (Some x, Some y) \<Rightarrow> Some ((lk_sizes s i * x + lk_sizes s j * y) / (lk_sizes s i + lk_sizes s j))
      | _ \<Rightarrow> None)"

definition merge_clusters :: "nat \<Rightarrow> nat \<Rightarrow> linkage \<Rightarrow> linkage" where
  "merge_clusters i j s =
     s\<lparr>lk_dist := (\<lambda>a b. if a = j \<or> b = j then None
                        else if a = i \<and> b = i then None
                        else if a = i then merged_dist s i j b
                        else if b = i then merged_dist s i j a
                        else lk_dist s a b),
       lk_sizes := (lk_sizes s)(i := lk_sizes s i + lk_sizes s j),
       lk_members := (lk_members s)(i := lk_members s i @ lk_members s j, j := []),
       lk_active := filter (\<lambda>k. k \<noteq> j) (lk_active s)\<rparr>"

text \<open>A merge takes one cluster away; at a pair \<open>(i, i)\<close> the distance is infinite and the loop ends.\<close>

function linkage_loop :: "real \<Rightarrow> linkage \<Rightarrow> linkage" where
  "linkage_loop threshold s =
     (if length (lk_active s) \<le> 1 then s
      else let (i, j) = closest s
           in case lk_dist s i j of
                None \<Rightarrow> s
              | Some d \<Rightarrow>
                  if threshold < d \<or> i = j \<or> max i j \<notin> set (lk_active s) then s
                  else linkage_loop threshold (merge_clusters (min i j) (max i j) s))"
  by pat_completeness auto
termination
proof (relation "measure (\<lambda>(threshold, s). length (lk_active s))", simp)
  fix threshold :: real and s :: linkage and i j :: nat and d :: real and p
  assume "p = closest s" "(i, j) = p"
    "\<not> (threshold < d \<or> i = j \<or> max i j \<notin> set (lk_active s))"
  then have "length (filter (\<lambda>k. k \<noteq> max i j) (lk_active s)) < length (lk_active s)"
    by (intro length_filter_less [of "max i j"]) simp_all
  then show "((threshold, merge_clusters (min i j) (max i j) s), threshold, s)
      \<in> measure (\<lambda>(threshold, s). length (lk_active s))"
    by (simp add: merge_clusters_def)
qed

definition initial_linkage :: "vec list \<Rightarrow> linkage" where
  "initial_linkage vectors =
     \<lparr>lk_dist = (\<lambda>i j. if i = j then None else Some (1 - clamp (- 1) 1 (vdot (vectors ! i) (vectors ! j)))),
      lk_sizes = (\<lambda>_. 1), lk_members = (\<lambda>i. [i]), lk_active = [0..<length vectors]\<rparr>"

definition average_linkage :: "vec list \<Rightarrow> real \<Rightarrow> nat list list" where
  "average_linkage vectors threshold =
     (let s = linkage_loop threshold (initial_linkage vectors)
      in map (lk_members s) (lk_active s))"

subsection \<open>Interests\<close>

definition vec_mean :: "vec list \<Rightarrow> vec" where
  "vec_mean vs = vscale (1 / real (length vs)) (foldl vadd (hd vs) (tl vs))"

text \<open>\<open>max(set(labels), key=labels.count)\<close>: a most frequent label.\<close>

fun most_frequent_from :: "string list \<Rightarrow> string \<Rightarrow> string list \<Rightarrow> string" where
  "most_frequent_from labels best [] = best"
| "most_frequent_from labels best (l # ls) =
     most_frequent_from labels (if count_list labels best < count_list labels l then l else best) ls"

definition most_frequent :: "string list \<Rightarrow> string" where
  "most_frequent labels = (if labels = [] then [] else most_frequent_from labels (hd labels) (tl labels))"

definition interest_of_group :: "(vec \<times> real \<times> string) list \<Rightarrow> nat list \<Rightarrow> interest option" where
  "interest_of_group candidates grp =
     (let sub = map (\<lambda>i. fst (candidates ! i)) grp;
          centroid = vec_mean sub;
          norm = vnorm centroid
      in if 1 / 10 ^ 8 < norm then
           let centroid = vscale (1 / norm) centroid;
               best_idx = grp ! argmax (map (\<lambda>v. vdot v centroid) sub);
               total_imp = sum_list (map (\<lambda>i. fst (snd (candidates ! i))) grp);
               labels = filter (\<lambda>l. l \<noteq> []) (map (\<lambda>i. snd (snd (candidates ! i))) grp)
           in Some \<lparr>it_vector = fst (candidates ! best_idx), it_importance = total_imp,
                    it_label = most_frequent labels\<rparr>
         else None)"

text \<open>\<open>np.stack\<close> of vectors of different lengths raises.\<close>

definition build_interests :: "(vec \<times> real \<times> string) list \<Rightarrow> py_error + interest list" where
  "build_interests candidates =
     (let candidates = take MAX_INTEREST_VECTORS (sort_desc (\<lambda>c. fst (snd c)) candidates);
          groups = average_linkage (map fst candidates) CLUSTER_DISTANCE
      in if \<not> stackable (map fst candidates) then Inl ValueError
         else Inr (sort_desc it_importance (List.map_filter (interest_of_group candidates) groups)))"

subsection \<open>Explanations\<close>

definition PHRASES :: "signal \<Rightarrow> string option" where
  "PHRASES s = (case s of
      Semantic \<Rightarrow> None
    | ReadingDepth \<Rightarrow> Some ''you usually finish articles like this''
    | Suggestion \<Rightarrow> Some ''a discovery pick''
    | ExplicitFeedback \<Rightarrow> None
    | SourceTrust \<Rightarrow> Some ''from a source you read''
    | ContentQuality \<Rightarrow> Some ''a substantial read''
    | TemporalContext \<Rightarrow> Some ''timely''
    | Novelty \<Rightarrow> None)"

definition phrase_of :: "(signal \<Rightarrow> string option) \<Rightarrow> string option \<Rightarrow> signal \<Rightarrow> string option" where
  "phrase_of notes why_topics name =
     (if name = Semantic \<and> why_topics \<noteq> None then why_topics
      else if name = ReadingDepth \<and> notes name \<noteq> None
        then Some (''you finish about '' @ or_default (notes name) [] @ '' of similar articles'')
      else or_else (notes name) (PHRASES name))"

fun collect_parts ::
  "(signal \<Rightarrow> string option) \<Rightarrow> string option \<Rightarrow> string list \<Rightarrow> signal list \<Rightarrow> string list" where
  "collect_parts notes why parts [] = parts"
| "collect_parts notes why parts (name # names) =
     (let parts = (case phrase_of notes why name of
                     None \<Rightarrow> parts
                   | Some phrase \<Rightarrow> if phrase \<in> set parts then parts else parts @ [phrase])
      in if length parts = 2 then parts else collect_parts notes why parts names)"

definition upper_char :: "char \<Rightarrow> char" where
  "upper_char c = (if 97 \<le> char_code c \<and> char_code c \<le> 122 then char_of (char_code c - 32) else c)"

definition capitalize_first :: "string \<Rightarrow> string" where
  "capitalize_first s = (case s of [] \<Rightarrow> [] | c # cs \<Rightarrow> upper_char c # cs)"

definition explain_item ::
  "(signal \<Rightarrow> real) \<Rightarrow> signal set \<Rightarrow> (signal \<Rightarrow> string option) \<Rightarrow> string option \<Rightarrow> string" where
  "explain_item contributions have notes why_topics =
     (if have \<subseteq> {ContentQuality, TemporalContext}
      then ''New to Weirling: ranked by freshness and depth while it learns what you read''
      else
        let ordered = sort_desc contributions (filter (\<lambda>name. name \<in> have) SIGNALS)
        in capitalize_first (join_with [CHR '' '', CHR 0xB7, CHR '' '']
             (collect_parts notes why_topics [] ordered)))"

subsection \<open>The signals\<close>

type_synonym evidence = "(real \<times> string option) option"

definition item_quality :: "content_item \<Rightarrow> real option \<Rightarrow> real" where
  "item_quality item bucket_completion =
     (let words = or_default (ci_word_count item) 0;
          len = (if words < 200 then 0.2 else if words < 2000 then 0.7 else 0.85);
          density = (if ci_has_citations item then 0.6 else 0.2);
          depth = or_default (ci_content_depth_score item) 0.5;
          original = (if or_default (ci_is_original_reporting item) False then 0.1 else 0);
          raw = clamp01 (Fin (0.45 * len + 0.2 * density + 0.25 * depth + original))
      in case bucket_completion of
           None \<Rightarrow> raw
         | Some b \<Rightarrow> clamp01 (Fin (0.7 * raw + 0.3 * b)))"

text \<open>What \<open>score_candidates\<close> prepares before the loop.\<close>

record scoring =
  sg_dim :: "nat option"
  sg_rows :: "history_row list"
  sg_bucket_completion :: "string \<Rightarrow> real option"
  sg_suggested :: nat
  sg_sugg_success :: nat
  sg_vectors :: "vec list"

definition bucket_means :: "history_row list \<Rightarrow> string \<Rightarrow> real option" where
  "bucket_means hist bucket =
     (let vals = List.map_filter (\<lambda>r. if hr_opened_at r \<noteq> None \<and> length_bucket (Some (hr_words r)) = bucket
                                  then hr_completion r else None) hist
      in if 3 \<le> length vals then Some (sum_list vals / real (length vals)) else None)"

definition candidate_vec ::
  "(string option \<Rightarrow> nat option \<Rightarrow> bool) \<Rightarrow> content_item \<Rightarrow> vec option" where
  "candidate_vec same_model item =
     (if ci_embedding item \<noteq> None \<and> same_model (ci_embedding_model item) (ci_embedding_dim item)
      then unit_vec (ci_embedding item) else None)"

definition rows_of_dim :: "nat option \<Rightarrow> history_row list \<Rightarrow> history_row list" where
  "rows_of_dim vdim hist =
     filter (\<lambda>r. some_and (hr_vector r) (\<lambda>v. some_and vdim (\<lambda>d. d \<noteq> 0 \<and> length v = d))) hist"

definition prepare ::
  "(string option \<Rightarrow> nat option \<Rightarrow> bool) \<Rightarrow> ranking_state \<Rightarrow> content_item list \<Rightarrow> scoring" where
  "prepare same_model st candidates =
     (let vecs = List.map_filter (candidate_vec same_model) candidates;
          vdim = (case vecs of [] \<Rightarrow> None | v # _ \<Rightarrow> Some (length v));
          suggested = filter (\<lambda>r. hr_was_suggested r \<and> hr_opened_at r \<noteq> None) (rs_history st)
      in \<lparr>sg_dim = vdim, sg_rows = rows_of_dim vdim (rs_history st),
          sg_bucket_completion = bucket_means (rs_history st),
          sg_suggested = length suggested, sg_sugg_success = length (filter is_success suggested),
          sg_vectors = filter (\<lambda>v. Some (length v) = vdim) vecs\<rparr>)"

definition row_sim :: "vec \<Rightarrow> history_row \<Rightarrow> real" where
  "row_sim v r = vdot (or_default (hr_vector r) []) v"

definition clip01 :: "real \<Rightarrow> real" where
  "clip01 x = clamp 0 1 x"

text \<open>Semantic: the best of the top three interests, or a bridge between two of them that is clearly
  better. The result is the score, the reason, and the topic.\<close>

definition interest_score :: "ranking_state \<Rightarrow> vec \<Rightarrow> real \<times> string" where
  "interest_score st v =
     (let top = take 3 (rs_interests st);
          top_imp = max (max_list 0 (map it_importance top)) (1 / 10 ^ 8);
          weighted = map (\<lambda>it. clip01 (vdot (it_vector it) v) * (it_importance it / top_imp)) top;
          best = argmax weighted
      in (weighted ! best, it_label (top ! best)))"

definition semantic_signal ::
  "ranking_state \<Rightarrow> vec option \<Rightarrow> string option \<Rightarrow> evidence \<times> string option \<times> string option" where
  "semantic_signal st v topic =
     (case v of
        None \<Rightarrow> (None, None, topic)
      | Some v \<Rightarrow>
          if rs_interests st = [] \<or> length (it_vector (hd (rs_interests st))) \<noteq> length v
          then (None, None, topic)
          else
            let (score, label) = interest_score st v;
                bcos = map (\<lambda>b. clip01 (vdot (fst b) v)) (rs_bridges st);
                bbest = argmax bcos
            in if rs_bridges st \<noteq> [] \<and> length (fst (hd (rs_bridges st))) = length v
                  \<and> score + 0.02 < bcos ! bbest
               then let (_, a, b) = rs_bridges st ! bbest
                    in (Some (clamp01 (Fin (bcos ! bbest)), None),
                        Some (''connects your interest in '' @ a @ '' and '' @ b), or_else topic (Some a))
               else if label \<noteq> []
               then (Some (clamp01 (Fin score), None),
                     Some (''matches your interest in '' @ label), or_else topic (Some label))
               else (Some (clamp01 (Fin score), None), None, topic))"

text \<open>Reading depth: the nearest opened items with a known completion.\<close>

definition depth_neighbours :: "nat \<Rightarrow> vec \<Rightarrow> history_row list \<Rightarrow> (real \<times> real) list" where
  "depth_neighbours item_id v rows =
     (let known = List.map_filter (\<lambda>r. if hr_content_id r = item_id then None
                     else map_option (\<lambda>c. (clip01 (row_sim v r), c)) (hr_completion r)) rows
      in filter (\<lambda>(s, c). 0 < s) (take KNN (sort_desc fst known)))"

definition depth_signal :: "nat \<Rightarrow> vec option \<Rightarrow> history_row list \<Rightarrow> evidence" where
  "depth_signal item_id v rows =
     (case v of
        None \<Rightarrow> None
      | Some v \<Rightarrow>
          if length (filter (\<lambda>r. hr_content_id r \<noteq> item_id \<and> hr_completion r \<noteq> None) rows) < 3 then None
          else
            let near = depth_neighbours item_id v rows;
                w = sum_list (map fst near);
                mean = sum_list (map (\<lambda>(s, c). s * c) near) / (w + 1 / 10 ^ 8);
                shrink = w / (w + 2)
            in if near = [] then None
               else Some (clamp01 (Fin (shrink * mean + (1 - shrink) * NEUTRAL)),
                          Some (show_int (py_round (mean * 100)) @ ''%'')))"

definition suggestion_signal :: "scoring \<Rightarrow> content_item \<Rightarrow> evidence" where
  "suggestion_signal sg item =
     (if ci_origin item = FromDiscovery
      then Some (clamp01 (Fin ((2 + real (sg_sugg_success sg)) / (3 + real (sg_suggested sg)))),
                 if 0 < sg_sugg_success sg then Some ''a discovery pick like ones you finished before'' else None)
      else None)"

definition best_sim :: "vec \<Rightarrow> history_row list \<Rightarrow> real" where
  "best_sim v rows = max_list 0 (map (\<lambda>r. clip01 (row_sim v r)) rows)"

definition feedback_signal :: "ranking_state \<Rightarrow> content_item \<Rightarrow> vec option \<Rightarrow> history_row list \<Rightarrow> evidence" where
  "feedback_signal st item v rows =
     (case v of
        None \<Rightarrow> None
      | Some v \<Rightarrow>
          let others = filter (\<lambda>r. hr_content_id r \<noteq> ci_id item) rows;
              up = filter (\<lambda>r. 0 < or_default (hr_rating r) 0) others;
              down = filter (\<lambda>r. or_default (hr_rating r) 0 < 0) others;
              p = best_sim v up;
              n = best_sim v down;
              too_basic = list_ex (\<lambda>r. some_and (hr_rating r) (\<lambda>x. x < 0) \<and> hr_reason r = Some ''too_basic'') (rs_history st)
                \<and> some_and (ci_content_depth_score item) (\<lambda>d. d < 0.4);
              value = 0.5 + 0.5 * p - 0.5 * n - (if too_basic then 0.1 else 0)
          in if up = [] \<and> down = [] then None
             else Some (clamp01 (Fin value),
                        if n \<le> p \<and> 0.5 < p then Some ''similar to articles you rated up'' else None))"

definition item_feed :: "ranking_state \<Rightarrow> content_item \<Rightarrow> feed_state option" where
  "item_feed st item =
     (let key = (case ci_source_id item of None \<Rightarrow> None | Some s \<Rightarrow> rs_source_feed_key st s);
          key = (case key of Some k \<Rightarrow> Some k
                 | None \<Rightarrow> (case ci_feed_id item of None \<Rightarrow> None | Some f \<Rightarrow> rs_feed_id_key st f))
      in case key of None \<Rightarrow> None | Some k \<Rightarrow> if k = [] then None else rs_feeds st k)"

definition trust_signal :: "ranking_state \<Rightarrow> content_item \<Rightarrow> py_error + evidence" where
  "trust_signal st item =
     (case item_feed st item of
        None \<Rightarrow> Inr None
      | Some feed \<Rightarrow>
          let age = (case fs_last_outcome_at feed of None \<Rightarrow> 0 | Some t \<Rightarrow> of_int \<lfloor>(rs_now st - t) / 86400\<rfloor>);
              prior_mean = clamp01 (Fin (fs_trust_weight feed));
              outcomes = fs_successes feed + fs_failures feed
          in case beta_trust (fs_successes feed) (fs_failures feed) (4 * prior_mean) (4 * (1 - prior_mean)) age 90 of
               Inl e \<Rightarrow> Inl e
             | Inr trust \<Rightarrow>
                 Inr (if 0 < outcomes \<or> 0.06 < \<bar>fs_trust_weight feed - 0.5\<bar>
                      then Some (bt_mean trust,
                        if 3 \<le> outcomes
                        then Some (''from '' @ fs_name feed @ '', which you finish ''
                               @ show_int (py_round (fs_successes feed / outcomes * 100)) @ ''% of the time'')
                        else Some (''from '' @ fs_name feed))
                      else None))"

definition quality_signal :: "scoring \<Rightarrow> content_item \<Rightarrow> evidence" where
  "quality_signal sg item =
     Some (item_quality item (sg_bucket_completion sg (length_bucket (ci_word_count item))),
           if 8 \<le> or_default (ci_reading_time_minutes item) 0
           then Some (''an in-depth '' @ show_int (or_default (ci_reading_time_minutes item) 0) @ ''-minute read'')
           else None)"

definition published_moment :: "content_item \<Rightarrow> moment" where
  "published_moment item = or_default (ci_published_at item) (ci_fetched_at item)"

definition same_event_count :: "ranking_state \<Rightarrow> scoring \<Rightarrow> vec option \<Rightarrow> int" where
  "same_event_count st sg v =
     (case v of
        None \<Rightarrow> 1
      | Some v \<Rightarrow>
          int (length (filter (\<lambda>u. SAME_EVENT_COSINE \<le> vdot u v) (sg_vectors sg)))
          + int (length (filter (\<lambda>r. SAME_EVENT_COSINE \<le> row_sim v r
              \<and> some_and (hr_opened_at r) (\<lambda>t. rs_now st - RECENT_EVENT_HOURS * 3600 \<le> t)) (sg_rows sg))))"

definition temporal_signal :: "ranking_state \<Rightarrow> scoring \<Rightarrow> content_item \<Rightarrow> vec option \<Rightarrow> evidence" where
  "temporal_signal st sg item v =
     (let published = published_moment item;
          hours = max 0 ((rs_now st - published) / 3600)
      in Some (temporal_score published (rs_now st) (same_event_count st sg v) (rs_prefers_fresh st),
               if hours \<le> 24 then Some ''published in the last day'' else None))"

definition novelty_signal :: "ranking_state \<Rightarrow> nat \<Rightarrow> vec option \<Rightarrow> history_row list \<Rightarrow> evidence" where
  "novelty_signal st item_id v rows =
     (case v of
        None \<Rightarrow> None
      | Some v \<Rightarrow>
          let recent = filter (\<lambda>r. hr_content_id r \<noteq> item_id
                \<and> some_and (hr_opened_at r) (\<lambda>t. rs_now st - NOVELTY_WINDOW_DAYS * 86400 \<le> t)) rows;
              novelty = 1 - best_sim v recent;
              target = (if rs_novelty_target st = 0 then 0.35 else rs_novelty_target st)
          in if length recent < 3 then None
             else Some (clamp01 (Fin (1 - \<bar>novelty - target\<bar> / target)),
                        if target \<le> novelty
                        then Some ''a fresh angle compared with your recent reading'' else None))"

subsection \<open>Scores\<close>

definition item_vec :: "(string option \<Rightarrow> nat option \<Rightarrow> bool) \<Rightarrow> scoring \<Rightarrow> content_item \<Rightarrow> vec option" where
  "item_vec same_model sg item =
     (case candidate_vec same_model item of
        Some v \<Rightarrow> if Some (length v) = sg_dim sg then Some v else None
      | None \<Rightarrow> None)"

definition signal_evidence ::
  "ranking_state \<Rightarrow> scoring \<Rightarrow> content_item \<Rightarrow> vec option \<Rightarrow> evidence \<Rightarrow> evidence \<Rightarrow> signal \<Rightarrow> evidence" where
  "signal_evidence st sg item v semantic trust name =
     (case name of
        Semantic \<Rightarrow> semantic
      | ReadingDepth \<Rightarrow> depth_signal (ci_id item) v (sg_rows sg)
      | Suggestion \<Rightarrow> suggestion_signal sg item
      | ExplicitFeedback \<Rightarrow> feedback_signal st item v (sg_rows sg)
      | SourceTrust \<Rightarrow> trust
      | ContentQuality \<Rightarrow> quality_signal sg item
      | TemporalContext \<Rightarrow> temporal_signal st sg item v
      | Novelty \<Rightarrow> novelty_signal st (ci_id item) v (sg_rows sg))"

definition assemble ::
  "ranking_state \<Rightarrow> content_item \<Rightarrow> vec option \<Rightarrow> (signal \<Rightarrow> evidence) \<Rightarrow> string option \<Rightarrow> string option \<Rightarrow> scored" where
  "assemble st item v ev why_topics topic =
     (let f = (\<lambda>name. case ev name of None \<Rightarrow> NEUTRAL | Some (x, _) \<Rightarrow> x);
          notes = (\<lambda>name. case ev name of None \<Rightarrow> None | Some (_, n) \<Rightarrow> n);
          have = set (filter (\<lambda>name. ev name \<noteq> None) SIGNALS);
          contributions = (\<lambda>name. rs_weights st name * f name);
          prs = sum_list (map contributions SIGNALS)
      in \<lparr>sc_item = item, sc_prs = clamp01 (Fin prs), sc_features = f,
          sc_no_data = filter (\<lambda>name. ev name = None) SIGNALS,
          sc_contributions = contributions,
          sc_explanation = explain_item contributions have notes why_topics,
          sc_why_topics = why_topics, sc_topic = topic, sc_vector = v\<rparr>)"

definition score_item ::
  "(string option \<Rightarrow> nat option \<Rightarrow> bool) \<Rightarrow> ranking_state \<Rightarrow> scoring \<Rightarrow> content_item \<Rightarrow> py_error + scored" where
  "score_item same_model st sg item =
     (let v = item_vec same_model sg item;
          topic = (case ci_topic_clusters item of [] \<Rightarrow> None | t # _ \<Rightarrow> Some t);
          (semantic, why_topics, topic) = semantic_signal st v topic
      in case trust_signal st item of
           Inl e \<Rightarrow> Inl e
         | Inr trust \<Rightarrow> Inr (assemble st item v (signal_evidence st sg item v semantic trust) why_topics topic))"

fun map_fallible :: "('a \<Rightarrow> 'e + 'b) \<Rightarrow> 'a list \<Rightarrow> 'e + 'b list" where
  "map_fallible f [] = Inr []"
| "map_fallible f (x # xs) =
     (case f x of Inl e \<Rightarrow> Inl e | Inr y \<Rightarrow> map_sum id (Cons y) (map_fallible f xs))"

text \<open>\<open>np.stack\<close> of interests or bridges of different lengths raises.\<close>

definition score_candidates ::
  "(string option \<Rightarrow> nat option \<Rightarrow> bool) \<Rightarrow> ranking_state \<Rightarrow> content_item list \<Rightarrow> py_error + scored list" where
  "score_candidates same_model st candidates =
     (if candidates = [] then Inr []
      else if \<not> stackable (map it_vector (rs_interests st)) \<or> \<not> stackable (map fst (rs_bridges st))
      then Inl ValueError
      else map_fallible (score_item same_model st (prepare same_model st candidates)) candidates)"

definition rank_candidates ::
  "(string option \<Rightarrow> nat option \<Rightarrow> bool) \<Rightarrow> ranking_state \<Rightarrow> content_item list \<Rightarrow> py_error + scored list" where
  "rank_candidates same_model st candidates =
     map_sum id (sort_desc sc_prs) (score_candidates same_model st candidates)"

subsection \<open>What scoring promises\<close>

lemma map_fallible_Inr:
  "map_fallible f xs = Inr ys \<longleftrightarrow> list_all2 (\<lambda>x y. f x = Inr y) xs ys"
proof (induction xs arbitrary: ys)
  case (Cons x xs)
  then show ?case
    by (cases "map_fallible f xs") (auto simp: list_all2_Cons1 split: sum.split)
qed auto

lemma map_fallible_total:
  "(\<And>x. x \<in> set xs \<Longrightarrow> \<exists>y. f x = Inr y) \<Longrightarrow> \<exists>ys. map_fallible f xs = Inr ys"
  by (induction xs) fastforce+

definition evidence_ok :: "evidence \<Rightarrow> bool" where
  "evidence_ok ev \<longleftrightarrow> (case ev of None \<Rightarrow> True | Some (x, _) \<Rightarrow> 0 \<le> x \<and> x \<le> 1)"

lemma evidence_ok_simps [simp]:
  "evidence_ok None" "evidence_ok (Some (x, n)) \<longleftrightarrow> 0 \<le> x \<and> x \<le> 1"
  by (simp_all add: evidence_ok_def)

lemma quality_bounds: "0 \<le> item_quality item b" "item_quality item b \<le> 1"
  by (simp_all add: item_quality_def Let_def split: option.split)

lemma semantic_ok: "evidence_ok (fst (semantic_signal st v topic))"
  by (simp add: semantic_signal_def Let_def split: option.split prod.split)

lemma depth_ok: "evidence_ok (depth_signal i v rows)"
  by (simp add: depth_signal_def Let_def split: option.split)

lemma suggestion_ok: "evidence_ok (suggestion_signal sg item)"
  by (simp add: suggestion_signal_def)

lemma feedback_ok: "evidence_ok (feedback_signal st item v rows)"
  by (simp add: feedback_signal_def Let_def split: option.split)

lemma novelty_ok: "evidence_ok (novelty_signal st i v rows)"
  by (simp add: novelty_signal_def Let_def split: option.split)

lemma beta_trust_mean_unit:
  "beta_trust s f ps pf age h = Inr t \<Longrightarrow> 0 \<le> bt_mean t \<and> bt_mean t \<le> 1"
  by (auto simp: beta_trust_def Let_def split: if_splits)

lemma trust_ok_signal: "trust_signal st item = Inr ev \<Longrightarrow> evidence_ok ev"
  using beta_trust_mean_unit
  by (fastforce simp: trust_signal_def Let_def split: option.splits sum.splits if_splits)

lemma signal_evidence_ok:
  "evidence_ok semantic \<Longrightarrow> evidence_ok trust \<Longrightarrow> evidence_ok (signal_evidence st sg item v semantic trust name)"
  by (cases name) (simp_all add: signal_evidence_def depth_ok suggestion_ok feedback_ok novelty_ok
      quality_signal_def temporal_signal_def quality_bounds Let_def)

definition scored_ok :: "ranking_state \<Rightarrow> scored \<Rightarrow> bool" where
  "scored_ok st s \<longleftrightarrow>
     (\<forall>name. 0 \<le> sc_features s name \<and> sc_features s name \<le> 1)
     \<and> sc_prs s = clamp01 (Fin (sum_list (map (sc_contributions s) SIGNALS)))
     \<and> (\<forall>name. sc_contributions s name = rs_weights st name * sc_features s name)
     \<and> (\<forall>name. name \<in> set (sc_no_data s) \<longrightarrow> sc_features s name = NEUTRAL)
     \<and> ContentQuality \<notin> set (sc_no_data s) \<and> TemporalContext \<notin> set (sc_no_data s)"

lemma assemble_ok:
  assumes "\<And>name. evidence_ok (ev name)" "ev ContentQuality \<noteq> None" "ev TemporalContext \<noteq> None"
  shows "scored_ok st (assemble st item v ev why topic)"
proof -
  have "0 \<le> (case ev name of None \<Rightarrow> NEUTRAL | Some (x, _) \<Rightarrow> x)
      \<and> (case ev name of None \<Rightarrow> NEUTRAL | Some (x, _) \<Rightarrow> x) \<le> 1" for name
    using assms(1) [of name] by (auto simp: NEUTRAL_def split: option.split)
  then show ?thesis using assms(2,3) by (auto simp: scored_ok_def assemble_def Let_def)
qed

lemma score_item_ok:
  assumes "score_item same_model st sg item = Inr s"
  shows "scored_ok st s \<and> sc_item s = item"
proof -
  obtain v topic semantic why topic' trust where
    p: "semantic_signal st v topic = (semantic, why, topic')" "trust_signal st item = Inr trust"
    and s: "s = assemble st item v (signal_evidence st sg item v semantic trust) why topic'"
    using assms by (auto simp: score_item_def Let_def split: prod.splits sum.splits)
  have "evidence_ok semantic" using semantic_ok [of st v topic] p(1) by simp
  moreover have "evidence_ok trust" using p(2) by (rule trust_ok_signal)
  ultimately have "scored_ok st s"
    unfolding s by (intro assemble_ok signal_evidence_ok)
      (simp_all add: signal_evidence_def quality_signal_def temporal_signal_def Let_def)
  then show ?thesis by (simp add: s assemble_def Let_def)
qed

lemma score_candidates_ok:
  assumes "score_candidates same_model st candidates = Inr out"
  shows "list_all (scored_ok st) out" "map sc_item out = candidates"
proof -
  have l: "list_all2 (\<lambda>c s. scored_ok st s \<and> sc_item s = c) candidates out"
    using assms score_item_ok
    by (auto simp: score_candidates_def map_fallible_Inr split: if_splits intro: list_all2_mono)
  then show "list_all (scored_ok st) out" "map sc_item out = candidates"
    by (induction rule: list_all2_induct) auto
qed

text \<open>C20: A ranking is the candidates, each once, best first. Every score and every feature lies in
  [0, 1], the score is the clamped sum of the contributions, a contribution is weight times
  feature, and a signal reported as without data has the neutral value.\<close>

theorem rank_candidates_sound:
  assumes "rank_candidates same_model st candidates = Inr out"
  shows "mset (map sc_item out) = mset candidates \<and> sorted_wrt (\<lambda>x y. sc_prs y \<le> sc_prs x) out
    \<and> list_all (scored_ok st) out \<and> list_all (\<lambda>s. 0 \<le> sc_prs s \<and> sc_prs s \<le> 1) out"
proof -
  obtain sc where sc: "score_candidates same_model st candidates = Inr sc" and out: "out = sort_desc sc_prs sc"
    using assms by (cases "score_candidates same_model st candidates") (auto simp: rank_candidates_def)
  have "mset (map sc_item out) = mset (map sc_item sc)" by (simp add: out)
  then have "mset (map sc_item out) = mset candidates" by (simp only: score_candidates_ok(2) [OF sc])
  moreover have "list_all (scored_ok st) out" using score_candidates_ok(1) [OF sc] by (simp add: out list_all_iff)
  moreover from this have "list_all (\<lambda>s. 0 \<le> sc_prs s \<and> sc_prs s \<le> 1) out"
    by (auto simp: list_all_iff scored_ok_def)
  moreover have "sorted_wrt (\<lambda>x y. sc_prs y \<le> sc_prs x) out" unfolding out by (rule sort_desc_sorted)
  ultimately show ?thesis by blast
qed

lemma score_candidates_returns:
  assumes "stackable (map it_vector (rs_interests st))" "stackable (map fst (rs_bridges st))"
    "\<And>k feed. rs_feeds st k = Some feed \<Longrightarrow> 0 \<le> fs_successes feed \<and> 0 \<le> fs_failures feed"
  shows "\<exists>out. score_candidates same_model st candidates = Inr out"
proof -
  have "\<exists>ev. trust_signal st item = Inr ev" for item
  proof (cases "item_feed st item")
    case (Some feed)
    then obtain k where "rs_feeds st k = Some feed"
      by (auto simp: item_feed_def Let_def split: option.splits if_splits)
    then have nonneg: "0 \<le> fs_successes feed" "0 \<le> fs_failures feed" using assms(3) by auto
    have "\<exists>t. beta_trust (fs_successes feed) (fs_failures feed) (4 * clamp01 x) (4 * (1 - clamp01 x)) age 90 = Inr t" for x age
    proof -
      let ?d = "trust_decay age 90"
      let ?a = "4 * clamp01 x + fs_successes feed * ?d" and ?b = "4 * (1 - clamp01 x) + fs_failures feed * ?d"
      have d: "0 < ?d" by simp
      have a: "0 \<le> ?a" using nonneg d by (simp add: less_imp_le)
      have b: "0 \<le> ?b" using nonneg d by (simp add: less_imp_le)
      have "0 \<le> fs_successes feed * ?d + fs_failures feed * ?d" using nonneg d by (simp add: less_imp_le)
      then have "0 < ?a + ?b" by (simp add: algebra_simps)
      moreover have "0 \<le> ?a * ?b / ((?a + ?b)\<^sup>2 * (?a + ?b + 1))" using a b by simp
      ultimately show ?thesis by (simp add: beta_trust_def Let_def not_less)
    qed
    then obtain t where t: "\<And>x age. beta_trust (fs_successes feed) (fs_failures feed) (4 * clamp01 x) (4 * (1 - clamp01 x)) age 90 = Inr (t x age)"
      by metis
    show ?thesis by (simp only: trust_signal_def Some option.case Let_def t sum.case) blast
  qed (simp add: trust_signal_def)
  then have "\<exists>s. score_item same_model st sg item = Inr s" for sg item
    by (auto simp: score_item_def Let_def split: sum.splits prod.splits) (metis Inr_not_Inl)
  with assms(1,2) show ?thesis by (simp add: score_candidates_def map_fallible_total)
qed

text \<open>Scoring raises nothing when the interest and the bridge vectors have one length each and no
  feed counts a negative number of outcomes.\<close>

theorem score_candidates_total:
  assumes "stackable (map it_vector (rs_interests st))" "stackable (map fst (rs_bridges st))"
    "\<And>k feed. rs_feeds st k = Some feed \<Longrightarrow> 0 \<le> fs_successes feed \<and> 0 \<le> fs_failures feed"
  shows "\<exists>out. score_candidates same_model st candidates = Inr out"
  using assms by (rule score_candidates_returns)

definition example_state :: ranking_state where
  "example_state = \<lparr>rs_weights = (\<lambda>_. 1 / 8), rs_history = [],
     rs_interests = [\<lparr>it_vector = [1, 0], it_importance = 1, it_label = ''chess''\<rparr>],
     rs_bridges = [([0, 1], ''chess'', ''go'')],
     rs_feeds = [''feed'' \<mapsto> \<lparr>fs_name = ''A blog'', fs_trust_weight = 0.7, fs_successes = 3,
        fs_failures = 1, fs_last_outcome_at = Some 0\<rparr>],
     rs_source_feed_key = [5 \<mapsto> ''feed''], rs_feed_id_key = Map.empty, rs_prefers_fresh = True,
     rs_novelty_target = 0.35, rs_now = 100000\<rparr>"

definition example_items :: "content_item list" where
  "example_items = [(blank_item 1)\<lparr>ci_embedding := Some [0, 2], ci_source_id := Some 5\<rparr>,
     (blank_item 2)\<lparr>ci_embedding := Some [3, 0]\<rparr>, blank_item 3]"

lemma example_returns:
  "\<exists>out. score_candidates (\<lambda>_ _. True) example_state example_items = Inr out"
  by (rule score_candidates_returns)
    (auto simp: example_state_def stackable_def split: if_splits)

lemma score_candidates_total_witness:
  "\<exists>out. score_candidates (\<lambda>_ _. True) example_state example_items = Inr out"
  by (rule score_candidates_total)
    (auto simp: example_state_def stackable_def split: if_splits)

lemma rank_candidates_sound_witness:
  "\<exists>out. rank_candidates (\<lambda>_ _. True) example_state example_items = Inr out
     \<and> mset (map sc_item out) = mset example_items \<and> list_all (\<lambda>s. 0 \<le> sc_prs s \<and> sc_prs s \<le> 1) out"
proof -
  obtain sc where "score_candidates (\<lambda>_ _. True) example_state example_items = Inr sc"
    using example_returns by blast
  then have "rank_candidates (\<lambda>_ _. True) example_state example_items = Inr (sort_desc sc_prs sc)"
    by (simp add: rank_candidates_def)
  with rank_candidates_sound [OF this] show ?thesis by blast
qed

subsection \<open>Clusters\<close>

definition clusters :: "linkage \<Rightarrow> nat list" where
  "clusters s = concat (map (lk_members s) (lk_active s))"

definition linkage_ok :: "nat \<Rightarrow> linkage \<Rightarrow> bool" where
  "linkage_ok n s \<longleftrightarrow> distinct (lk_active s) \<and> mset (clusters s) = mset [0..<n]
     \<and> list_all (\<lambda>i. lk_members s i \<noteq> []) (lk_active s) \<and> (\<forall>i. lk_dist s i i = None)"

declare linkage_loop.simps [simp del]

lemma concat_map_remove:
  assumes "distinct xs" "j \<in> set xs"
  shows "mset (concat (map f xs)) = mset (f j) + mset (concat (map f (filter (\<lambda>k. k \<noteq> j) xs)))"
  using assms
proof (induction xs)
  case (Cons x xs)
  have "filter (\<lambda>k. k \<noteq> j) xs = xs" if "j \<notin> set xs" using that by (induction xs) auto
  then show ?case using Cons by (cases "x = j") auto
qed simp

lemma concat_map_update:
  assumes "distinct xs" "i \<in> set xs"
  shows "mset (concat (map (f(i := f i @ ys)) xs)) = mset (concat (map f xs)) + mset ys"
proof -
  have "map (f(i := f i @ ys)) (filter (\<lambda>k. k \<noteq> i) xs) = map f (filter (\<lambda>k. k \<noteq> i) xs)" by simp
  then show ?thesis
    using concat_map_remove [OF assms, of f] concat_map_remove [OF assms, of "f(i := f i @ ys)"] by simp
qed

lemma merge_clusters_ok:
  assumes "linkage_ok n s" "i \<in> set (lk_active s)" "j \<in> set (lk_active s)" "i \<noteq> j"
  shows "linkage_ok n (merge_clusters i j s)"
proof -
  let ?rest = "filter (\<lambda>k. k \<noteq> j) (lk_active s)"
  let ?m = "(lk_members s)(i := lk_members s i @ lk_members s j)"
  have d: "distinct ?rest" "i \<in> set ?rest" using assms by (simp_all add: linkage_ok_def)
  have "map (?m(j := [])) ?rest = map ?m ?rest" by simp
  then have "mset (clusters (merge_clusters i j s)) = mset (concat (map ?m ?rest))"
    by (simp add: clusters_def merge_clusters_def)
  also have "\<dots> = mset (concat (map (lk_members s) ?rest)) + mset (lk_members s j)"
    by (rule concat_map_update [OF d])
  also have "\<dots> = mset (clusters s)"
    using concat_map_remove [of "lk_active s" j "lk_members s"] assms by (simp add: clusters_def linkage_ok_def)
  finally have "mset (clusters (merge_clusters i j s)) = mset [0..<n]" using assms(1) by (simp add: linkage_ok_def)
  then show ?thesis using assms d by (auto simp: linkage_ok_def merge_clusters_def list_all_iff)
qed

lemma argmin_pair_mem: "argmin_pair d best ps \<in> insert best (set ps)"
  by (induction d best ps rule: argmin_pair.induct) auto

lemma closest_active:
  assumes "lk_active s \<noteq> []" "closest s = (i, j)"
  shows "i \<in> set (lk_active s)" "j \<in> set (lk_active s)"
proof -
  let ?pairs = "concat (map (\<lambda>i. map (\<lambda>j. (i, j)) (lk_active s)) (lk_active s))"
  have "?pairs \<noteq> []" using assms(1) by (cases "lk_active s") simp_all
  moreover have "closest s \<in> insert (hd ?pairs) (set (tl ?pairs))"
    unfolding closest_def Let_def by (rule argmin_pair_mem)
  ultimately have "closest s \<in> set ?pairs" by (metis list.collapse list.simps(15))
  with assms(2) show "i \<in> set (lk_active s)" "j \<in> set (lk_active s)" by auto
qed

text \<open>The guards of \<open>linkage_loop\<close> on the pair itself are never what ends it.\<close>

lemma linkage_guards:
  assumes "linkage_ok n s" "lk_active s \<noteq> []" "closest s = (i, j)" "lk_dist s i j = Some d"
  shows "i \<noteq> j \<and> max i j \<in> set (lk_active s) \<and> min i j \<in> set (lk_active s)"
  using closest_active [OF assms(2,3)] assms(1,4) by (auto simp: linkage_ok_def max_def min_def)

lemma linkage_loop_ok: "linkage_ok n s \<Longrightarrow> linkage_ok n (linkage_loop threshold s)"
proof (induction threshold s rule: linkage_loop.induct)
  case (1 threshold s)
  show ?case
  proof (cases "length (lk_active s) \<le> 1")
    case True
    then show ?thesis using 1(2) by (simp add: linkage_loop.simps)
  next
    case False
    obtain i j where c: "closest s = (i, j)" by (cases "closest s")
    show ?thesis
    proof (cases "lk_dist s i j")
      case None
      then show ?thesis using 1(2) c by (simp add: linkage_loop.simps)
    next
      case (Some d)
      from False have "lk_active s \<noteq> []" by auto
      then have g: "i \<noteq> j" "max i j \<in> set (lk_active s)" "min i j \<in> set (lk_active s)"
        using linkage_guards [OF 1(2) _ c Some] by auto
      then have "linkage_ok n (merge_clusters (min i j) (max i j) s)"
        using 1(2) by (intro merge_clusters_ok) (simp_all add: min_def max_def)
      then have "linkage_ok n (linkage_loop threshold (merge_clusters (min i j) (max i j) s))" if "\<not> threshold < d"
        using 1(1) [OF False c [symmetric] refl Some] that g by simp
      then show ?thesis using 1(2) False c Some by (subst linkage_loop.simps) simp
    qed
  qed
qed

lemma initial_linkage_ok: "linkage_ok (length vectors) (initial_linkage vectors)"
proof -
  have "concat (map (\<lambda>i. [i]) xs) = xs" for xs :: "nat list" by (induction xs) simp_all
  then show ?thesis by (simp add: linkage_ok_def initial_linkage_def clusters_def list_all_iff)
qed

lemma average_linkage_fix:
  "mset (concat (average_linkage vectors threshold)) = mset [0..<length vectors]
    \<and> [] \<notin> set (average_linkage vectors threshold)"
  using linkage_loop_ok [OF initial_linkage_ok [of vectors], of threshold]
  unfolding average_linkage_def Let_def linkage_ok_def clusters_def list_all_iff by fastforce

text \<open>The clusters of the interest vectors are a partition: every vector is in exactly one cluster,
  and no cluster is empty.\<close>

theorem average_linkage_partition:
  "mset (concat (average_linkage vectors threshold)) = mset [0..<length vectors]
    \<and> [] \<notin> set (average_linkage vectors threshold)"
  by (rule average_linkage_fix)

lemma argmax_from_less: "best < n \<Longrightarrow> i + length xs \<le> n \<Longrightarrow> argmax_from best v i xs < n"
  by (induction best v i xs rule: argmax_from.induct) auto

lemma argmax_less: "xs \<noteq> [] \<Longrightarrow> argmax xs < length xs"
  by (cases xs) (auto simp: argmax_def intro: argmax_from_less)

text \<open>What a group contributes.\<close>

lemma interest_of_group_Some:
  assumes "interest_of_group candidates grp = Some it" "grp \<noteq> []" "set grp \<subseteq> {..<length candidates}"
  shows "it_vector it \<in> fst ` set candidates"
    "it_importance it = sum_list (map (\<lambda>i. fst (snd (candidates ! i))) grp)"
proof -
  obtain f where f: "it_vector it = fst (candidates ! (grp ! argmax (map f grp)))"
    using assms(1) by (auto simp: interest_of_group_def Let_def split: if_splits)
  have "argmax (map f grp) < length grp" using argmax_less [of "map f grp"] assms(2) by simp
  then have "grp ! argmax (map f grp) \<in> {..<length candidates}" using assms(3) nth_mem by blast
  then show "it_vector it \<in> fst ` set candidates" by (simp add: f)
  show "it_importance it = sum_list (map (\<lambda>i. fst (snd (candidates ! i))) grp)"
    using assms(1) by (auto simp: interest_of_group_def Let_def split: if_splits)
qed


lemma sum_list_map_filter_le:
  assumes "\<And>x y. x \<in> set xs \<Longrightarrow> f x = Some y \<Longrightarrow> g y = h x" "\<And>x. x \<in> set xs \<Longrightarrow> 0 \<le> (h x :: real)"
  shows "sum_list (map g (List.map_filter f xs)) \<le> sum_list (map h xs)"
  using assms
proof (induction xs)
  case (Cons x xs)
  then have "sum_list (map g (List.map_filter f xs)) \<le> sum_list (map h xs)" by simp
  moreover have "g y = h x" if "f x = Some y" for y using that Cons.prems by simp
  moreover have "0 \<le> h x" using Cons.prems by simp
  ultimately show ?case by (cases "f x") (simp_all add: List.map_filter_simps add_mono add_increasing)
qed (simp add: List.map_filter_simps)

lemma sum_list_mset_cong: "mset xs = mset ys \<Longrightarrow> sum_list (map h xs) = (sum_list (map h ys) :: real)"
  by (metis mset_map sum_mset_sum_list)

lemma sum_list_sort_desc: "sum_list (map h (sort_desc k xs)) = (sum_list (map h xs) :: real)"
  by (rule sum_list_mset_cong) simp

lemma sum_list_take_sort:
  assumes "\<And>x. x \<in> set xs \<Longrightarrow> 0 \<le> (h x :: real)"
  shows "sum_list (map h (take n (sort_desc k xs))) \<le> sum_list (map h xs)"
proof -
  let ?ys = "sort_desc k xs"
  have "0 \<le> sum_list (map h (drop n ?ys))" using assms by (intro sum_list_nonneg) (auto dest: in_set_dropD)
  moreover have "sum_list (map h (take n ?ys)) + sum_list (map h (drop n ?ys)) = sum_list (map h ?ys)"
    by (metis append_take_drop_id map_append sum_list_append)
  moreover have "sum_list (map h ?ys) = sum_list (map h xs)"
    by (rule sum_list_sort_desc)
  ultimately show ?thesis by linarith
qed

lemma sum_list_concat_map: "sum_list (map (\<lambda>ys. sum_list (map h ys)) xss) = sum_list (map h (concat xss))"
  by (induction xss) auto

lemma length_le_concat: "[] \<notin> set xss \<Longrightarrow> length xss \<le> length (concat xss)"
proof (induction xss)
  case (Cons xs xss)
  then show ?case by (cases xs) auto
qed simp

lemma length_map_filter_le: "length (List.map_filter f xs) \<le> length xs"
  by (induction xs) (auto simp: List.map_filter_simps split: option.split)

lemma interest_vectors:
  assumes "\<And>grp. grp \<in> set groups \<Longrightarrow> grp \<noteq> [] \<and> set grp \<subseteq> {..<length cs}"
  shows "it_vector ` set (List.map_filter (interest_of_group cs) groups) \<subseteq> fst ` set cs"
proof
  fix v assume "v \<in> it_vector ` set (List.map_filter (interest_of_group cs) groups)"
  then obtain it where it: "it \<in> set (List.map_filter (interest_of_group cs) groups)" and v: "v = it_vector it" by blast
  from it obtain grp where g: "grp \<in> set groups" "interest_of_group cs grp = Some it"
    by (auto simp: List.map_filter_def)
  show "v \<in> fst ` set cs" using interest_of_group_Some(1) [OF g(2)] assms [OF g(1)] by (simp add: v)
qed

text \<open>The interests built from a reader's vectors are at most 80, most important first; each is one
  of the vectors, and together they weigh no more than the vectors did.\<close>

theorem build_interests_sound:
  assumes "build_interests candidates = Inr interests" "\<And>c. c \<in> set candidates \<Longrightarrow> 0 \<le> fst (snd c)"
  shows "length interests \<le> min 80 (length candidates)
    \<and> sorted_wrt (\<lambda>x y. it_importance y \<le> it_importance x) interests
    \<and> it_vector ` set interests \<subseteq> fst ` set candidates
    \<and> sum_list (map it_importance interests) \<le> sum_list (map (\<lambda>c. fst (snd c)) candidates)"
proof -
  define cs where "cs = take MAX_INTEREST_VECTORS (sort_desc (\<lambda>c. fst (snd c)) candidates)"
  define groups where "groups = average_linkage (map fst cs) CLUSTER_DISTANCE"
  define raw where "raw = List.map_filter (interest_of_group cs) groups"
  have out: "interests = sort_desc it_importance raw"
    using assms(1) by (simp add: build_interests_def Let_def raw_def groups_def cs_def split: if_splits)
  have part: "mset (concat groups) = mset [0..<length cs]" "[] \<notin> set groups"
    unfolding groups_def using average_linkage_fix [of "map fst cs" CLUSTER_DISTANCE] by simp_all
  have sub: "set cs \<subseteq> set candidates" by (auto simp: cs_def dest: in_set_takeD)
  have grp: "grp \<noteq> [] \<and> set grp \<subseteq> {..<length cs}" if "grp \<in> set groups" for grp
  proof -
    have "set (concat groups) = {0..<length cs}" using arg_cong [OF part(1), of set_mset] by simp
    then show ?thesis using that part(2) by fastforce
  qed
  note piece = interest_of_group_Some [of cs]
  have "length raw \<le> length (concat groups)"
    using length_map_filter_le [of "interest_of_group cs" groups] length_le_concat [OF part(2)] by (simp add: raw_def)
  also have "\<dots> = length cs" using arg_cong [OF part(1), of size] by simp
  finally have "length interests \<le> min 80 (length candidates)"
    by (simp add: out cs_def MAX_INTEREST_VECTORS_def)
  moreover have "sorted_wrt (\<lambda>x y. it_importance y \<le> it_importance x) interests"
    unfolding out by (rule sort_desc_sorted)
  moreover have "it_vector ` set interests \<subseteq> fst ` set cs"
    using interest_vectors [of groups cs] grp by (simp add: out raw_def)
  then have "it_vector ` set interests \<subseteq> fst ` set candidates" using sub by blast
  moreover have "sum_list (map it_importance interests) \<le> sum_list (map (\<lambda>c. fst (snd c)) candidates)"
  proof -
    let ?h = "\<lambda>i. fst (snd (cs ! i))"
    have "sum_list (map it_importance raw) \<le> sum_list (map (\<lambda>grp. sum_list (map ?h grp)) groups)"
      unfolding raw_def
    proof (rule sum_list_map_filter_le)
      fix grp assume g: "grp \<in> set groups"
      have "0 \<le> ?h i" if "i \<in> set grp" for i using that g grp sub assms(2) by (meson lessThan_iff nth_mem subsetD)
      then show "0 \<le> sum_list (map ?h grp)" by (intro sum_list_nonneg) auto
    next
      fix grp y assume "grp \<in> set groups" "interest_of_group cs grp = Some y"
      then show "it_importance y = sum_list (map ?h grp)" using piece(2) grp by simp
    qed
    also have "\<dots> = sum_list (map ?h [0..<length cs])"
      unfolding sum_list_concat_map by (rule sum_list_mset_cong [OF part(1)])
    also have "map ?h [0..<length cs] = map (\<lambda>c. fst (snd c)) cs" by (rule nth_equalityI) simp_all
    also have "sum_list (map (\<lambda>c. fst (snd c)) cs) \<le> sum_list (map (\<lambda>c. fst (snd c)) candidates)"
      unfolding cs_def using assms(2) by (rule sum_list_take_sort)
    finally show ?thesis by (simp add: out sum_list_sort_desc)
  qed
  ultimately show ?thesis by blast
qed


definition example_candidates :: "(vec \<times> real \<times> string) list" where
  "example_candidates = [([1, 0], 0.5, ''chess''), ([1, 0], 0.9, ''go''), ([0, 1], 0.4, [])]"

lemma build_interests_sound_witness:
  "\<exists>interests. build_interests example_candidates = Inr interests
     \<and> length interests \<le> 3 \<and> it_vector ` set interests \<subseteq> {[1, 0], [0, 1]}"
proof -
  have "stackable (map fst (take 80 (sort_desc (\<lambda>c. fst (snd c)) example_candidates)))"
    by (simp add: example_candidates_def stackable_def sort_desc_def)
  then obtain interests where b: "build_interests example_candidates = Inr interests"
    unfolding build_interests_def Let_def MAX_INTEREST_VECTORS_def by auto
  have "0 \<le> fst (snd c)" if "c \<in> set example_candidates" for c
    using that by (auto simp: example_candidates_def)
  from build_interests_sound [OF b this] b show ?thesis
    by (auto simp: example_candidates_def)
qed

subsection \<open>Embedding models\<close>

record embedding_spec =
  es_name :: string
  es_dim :: nat
  es_version :: string
  es_prefix_document :: string
  es_prefix_query :: string
  es_max_tokens :: nat

definition MINILM :: string where "MINILM = ''all-MiniLM-L6-v2''"
definition BGE_SMALL :: string where "BGE_SMALL = ''BAAI/bge-small-en-v1.5''"
definition BGE_SMALL_SHORT :: string where "BGE_SMALL_SHORT = ''bge-small-en-v1.5''"
definition NOMIC :: string where "NOMIC = ''nomic-embed-text-v1.5''"
definition MINILM_DIM :: nat where "MINILM_DIM = 384"
definition VERSION :: string where "VERSION = ''1''"

definition MINILM_SPEC :: embedding_spec where
  "MINILM_SPEC = \<lparr>es_name = MINILM, es_dim = MINILM_DIM, es_version = VERSION,
     es_prefix_document = [], es_prefix_query = [], es_max_tokens = 256\<rparr>"

definition BGE_SPEC :: embedding_spec where
  "BGE_SPEC = \<lparr>es_name = BGE_SMALL, es_dim = 384, es_version = VERSION, es_prefix_document = [],
     es_prefix_query = ''Represent this sentence for searching relevant passages: '', es_max_tokens = 512\<rparr>"

definition NOMIC_SPEC :: embedding_spec where
  "NOMIC_SPEC = \<lparr>es_name = NOMIC, es_dim = 768, es_version = VERSION,
     es_prefix_document = ''search_document: '', es_prefix_query = ''search_query: '', es_max_tokens = 8192\<rparr>"

definition SPECS :: "string \<Rightarrow> embedding_spec option" where
  "SPECS = [MINILM \<mapsto> MINILM_SPEC, BGE_SMALL \<mapsto> BGE_SPEC, BGE_SMALL_SHORT \<mapsto> BGE_SPEC, NOMIC \<mapsto> NOMIC_SPEC]"

definition alias_list :: "(string \<times> string) list" where
  "alias_list = [(BGE_SMALL_SHORT, BGE_SMALL), (''sentence-transformers/all-MiniLM-L6-v2'', MINILM)]"

text \<open>\<open>ALIASES.get(name, name)\<close>.\<close>

definition canonical :: "string \<Rightarrow> string" where
  "canonical name = or_default (map_of alias_list name) name"

definition spec_for :: "string \<Rightarrow> py_error + embedding_spec" where
  "spec_for name = (case SPECS (canonical name) of None \<Rightarrow> Inl KeyError | Some s \<Rightarrow> Inr s)"

definition resolve_stored_model :: "string \<Rightarrow> embedding_spec" where
  "resolve_stored_model requested =
     (case SPECS (canonical requested) of
        None \<Rightarrow> if requested = [] then MINILM_SPEC
                else \<lparr>es_name = requested, es_dim = MINILM_DIM, es_version = VERSION,
                      es_prefix_document = [], es_prefix_query = [], es_max_tokens = 512\<rparr>
      | Some spec \<Rightarrow> if es_dim spec \<noteq> MINILM_DIM then MINILM_SPEC else spec)"

definition active_spec :: "string \<Rightarrow> bool \<Rightarrow> embedding_spec" where
  "active_spec model cutover =
     (if \<not> cutover then MINILM_SPEC else resolve_stored_model (canonical model))"

definition prepare_text :: "string \<Rightarrow> embedding_spec \<Rightarrow> bool \<Rightarrow> string" where
  "prepare_text txt spec query = (if query then es_prefix_query spec else es_prefix_document spec) @ txt"

text \<open>\<open>names_for\<close> without the final \<open>sorted\<close>: the stored names that mean the active model.\<close>

definition names_for :: "embedding_spec \<Rightarrow> string set" where
  "names_for active =
     (let c = canonical (es_name active) in insert c (set (map fst (filter (\<lambda>(a, t). t = c) alias_list))))"

definition same_model :: "string option \<Rightarrow> nat option \<Rightarrow> embedding_spec \<Rightarrow> bool" where
  "same_model row_model row_dim active =
     (if some_and row_dim (\<lambda>d. d \<noteq> es_dim active) then False
      else case row_model of
             None \<Rightarrow> es_name active = MINILM
           | Some m \<Rightarrow> if m = [] then es_name active = MINILM
                        else canonical m = canonical (es_name active))"

text \<open>The active model always has the width of the stored column.\<close>

lemma active_dim: "es_dim (active_spec model cutover) = 384"
  by (auto simp: active_spec_def resolve_stored_model_def MINILM_SPEC_def MINILM_DIM_def split: option.split)

lemma canonical_name: "canonical (es_name (active_spec model cutover)) = es_name (active_spec model cutover)"
proof -
  have c: "canonical (canonical m) = canonical m" for m
    by (simp add: canonical_def alias_list_def MINILM_def BGE_SMALL_def BGE_SMALL_SHORT_def)
  have s: "SPECS n = Some spec \<Longrightarrow> canonical (es_name spec) = es_name spec" for n spec
    by (auto simp: SPECS_def MINILM_SPEC_def BGE_SPEC_def NOMIC_SPEC_def canonical_def alias_list_def
        MINILM_def BGE_SMALL_def BGE_SMALL_SHORT_def NOMIC_def split: if_splits)
  have m: "canonical MINILM = MINILM"
    by (simp add: canonical_def alias_list_def MINILM_def BGE_SMALL_SHORT_def)
  show ?thesis
    using s by (auto simp: active_spec_def resolve_stored_model_def c m MINILM_SPEC_def split: option.splits)
qed

text \<open>A row with a name means the active model exactly when its name is one of \<open>names_for\<close>: the
  query of \<open>retrieval.py\<close> and the test of the ranker agree.\<close>

lemma same_model_names:
  assumes "m \<noteq> []"
  shows "same_model (Some m) None (active_spec model cutover) \<longleftrightarrow> m \<in> names_for (active_spec model cutover)"
proof -
  let ?a = "es_name (active_spec model cutover)"
  have "canonical m = ?a \<longleftrightarrow> m = ?a \<or> (m, ?a) \<in> set alias_list"
  proof
    assume "canonical m = ?a"
    then show "m = ?a \<or> (m, ?a) \<in> set alias_list"
      by (auto simp: canonical_def dest: map_of_SomeD split: option.splits)
         (cases "map_of alias_list m"; auto simp: canonical_def dest: map_of_SomeD)
  next
    have "distinct (map fst alias_list)"
      by (simp add: alias_list_def BGE_SMALL_SHORT_def)
    moreover assume "m = ?a \<or> (m, ?a) \<in> set alias_list"
    ultimately show "canonical m = ?a" using canonical_name by (auto simp: canonical_def)
  qed
  moreover have "m \<in> names_for (active_spec model cutover) \<longleftrightarrow> m = ?a \<or> (m, ?a) \<in> set alias_list"
    by (force simp: names_for_def Let_def canonical_name)
  ultimately show ?thesis using assms by (simp add: same_model_def canonical_name)
qed

subsection \<open>The state of a reader\<close>

text \<open>The rows \<open>load_state\<close> reads: the reader's interactions joined with their items, the graph and
  the sources. A UUID is always truthy.\<close>

definition py_feed_key :: "source_row \<Rightarrow> string" where
  "py_feed_key s = falsy_string (sr_feed_url s) (sr_url s)"

definition load_weights :: "(signal \<Rightarrow> real option) \<Rightarrow> signal \<Rightarrow> real" where
  "load_weights stored =
     (let weights = (\<lambda>name. or_default (stored name) 0);
          s = sum_list (map weights SIGNALS);
          total = (if s = 0 then 1 else s)
      in (\<lambda>name. weights name / total))"

definition new_feed_state :: "source_row \<Rightarrow> feed_state" where
  "new_feed_state s = \<lparr>fs_name = falsy_string (sr_name s) (sr_url s),
     fs_trust_weight = (if sr_trust_weight s = 0 then 0.5 else sr_trust_weight s),
     fs_successes = 0, fs_failures = 0, fs_last_outcome_at = None\<rparr>"

definition load_feeds :: "source_row list \<Rightarrow> string \<Rightarrow> feed_state option" where
  "load_feeds own = foldl (\<lambda>m s. m(py_feed_key s \<mapsto> new_feed_state s)) Map.empty own"

definition key_sources :: "source_row list \<Rightarrow> (nat \<Rightarrow> string option) \<Rightarrow> nat \<Rightarrow> string option" where
  "key_sources sources m = foldl (\<lambda>m s. m(sr_id s \<mapsto> py_feed_key s)) m sources"

text \<open>The sources of items that are not in the map yet are looked up and added.\<close>

definition ensure_sources ::
  "source_row list \<Rightarrow> nat option list \<Rightarrow> (nat \<Rightarrow> string option) \<Rightarrow> nat \<Rightarrow> string option" where
  "ensure_sources table ids m =
     key_sources (filter (\<lambda>s. Some (sr_id s) \<in> set ids \<and> m (sr_id s) = None) table) m"

definition history_of ::
  "(string option \<Rightarrow> nat option \<Rightarrow> bool) \<Rightarrow> (nat \<Rightarrow> string option) \<Rightarrow> interaction \<times> content_item \<Rightarrow> history_row" where
  "history_of same keys row =
     (let (ix, c) = row in
      \<lparr>hr_content_id = ci_id c,
       hr_vector = (if same (ci_embedding_model c) (ci_embedding_dim c) then unit_vec (ci_embedding c) else None),
       hr_feed_key = (case ci_source_id c of None \<Rightarrow> None | Some s \<Rightarrow> keys s),
       hr_words = or_default (ci_word_count c) 0,
       hr_completion = ix_read_completion_pct ix, hr_rating = ix_explicit_rating ix,
       hr_reason = ix_explicit_rating_reason ix, hr_saved = ix_saved ix, hr_skipped = ix_skipped ix,
       hr_was_suggested = ix_was_suggested ix, hr_opened_at = ix_opened_at ix,
       hr_created_at = ix_created_at ix,
       hr_published_at = or_else (ci_published_at c) (Some (ci_fetched_at c))\<rparr>)"

definition record_outcome :: "(string \<Rightarrow> feed_state option) \<Rightarrow> history_row \<Rightarrow> string \<Rightarrow> feed_state option" where
  "record_outcome feeds r =
     (case hr_feed_key r of
        None \<Rightarrow> feeds
      | Some k \<Rightarrow>
          (case feeds k of
             None \<Rightarrow> feeds
           | Some feed \<Rightarrow>
               if \<not> is_success r \<and> \<not> is_failure r then feeds
               else
                 let feed = (if is_success r then feed\<lparr>fs_successes := fs_successes feed + 1\<rparr>
                             else feed\<lparr>fs_failures := fs_failures feed + 1\<rparr>);
                     moment = or_default (hr_opened_at r) (hr_created_at r);
                     feed = (if some_and (fs_last_outcome_at feed) (\<lambda>t. \<not> t < moment) then feed
                             else feed\<lparr>fs_last_outcome_at := Some moment\<rparr>)
                 in feeds(k \<mapsto> feed)))"

definition node_vectors ::
  "(string option \<Rightarrow> nat option \<Rightarrow> bool) \<Rightarrow> interest_node list \<Rightarrow> (nat \<times> vec \<times> real \<times> string) list" where
  "node_vectors same nodes =
     List.map_filter (\<lambda>n. if \<not> same (in_embedding_model n) None then None
         else case unit_vec (in_topic_embedding n) of
                None \<Rightarrow> None
              | Some v \<Rightarrow> if 0 < in_weight n then Some (in_id n, v, in_weight n, in_topic_label n) else None) nodes"

definition interest_candidates ::
  "(nat \<times> vec \<times> real \<times> string) list \<Rightarrow> history_row list \<Rightarrow> (vec \<times> real \<times> string) list" where
  "interest_candidates nodes hist =
     map snd nodes
     @ List.map_filter (\<lambda>r. case hr_vector r of
           None \<Rightarrow> None
         | Some v \<Rightarrow> if is_success r
             then Some (v, 0.5 * (if 0 < or_default (hr_rating r) 0 \<or> hr_saved r then 1 else 0.7), [])
             else None) hist"

text \<open>A bridge joins the two ends of a strong edge, when both have a vector. Vectors of different
  lengths do not add up (a vector of length one is never stored).\<close>

fun load_bridges ::
  "(nat \<times> vec \<times> real \<times> string) list \<Rightarrow> interest_edge list \<Rightarrow> py_error + (vec \<times> string \<times> string) list" where
  "load_bridges nodes [] = Inr []"
| "load_bridges nodes (e # es) =
     (if ie_edge_weight e < BRIDGE_EDGE_WEIGHT then load_bridges nodes es
      else case (map_of nodes (ie_from_node_id e), map_of nodes (ie_to_node_id e)) of
             (Some (a, _, la), Some (b, _, lb)) \<Rightarrow>
               if length a \<noteq> length b then Inl ValueError
               else (case unit_vec (Some (vadd a b)) of
                       None \<Rightarrow> load_bridges nodes es
                     | Some mid \<Rightarrow> map_sum id (Cons (mid, la, lb)) (load_bridges nodes es))
           | _ \<Rightarrow> load_bridges nodes es)"

definition median :: "real list \<Rightarrow> real" where
  "median xs = (let s = sort xs; n = length s
     in if odd n then s ! (n div 2) else (s ! (n div 2 - 1) + s ! (n div 2)) / 2)"

definition prefers_fresh :: "history_row list \<Rightarrow> bool" where
  "prefers_fresh hist =
     (let ages = List.map_filter (\<lambda>r. case (hr_opened_at r, hr_published_at r) of
                    (Some opened, Some published) \<Rightarrow>
                      if published \<le> opened then Some ((opened - published) / 3600) else None
                  | _ \<Rightarrow> None) hist
      in length ages < 5 \<or> median ages < 36)"

definition load_state ::
  "(string option \<Rightarrow> nat option \<Rightarrow> bool) \<Rightarrow> real \<Rightarrow> moment \<Rightarrow> nat \<Rightarrow> (signal \<Rightarrow> real option)
    \<Rightarrow> (interaction \<times> content_item) list \<Rightarrow> graph_db \<Rightarrow> py_error + ranking_state" where
  "load_state same novelty_target now user stored rows db =
     (let rows = take HISTORY_LIMIT
                   (sort_desc (\<lambda>r. ix_updated_at (fst r)) (filter (\<lambda>r. ix_user_id (fst r) = user) rows));
          own = filter (\<lambda>s. sr_user_id s = user) (gd_sources db);
          keys = ensure_sources (gd_sources db) (map (\<lambda>r. ci_source_id (snd r)) rows)
                   (key_sources own Map.empty);
          hist = map (history_of same keys) rows;
          nodes = node_vectors same
                    (filter (\<lambda>n. in_user_id n = user \<and> \<not> some_and (in_suppressed_until n) (\<lambda>t. now < t)) (gd_nodes db));
          edges = filter (\<lambda>e. ie_user_id e = user) (gd_edges db)
      in case build_interests (interest_candidates nodes hist) of
           Inl e \<Rightarrow> Inl e
         | Inr interests \<Rightarrow>
             map_sum id (\<lambda>bridges.
                \<lparr>rs_weights = load_weights stored, rs_history = hist, rs_interests = interests,
                 rs_bridges = bridges, rs_feeds = foldl record_outcome (load_feeds own) hist,
                 rs_source_feed_key = keys,
                 rs_feed_id_key = foldl (\<lambda>m s. case sr_feed_id s of None \<Rightarrow> m
                                    | Some f \<Rightarrow> m(f \<mapsto> py_feed_key s)) Map.empty own,
                 rs_prefers_fresh = prefers_fresh hist, rs_novelty_target = novelty_target, rs_now = now\<rparr>)
               (load_bridges nodes edges))"

definition rank ::
  "(string option \<Rightarrow> nat option \<Rightarrow> bool) \<Rightarrow> source_row list \<Rightarrow> ranking_state \<Rightarrow> content_item list
    \<Rightarrow> py_error + scored list" where
  "rank same table st candidates =
     (if candidates = [] then Inr []
      else rank_candidates same
             (st\<lparr>rs_source_feed_key := ensure_sources table (map ci_source_id candidates) (rs_source_feed_key st)\<rparr>)
             candidates)"

text \<open>\<open>Scored.breakdown\<close>: the features rounded to six places, and the rest as it is.\<close>

definition scored_breakdown :: "scored \<Rightarrow> breakdown" where
  "scored_breakdown s = empty_breakdown\<lparr>
     bd_features := (\<lambda>name. Some (of_int (py_round (sc_features s name * 10 ^ 6)) / 10 ^ 6)),
     bd_contributions := sc_contributions s, bd_no_data := sc_no_data s,
     bd_explanation := sc_explanation s,
     bd_why_topics := (if sc_why_topics s = Some [] then None else sc_why_topics s)\<rparr>"

subsection \<open>What loading promises\<close>

lemma map_sum_Inr: "map_sum id f x = Inr y \<longleftrightarrow> (\<exists>z. x = Inr z \<and> y = f z)"
  by (cases x) auto

definition counts_ok :: "(string \<Rightarrow> feed_state option) \<Rightarrow> bool" where
  "counts_ok feeds \<longleftrightarrow> (\<forall>k feed. feeds k = Some feed \<longrightarrow> 0 \<le> fs_successes feed \<and> 0 \<le> fs_failures feed)"

lemma counts_okD: "counts_ok feeds \<Longrightarrow> feeds k = Some feed \<Longrightarrow> 0 \<le> fs_successes feed \<and> 0 \<le> fs_failures feed"
  by (simp add: counts_ok_def)

lemma counts_ok_upd:
  "counts_ok feeds \<Longrightarrow> 0 \<le> fs_successes feed \<Longrightarrow> 0 \<le> fs_failures feed \<Longrightarrow> counts_ok (feeds(k \<mapsto> feed))"
  by (simp add: counts_ok_def)

lemma record_outcome_ok: "counts_ok feeds \<Longrightarrow> counts_ok (record_outcome feeds r)"
proof (cases "hr_feed_key r")
  case (Some k)
  assume ok: "counts_ok feeds"
  show ?thesis
  proof (cases "feeds k")
    case (Some feed)
    have "0 \<le> fs_successes feed \<and> 0 \<le> fs_failures feed" using ok Some by (rule counts_okD)
    then show ?thesis using Some \<open>hr_feed_key r = Some k\<close> ok
      by (auto simp: record_outcome_def Let_def intro!: counts_ok_upd)
  qed (simp add: record_outcome_def Some ok)
qed (simp add: record_outcome_def)

interpretation outcomes: preserving record_outcome counts_ok "\<lambda>_. True"
  by unfold_locales (rule record_outcome_ok)

definition counts_zero :: "(string \<Rightarrow> feed_state option) \<Rightarrow> bool" where
  "counts_zero feeds \<longleftrightarrow> (\<forall>k feed. feeds k = Some feed \<longrightarrow> fs_successes feed = 0 \<and> fs_failures feed = 0)"

interpretation new_feeds: preserving "\<lambda>m s. m(py_feed_key s \<mapsto> new_feed_state s)" counts_zero "\<lambda>_. True"
  by unfold_locales (simp add: counts_zero_def new_feed_state_def)

lemma load_feeds_fresh: "counts_zero (load_feeds own)"
  unfolding load_feeds_def by (rule new_feeds.run_inv) (simp_all add: counts_zero_def list_all_iff)

lemma loaded_counts: "counts_ok (foldl record_outcome (load_feeds own) hist)"
proof (rule outcomes.run_inv)
  show "counts_ok (load_feeds own)"
    using load_feeds_fresh [of own] by (simp add: counts_ok_def counts_zero_def)
qed (simp add: list_all_iff)

text \<open>The width of every vector in play is the width of the column.\<close>

definition widths_ok :: "nat \<Rightarrow> graph_db \<Rightarrow> (interaction \<times> content_item) list \<Rightarrow> bool" where
  "widths_ok d db rows \<longleftrightarrow>
     list_all (\<lambda>n. in_topic_embedding n = None \<or> length (or_default (in_topic_embedding n) []) = d) (gd_nodes db)
     \<and> list_all (\<lambda>r. ci_embedding (snd r) = None \<or> length (or_default (ci_embedding (snd r)) []) = d) rows"

lemma unit_vec_length: "unit_vec raw = Some v \<Longrightarrow> \<exists>w. raw = Some w \<and> length v = length w"
  by (auto simp: unit_vec_def Let_def split: option.splits if_splits)

lemma node_vectors_width:
  assumes "list_all (\<lambda>n. in_topic_embedding n = None \<or> length (or_default (in_topic_embedding n) []) = d) nodes"
    "(i, v, w, l) \<in> set (node_vectors same nodes)"
  shows "length v = d" "0 < w"
proof -
  obtain n where n: "n \<in> set nodes" "unit_vec (in_topic_embedding n) = Some v" "0 < w"
    using assms(2) by (auto simp: node_vectors_def List.map_filter_def split: if_splits option.splits)
  then show "length v = d" "0 < w"
    using assms(1) unit_vec_length [OF n(2)] by (auto simp: list_all_iff)
qed

lemma interest_candidates_ok:
  assumes "\<And>i v w l. (i, v, w, l) \<in> set nodes \<Longrightarrow> length v = d \<and> 0 < w"
    "\<And>r v. r \<in> set hist \<Longrightarrow> hr_vector r = Some v \<Longrightarrow> length v = d"
    "c \<in> set (interest_candidates nodes hist)"
  shows "length (fst c) = d \<and> 0 < fst (snd c)"
  using assms by (auto simp: interest_candidates_def List.map_filter_def split: option.splits if_splits)

lemma stackable_width: "(\<And>v. v \<in> set vs \<Longrightarrow> length v = d) \<Longrightarrow> stackable vs"
  by (cases vs) (auto simp: stackable_def list_all_iff)

lemma load_bridges_ok:
  assumes "\<And>i v w l. (i, v, w, l) \<in> set nodes \<Longrightarrow> length v = d"
  shows "\<exists>bs. load_bridges nodes es = Inr bs \<and> (\<forall>b \<in> set bs. length (fst b) = d)"
proof (induction es)
  case (Cons e es)
  then obtain bs where bs: "load_bridges nodes es = Inr bs" "\<forall>b \<in> set bs. length (fst b) = d" by blast
  have l: "length a = d" if "map_of nodes i = Some (a, w, la)" for i a w la
    using assms map_of_SomeD [OF that] by blast
  let ?a = "map_of nodes (ie_from_node_id e)" and ?b = "map_of nodes (ie_to_node_id e)"
  show ?case
  proof (cases "ie_edge_weight e < BRIDGE_EDGE_WEIGHT \<or> ?a = None \<or> ?b = None")
    case True
    then show ?thesis using bs by (auto split: option.split)
  next
    case False
    then obtain a wa la b wb lb where m: "?a = Some (a, wa, la)" "?b = Some (b, wb, lb)" by auto
    show ?thesis
    proof (cases "unit_vec (Some (vadd a b))")
      case None
      then show ?thesis using False m bs l [OF m(1)] l [OF m(2)] by simp
    next
      case (Some mid)
      have "length mid = d" using unit_vec_length [OF Some] l [OF m(1)] l [OF m(2)] by simp
      then show ?thesis using False m bs Some l [OF m(1)] l [OF m(2)] by simp
    qed
  qed
qed simp

text \<open>\<open>sort_desc\<close> and the clusters keep the widths.\<close>

lemma build_interests_returns:
  assumes "\<And>c. c \<in> set candidates \<Longrightarrow> length (fst c) = d \<and> 0 < fst (snd c)"
  shows "\<exists>its. build_interests candidates = Inr its \<and> (\<forall>it \<in> set its. length (it_vector it) = d)"
proof -
  let ?cs = "take MAX_INTEREST_VECTORS (sort_desc (\<lambda>c. fst (snd c)) candidates)"
  let ?groups = "average_linkage (map fst ?cs) CLUSTER_DISTANCE"
  have w: "length (fst c) = d" if "c \<in> set ?cs" for c using assms in_set_takeD [OF that] by simp
  then have "stackable (map fst ?cs)" by (intro stackable_width) auto
  then have b: "build_interests candidates =
      Inr (sort_desc it_importance (List.map_filter (interest_of_group ?cs) ?groups))"
    by (simp add: build_interests_def Let_def)
  have part: "mset (concat ?groups) = mset [0..<length ?cs]" "[] \<notin> set ?groups"
    using average_linkage_fix [of "map fst ?cs" CLUSTER_DISTANCE] by simp_all
  have "grp \<noteq> [] \<and> set grp \<subseteq> {..<length ?cs}" if "grp \<in> set ?groups" for grp
  proof -
    have "set (concat ?groups) = {0..<length ?cs}" using arg_cong [OF part(1), of set_mset] by simp
    then show ?thesis using that part(2) by fastforce
  qed
  from interest_vectors [of ?groups ?cs, OF this]
  have "it_vector it \<in> fst ` set ?cs" if "it \<in> set (List.map_filter (interest_of_group ?cs) ?groups)" for it
    using that by blast
  then show ?thesis using b w by fastforce
qed

lemma load_state_ok:
  assumes "widths_ok d db rows"
  shows "\<exists>st. load_state same target now user stored rows db = Inr st
    \<and> (\<forall>it \<in> set (rs_interests st). length (it_vector it) = d)
    \<and> (\<forall>b \<in> set (rs_bridges st). length (fst b) = d) \<and> counts_ok (rs_feeds st)
    \<and> length (rs_history st) \<le> 500"
proof -
  let ?rows = "take HISTORY_LIMIT
      (sort_desc (\<lambda>r. ix_updated_at (fst r)) (filter (\<lambda>r. ix_user_id (fst r) = user) rows))"
  let ?own = "filter (\<lambda>s. sr_user_id s = user) (gd_sources db)"
  define keys where "keys = ensure_sources (gd_sources db) (map (\<lambda>r. ci_source_id (snd r)) ?rows)
      (key_sources ?own Map.empty)"
  define hist where "hist = map (history_of same keys) ?rows"
  define nodes where "nodes = node_vectors same
      (filter (\<lambda>n. in_user_id n = user \<and> \<not> some_and (in_suppressed_until n) (\<lambda>t. now < t)) (gd_nodes db))"
  have nw: "length v = d \<and> 0 < w" if "(i, v, w, l) \<in> set nodes" for i v w l
  proof -
    have "list_all (\<lambda>n. in_topic_embedding n = None \<or> length (or_default (in_topic_embedding n) []) = d)
        (filter (\<lambda>n. in_user_id n = user \<and> \<not> some_and (in_suppressed_until n) (\<lambda>t. now < t)) (gd_nodes db))"
      using assms by (auto simp: widths_ok_def list_all_iff)
    from node_vectors_width [OF this that [unfolded nodes_def]] show ?thesis by simp
  qed
  have hw: "length v = d" if hr: "r \<in> set hist" "hr_vector r = Some v" for r v
  proof -
    from hr(1) obtain ix c where r: "r = history_of same keys (ix, c)" and "(ix, c) \<in> set ?rows"
      unfolding hist_def by auto
    then have "(ix, c) \<in> set rows" using in_set_takeD by fastforce
    moreover have "unit_vec (ci_embedding c) = Some v"
      using hr(2) by (simp add: r history_of_def split: if_splits)
    ultimately show ?thesis using assms unit_vec_length by (fastforce simp: widths_ok_def list_all_iff)
  qed
  obtain its where its: "build_interests (interest_candidates nodes hist) = Inr its"
      "\<forall>it \<in> set its. length (it_vector it) = d"
    using build_interests_returns [of "interest_candidates nodes hist" d] interest_candidates_ok [of nodes d hist] nw hw
    by blast
  obtain bs where bs: "load_bridges nodes (filter (\<lambda>e. ie_user_id e = user) (gd_edges db)) = Inr bs"
      "\<forall>b \<in> set bs. length (fst b) = d"
    using load_bridges_ok [of nodes d] nw by blast
  have len: "length hist \<le> 500" by (simp add: hist_def HISTORY_LIMIT_def)
  show ?thesis
    using its(2) bs(2) len loaded_counts [of ?own hist]
    unfolding load_state_def Let_def
    by (simp add: its(1) bs(1) flip: keys_def hist_def nodes_def)
qed

lemma load_state_returns:
  assumes "widths_ok d db rows"
  shows "\<exists>st. load_state same target now user stored rows db = Inr st
    \<and> (\<forall>table candidates. \<exists>out. rank same table st candidates = Inr out)"
proof -
  obtain st where st: "load_state same target now user stored rows db = Inr st"
    and w: "\<forall>it \<in> set (rs_interests st). length (it_vector it) = d"
      "\<forall>b \<in> set (rs_bridges st). length (fst b) = d" "counts_ok (rs_feeds st)"
    using load_state_ok [OF assms] by blast
  have s: "stackable (map it_vector (rs_interests st))" "stackable (map fst (rs_bridges st))"
    using w by (intro stackable_width [of _ d], auto)+
  have "\<exists>out. rank same table st candidates = Inr out" for table candidates
  proof -
    let ?st = "st\<lparr>rs_source_feed_key := ensure_sources table (map ci_source_id candidates) (rs_source_feed_key st)\<rparr>"
    have "\<exists>out. score_candidates same ?st candidates = Inr out"
      using s w(3) by (intro score_candidates_returns) (auto simp: counts_ok_def)
    then show ?thesis by (auto simp: rank_def rank_candidates_def)
  qed
  with st show ?thesis by blast
qed

text \<open>When the stored vectors have one width (that of the column), the state of a reader loads
  without an error, and from it every list of candidates can be ranked.\<close>

theorem loaded_state_ranks:
  assumes "widths_ok d db rows"
  shows "\<exists>st. load_state same target now user stored rows db = Inr st
    \<and> (\<forall>table candidates. \<exists>out. rank same table st candidates = Inr out)"
  using assms by (rule load_state_returns)

definition example_rows :: "(interaction \<times> content_item) list" where
  "example_rows = [((new_interaction 1 7 50)\<lparr>ix_explicit_rating := Some 1, ix_opened_at := Some 60\<rparr>,
     (blank_item 7)\<lparr>ci_embedding := Some [3, 4], ci_source_id := Some 5\<rparr>)]"

theorem loaded_state_ranks_witness:
  "\<exists>st. load_state (\<lambda>_ _. True) 0.35 100 1 (\<lambda>_. Some 1) example_rows empty_graph = Inr st
    \<and> (\<forall>table candidates. \<exists>out. rank (\<lambda>_ _. True) table st candidates = Inr out)"
  by (rule loaded_state_ranks [of 2]) (simp add: widths_ok_def example_rows_def empty_graph_def)

text \<open>The outcomes a feed has collected are outcomes of the reader's history.\<close>

definition outcome_count :: "history_row list \<Rightarrow> (history_row \<Rightarrow> bool) \<Rightarrow> string \<Rightarrow> real" where
  "outcome_count hist P k = real (length (filter (\<lambda>r. hr_feed_key r = Some k \<and> P r) hist))"

lemma record_outcome_one:
  assumes "hr_feed_key r = Some k" "feeds k = Some feed"
  shows "\<exists>f. record_outcome feeds r k = Some f
    \<and> fs_successes f = fs_successes feed + (if is_success r then 1 else 0)
    \<and> fs_failures f = fs_failures feed + (if is_failure r \<and> \<not> is_success r then 1 else 0)"
  using assms by (cases "is_success r"; cases "is_failure r") (simp_all add: record_outcome_def Let_def)

lemma outcomes_counted_from:
  assumes "feeds k = Some feed"
  shows "\<exists>f. foldl record_outcome feeds hist k = Some f
    \<and> fs_successes f = fs_successes feed + outcome_count hist is_success k
    \<and> fs_failures f = fs_failures feed + outcome_count hist (\<lambda>r. is_failure r \<and> \<not> is_success r) k"
  using assms
proof (induction hist arbitrary: feeds feed)
  case (Cons r hist)
  show ?case
  proof (cases "hr_feed_key r = Some k")
    case False
    then have "record_outcome feeds r k = Some feed"
      using Cons.prems by (auto simp: record_outcome_def Let_def split: option.split)
    from Cons.IH [of "record_outcome feeds r", OF this] False show ?thesis by (simp add: outcome_count_def)
  next
    case True
    then obtain f where "record_outcome feeds r k = Some f"
        "fs_successes f = fs_successes feed + (if is_success r then 1 else 0)"
        "fs_failures f = fs_failures feed + (if is_failure r \<and> \<not> is_success r then 1 else 0)"
      using record_outcome_one [where r = r and feeds = feeds and k = k and feed = feed] Cons.prems by blast
    with Cons.IH [of "record_outcome feeds r", OF this(1)] True show ?thesis
      by (auto simp: outcome_count_def)
  qed
qed (simp add: outcome_count_def)

lemma record_outcome_dom: "record_outcome feeds r k = None \<longleftrightarrow> feeds k = None"
  by (auto simp: record_outcome_def Let_def split: option.split)

lemma record_outcomes_dom: "foldl record_outcome feeds hist k = None \<longleftrightarrow> feeds k = None"
  by (induction hist arbitrary: feeds) (simp_all add: record_outcome_dom)

lemma load_state_feeds:
  assumes "load_state same target now user stored rows db = Inr st"
  shows "\<exists>own. rs_feeds st = foldl record_outcome (load_feeds own) (rs_history st)"
  using assms by (fastforce simp: load_state_def Let_def map_sum_Inr split: sum.splits)

text \<open>After loading, the successes and failures of a feed the reader follows are exactly the
  finished or liked and the abandoned or disliked items of that feed in the history; an item that
  counts as both counts as a success only.\<close>

theorem load_state_counts_outcomes:
  assumes "load_state same target now user stored rows db = Inr st" "rs_feeds st k = Some feed"
  shows "fs_successes feed = outcome_count (rs_history st) is_success k
    \<and> fs_failures feed = outcome_count (rs_history st) (\<lambda>r. is_failure r \<and> \<not> is_success r) k"
proof -
  obtain own where feeds: "rs_feeds st = foldl record_outcome (load_feeds own) (rs_history st)"
    using load_state_feeds [OF assms(1)] by blast
  then obtain f where f: "load_feeds own k = Some f"
    using assms(2) record_outcomes_dom [of "load_feeds own" "rs_history st" k] by (cases "load_feeds own k") auto
  with outcomes_counted_from [where feeds = "load_feeds own" and k = k and feed = f and hist = "rs_history st"] feeds assms(2) load_feeds_fresh [of own]
  show ?thesis by (auto simp: counts_zero_def)
qed

definition example_graph :: graph_db where
  "example_graph = empty_graph\<lparr>gd_sources := [\<lparr>sr_id = 5, sr_user_id = 1, sr_feed_id = None,
     sr_url = ''https://a.example'', sr_feed_url = None, sr_name = None, sr_trust_weight = 0.5, sr_created_at = 0,
     sr_is_active = True\<rparr>]\<rparr>"

theorem load_state_counts_outcomes_witness:
  "\<exists>st feed. load_state (\<lambda>_ _. True) 0.35 100 1 (\<lambda>_. Some 1) example_rows example_graph = Inr st
    \<and> rs_feeds st ''https://a.example'' = Some feed \<and> fs_successes feed = 1 \<and> fs_failures feed = 0"
proof -
  have w: "widths_ok 2 example_graph example_rows"
    by (simp add: widths_ok_def example_rows_def example_graph_def empty_graph_def)
  obtain st where st: "load_state (\<lambda>_ _. True) 0.35 100 1 (\<lambda>_. Some 1) example_rows example_graph = Inr st"
    using load_state_ok [OF w] by blast
  have hist: "rs_history st = map (history_of (\<lambda>_ _. True) [5 \<mapsto> ''https://a.example'']) example_rows"
    and feeds: "rs_feeds st = foldl record_outcome (load_feeds (gd_sources example_graph)) (rs_history st)"
    using st by (auto simp: load_state_def Let_def map_sum_Inr example_rows_def example_graph_def empty_graph_def
        sort_desc_def HISTORY_LIMIT_def key_sources_def ensure_sources_def py_feed_key_def falsy_string_def
        new_interaction_def split: sum.splits)
  have "load_feeds (gd_sources example_graph) ''https://a.example'' \<noteq> None"
    by (simp add: load_feeds_def example_graph_def py_feed_key_def falsy_string_def)
  then obtain feed where feed: "rs_feeds st ''https://a.example'' = Some feed"
    unfolding feeds using record_outcomes_dom by fastforce
  from load_state_counts_outcomes [OF st feed] st feed show ?thesis
    by (simp add: hist outcome_count_def example_rows_def history_of_def is_success_def is_failure_def new_interaction_def)
qed

end
