(* ===== verification/Diversity.thy ===== *)
theory Diversity
  imports Content Urls
begin

text \<open>
  The diversity re-rank and its helpers, \<open>services/ranking/interests.py\<close>: cosine, NDCG, MMR with a
  topic cap and a novelty share, outbound links; and \<open>diversify_ranked\<close> of
  \<open>services/digest/builder.py\<close>, which applies it to scored rows.
\<close>

subsection \<open>Cosine and NDCG\<close>

definition cosine :: "vec \<Rightarrow> vec \<Rightarrow> real" where
  "cosine left right =
     (let denom = vnorm left * vnorm right
      in if denom \<le> 1 / 10 ^ 8 then 0 else vdot left right / denom)"

fun dcg_from :: "nat \<Rightarrow> real list \<Rightarrow> real" where
  "dcg_from i [] = 0"
| "dcg_from i (x # xs) = x / log 2 (real i + 2) + dcg_from (i + 1) xs"

definition ndcg_at_k :: "real list \<Rightarrow> nat \<Rightarrow> real" where
  "ndcg_at_k relevances k =
     (let chosen = take k relevances
      in if chosen = [] then 0
         else
           let ideal_dcg = dcg_from 0 (take k (sort_desc (\<lambda>x. x) relevances))
           in if ideal_dcg \<le> 0 then 0 else dcg_from 0 chosen / ideal_dcg)"

text \<open>NDCG never exceeds one: moving a larger value to the front never lowers the sum. The weight
  of a rank beyond \<open>k\<close> is zero.\<close>

fun weighted_from :: "(nat \<Rightarrow> real) \<Rightarrow> nat \<Rightarrow> real list \<Rightarrow> real" where
  "weighted_from w i [] = 0"
| "weighted_from w i (x # xs) = w i * x + weighted_from w (i + 1) xs"

lemma weighted_insort:
  assumes "\<And>i j. i \<le> j \<Longrightarrow> w j \<le> w i"
  shows "weighted_from w i (x # xs) \<le> weighted_from w i (insort_key (\<lambda>x. - x) x xs)"
proof (induction xs arbitrary: i)
  case (Cons y ys)
  show ?case
  proof (cases "y \<le> x")
    case True
    then show ?thesis by simp
  next
    case False
    have "0 \<le> (w i - w (i + 1)) * (y - x)" using assms [of i "i + 1"] False by simp
    then have "weighted_from w i (x # y # ys) \<le> w i * y + weighted_from w (i + 1) (x # ys)"
      by (simp add: algebra_simps)
    also have "\<dots> \<le> weighted_from w i (insort_key (\<lambda>x. - x) x (y # ys))"
      using Cons.IH [of "i + 1"] False by simp
    finally show ?thesis .
  qed
qed simp

lemma weighted_sort:
  assumes "\<And>i j. i \<le> j \<Longrightarrow> w j \<le> w i"
  shows "weighted_from w i xs \<le> weighted_from w i (sort_desc (\<lambda>x. x) xs)"
proof (induction xs arbitrary: i)
  case (Cons x xs)
  have "weighted_from w i (x # xs) \<le> weighted_from w i (x # sort_desc (\<lambda>x. x) xs)"
    using Cons.IH [of "i + 1"] by simp
  also have "\<dots> \<le> weighted_from w i (sort_desc (\<lambda>x. x) (x # xs))"
    using weighted_insort [of w i x "sort_desc (\<lambda>x. x) xs", OF assms] by (simp add: sort_desc_def)
  finally show ?case .
qed (simp add: sort_desc_def)

definition rank_weight :: "nat \<Rightarrow> nat \<Rightarrow> real" where
  "rank_weight k i = (if i < k then 1 / log 2 (real i + 2) else 0)"

lemma log_rank_pos: "0 < log 2 (real i + 2)"
  by simp

lemma rank_weight_antimono: "i \<le> j \<Longrightarrow> rank_weight k j \<le> rank_weight k i"
  by (auto simp: rank_weight_def intro!: divide_left_mono mult_pos_pos)

lemma dcg_take: "dcg_from i (take (k - i) xs) = weighted_from (rank_weight k) i xs"
proof (induction xs arbitrary: i)
  case (Cons x xs)
  show ?case
  proof (cases "i < k")
    case True
    then have "k - i = Suc (k - (i + 1))" by simp
    then show ?thesis using Cons.IH [of "i + 1"] True by (simp add: rank_weight_def)
  next
    case False
    then show ?thesis using Cons.IH [of "i + 1"] by (simp add: rank_weight_def)
  qed
qed simp

lemma weighted_nonneg:
  "(\<And>x. x \<in> set xs \<Longrightarrow> 0 \<le> x) \<Longrightarrow> (\<And>i. 0 \<le> w i) \<Longrightarrow> 0 \<le> weighted_from w i xs"
  by (induction xs arbitrary: i) auto

text \<open>NDCG is at most one for any relevances, negative ones included, and at least zero for
  non-negative ones; a ranking already in the ideal order has NDCG one or zero.\<close>

theorem ndcg_bounds:
  "ndcg_at_k xs k \<le> 1 \<and> (list_all (\<lambda>x. 0 \<le> x) xs \<longrightarrow> 0 \<le> ndcg_at_k xs k)
    \<and> ndcg_at_k (sort_desc (\<lambda>x. x) xs) k \<in> {0, 1}"
proof -
  have dcg: "dcg_from 0 (take k ys) = weighted_from (rank_weight k) 0 ys" for ys
    using dcg_take [of 0 k ys] by simp
  have "weighted_from (rank_weight k) 0 xs \<le> weighted_from (rank_weight k) 0 (sort_desc (\<lambda>x. x) xs)"
    by (rule weighted_sort) (rule rank_weight_antimono)
  moreover have "0 \<le> weighted_from (rank_weight k) 0 xs" if "list_all (\<lambda>x. 0 \<le> x) xs"
    using that by (intro weighted_nonneg) (auto simp: rank_weight_def list_all_iff)
  moreover have "sort_desc (\<lambda>x. x) (sort_desc (\<lambda>x. x) xs) = sort_desc (\<lambda>x. x) xs"
    by (simp add: sort_desc_def sort_key_id_if_sorted)
  moreover have "sort_desc (\<lambda>x. x) [] = ([] :: real list)" by (simp add: sort_desc_def)
  ultimately show ?thesis by (cases "xs = []") (simp_all add: ndcg_at_k_def Let_def dcg)
qed

theorem ndcg_bounds_witness:
  "ndcg_at_k [0, 1] 1 \<le> 1 \<and> 0 \<le> ndcg_at_k [0, 1] 1"
  using ndcg_bounds [of "[0, 1]" 1] by simp

subsection \<open>Diversify\<close>

text \<open>The parallel lists \<open>scores\<close>, \<open>vectors\<close> and \<open>clusters\<close>; a cluster that is \<open>None\<close> or empty is
  the empty string.\<close>

record pool =
  pl_scores :: "real list"
  pl_vectors :: "vec option list"
  pl_clusters :: "string option list"

definition cluster_of :: "pool \<Rightarrow> nat \<Rightarrow> string" where
  "cluster_of p i = or_default (pl_clusters p ! i) []"

text \<open>\<open>used\<close> is a Counter.\<close>

record picks =
  pk_chosen :: "nat list"
  pk_used :: "string \<Rightarrow> int"

definition too_close :: "pool \<Rightarrow> real \<Rightarrow> nat list \<Rightarrow> nat \<Rightarrow> bool" where
  "too_close p near_dup chosen index =
     (case pl_vectors p ! index of
        None \<Rightarrow> False
      | Some v \<Rightarrow> list_ex (\<lambda>picked. some_and (pl_vectors p ! picked) (\<lambda>other. near_dup \<le> cosine v other)) chosen)"

definition redundancy :: "pool \<Rightarrow> nat list \<Rightarrow> nat \<Rightarrow> real" where
  "redundancy p chosen index =
     (case pl_vectors p ! index of
        None \<Rightarrow> 0
      | Some v \<Rightarrow>
          let present = List.map_filter (\<lambda>picked. pl_vectors p ! picked) chosen
          in if present = [] then 0 else Max (set (map (cosine v) present)))"

definition blocked :: "pool \<Rightarrow> int \<Rightarrow> real \<Rightarrow> picks \<Rightarrow> nat \<Rightarrow> bool" where
  "blocked p cap near_dup s index \<longleftrightarrow>
     (cluster_of p index \<noteq> [] \<and> cap \<le> pk_used s (cluster_of p index))
     \<or> too_close p near_dup (pk_chosen s) index"

definition mmr_value :: "pool \<Rightarrow> real \<Rightarrow> nat list \<Rightarrow> nat \<Rightarrow> real" where
  "mmr_value p lam chosen index =
     lam * pl_scores p ! index - (1 - lam) * max (redundancy p chosen index) 0"

text \<open>One pass over \<open>order\<close>: the first index with the largest value.\<close>

fun best_pick :: "pool \<Rightarrow> real \<Rightarrow> int \<Rightarrow> real \<Rightarrow> picks \<Rightarrow> (nat \<times> real) option \<Rightarrow> nat list \<Rightarrow> (nat \<times> real) option" where
  "best_pick p lam cap near_dup s best [] = best"
| "best_pick p lam cap near_dup s best (index # order) =
     (if blocked p cap near_dup s index then best_pick p lam cap near_dup s best order
      else
        let v = mmr_value p lam (pk_chosen s) index
        in best_pick p lam cap near_dup s
             (case best of None \<Rightarrow> Some (index, v)
              | Some (i, b) \<Rightarrow> if b < v then Some (index, v) else Some (i, b)) order)"

definition count_cluster :: "pool \<Rightarrow> nat \<Rightarrow> int \<Rightarrow> (string \<Rightarrow> int) \<Rightarrow> string \<Rightarrow> int" where
  "count_cluster p index n used =
     (if cluster_of p index = [] then used else used(cluster_of p index := used (cluster_of p index) + n))"

definition take_pick :: "pool \<Rightarrow> nat \<Rightarrow> picks \<Rightarrow> picks" where
  "take_pick p index s =
     s\<lparr>pk_chosen := pk_chosen s @ [index], pk_used := count_cluster p index 1 (pk_used s)\<rparr>"

lemma best_pick_mem:
  "best_pick p lam cap nd s best order = Some (i, v) \<Longrightarrow>
     best = Some (i, v) \<or> (i \<in> set order \<and> \<not> blocked p cap nd s i)"
  by (induction order arbitrary: best) (auto simp: Let_def split: if_splits option.splits prod.splits)

function mmr_loop :: "pool \<Rightarrow> real \<Rightarrow> int \<Rightarrow> real \<Rightarrow> nat list \<Rightarrow> picks \<Rightarrow> nat list \<times> picks" where
  "mmr_loop p lam cap near_dup order s =
     (if order = [] \<or> length (pl_scores p) \<le> length (pk_chosen s) then (order, s)
      else case best_pick p lam cap near_dup s None order of
             None \<Rightarrow> (order, s)
           | Some (i, _) \<Rightarrow> mmr_loop p lam cap near_dup (remove1 i order) (take_pick p i s))"
  by pat_completeness auto
termination
  by (relation "measure (\<lambda>(p, lam, cap, nd, order, s). length order)")
    (auto simp: length_remove1 dest!: best_pick_mem)

declare mmr_loop.simps [simp del]

text \<open>The novelty swap-ins: distinct slots from the end.\<close>

record swaps =
  sw_picks :: picks
  sw_novel :: int
  sw_slots :: "nat list"

fun novelty_loop :: "pool \<Rightarrow> int \<Rightarrow> real \<Rightarrow> int \<Rightarrow> nat list \<Rightarrow> swaps \<Rightarrow> swaps" where
  "novelty_loop p cap near_dup target [] s = s"
| "novelty_loop p cap near_dup target (index # tail) s =
     (case sw_slots s of
        [] \<Rightarrow> s
      | pos # slots \<Rightarrow>
          if target \<le> sw_novel s then s
          else if blocked p cap near_dup (sw_picks s) index then novelty_loop p cap near_dup target tail s
          else
            let previous = pk_chosen (sw_picks s) ! pos;
                used = count_cluster p previous (- 1) (pk_used (sw_picks s))
            in novelty_loop p cap near_dup target tail
                 \<lparr>sw_picks = \<lparr>pk_chosen = (pk_chosen (sw_picks s))[pos := index],
                              pk_used = count_cluster p index 1 used\<rparr>,
                  sw_novel = sw_novel s + 1, sw_slots = slots\<rparr>)"

definition add_novelty :: "pool \<Rightarrow> int \<Rightarrow> real \<Rightarrow> int \<Rightarrow> picks \<Rightarrow> picks" where
  "add_novelty p cap near_dup target s =
     (let chosen = pk_chosen s;
          novelty_used = int (length (filter (\<lambda>i. pl_scores p ! i < 0.45) chosen));
          tail = filter (\<lambda>i. i \<notin> set chosen \<and> pl_scores p ! i < 0.45) [0..<length (pl_scores p)];
          slots = filter (\<lambda>pos. 0.45 \<le> pl_scores p ! (chosen ! pos)) (rev [0..<length chosen])
      in if novelty_used < target
         then sw_picks (novelty_loop p cap near_dup target tail
                \<lparr>sw_picks = s, sw_novel = novelty_used, sw_slots = slots\<rparr>)
         else s)"

definition cap_of :: "nat \<Rightarrow> real \<Rightarrow> int" where
  "cap_of n cluster_cap = max 1 \<lfloor>real n * cluster_cap\<rfloor>"

definition diversify_picks :: "pool \<Rightarrow> real \<Rightarrow> real \<Rightarrow> real \<Rightarrow> real \<Rightarrow> picks" where
  "diversify_picks p lam cluster_cap novelty_share near_dup =
     (let n = length (pl_scores p);
          order = sort_desc (\<lambda>i. pl_scores p ! i) [0..<n];
          cap = cap_of n cluster_cap;
          target = max 0 (py_round (real n * novelty_share));
          (_, s) = mmr_loop p lam cap near_dup order \<lparr>pk_chosen = [], pk_used = (\<lambda>_. 0)\<rparr>
      in add_novelty p cap near_dup target s)"

definition diversify ::
  "'a list \<Rightarrow> real list \<Rightarrow> vec option list \<Rightarrow> string option list \<Rightarrow> real \<Rightarrow> real \<Rightarrow> real \<Rightarrow> real \<Rightarrow> 'a list" where
  "diversify items scores vectors clusters lam cluster_cap novelty_share near_dup =
     map (\<lambda>i. items ! i)
       (pk_chosen (diversify_picks \<lparr>pl_scores = scores, pl_vectors = vectors, pl_clusters = clusters\<rparr>
          lam cluster_cap novelty_share near_dup))"

text \<open>\<open>diversify_ranked\<close> of the digest builder.\<close>

definition rank_pool :: "row list \<Rightarrow> pool" where
  "rank_pool ranked =
     \<lparr>pl_scores = map (\<lambda>(_, prs, _). prs) ranked,
      pl_vectors = map (\<lambda>(item, _, _). case ci_embedding item of None \<Rightarrow> None
         | Some v \<Rightarrow> if 1 / 10 ^ 8 < vnorm v then Some v else None) ranked,
      pl_clusters = map (\<lambda>(item, _, _). case ci_topic_clusters item of [] \<Rightarrow> None | t # _ \<Rightarrow> Some t) ranked\<rparr>"

definition diversify_ranked :: "row list \<Rightarrow> row list" where
  "diversify_ranked ranked =
     (if length ranked < 3 then ranked
      else let p = rank_pool ranked
           in diversify ranked (pl_scores p) (pl_vectors p) (pl_clusters p) 0.7 0.3 0 0.92)"

subsection \<open>What the re-rank keeps\<close>

lemma cosine_commute: "cosine u v = cosine v u"
  by (simp add: cosine_def Let_def vdot_commute mult.commute)

definition far :: "pool \<Rightarrow> real \<Rightarrow> nat \<Rightarrow> nat \<Rightarrow> bool" where
  "far p near_dup i j \<longleftrightarrow> (case (pl_vectors p ! i, pl_vectors p ! j) of
     (Some u, Some v) \<Rightarrow> cosine u v < near_dup | _ \<Rightarrow> True)"

lemma far_commute: "far p nd i j = far p nd j i"
  by (auto simp: far_def cosine_commute split: option.split)

lemma too_close_iff: "too_close p nd chosen i \<longleftrightarrow> (\<exists>j \<in> set chosen. \<not> far p nd i j)"
  by (auto simp: too_close_def far_def list_ex_iff some_and_def not_less split: option.splits)

definition in_cluster :: "pool \<Rightarrow> nat list \<Rightarrow> string \<Rightarrow> int" where
  "in_cluster p chosen c = int (count_list (map (cluster_of p) chosen) c)"

definition picks_ok :: "pool \<Rightarrow> int \<Rightarrow> real \<Rightarrow> picks \<Rightarrow> bool" where
  "picks_ok p cap nd s \<longleftrightarrow> distinct (pk_chosen s) \<and> set (pk_chosen s) \<subseteq> {..<length (pl_scores p)}
     \<and> (\<forall>c. c \<noteq> [] \<longrightarrow> pk_used s c = in_cluster p (pk_chosen s) c \<and> in_cluster p (pk_chosen s) c \<le> cap)
     \<and> (\<forall>i \<in> set (pk_chosen s). \<forall>j \<in> set (pk_chosen s). i \<noteq> j \<longrightarrow> far p nd i j)"

lemma in_cluster_snoc:
  "in_cluster p (chosen @ [i]) c = in_cluster p chosen c + (if cluster_of p i = c then 1 else 0)"
  by (simp add: in_cluster_def)

lemma count_list_update:
  assumes "i < length xs"
  shows "int (count_list (xs[i := y]) c)
    = int (count_list xs c) - (if xs ! i = c then 1 else 0) + (if y = c then 1 else 0)"
proof -
  have "xs = take i xs @ xs ! i # drop (Suc i) xs" using assms by (rule id_take_nth_drop)
  then have "int (count_list xs c) = int (count_list (take i xs) c)
      + ((if xs ! i = c then 1 else 0) + int (count_list (drop (Suc i) xs) c))"
    using count_list_append [of "take i xs" "xs ! i # drop (Suc i) xs" c] by simp
  moreover have "xs[i := y] = take i xs @ y # drop (Suc i) xs" using assms by (rule upd_conv_take_nth_drop)
  ultimately show ?thesis by simp
qed

lemma in_cluster_update:
  "pos < length chosen \<Longrightarrow> in_cluster p (chosen[pos := i]) c
    = in_cluster p chosen c - (if cluster_of p (chosen ! pos) = c then 1 else 0)
      + (if cluster_of p i = c then 1 else 0)"
  by (simp add: in_cluster_def map_update count_list_update)

lemma count_cluster_apply:
  "c \<noteq> [] \<Longrightarrow> count_cluster p i n used c = used c + (if cluster_of p i = c then n else 0)"
  by (simp add: count_cluster_def)

lemma far_insert:
  assumes "picks_ok p cap nd s" "\<not> blocked p cap nd s i"
    "a \<in> insert i (set (pk_chosen s))" "b \<in> insert i (set (pk_chosen s))" "a \<noteq> b"
  shows "far p nd a b"
proof -
  have i: "far p nd i j" "far p nd j i" if "j \<in> set (pk_chosen s)" for j
    using assms(2) that far_commute [of p nd i j] by (auto simp: blocked_def too_close_iff)
  have "far p nd j k" if "j \<in> set (pk_chosen s)" "k \<in> set (pk_chosen s)" "j \<noteq> k" for j k
    using assms(1) that by (simp add: picks_ok_def)
  with i assms(3-5) show ?thesis by (metis insertE)
qed

lemma take_pick_ok:
  assumes "picks_ok p cap nd s" "\<not> blocked p cap nd s i" "i < length (pl_scores p)" "i \<notin> set (pk_chosen s)"
  shows "picks_ok p cap nd (take_pick p i s)"
proof -
  have "far p nd a b" if "a \<in> insert i (set (pk_chosen s))" "b \<in> insert i (set (pk_chosen s))" "a \<noteq> b" for a b
    using far_insert [OF assms(1,2)] that by blast
  moreover have "in_cluster p (pk_chosen s @ [i]) c \<le> cap" if "c \<noteq> []" for c
    using that assms(1,2) by (auto simp: in_cluster_snoc picks_ok_def blocked_def)
  ultimately show ?thesis using assms
    by (simp add: picks_ok_def take_pick_def in_cluster_snoc count_cluster_apply)
qed

lemma best_pick_None:
  "best_pick p lam cap nd s best order = None \<longleftrightarrow> best = None \<and> list_all (blocked p cap nd s) order"
  by (induction order arbitrary: best) (auto simp: Let_def split: option.split)

text \<open>What the loop leaves behind is blocked; what it chose comes from the order.\<close>

lemma mmr_loop_ok:
  assumes "picks_ok p cap nd s" "distinct order" "set order \<subseteq> {..<length (pl_scores p)}"
    "set order \<inter> set (pk_chosen s) = {}" "mmr_loop p lam cap nd order s = (rest, t)"
  shows "picks_ok p cap nd t \<and> set (pk_chosen t) \<union> set rest = set (pk_chosen s) \<union> set order
    \<and> list_all (blocked p cap nd t) rest"
  using assms
proof (induction p lam cap nd order s rule: mmr_loop.induct)
  case (1 p lam cap nd order s)
  have full: "order = []" if "length (pl_scores p) \<le> length (pk_chosen s)"
  proof -
    have "card (set (pk_chosen s)) = length (pk_chosen s)"
      using 1(2) distinct_card by (auto simp: picks_ok_def)
    then have "set (pk_chosen s) = {..<length (pl_scores p)}"
      using 1(2) that by (intro card_subset_eq) (auto simp: picks_ok_def dest: card_mono [rotated])
    then show ?thesis using 1(4,5) by (cases order) auto
  qed
  show ?case
  proof (cases "best_pick p lam cap nd s None order")
    case None
    then have "(rest, t) = (order, s)" using 1(6) by (simp add: mmr_loop.simps split: if_splits)
    moreover have "list_all (blocked p cap nd s) order" using None by (simp add: best_pick_None)
    ultimately show ?thesis using 1(2) by auto
  next
    case (Some iv)
    obtain i v where iv: "iv = (i, v)" by (cases iv)
    with Some have i: "i \<in> set order" "\<not> blocked p cap nd s i" by (auto dest: best_pick_mem)
    then have ne: "order \<noteq> []" by auto
    then have guard: "\<not> (order = [] \<or> length (pl_scores p) \<le> length (pk_chosen s))" using full by auto
    have loop: "mmr_loop p lam cap nd (remove1 i order) (take_pick p i s) = (rest, t)"
      using 1(6) guard Some iv by (simp add: mmr_loop.simps)
    have "picks_ok p cap nd (take_pick p i s)" using 1(2,4,5) i by (intro take_pick_ok) auto
    from 1(1) [OF guard Some iv [symmetric] this _ _ _ loop] 1(3,4,5) i
    have "picks_ok p cap nd t \<and> set (pk_chosen t) \<union> set rest = set (pk_chosen (take_pick p i s)) \<union> set (remove1 i order)
        \<and> list_all (blocked p cap nd t) rest"
      by (auto simp: take_pick_def)
    then show ?thesis using i(1) 1(3) by (auto simp: take_pick_def)
  qed
qed

lemma novelty_swap_ok:
  assumes ok: "picks_ok p cap nd s" and "\<not> blocked p cap nd s i" "i < length (pl_scores p)"
    "i \<notin> set (pk_chosen s)" and pos: "pos < length (pk_chosen s)"
  shows "picks_ok p cap nd \<lparr>pk_chosen = (pk_chosen s)[pos := i],
    pk_used = count_cluster p i 1 (count_cluster p (pk_chosen s ! pos) (- 1) (pk_used s))\<rparr>"
proof -
  have sub: "set ((pk_chosen s)[pos := i]) \<subseteq> insert i (set (pk_chosen s))" by (rule set_update_subset_insert)
  have far: "far p nd a b" if "a \<in> set ((pk_chosen s)[pos := i])" "b \<in> set ((pk_chosen s)[pos := i])" "a \<noteq> b" for a b
    using far_insert [OF ok assms(2)] that sub by blast
  have "in_cluster p ((pk_chosen s)[pos := i]) c \<le> cap" if "c \<noteq> []" for c
    using that assms(1,2) by (auto simp: in_cluster_update [OF pos] picks_ok_def blocked_def)
  moreover have "distinct ((pk_chosen s)[pos := i])"
    using assms by (intro distinct_list_update) (auto simp: picks_ok_def)
  moreover have "set ((pk_chosen s)[pos := i]) \<subseteq> {..<length (pl_scores p)}"
    using sub assms(1,3) by (auto simp: picks_ok_def)
  ultimately show ?thesis
    using ok far by (auto simp: picks_ok_def count_cluster_apply in_cluster_update [OF pos])
qed

lemma novelty_loop_ok:
  assumes "picks_ok p cap nd (sw_picks s)" "distinct tail" "set tail \<subseteq> {..<length (pl_scores p)}"
    "set tail \<inter> set (pk_chosen (sw_picks s)) = {}" "set (sw_slots s) \<subseteq> {..<length (pk_chosen (sw_picks s))}"
  shows "picks_ok p cap nd (sw_picks (novelty_loop p cap nd target tail s))"
  using assms
proof (induction p cap nd target tail s rule: novelty_loop.induct)
  case (2 p cap nd target i tail s)
  show ?case
  proof (cases "sw_slots s")
    case (Cons pos slots)
    let ?s = "sw_picks s"
    let ?t = "\<lparr>pk_chosen = (pk_chosen ?s)[pos := i],
      pk_used = count_cluster p i 1 (count_cluster p (pk_chosen ?s ! pos) (- 1) (pk_used ?s))\<rparr>"
    have swap: "picks_ok p cap nd ?t" if "\<not> blocked p cap nd ?s i"
      using 2(3,5,6,7) that Cons by (intro novelty_swap_ok) auto
    have sub: "set (pk_chosen ?t) \<subseteq> insert i (set (pk_chosen ?s))" by (simp add: set_update_subset_insert)
    have *: "set tail \<inter> set (pk_chosen ?t) = {}" using sub 2(4,6) by auto
    have **: "set slots \<subseteq> {..<length (pk_chosen ?t)}" using 2(7) Cons by auto
    show ?thesis
      using 2 Cons swap * ** by (auto simp: Let_def)
  qed (use 2 in simp)
qed simp

lemma add_novelty_ok:
  assumes "picks_ok p cap nd s"
  shows "picks_ok p cap nd (add_novelty p cap nd target s)"
  using assms unfolding add_novelty_def Let_def
  by (auto intro!: novelty_loop_ok)

lemma diversify_loop:
  assumes "mmr_loop p lam (cap_of (length (pl_scores p)) cc) nd
      (sort_desc (\<lambda>i. pl_scores p ! i) [0..<length (pl_scores p)]) \<lparr>pk_chosen = [], pk_used = (\<lambda>_. 0)\<rparr> = (rest, s)"
  shows "picks_ok p (cap_of (length (pl_scores p)) cc) nd s
    \<and> set (pk_chosen s) \<union> set rest = {..<length (pl_scores p)}
    \<and> list_all (blocked p (cap_of (length (pl_scores p)) cc) nd s) rest"
proof -
  have "picks_ok p (cap_of (length (pl_scores p)) cc) nd \<lparr>pk_chosen = [], pk_used = (\<lambda>_. 0)\<rparr>"
    by (simp add: picks_ok_def in_cluster_def cap_of_def le_max_iff_disj)
  from mmr_loop_ok [OF this _ _ _ assms] show ?thesis by (simp add: lessThan_atLeast0)
qed

lemma diversify_picks_ok:
  "picks_ok p (cap_of (length (pl_scores p)) cluster_cap) near_dup
     (diversify_picks p lam cluster_cap novelty_share near_dup)"
proof -
  obtain rest s where l: "mmr_loop p lam (cap_of (length (pl_scores p)) cluster_cap) near_dup
      (sort_desc (\<lambda>i. pl_scores p ! i) [0..<length (pl_scores p)]) \<lparr>pk_chosen = [], pk_used = (\<lambda>_. 0)\<rparr> = (rest, s)"
    by (rule prod.exhaust)
  then show ?thesis
    using diversify_loop [OF l] by (simp add: diversify_picks_def Let_def add_novelty_ok)
qed

text \<open>C35: Diversity re-ranks without inventing: the picks are distinct indices, no topic is over its cap,
  and no two picks are near duplicates, also after the novelty swaps.\<close>

theorem diversify_picks_sound:
  "picks_ok p (cap_of (length (pl_scores p)) cluster_cap) near_dup
     (diversify_picks p lam cluster_cap novelty_share near_dup)"
  by (rule diversify_picks_ok)

lemma pool_eta: "\<lparr>pl_scores = pl_scores p, pl_vectors = pl_vectors p, pl_clusters = pl_clusters p\<rparr> = p"
  by (cases p) simp

text \<open>The re-rank of a digest drops a row only for a reason: every row left out has a topic that
  already fills its 30 per cent, or nearly repeats a row that is kept.\<close>

theorem diversify_ranked_complete:
  assumes "3 \<le> length ranked"
  shows "\<exists>kept. diversify_ranked ranked = map (\<lambda>i. ranked ! i) kept
    \<and> distinct kept \<and> set kept \<subseteq> {..<length ranked}
    \<and> (\<forall>i < length ranked. i \<notin> set kept \<longrightarrow>
         (cluster_of (rank_pool ranked) i \<noteq> []
            \<and> max 1 \<lfloor>real (length ranked) * 0.3\<rfloor> \<le> in_cluster (rank_pool ranked) kept (cluster_of (rank_pool ranked) i))
         \<or> (\<exists>j \<in> set kept. \<not> far (rank_pool ranked) 0.92 i j))"
proof -
  let ?p = "rank_pool ranked"
  have n: "length (pl_scores ?p) = length ranked" by (simp add: rank_pool_def)
  obtain rest s where l: "mmr_loop ?p 0.7 (cap_of (length (pl_scores ?p)) 0.3) 0.92
      (sort_desc (\<lambda>i. pl_scores ?p ! i) [0..<length (pl_scores ?p)]) \<lparr>pk_chosen = [], pk_used = (\<lambda>_. 0)\<rparr> = (rest, s)"
    by (rule prod.exhaust)
  note ok = diversify_loop [OF l, unfolded n]
  have "py_round 0 = 0" using py_round_of_int [of 0] by simp
  then have "diversify_picks ?p 0.7 0.3 0 0.92 = s"
    using l by (simp add: diversify_picks_def Let_def add_novelty_def)
  then have d: "diversify_ranked ranked = map (\<lambda>i. ranked ! i) (pk_chosen s)"
    using assms by (simp add: diversify_ranked_def diversify_def Let_def pool_eta)
  have "(cluster_of ?p i \<noteq> [] \<and> cap_of (length ranked) 0.3 \<le> in_cluster ?p (pk_chosen s) (cluster_of ?p i))
      \<or> (\<exists>j \<in> set (pk_chosen s). \<not> far ?p 0.92 i j)" if "i < length ranked" "i \<notin> set (pk_chosen s)" for i
  proof -
    have "i \<in> set rest" using ok that by blast
    then have "blocked ?p (cap_of (length ranked) 0.3) 0.92 s i" using ok by (simp add: list_all_iff)
    then show ?thesis using ok by (auto simp: blocked_def too_close_iff picks_ok_def)
  qed
  then show ?thesis
    using d ok n by (intro exI [of _ "pk_chosen s"]) (simp add: picks_ok_def cap_of_def)
qed

definition example_ranked :: "row list" where
  "example_ranked = map (\<lambda>n. ((blank_item n)\<lparr>ci_topic_clusters := [''chess'']\<rparr>, 0.5, empty_breakdown)) [1, 2, 3]"

theorem diversify_ranked_complete_witness:
  "\<exists>kept. diversify_ranked example_ranked = map (\<lambda>i. example_ranked ! i) kept \<and> distinct kept \<and> set kept \<subseteq> {..<3}"
proof -
  have "length example_ranked = 3" by (simp add: example_ranked_def)
  with diversify_ranked_complete [of example_ranked] show ?thesis by auto
qed

subsection \<open>Outbound links\<close>

text \<open>\<open>_HREF.findall\<close>: the scheme in any case, then at least one character that is not white space, a
  quote or an angle bracket, as many as there are.\<close>

definition is_href_char :: "char \<Rightarrow> bool" where
  "is_href_char c \<longleftrightarrow> \<not> is_space_char c \<and> c \<notin> {CHR 0x22, CHR 0x27, CHR ''<'', CHR ''>''}"

definition href_at :: "string \<Rightarrow> string option" where
  "href_at s =
     (let l = lower s;
          n = (if starts_with l ''https://'' then 8 else if starts_with l ''http://'' then 7 else 0);
          rest = takeWhile is_href_char (drop n s)
      in if n = 0 \<or> rest = [] then None else Some (take n s @ rest))"

function find_hrefs :: "string \<Rightarrow> string list" where
  "find_hrefs [] = []"
| "find_hrefs (c # cs) =
     (case href_at (c # cs) of
        None \<Rightarrow> find_hrefs cs
      | Some m \<Rightarrow> m # find_hrefs (drop (length m) (c # cs)))"
  by pat_completeness auto
termination
  by (relation "measure length") (auto simp: href_at_def Let_def split: if_splits)

definition trim_url :: "string \<Rightarrow> string" where
  "trim_url m = rstrip_chars (\<lambda>c. c \<in> {CHR '')'', CHR ''.'', CHR '','', CHR '']''}) m"

text \<open>A URL that \<open>urlparse\<close> refuses (an unbalanced bracket) ends the call with \<open>ValueError\<close>.\<close>

fun collect_links :: "string \<Rightarrow> string list \<Rightarrow> string list \<Rightarrow> py_error + string list" where
  "collect_links host found [] = Inr found"
| "collect_links host found (m # ms) =
     (let url = trim_url m
      in case urlparse url of
           Inl e \<Rightarrow> Inl e
         | Inr parts \<Rightarrow>
             let link_host = remove_prefix (lower (or_default (hostname parts) [])) ''www.''
             in if host \<noteq> [] \<and> link_host = host then collect_links host found ms
                else if url \<in> set found then collect_links host found ms
                else collect_links host (found @ [url]) ms)"

definition outbound_links :: "string \<Rightarrow> string \<Rightarrow> py_error + string list" where
  "outbound_links txt source_host =
     collect_links (remove_prefix (lower source_host) ''www.'') [] (find_hrefs txt)"

definition link_host :: "string \<Rightarrow> string option" where
  "link_host url = (case urlparse url of Inl _ \<Rightarrow> None
     | Inr parts \<Rightarrow> Some (remove_prefix (lower (or_default (hostname parts) [])) ''www.''))"

lemma link_host_Inr:
  "urlparse u = Inr parts \<Longrightarrow> link_host u = Some (remove_prefix (lower (or_default (hostname parts) [])) ''www.'')"
  by (simp add: link_host_def)

lemma collect_links_ok:
  assumes "collect_links host found ms = Inr out" "distinct found"
    "host \<noteq> [] \<longrightarrow> list_all (\<lambda>u. link_host u \<noteq> Some host) found"
  shows "distinct out \<and> (host \<noteq> [] \<longrightarrow> list_all (\<lambda>u. link_host u \<noteq> Some host) out)"
  using assms
proof (induction ms arbitrary: found)
  case (Cons m ms)
  define url where "url = trim_url m"
  obtain parts where p: "urlparse url = Inr parts"
    using Cons.prems(1) by (cases "urlparse url") (simp_all add: url_def)
  have step: "collect_links host found (m # ms) =
      (if (host \<noteq> [] \<and> link_host url = Some host) \<or> url \<in> set found then collect_links host found ms
       else collect_links host (found @ [url]) ms)"
    using p by (simp add: url_def [symmetric] Let_def link_host_Inr)
  show ?case
  proof (cases "(host \<noteq> [] \<and> link_host url = Some host) \<or> url \<in> set found")
    case True
    then show ?thesis using Cons step by simp
  next
    case False
    then have "collect_links host (found @ [url]) ms = Inr out"
      using Cons.prems(1) unfolding step by (simp only: if_False)
    from this show ?thesis
    proof (rule Cons.IH)
      show "distinct (found @ [url])" using False Cons.prems(2) by simp
      show "host \<noteq> [] \<longrightarrow> list_all (\<lambda>u. link_host u \<noteq> Some host) (found @ [url])"
        using False Cons.prems(3) by auto
    qed
  qed
qed simp

text \<open>The links of a page are distinct, and none of them leads to the page's own host.\<close>

lemma outbound_links_ok:
  assumes "outbound_links txt source_host = Inr out"
  shows "distinct out \<and> (remove_prefix (lower source_host) ''www.'' \<noteq> [] \<longrightarrow>
    list_all (\<lambda>u. link_host u \<noteq> Some (remove_prefix (lower source_host) ''www.'')) out)"
  using assms unfolding outbound_links_def by (rule collect_links_ok) simp_all

lemma outbound_links_example:
  "outbound_links ''see https://a.example/x), HTTP://www.b.example/y. and https://a.example/x'' ''www.B.example''
    = Inr [''https://a.example/x'']"
  by code_simp

end
