(* ===== verification/Stories.thy ===== *)
theory Stories
  imports Diversity
begin

text \<open>
  Story clustering, \<open>services/digest/synthesis.py\<close>, and the story cards the digest builder makes of
  it, \<open>_synthesize_topic_clusters\<close> of \<open>services/digest/builder.py\<close>. The clustering is written as the
  code has it, with one row per vector seed; \<open>naive_clusters\<close> below is the reference: compare the
  item with the seeds one by one, in story order.
\<close>

definition EMBED_THRESHOLD :: real where "EMBED_THRESHOLD = 0.88"
definition TITLE_THRESHOLD :: real where "TITLE_THRESHOLD = 0.6"
definition MIN_TITLE_TOKENS :: nat where "MIN_TITLE_TOKENS = 3"

subsection \<open>Titles\<close>

text \<open>\<open>str.split()\<close>: the words between white space.\<close>

fun split_words :: "string \<Rightarrow> string \<Rightarrow> string list" where
  "split_words w [] = (if w = [] then [] else [w])"
| "split_words w (c # cs) =
     (if is_space_char c then (if w = [] then split_words [] cs else w # split_words [] cs)
      else split_words (w @ [c]) cs)"

definition stop_words :: "string list" where
  "stop_words = [''the'', ''and'', ''for'', ''with'', ''from'', ''that'', ''this'', ''into'', ''your'',
     ''how'', ''why'', ''what'', ''a'', ''an'', ''in'', ''on'', ''of'', ''to'', ''is'', ''are'', ''it'',
     ''at'', ''by'']"

definition title_tokens :: "string \<Rightarrow> string set" where
  "title_tokens title =
     set (filter (\<lambda>t. 3 \<le> length t \<and> t \<notin> set stop_words) (split_words [] (lower title)))"

definition title_overlap :: "string \<Rightarrow> string \<Rightarrow> real" where
  "title_overlap left right =
     (let l = title_tokens left; r = title_tokens right
      in if l = {} \<or> r = {} then 0 else real (card (l \<inter> r)) / real (card (l \<union> r)))"

definition story_cosine :: "vec \<Rightarrow> vec \<Rightarrow> real" where
  "story_cosine left right =
     (if vnorm left \<le> 1 / 10 ^ 8 \<or> vnorm right \<le> 1 / 10 ^ 8 then 0
      else vdot left right / (vnorm left * vnorm right))"

subsection \<open>Clusters\<close>

text \<open>The vector of an item: a zero vector stays a vector.\<close>

definition story_vec :: "content_item \<Rightarrow> vec option" where
  "story_vec item = (case ci_embedding item of None \<Rightarrow> None
     | Some v \<Rightarrow> Some (if 1 / 10 ^ 8 < vnorm v then vscale (1 / vnorm v) v else map (\<lambda>_. 0) v))"

text \<open>\<open>seeds\<close> holds \<open>seed_clusters\<close> with the rows of \<open>seed_rows\<close>.\<close>

record stories =
  st_clusters :: "nat list list"
  st_seeds :: "(nat \<times> vec) list"
  st_text_seeds :: "nat list"

definition title_match :: "real \<Rightarrow> content_item \<Rightarrow> content_item \<Rightarrow> bool" where
  "title_match title_threshold seed item \<longleftrightarrow>
     title_threshold \<le> title_overlap (ci_title seed) (ci_title item)
     \<and> MIN_TITLE_TOKENS \<le> card (title_tokens (ci_title seed))
     \<and> MIN_TITLE_TOKENS \<le> card (title_tokens (ci_title item))"

definition story_target ::
  "content_item list \<Rightarrow> nat \<Rightarrow> real \<Rightarrow> real \<Rightarrow> nat \<Rightarrow> stories \<Rightarrow> nat option" where
  "story_target items width embed_threshold title_threshold index s =
     (case story_vec (items ! index) of
        Some v \<Rightarrow> if length v = width
                  then map_option fst (find (\<lambda>(c, row). embed_threshold \<le> vdot row v) (st_seeds s))
                  else None
      | None \<Rightarrow> find (\<lambda>c. title_match title_threshold (items ! hd (st_clusters s ! c)) (items ! index))
                  (st_text_seeds s))"

definition add_story :: "content_item list \<Rightarrow> nat \<Rightarrow> nat \<Rightarrow> stories \<Rightarrow> stories" where
  "add_story items width index s =
     (let c = length (st_clusters s);
          s = s\<lparr>st_clusters := st_clusters s @ [[index]]\<rparr>
      in case story_vec (items ! index) of
           Some v \<Rightarrow> if length v = width then s\<lparr>st_seeds := st_seeds s @ [(c, v)]\<rparr> else s
         | None \<Rightarrow> s\<lparr>st_text_seeds := st_text_seeds s @ [c]\<rparr>)"

definition story_step ::
  "content_item list \<Rightarrow> nat \<Rightarrow> real \<Rightarrow> real \<Rightarrow> stories \<Rightarrow> nat \<Rightarrow> stories" where
  "story_step items width embed_threshold title_threshold s index =
     (case story_target items width embed_threshold title_threshold index s of
        Some c \<Rightarrow> s\<lparr>st_clusters := (st_clusters s)[c := st_clusters s ! c @ [index]]\<rparr>
      | None \<Rightarrow> add_story items width index s)"

text \<open>\<open>dim or 1\<close>: the width of the first vector that is not empty.\<close>

definition story_width :: "content_item list \<Rightarrow> nat" where
  "story_width items =
     (case filter (\<lambda>v. v \<noteq> []) (List.map_filter ci_embedding items) of [] \<Rightarrow> 1 | v # _ \<Rightarrow> length v)"

definition cluster_stories :: "content_item list \<Rightarrow> real \<Rightarrow> real \<Rightarrow> nat list list" where
  "cluster_stories items embed_threshold title_threshold =
     st_clusters (foldl (story_step items (story_width items) embed_threshold title_threshold)
       \<lparr>st_clusters = [], st_seeds = [], st_text_seeds = []\<rparr> [0..<length items])"

subsection \<open>Story cards\<close>

record perspective =
  pv_title :: string
  pv_url :: string
  pv_source_id :: "nat option"

record story =
  sy_perspectives :: "perspective list"
  sy_briefing :: "string option"

text \<open>\<open>brief\<close> is the summarizer of a cluster: the cached or fresh text of the model, \<open>None\<close> when it
  fails or returns nothing.\<close>

definition story_card ::
  "(content_item list \<Rightarrow> string option) \<Rightarrow> bool \<Rightarrow> content_item list \<Rightarrow> nat list \<Rightarrow> story" where
  "story_card brief briefing items cluster =
     \<lparr>sy_perspectives = map (\<lambda>i. \<lparr>pv_title = ci_title (items ! i), pv_url = ci_url (items ! i),
                                 pv_source_id = ci_source_id (items ! i)\<rparr>) (tl cluster),
      sy_briefing = (if briefing then brief (map (\<lambda>i. items ! i) (take 5 cluster)) else None)\<rparr>"

definition synthesize_topic_clusters ::
  "(content_item list \<Rightarrow> string option) \<Rightarrow> bool \<Rightarrow> content_item list \<Rightarrow> content_item list \<times> (nat \<Rightarrow> story option)" where
  "synthesize_topic_clusters brief briefing items =
     (if length items < 2 then (items, Map.empty)
      else
        let clusters = cluster_stories items EMBED_THRESHOLD TITLE_THRESHOLD
        in (map (\<lambda>cluster. items ! hd cluster) clusters,
            foldl (\<lambda>m cluster. if length cluster < 2 then m
                     else m(ci_id (items ! hd cluster) \<mapsto> story_card brief briefing items cluster))
              Map.empty clusters))"

subsection \<open>Every item is in one story\<close>

definition seed_at :: "content_item list \<Rightarrow> nat \<Rightarrow> nat list list \<Rightarrow> nat \<Rightarrow> (nat \<times> vec) option" where
  "seed_at items width clusters c = (case story_vec (items ! hd (clusters ! c)) of
     None \<Rightarrow> None | Some v \<Rightarrow> if length v = width then Some (c, v) else None)"

lemma map_filter_cong: "(\<And>x. x \<in> set xs \<Longrightarrow> f x = g x) \<Longrightarrow> List.map_filter f xs = List.map_filter g xs"
  by (induction xs) (simp_all add: List.map_filter_simps split: option.split)

lemma map_filter_append: "List.map_filter f (xs @ ys) = List.map_filter f xs @ List.map_filter f ys"
  by (simp add: List.map_filter_def)

lemma set_map_filter: "y \<in> set (List.map_filter f xs) \<longleftrightarrow> (\<exists>x \<in> set xs. f x = Some y)"
  by (force simp: List.map_filter_def)

definition stories_ok :: "content_item list \<Rightarrow> nat \<Rightarrow> nat \<Rightarrow> stories \<Rightarrow> bool" where
  "stories_ok items width n s \<longleftrightarrow>
     mset (concat (st_clusters s)) = mset [0..<n] \<and> list_all (\<lambda>c. c \<noteq> []) (st_clusters s)
     \<and> list_all sorted (st_clusters s)
     \<and> st_seeds s = List.map_filter (seed_at items width (st_clusters s)) [0..<length (st_clusters s)]
     \<and> st_text_seeds s = filter (\<lambda>c. story_vec (items ! hd (st_clusters s ! c)) = None) [0..<length (st_clusters s)]"

lemma find_mem: "find P xs = Some x \<Longrightarrow> x \<in> set xs \<and> P x"
  by (induction xs) (auto split: if_splits)

lemma story_target_less:
  assumes "stories_ok items width n s" "story_target items width et tt i s = Some c"
  shows "c < length (st_clusters s)"
proof (cases "story_vec (items ! i)")
  case None
  then have "find (\<lambda>c. title_match tt (items ! hd (st_clusters s ! c)) (items ! i)) (st_text_seeds s) = Some c"
    using assms(2) by (simp add: story_target_def)
  from find_mem [OF this] show ?thesis using assms(1) by (simp add: stories_ok_def)
next
  case (Some v)
  then obtain row where "find (\<lambda>(c, row). et \<le> vdot row v) (st_seeds s) = Some (c, row)"
    using assms(2) by (auto simp: story_target_def split: if_splits)
  from find_mem [OF this] show ?thesis
    using assms(1) by (auto simp: stories_ok_def set_map_filter seed_at_def split: option.splits if_splits)
qed

lemma concat_update_mset:
  "c < length xss \<Longrightarrow> mset (concat (xss[c := xss ! c @ ys])) = mset (concat xss) + mset ys"
proof (induction xss arbitrary: c)
  case (Cons xs xss)
  then show ?case by (cases c) auto
qed simp

lemma join_story_ok:
  assumes "stories_ok items width n s" "c < length (st_clusters s)"
  shows "stories_ok items width (Suc n) (s\<lparr>st_clusters := (st_clusters s)[c := st_clusters s ! c @ [n]]\<rparr>)"
proof -
  let ?cs = "(st_clusters s)[c := st_clusters s ! c @ [n]]"
  have ne: "st_clusters s ! c \<noteq> []" using assms by (auto simp: stories_ok_def list_all_iff)
  have hd: "hd (?cs ! k) = hd (st_clusters s ! k)" for k
    using ne assms(2) by (cases "k = c") auto
  have mem: "x \<in> set xs \<Longrightarrow> xs \<in> set (st_clusters s) \<Longrightarrow> x < n" for x xs
  proof -
    assume "x \<in> set xs" "xs \<in> set (st_clusters s)"
    then have "x \<in> set (concat (st_clusters s))" by auto
    then have "x \<in># mset (concat (st_clusters s))" by (simp only: set_mset_mset)
    then have "x \<in># mset [0..<n]" using assms(1) unfolding stories_ok_def by metis
    then show "x < n" by simp
  qed
  have "sorted (st_clusters s ! c @ [n])"
    using assms mem [of _ "st_clusters s ! c"] by (auto simp: sorted_append stories_ok_def list_all_iff less_imp_le)
  then have "list_all sorted ?cs"
    using assms(1) set_update_subset_insert [of "st_clusters s" c] by (fastforce simp: stories_ok_def list_all_iff)
  moreover have "list_all (\<lambda>c. c \<noteq> []) ?cs"
    using assms(1) set_update_subset_insert [of "st_clusters s" c] by (fastforce simp: stories_ok_def list_all_iff)
  moreover have "mset (concat ?cs) = mset [0..<Suc n]"
    using assms concat_update_mset [OF assms(2), of "[n]"] by (simp add: stories_ok_def)
  moreover have "List.map_filter (seed_at items width ?cs) ks = List.map_filter (seed_at items width (st_clusters s)) ks" for ks
    by (rule map_filter_cong) (simp add: seed_at_def hd)
  ultimately show ?thesis using assms(1) by (simp add: stories_ok_def hd)
qed

lemma add_story_ok:
  assumes "stories_ok items width n s"
  shows "stories_ok items width (Suc n) (add_story items width n s)"
proof -
  let ?cs = "st_clusters s"
  have nth: "(?cs @ [[n]]) ! c = ?cs ! c" if "c < length ?cs" for c using that by (simp add: nth_append)
  have "filter (\<lambda>c. story_vec (items ! hd ((?cs @ [[n]]) ! c)) = None) [0..<length ?cs]
      = filter (\<lambda>c. story_vec (items ! hd (?cs ! c)) = None) [0..<length ?cs]"
    by (rule filter_cong) (simp_all add: nth)
  then have ts: "filter (\<lambda>c. story_vec (items ! hd ((?cs @ [[n]]) ! c)) = None) [0..<length ?cs] = st_text_seeds s"
    using assms by (simp add: stories_ok_def)
  have "mset (concat (?cs @ [[n]])) = mset [0..<Suc n]" using assms by (simp add: stories_ok_def)
  moreover have "list_all (\<lambda>c. c \<noteq> []) (?cs @ [[n]])" "list_all sorted (?cs @ [[n]])"
    using assms by (simp_all add: stories_ok_def)
  moreover have "List.map_filter (seed_at items width (?cs @ [[n]])) [0..<length ?cs]
      = List.map_filter (seed_at items width ?cs) [0..<length ?cs]"
    by (rule map_filter_cong) (simp add: seed_at_def nth)
  then have "List.map_filter (seed_at items width (?cs @ [[n]])) [0..<length ?cs] = st_seeds s"
    using assms by (simp add: stories_ok_def)
  ultimately show ?thesis
    using ts by (auto simp: stories_ok_def add_story_def Let_def map_filter_append List.map_filter_simps seed_at_def
        nth_append split: option.split)
qed

lemma story_step_ok:
  assumes "stories_ok items width n s"
  shows "stories_ok items width (Suc n) (story_step items width et tt s n)"
  using story_target_less [OF assms] join_story_ok [OF assms] add_story_ok [OF assms]
  by (auto simp: story_step_def split: option.split)

lemma stories_run_ok:
  "stories_ok items width n (foldl (story_step items width et tt)
     \<lparr>st_clusters = [], st_seeds = [], st_text_seeds = []\<rparr> [0..<n])"
proof (induction n)
  case 0
  then show ?case by (simp add: stories_ok_def List.map_filter_def)
next
  case (Suc n)
  then show ?case using story_step_ok by simp
qed

text \<open>Every item is in exactly one story; stories are listed by their first item and keep the order of
  the items.\<close>

theorem cluster_stories_partition:
  "mset (concat (cluster_stories items et tt)) = mset [0..<length items]
    \<and> [] \<notin> set (cluster_stories items et tt) \<and> list_all sorted (cluster_stories items et tt)"
  using stories_run_ok [of items "story_width items" "length items" et tt]
  by (auto simp: stories_ok_def cluster_stories_def list_all_iff)

subsection \<open>The reference: seed by seed\<close>

definition similar :: "content_item list \<Rightarrow> real \<Rightarrow> real \<Rightarrow> nat \<Rightarrow> nat \<Rightarrow> bool" where
  "similar items embed_threshold title_threshold seed index =
     (case (ci_embedding (items ! seed), ci_embedding (items ! index)) of
        (Some u, Some v) \<Rightarrow> embed_threshold \<le> story_cosine u v
      | (None, None) \<Rightarrow> title_match title_threshold (items ! seed) (items ! index)
      | _ \<Rightarrow> False)"

fun join_first :: "(nat list \<Rightarrow> bool) \<Rightarrow> nat \<Rightarrow> nat list list \<Rightarrow> nat list list" where
  "join_first P i [] = [[i]]"
| "join_first P i (c # cs) = (if P c then (c @ [i]) # cs else c # join_first P i cs)"

definition naive_clusters :: "content_item list \<Rightarrow> real \<Rightarrow> real \<Rightarrow> nat list list" where
  "naive_clusters items et tt =
     foldl (\<lambda>cs i. join_first (\<lambda>c. similar items et tt (hd c) i) i cs) [] [0..<length items]"

lemma find_map: "find P (map f xs) = map_option f (find (\<lambda>x. P (f x)) xs)"
  by (induction xs) auto

lemma join_first_find:
  "join_first P i cs = (case find (\<lambda>k. P (cs ! k)) [0..<length cs] of
     None \<Rightarrow> cs @ [[i]] | Some k \<Rightarrow> cs[k := cs ! k @ [i]])"
proof (induction cs)
  case (Cons c cs)
  have "[0..<length (c # cs)] = 0 # map Suc [0..<length cs]" by (simp add: upt_conv_Cons map_Suc_upt del: upt_Suc)
  then show ?case using Cons by (simp add: find_map split: option.split)
qed simp

lemma find_map_filter:
  assumes "\<And>x y z. f x = Some (y, z) \<Longrightarrow> y = x"
  shows "map_option fst (find (\<lambda>(_, z). Q z) (List.map_filter f xs))
    = find (\<lambda>x. case f x of None \<Rightarrow> False | Some (_, z) \<Rightarrow> Q z) xs"
proof (induction xs)
  case (Cons x xs)
  then show ?case using assms [of x] by (auto simp: List.map_filter_simps split: option.split)
qed (simp add: List.map_filter_simps)

lemma find_filter: "find Q (filter P xs) = find (\<lambda>x. P x \<and> Q x) xs"
  by (induction xs) auto

lemma find_cong: "(\<And>x. x \<in> set xs \<Longrightarrow> P x = Q x) \<Longrightarrow> find P xs = find Q xs"
  by (induction xs) auto

lemma vdot_scale: "vdot (vscale a u) (vscale b v) = a * b * vdot u v"
proof (induction u v rule: list_induct2')
  case (4 x xs y ys)
  then show ?case by (simp add: vscale_def algebra_simps)
qed (simp_all add: vscale_def)

lemma vdot_zero: "vdot (map (\<lambda>_. 0) u) v = 0" "vdot u (map (\<lambda>_. 0) v) = 0"
  by (induction u v rule: list_induct2') auto

lemma story_vec_similar:
  assumes "0 < et" "story_vec a = Some u" "story_vec b = Some v" "ci_embedding a = Some x" "ci_embedding b = Some y"
  shows "et \<le> vdot u v \<longleftrightarrow> et \<le> story_cosine x y"
  using assms
  by (auto simp: story_vec_def story_cosine_def vdot_scale vdot_zero not_less field_simps split: if_splits)

text \<open>All embeddings of the items have one width, that of the column.\<close>

definition one_width :: "content_item list \<Rightarrow> bool" where
  "one_width items \<longleftrightarrow> (\<exists>d > 0. list_all (\<lambda>v. length v = d) (List.map_filter ci_embedding items))"

lemma story_width_eq:
  assumes "one_width items" "item \<in> set items" "ci_embedding item = Some v"
  shows "length v = story_width items"
proof -
  obtain d where d: "0 < d" "list_all (\<lambda>v. length v = d) (List.map_filter ci_embedding items)"
    using assms(1) by (auto simp: one_width_def)
  have len: "length u = d" if "u \<in> set (List.map_filter ci_embedding items)" for u
    using d(2) that by (simp add: list_all_iff)
  have v: "v \<in> set (List.map_filter ci_embedding items)" unfolding set_map_filter using assms(2,3) by blast
  show ?thesis
  proof (cases "filter (\<lambda>v. v \<noteq> []) (List.map_filter ci_embedding items)")
    case Nil
    then show ?thesis using v len [OF v] d(1) by (auto simp: filter_empty_conv)
  next
    case (Cons u us)
    then have "u \<in> set (filter (\<lambda>v. v \<noteq> []) (List.map_filter ci_embedding items))" by simp
    then have "length u = d" using len by simp
    then show ?thesis using len [OF v] Cons by (simp add: story_width_def)
  qed
qed

lemma story_target_reference:
  assumes ok: "stories_ok items (story_width items) n s" and "0 < et" "one_width items" "n < length items"
  shows "story_target items (story_width items) et tt n s
    = find (\<lambda>c. similar items et tt (hd (st_clusters s ! c)) n) [0..<length (st_clusters s)]"
proof -
  let ?w = "story_width items" and ?cs = "st_clusters s"
  have hd: "hd (?cs ! c) < length items" if "c < length ?cs" for c
  proof -
    have "?cs ! c \<in> set ?cs" using that by simp
    moreover from this have "?cs ! c \<noteq> []" using ok by (auto simp: stories_ok_def list_all_iff)
    ultimately have "hd (?cs ! c) \<in># mset (concat ?cs)" by (metis UN_I hd_in_set set_concat set_mset_mset)
    then have "hd (?cs ! c) \<in># mset [0..<n]" using ok unfolding stories_ok_def by metis
    then show ?thesis using assms(4) by simp
  qed
  have width: "length v = ?w" if v: "story_vec (items ! i) = Some v" and i: "i < length items" for i v
  proof -
    obtain x where "ci_embedding (items ! i) = Some x" "length v = length x"
      using v by (auto simp: story_vec_def split: option.splits)
    then show ?thesis using story_width_eq [OF assms(3), of "items ! i"] i by simp
  qed
  show ?thesis
  proof (cases "story_vec (items ! n)")
    case None
    then have n: "ci_embedding (items ! n) = None" by (simp add: story_vec_def split: option.splits)
    have "story_target items ?w et tt n s = find (\<lambda>c. story_vec (items ! hd (?cs ! c)) = None
        \<and> title_match tt (items ! hd (?cs ! c)) (items ! n)) [0..<length ?cs]"
      using ok None by (simp add: story_target_def stories_ok_def find_filter)
    also have "\<dots> = find (\<lambda>c. similar items et tt (hd (?cs ! c)) n) [0..<length ?cs]"
      by (rule find_cong) (simp add: similar_def n story_vec_def split: option.split)
    finally show ?thesis .
  next
    case (Some v)
    have "story_target items ?w et tt n s
        = map_option fst (find (\<lambda>(_, row). et \<le> vdot row v) (List.map_filter (seed_at items ?w ?cs) [0..<length ?cs]))"
      using ok Some width [OF Some assms(4)] by (simp add: story_target_def stories_ok_def)
    also have "\<dots> = find (\<lambda>c. case seed_at items ?w ?cs c of None \<Rightarrow> False | Some (_, row) \<Rightarrow> et \<le> vdot row v) [0..<length ?cs]"
      by (rule find_map_filter) (simp add: seed_at_def split: option.splits if_splits)
    also have "\<dots> = find (\<lambda>c. similar items et tt (hd (?cs ! c)) n) [0..<length ?cs]"
    proof (rule find_cong)
      fix c assume c: "c \<in> set [0..<length ?cs]"
      obtain y where y: "ci_embedding (items ! n) = Some y" using Some by (auto simp: story_vec_def split: option.splits)
      show "(case seed_at items ?w ?cs c of None \<Rightarrow> False | Some (_, row) \<Rightarrow> et \<le> vdot row v)
          = similar items et tt (hd (?cs ! c)) n"
      proof (cases "story_vec (items ! hd (?cs ! c))")
        case None
        then show ?thesis by (simp add: seed_at_def similar_def y story_vec_def split: option.splits)
      next
        case u: (Some u)
        then obtain x where "ci_embedding (items ! hd (?cs ! c)) = Some x" by (auto simp: story_vec_def split: option.splits)
        then show ?thesis
          using story_vec_similar [OF assms(2) u Some] width [OF u hd] c y by (simp add: seed_at_def u similar_def)
      qed
    qed
    finally show ?thesis .
  qed
qed

text \<open>C27: The vectorised clustering is the seed-by-seed one, when the vectors have one width and the
  threshold is positive.\<close>

theorem cluster_stories_reference:
  assumes "one_width items" "0 < et"
  shows "cluster_stories items et tt = naive_clusters items et tt"
proof -
  let ?w = "story_width items" and ?s0 = "\<lparr>st_clusters = [], st_seeds = [], st_text_seeds = []\<rparr>"
  let ?run = "\<lambda>n. foldl (story_step items ?w et tt) ?s0 [0..<n]"
  have "st_clusters (?run n) = foldl (\<lambda>cs i. join_first (\<lambda>c. similar items et tt (hd c) i) i cs) [] [0..<n]"
    if "n \<le> length items" for n
    using that
  proof (induction n)
    case (Suc n)
    have "stories_ok items ?w n (?run n)" by (rule stories_run_ok)
    from story_target_reference [OF this assms(2,1)] Suc.prems
    have "st_clusters (story_step items ?w et tt (?run n) n)
        = join_first (\<lambda>c. similar items et tt (hd c) n) n (st_clusters (?run n))"
      by (simp add: story_step_def add_story_def Let_def join_first_find split: option.split)
    then show ?case using Suc by simp
  qed simp
  then show ?thesis by (simp add: cluster_stories_def naive_clusters_def)
qed

definition example_stories :: "content_item list" where
  "example_stories = [(blank_item 1)\<lparr>ci_embedding := Some [3, 4]\<rparr>, blank_item 2,
     (blank_item 3)\<lparr>ci_embedding := Some [6, 8]\<rparr>]"

theorem cluster_stories_reference_witness:
  "cluster_stories example_stories 0.5 0.6 = [[0, 2], [1]]"
proof -
  have "one_width example_stories"
    unfolding one_width_def by (rule exI [of _ 2]) (simp add: example_stories_def blank_item_def List.map_filter_simps)
  then have "cluster_stories example_stories 0.5 0.6 = naive_clusters example_stories 0.5 0.6"
    by (rule cluster_stories_reference) simp
  also have "\<dots> = [[0, 2], [1]]"
    by (simp add: naive_clusters_def example_stories_def blank_item_def similar_def story_cosine_def vnorm_def
        title_match_def title_overlap_def title_tokens_def MIN_TITLE_TOKENS_def upt_conv_Cons)
  finally show ?thesis .
qed

end
