(* ===== verification/ColdStart.thy ===== *)
theory ColdStart
  imports Ranker Stories
begin

text \<open>
  Collaborative warm-up, \<open>services/cold_start/collaborative.py\<close>: the items many readers finished
  or liked, matched to a newcomer's topics. The tables are lists of rows; \<open>opted_out\<close> are the
  readers with \<open>collaborative_opt_out\<close>.
\<close>

definition MIN_COMPLETION_FOR_POSITIVE :: real where "MIN_COMPLETION_FOR_POSITIVE = 0.85"
definition WINDOW :: real where "WINDOW = 14 * 86400"
definition CANDIDATES :: nat where "CANDIDATES = 200"

record crowd_settings =
  cw_enabled :: bool
  cw_k_anonymity :: nat
  cw_min_users :: nat

subsection \<open>Topics\<close>

definition words :: "string \<Rightarrow> string set" where
  "words txt = set (filter (\<lambda>w. 2 < length w)
     (split_words [] (map (\<lambda>c. if c = CHR ''&'' \<or> c = CHR ''-'' then CHR '' '' else c) (lower txt))))"

definition topic_score :: "content_item \<Rightarrow> string list \<Rightarrow> real" where
  "topic_score item labels =
     (let clusters = map lower (ci_topic_clusters item)
      in if clusters = [] \<or> labels = [] then 0
         else if set clusters \<inter> set labels \<noteq> {} then 1
         else if \<Union> (set (map words labels)) \<inter> \<Union> (set (map words clusters)) \<noteq> {} then 0.5 else 0)"

subsection \<open>The crowd\<close>

definition counts_for :: "nat \<Rightarrow> nat set \<Rightarrow> moment \<Rightarrow> nat \<Rightarrow> interaction \<Rightarrow> bool" where
  "counts_for user opted_out since item ix \<longleftrightarrow> ix_content_item_id ix = item
     \<and> ix_user_id ix \<noteq> user \<and> ix_user_id ix \<notin> opted_out \<and> since \<le> ix_updated_at ix
     \<and> (ix_explicit_rating ix = Some 1
        \<or> some_and (ix_read_completion_pct ix) (\<lambda>c. MIN_COMPLETION_FOR_POSITIVE \<le> c))"

definition readers :: "nat \<Rightarrow> nat set \<Rightarrow> moment \<Rightarrow> interaction list \<Rightarrow> content_item \<Rightarrow> nat" where
  "readers user opted_out since ixs item =
     card (set (map ix_user_id (filter (counts_for user opted_out since (ci_id item)) ixs)))"

definition crowd_items ::
  "nat \<Rightarrow> nat \<Rightarrow> nat set \<Rightarrow> moment \<Rightarrow> interaction list \<Rightarrow> content_item list \<Rightarrow> (content_item \<times> nat) list" where
  "crowd_items k_anonymity user opted_out now ixs items =
     (let k = max 1 k_anonymity; since = now - WINDOW;
          n = readers user opted_out since ixs
      in take CANDIDATES (sort_desc (\<lambda>(_, c). real c)
           (map (\<lambda>item. (item, n item))
             (filter (\<lambda>item. ci_owner_user_id item = None \<and> ci_rankable item \<and> k \<le> n item) items))))"

text \<open>\<open>1e-8\<close> keeps the division defined.\<close>

definition relevance :: "vec option \<Rightarrow> string list \<Rightarrow> content_item \<Rightarrow> real" where
  "relevance user_vec labels item =
     (let r = topic_score item labels
      in case (user_vec, ci_embedding item) of
           (Some u, Some e) \<Rightarrow> max r (vdot u e / (vnorm u * vnorm e + 1 / 10 ^ 8))
         | _ \<Rightarrow> r)"

definition warmup_labels :: "nat \<Rightarrow> graph_db \<Rightarrow> string list" where
  "warmup_labels user db =
     map (\<lambda>n. lower (in_topic_label n))
       (take 10 (sort_desc in_weight (filter (\<lambda>n. in_user_id n = user) (gd_nodes db))))"

definition warmup_pick ::
  "vec option \<Rightarrow> string list \<Rightarrow> nat \<Rightarrow> (content_item \<times> nat) list \<Rightarrow> content_item list" where
  "warmup_pick user_vec labels limit candidates =
     (let top = Max (set (map snd candidates));
          scored = List.map_filter (\<lambda>(item, c). let r = relevance user_vec labels item
                     in if r \<le> 0.3 then None else Some (r + 0.2 * real c / real top, item)) candidates
      in map snd (take limit (sort_desc fst scored)))"

text \<open>The result and the graph, whose cache the interest vector may fill.\<close>

definition get_collaborative_warmup_items ::
  "crowd_settings \<Rightarrow> (string option \<Rightarrow> bool) \<Rightarrow> string \<Rightarrow> nat \<Rightarrow> nat set \<Rightarrow> moment \<Rightarrow> nat
    \<Rightarrow> interaction list \<Rightarrow> content_item list \<Rightarrow> graph_db \<Rightarrow> content_item list \<times> graph_db" where
  "get_collaborative_warmup_items cw same model user opted_out now limit ixs items db =
     (if \<not> cw_enabled cw then ([], db)
      else if card (set (map ix_user_id ixs)) < cw_min_users cw then ([], db)
      else
        let candidates = crowd_items (cw_k_anonymity cw) user opted_out now ixs items
        in if candidates = [] then ([], db)
           else
             let labels = warmup_labels user db;
                 (user_vec, db) = build_user_interest_vector same model user db
             in if labels = [] \<and> user_vec = None then ([], db)
                else (warmup_pick user_vec labels limit candidates, db))"

subsection \<open>Privacy\<close>

lemma warmup_pick_mem: "item \<in> set (warmup_pick v labels limit candidates) \<Longrightarrow> item \<in> fst ` set candidates"
  by (auto simp: warmup_pick_def Let_def List.map_filter_def dest!: in_set_takeD split: if_splits) force

lemma warmup_mem:
  assumes "item \<in> set (fst (get_collaborative_warmup_items cw same model user opted_out now limit ixs items db))"
  shows "item \<in> fst ` set (crowd_items (cw_k_anonymity cw) user opted_out now ixs items)"
  using assms warmup_pick_mem
  by (auto simp: get_collaborative_warmup_items_def Let_def split: if_splits prod.splits)

lemma crowd_mem:
  assumes "(item, c) \<in> set (crowd_items k user opted_out now ixs items)"
  shows "item \<in> set items \<and> ci_owner_user_id item = None \<and> ci_rankable item \<and> max 1 k \<le> c
    \<and> c = readers user opted_out (now - WINDOW) ixs item"
  using assms by (auto simp: crowd_items_def Let_def dest!: in_set_takeD)


text \<open>A reader who opted out leaves no trace in the crowd: the candidates are those of the interactions
  without that reader's rows.\<close>

lemma crowd_ignores_opted_out:
  "crowd_items k user opted_out now ixs items
    = crowd_items k user opted_out now (filter (\<lambda>ix. ix_user_id ix \<notin> opted_out) ixs) items"
proof -
  have "filter (counts_for user opted_out since i) (filter (\<lambda>ix. ix_user_id ix \<notin> opted_out) ixs)
      = filter (counts_for user opted_out since i) ixs" for since i
    by (induction ixs) (auto simp: counts_for_def)
  then have "readers user opted_out since (filter (\<lambda>ix. ix_user_id ix \<notin> opted_out) ixs)
      = readers user opted_out since ixs" for since
    by (intro ext) (simp add: readers_def)
  then show ?thesis by (simp only: crowd_items_def)
qed

definition fan :: "nat \<Rightarrow> interaction" where
  "fan u = (new_interaction u 7 100)\<lparr>ix_explicit_rating := Some 1\<rparr>"

definition chess_item :: content_item where
  "chess_item = (blank_item 7)\<lparr>ci_url := ''https://chess.example/x'', ci_topic_clusters := [''Chess'']\<rparr>"

definition chess_graph :: graph_db where
  "chess_graph = add_node (new_node [] empty_graph 5 ''chess'' None 0.5) empty_graph"

definition chess_fans :: "interaction list" where
  "chess_fans = [fan 2, fan 3, fan 9, fan 5]"

definition chess_crowd :: crowd_settings where
  "chess_crowd = \<lparr>cw_enabled = True, cw_k_anonymity = 2, cw_min_users = 3\<rparr>"

lemma chess_candidates: "crowd_items 2 5 {9} 200 chess_fans [chess_item] = [(chess_item, 2)]"
proof -
  have "readers 5 {9} (200 - WINDOW) chess_fans chess_item = 2"
    by (simp add: readers_def counts_for_def chess_fans_def fan_def chess_item_def new_interaction_def WINDOW_def)
  moreover have "ci_owner_user_id chess_item = None \<and> ci_rankable chess_item"
    by (simp add: chess_item_def blank_item_def)
  ultimately show ?thesis by (simp add: crowd_items_def CANDIDATES_def sort_desc_def)
qed

lemma chess_pick: "warmup_pick None [''chess''] 10 [(chess_item, 2)] = [chess_item]"
proof -
  have "lower ''Chess'' = ''chess''" by code_simp
  then have "topic_score chess_item [''chess''] = 1" by (simp add: topic_score_def chess_item_def)
  then show ?thesis
    by (simp add: warmup_pick_def relevance_def sort_desc_def List.map_filter_simps)
qed

lemma warmup_example:
  "fst (get_collaborative_warmup_items chess_crowd (\<lambda>_. True) [] 5 {9} 200 10 chess_fans [chess_item] chess_graph)
    = [chess_item]"
proof -
  have "warmup_labels 5 chess_graph = [lower ''chess'']"
    by (simp add: warmup_labels_def chess_graph_def add_node_def new_node_def empty_graph_def sort_desc_def)
  moreover have "lower ''chess'' = ''chess''" by code_simp
  ultimately have l: "warmup_labels 5 chess_graph = [''chess'']" by simp
  have v: "build_user_interest_vector (\<lambda>_. True) [] 5 chess_graph = (None, chess_graph)"
    by (simp add: build_user_interest_vector_def chess_graph_def add_node_def new_node_def empty_graph_def)
  have "card (set (map ix_user_id chess_fans)) = 4"
    by (simp add: chess_fans_def fan_def new_interaction_def)
  then show ?thesis
    by (simp add: get_collaborative_warmup_items_def chess_crowd_def chess_candidates l v chess_pick)
qed


end
