(* ===== verification/Interleaving.thy ===== *)
theory Interleaving
  imports Content
begin

text \<open>
  Team-draft interleaving, \<open>services/ranking/interleaving.py\<close>: the draft of two rankings of the
  same candidates, the outcome of a digest, the operator's report and the reader's own comparison.
  The random generator is the list of its draws: a coin is heads when the next number is below one
  half. The rows of the queries are arguments.
\<close>

definition FINISHED_COMPLETION :: real where "FINISHED_COMPLETION = 0.7"

subsection \<open>The draft\<close>

fun other_team :: "team \<Rightarrow> team" where
  "other_team PRS = BASELINE"
| "other_team BASELINE = PRS"

record 'a draft =
  dr_picked :: "('a \<times> team) list"
  dr_used :: "'a set"
  dr_counts :: "team \<Rightarrow> nat"
  dr_cursors :: "team \<Rightarrow> nat"
  dr_draws :: nat

text \<open>The cursor of a team moves past the items that are taken.\<close>

function advance :: "'a list \<Rightarrow> 'a set \<Rightarrow> nat \<Rightarrow> nat" where
  "advance order used c =
     (if c < length order \<and> order ! c \<in> used then advance order used (c + 1) else c)"
  by pat_completeness auto
termination
  by (relation "measure (\<lambda>(order, used, c). length order - c)") auto

declare advance.simps [simp del]

definition next_team :: "(nat \<Rightarrow> real) \<Rightarrow> 'a draft \<Rightarrow> team \<times> 'a draft" where
  "next_team rng s =
     (if dr_counts s PRS < dr_counts s BASELINE then (PRS, s)
      else if dr_counts s BASELINE < dr_counts s PRS then (BASELINE, s)
      else (if rng (dr_draws s) < 1 / 2 then PRS else BASELINE, s\<lparr>dr_draws := dr_draws s + 1\<rparr>))"

definition move_cursor :: "(team \<Rightarrow> 'a list) \<Rightarrow> team \<Rightarrow> 'a draft \<Rightarrow> 'a draft" where
  "move_cursor orders t s =
     s\<lparr>dr_cursors := (dr_cursors s)(t := advance (orders t) (dr_used s) (dr_cursors s t))\<rparr>"

definition pick_for :: "(team \<Rightarrow> 'a list) \<Rightarrow> team \<Rightarrow> 'a draft \<Rightarrow> 'a draft" where
  "pick_for orders t s =
     (let item = orders t ! dr_cursors s t
      in s\<lparr>dr_used := insert item (dr_used s), dr_picked := dr_picked s @ [(item, t)],
           dr_counts := (dr_counts s)(t := dr_counts s t + 1)\<rparr>)"

text \<open>One turn; \<open>None\<close> is the \<open>break\<close>. A team that has run out leaves the turn to the other.\<close>

definition draft_turn :: "(nat \<Rightarrow> real) \<Rightarrow> (team \<Rightarrow> 'a list) \<Rightarrow> 'a draft \<Rightarrow> 'a draft option" where
  "draft_turn rng orders s =
     (let (t, s) = next_team rng s;
          s = move_cursor orders t s
      in if dr_cursors s t < length (orders t) then Some (pick_for orders t s)
         else
           let t = other_team t;
               s = move_cursor orders t s
           in if dr_cursors s t < length (orders t) then Some (pick_for orders t s) else None)"

text \<open>\<open>while len(picked) < total\<close>: a turn that does not break picks one item, so the number of
  turns left is \<open>total - len(picked)\<close>.\<close>

fun draft_loop :: "nat \<Rightarrow> (nat \<Rightarrow> real) \<Rightarrow> (team \<Rightarrow> 'a list) \<Rightarrow> 'a draft \<Rightarrow> 'a draft" where
  "draft_loop 0 rng orders s = s"
| "draft_loop (Suc n) rng orders s =
     (case draft_turn rng orders s of None \<Rightarrow> s | Some s' \<Rightarrow> draft_loop n rng orders s')"

definition new_draft :: "'a draft" where
  "new_draft = \<lparr>dr_picked = [], dr_used = {}, dr_counts = (\<lambda>_. 0), dr_cursors = (\<lambda>_. 0), dr_draws = 0\<rparr>"

definition teams_lists :: "'a list \<Rightarrow> 'a list \<Rightarrow> team \<Rightarrow> 'a list" where
  "teams_lists prs base t = (case t of PRS \<Rightarrow> prs | BASELINE \<Rightarrow> base)"

definition team_draft :: "'a list \<Rightarrow> 'a list \<Rightarrow> (nat \<Rightarrow> real) \<Rightarrow> ('a \<times> team) list" where
  "team_draft prs_order baseline_order rng =
     dr_picked (draft_loop (length (remdups (prs_order @ baseline_order))) rng
       (teams_lists prs_order baseline_order) new_draft)"

subsection \<open>Rows\<close>

definition baseline_order :: "row list \<Rightarrow> row list" where
  "baseline_order rows =
     sort_desc (\<lambda>r. or_default (ci_published_at (fst r)) (ci_fetched_at (fst r))) rows"

text \<open>\<open>by_id\<close> keeps the last row of an id.\<close>

definition by_id :: "row list \<Rightarrow> nat \<Rightarrow> row option" where
  "by_id ranked = foldl (\<lambda>m r. m(row_id r \<mapsto> r)) Map.empty ranked"

definition tag_row :: "row list \<Rightarrow> nat \<times> team \<Rightarrow> row" where
  "tag_row ranked p =
     (let (item, prs, bd) = the (by_id ranked (fst p)) in (item, prs, bd\<lparr>bd_team := Some (snd p)\<rparr>))"

definition interleave_ranked :: "row list \<Rightarrow> (nat \<Rightarrow> real) \<Rightarrow> py_error + row list" where
  "interleave_ranked ranked rng =
     (let drafted = team_draft (map row_id ranked) (map row_id (baseline_order ranked)) rng
      in if list_ex (\<lambda>(i, _). by_id ranked i = None) drafted then Inl KeyError
         else Inr (map (tag_row ranked) drafted))"

subsection \<open>Outcomes\<close>

definition finished :: "interaction option \<Rightarrow> bool" where
  "finished ix = (case ix of None \<Rightarrow> False
     | Some ix \<Rightarrow> FINISHED_COMPLETION \<le> or_default (ix_read_completion_pct ix) 0
         \<or> 0 < or_default (ix_explicit_rating ix) 0 \<or> ix_saved ix)"

datatype outcome = Won team | Tie

text \<open>A dictionary from items to teams is a list of pairs with distinct first components.\<close>

definition team_wins :: "(nat \<times> team) list \<Rightarrow> (nat \<Rightarrow> interaction option) \<Rightarrow> team \<Rightarrow> nat" where
  "team_wins teams ixs t = length (filter (\<lambda>(i, u). u = t \<and> finished (ixs i)) teams)"

definition digest_outcome :: "(nat \<times> team) list \<Rightarrow> (nat \<Rightarrow> interaction option) \<Rightarrow> outcome" where
  "digest_outcome teams ixs =
     (if team_wins teams ixs BASELINE < team_wins teams ixs PRS then Won PRS
      else if team_wins teams ixs PRS < team_wins teams ixs BASELINE then Won BASELINE
      else Tie)"

subsection \<open>Grouping\<close>

text \<open>\<open>dict.setdefault(k, ...)\<close> over rows: the keys in the order of their first row, and the rows of
  a key. \<open>put\<close> is the assignment to a dictionary.\<close>

definition keys_of :: "('k \<times> 'v) list \<Rightarrow> 'k list" where
  "keys_of rows = rev (remdups (rev (map fst rows)))"

definition group_rows :: "('k \<times> 'v) list \<Rightarrow> ('k \<times> 'v list) list" where
  "group_rows rows = map (\<lambda>k. (k, map snd (filter (\<lambda>r. fst r = k) rows))) (keys_of rows)"

definition put :: "'k \<Rightarrow> 'v \<Rightarrow> ('k \<times> 'v) list \<Rightarrow> ('k \<times> 'v) list" where
  "put k v d = (if k \<in> fst ` set d then map (\<lambda>(k', v'). if k' = k then (k, v) else (k', v')) d
     else d @ [(k, v)])"

definition as_dict :: "('k \<times> 'v) list \<Rightarrow> ('k \<times> 'v) list" where
  "as_dict rows = foldl (\<lambda>d (k, v). put k v d) [] rows"

subsection \<open>The operator's report\<close>

record impression =
  im_digest :: nat
  im_user :: nat
  im_item :: nat
  im_team :: team

record summary =
  su_prs :: nat
  su_baseline :: nat
  su_ties :: nat
  su_rate :: "real option"

definition py_round3 :: "real \<Rightarrow> real" where
  "py_round3 x = of_int (py_round (x * 1000)) / 1000"

definition summary_of :: "outcome list \<Rightarrow> summary" where
  "summary_of outcomes =
     (let p = count_list outcomes (Won PRS);
          b = count_list outcomes (Won BASELINE);
          decided = p + b
      in \<lparr>su_prs = p, su_baseline = b, su_ties = count_list outcomes Tie,
          su_rate = (if decided = 0 then None else Some (py_round3 (real p / real decided)))\<rparr>)"

text \<open>The digests with their reader (that of the first row) and their teams.\<close>

definition report_digests :: "impression list \<Rightarrow> (nat \<times> (nat \<times> team) list) list" where
  "report_digests rows =
     map (\<lambda>(d, rs). (im_user (hd rs), as_dict (map (\<lambda>r. (im_item r, im_team r)) rs)))
       (group_rows (map (\<lambda>r. (im_digest r, r)) rows))"

record report =
  rp_window_days :: int
  rp_digests :: nat
  rp_pooled :: summary
  rp_users :: nat
  rp_user_win_rates :: "real list"

definition interleaving_report ::
  "int \<Rightarrow> impression list \<Rightarrow> (nat \<Rightarrow> nat \<Rightarrow> interaction option) \<Rightarrow> report" where
  "interleaving_report days rows ixs =
     (let digests = report_digests rows;
          per_user = group_rows (map (\<lambda>(u, teams). (u, digest_outcome teams (ixs u))) digests)
      in \<lparr>rp_window_days = days, rp_digests = length digests,
          rp_pooled = summary_of (concat (map snd per_user)),
          rp_users = length per_user,
          rp_user_win_rates = sort (List.map_filter (\<lambda>(_, os). su_rate (summary_of os)) per_user)\<rparr>)"

subsection \<open>The reader's own comparison\<close>

record example =
  ex_content :: nat
  ex_title :: string
  ex_digest_at :: moment
  ex_ours :: int
  ex_theirs :: int

record comparison =
  cp_available :: bool
  cp_reason :: "string option"
  cp_examples :: "example list"
  cp_interleaving :: "(nat \<times> nat \<times> nat \<times> nat) option"

type_synonym digest_row = "moment \<times> int \<times> content_item"

definition newest_rank :: "digest_row list \<Rightarrow> nat \<Rightarrow> int" where
  "newest_rank entries i =
     (let newest = sort_desc (\<lambda>(_, _, item). ci_fetched_at item) entries
      in or_default (map_of (rev (map (\<lambda>(n, (_, _, item)). (ci_id item, int n + 1)) (enumerate 0 newest))) i) 0)"

definition digest_examples :: "(nat \<Rightarrow> bool) \<Rightarrow> digest_row list \<Rightarrow> example list" where
  "digest_examples done entries =
     List.map_filter (\<lambda>(generated_at, position, item).
        let ours = position + 1; theirs = newest_rank entries (ci_id item)
        in if done (ci_id item) \<and> 5 \<le> theirs - ours
           then Some \<lparr>ex_content = ci_id item, ex_title = ci_title item, ex_digest_at = generated_at,
                      ex_ours = ours, ex_theirs = theirs\<rparr>
           else None) entries"

text \<open>\<open>rows\<close> are the digest items and \<open>interleaved\<close> the tagged impressions of the reader's digests in
  the window; \<open>ixs\<close> are the reader's interactions.\<close>

definition user_comparison ::
  "nat \<Rightarrow> moment \<Rightarrow> moment option \<Rightarrow> (nat \<times> digest_row) list \<Rightarrow> (nat \<times> nat \<times> team) list
    \<Rightarrow> (nat \<Rightarrow> interaction option) \<Rightarrow> comparison" where
  "user_comparison min_examples now created rows interleaved ixs =
     (if \<not> some_and created (\<lambda>c. 7 * 86400 \<le> now - c)
      then \<lparr>cp_available = False, cp_reason = Some ''too_new'', cp_examples = [], cp_interleaving = None\<rparr>
      else
        let examples = sort_desc (\<lambda>e. of_int (ex_theirs e - ex_ours e))
              (concat (map (\<lambda>(_, entries). digest_examples (\<lambda>i. finished (ixs i)) entries) (group_rows rows)));
            outcomes = map (\<lambda>(_, teams). digest_outcome (as_dict teams) ixs) (group_rows interleaved);
            available = min_examples \<le> length examples
        in \<lparr>cp_available = available, cp_reason = (if available then None else Some ''not_enough_reading''),
            cp_examples = take 3 examples,
            cp_interleaving = (if interleaved = [] then None
              else Some (length outcomes, count_list outcomes (Won PRS), count_list outcomes (Won BASELINE),
                         count_list outcomes Tie))\<rparr>)"

subsection \<open>The draft is complete and fair\<close>

definition team_count :: "('a \<times> team) list \<Rightarrow> team \<Rightarrow> nat" where
  "team_count picked t = length (filter (\<lambda>p. snd p = t) picked)"

text \<open>Every pick is new and the best its team had left; after every turn the teams are at most one pick
  apart.\<close>

definition best_picks :: "(team \<Rightarrow> 'a list) \<Rightarrow> ('a \<times> team) list \<Rightarrow> bool" where
  "best_picks orders picked \<longleftrightarrow> (\<forall>k < length picked.
     let (x, t) = picked ! k; taken = fst ` set (take k picked)
     in x \<notin> taken \<and> (\<exists>i < length (orders t). orders t ! i = x \<and> (\<forall>j < i. orders t ! j \<in> taken)))"

definition balanced :: "('a \<times> team) list \<Rightarrow> bool" where
  "balanced picked \<longleftrightarrow> (\<forall>k \<le> length picked.
     \<bar>int (team_count (take k picked) PRS) - int (team_count (take k picked) BASELINE)\<bar> \<le> 1)"

definition passed :: "'a list \<Rightarrow> 'a set \<Rightarrow> nat \<Rightarrow> bool" where
  "passed order used c \<longleftrightarrow> (\<forall>i < c. i < length order \<and> order ! i \<in> used)"

definition draft_ok :: "(team \<Rightarrow> 'a list) \<Rightarrow> 'a draft \<Rightarrow> bool" where
  "draft_ok orders s \<longleftrightarrow> dr_used s = fst ` set (dr_picked s) \<and> distinct (map fst (dr_picked s))
     \<and> dr_used s \<subseteq> set (orders PRS) \<union> set (orders BASELINE)
     \<and> (\<forall>t. dr_counts s t = team_count (dr_picked s) t)
     \<and> (\<forall>t. passed (orders t) (dr_used s) (dr_cursors s t))
     \<and> best_picks orders (dr_picked s)"

lemma advance_step: "c < length order \<Longrightarrow> order ! c \<in> used \<Longrightarrow> advance order used c = advance order used (c + 1)"
  by (subst advance.simps) simp

lemma advance_stop: "\<not> (c < length order \<and> order ! c \<in> used) \<Longrightarrow> advance order used c = c"
  by (subst advance.simps) (simp only: if_False)

lemma passed_mono: "passed order used c \<Longrightarrow> used \<subseteq> used' \<Longrightarrow> passed order used' c"
  by (auto simp: passed_def)

lemma passed_Suc: "passed order used c \<Longrightarrow> c < length order \<Longrightarrow> order ! c \<in> used \<Longrightarrow> passed order used (c + 1)"
  unfolding passed_def by (metis Suc_eq_plus1 less_antisym)

lemma advance_props:
  assumes "passed order used c"
  shows "passed order used (advance order used c)
    \<and> (advance order used c < length order \<longrightarrow> order ! advance order used c \<notin> used)"
  using assms
proof (induction order used c rule: advance.induct)
  case (1 order used c)
  show ?case
  proof (cases "c < length order \<and> order ! c \<in> used")
    case True
    then have "passed order used (c + 1)" using 1(2) passed_Suc by blast
    then have "passed order used (advance order used (c + 1))
        \<and> (advance order used (c + 1) < length order \<longrightarrow> order ! advance order used (c + 1) \<notin> used)"
      by (rule 1(1) [OF True])
    moreover have "advance order used c = advance order used (c + 1)" using True advance_step by blast
    ultimately show ?thesis by metis
  next
    case False
    then have "advance order used c = c" by (rule advance_stop)
    then show ?thesis using 1(2) False by (metis (full_types))
  qed
qed

lemma move_cursor_ok:
  assumes "draft_ok orders s"
  shows "draft_ok orders (move_cursor orders t s)"
    "dr_cursors (move_cursor orders t s) t < length (orders t) \<Longrightarrow>
       orders t ! dr_cursors (move_cursor orders t s) t \<notin> dr_used s"
    "\<not> dr_cursors (move_cursor orders t s) t < length (orders t) \<Longrightarrow> set (orders t) \<subseteq> dr_used s"
proof -
  have p: "passed (orders t) (dr_used s) (advance (orders t) (dr_used s) (dr_cursors s t))
    \<and> (advance (orders t) (dr_used s) (dr_cursors s t) < length (orders t) \<longrightarrow>
         orders t ! advance (orders t) (dr_used s) (dr_cursors s t) \<notin> dr_used s)"
    using assms by (intro advance_props) (auto simp: draft_ok_def)
  then show "draft_ok orders (move_cursor orders t s)"
    using assms by (auto simp: draft_ok_def move_cursor_def)
  show "dr_cursors (move_cursor orders t s) t < length (orders t) \<Longrightarrow>
       orders t ! dr_cursors (move_cursor orders t s) t \<notin> dr_used s"
    using p by (simp add: move_cursor_def)
  show "\<not> dr_cursors (move_cursor orders t s) t < length (orders t) \<Longrightarrow> set (orders t) \<subseteq> dr_used s"
    using p by (auto simp: move_cursor_def in_set_conv_nth passed_def)
qed

lemma best_picks_snoc:
  assumes "best_picks orders picked" "x \<notin> fst ` set picked" "i < length (orders t)" "orders t ! i = x"
    "\<forall>j < i. orders t ! j \<in> fst ` set picked"
  shows "best_picks orders (picked @ [(x, t)])"
  using assms by (auto simp: best_picks_def nth_append less_Suc_eq Let_def split: prod.splits)

lemma team_count_snoc [simp]: "team_count (picked @ [(x, t)]) u = team_count picked u + (if t = u then 1 else 0)"
  by (simp add: team_count_def)

lemma pick_for_ok:
  assumes "draft_ok orders s" "dr_cursors s t < length (orders t)" "orders t ! dr_cursors s t \<notin> dr_used s"
  shows "draft_ok orders (pick_for orders t s)"
proof -
  have "best_picks orders (dr_picked s @ [(orders t ! dr_cursors s t, t)])"
    using assms by (intro best_picks_snoc) (auto simp: draft_ok_def passed_def)
  moreover have "orders t ! dr_cursors s t \<in> set (orders PRS) \<union> set (orders BASELINE)"
    using nth_mem [OF assms(2)] by (cases t) auto
  moreover have "passed (orders u) (insert x (dr_used s)) (dr_cursors s u)" for u x
  proof (rule passed_mono)
    show "passed (orders u) (dr_used s) (dr_cursors s u)" using assms(1) unfolding draft_ok_def by blast
  qed blast
  ultimately show ?thesis using assms by (auto simp: draft_ok_def pick_for_def Let_def)
qed

lemma next_team_state [simp]:
  "draft_ok orders (snd (next_team rng s)) = draft_ok orders s"
  "dr_used (snd (next_team rng s)) = dr_used s" "dr_picked (snd (next_team rng s)) = dr_picked s"
  by (simp_all add: next_team_def draft_ok_def)

lemma move_cursor_fields [simp]:
  "dr_used (move_cursor orders t s) = dr_used s" "dr_picked (move_cursor orders t s) = dr_picked s"
  "dr_counts (move_cursor orders t s) = dr_counts s"
  by (simp_all add: move_cursor_def)

lemma pick_for_picked [simp]:
  "dr_picked (pick_for orders t s) = dr_picked s @ [(orders t ! dr_cursors s t, t)]"
  by (simp add: pick_for_def Let_def)

text \<open>A turn picks one item for some team; it breaks only when everything is taken. When both rankings
  hold the same items the team whose turn it is picks.\<close>

lemma draft_turn_ok:
  assumes "draft_ok orders s"
  shows "case draft_turn rng orders s of
      None \<Rightarrow> set (orders PRS) \<union> set (orders BASELINE) \<subseteq> dr_used s
    | Some s' \<Rightarrow> draft_ok orders s' \<and> (\<exists>x u. dr_picked s' = dr_picked s @ [(x, u)]
        \<and> (set (orders PRS) = set (orders BASELINE) \<longrightarrow> u = fst (next_team rng s)))"
proof -
  obtain t s1 where n: "next_team rng s = (t, s1)" by (cases "next_team rng s")
  then have "s1 = snd (next_team rng s)" by simp
  then have s1: "draft_ok orders s1" "dr_used s1 = dr_used s" "dr_picked s1 = dr_picked s"
    using assms by simp_all
  let ?a = "move_cursor orders t s1" and ?u = "other_team t"
  let ?b = "move_cursor orders ?u ?a"
  note a = move_cursor_ok [OF s1(1), of t]
  note b = move_cursor_ok [OF a(1), of ?u]
  show ?thesis
  proof (cases "dr_cursors ?a t < length (orders t)")
    case True
    then have "draft_ok orders (pick_for orders t ?a)" using a by (intro pick_for_ok) simp_all
    then show ?thesis using True n s1 by (simp add: draft_turn_def)
  next
    case False
    then have full: "set (orders t) \<subseteq> dr_used s" using a(3) s1 by simp
    show ?thesis
    proof (cases "dr_cursors ?b ?u < length (orders ?u)")
      case True
      then have new: "orders ?u ! dr_cursors ?b ?u \<notin> dr_used s" using b(2) s1 by simp
      have "draft_ok orders (pick_for orders ?u ?b)" using b True by (intro pick_for_ok) simp_all
      moreover have "set (orders PRS) \<noteq> set (orders BASELINE)"
        using new full nth_mem [OF True] by (cases t) auto
      ultimately show ?thesis using True \<open>\<not> dr_cursors ?a t < length (orders t)\<close> n s1
        by (simp add: draft_turn_def Let_def)
    next
      case f: False
      then have "set (orders ?u) \<subseteq> dr_used s" using b(3) s1 by simp
      then have "set (orders PRS) \<union> set (orders BASELINE) \<subseteq> dr_used s" using full by (cases t) auto
      then show ?thesis using False f n by (simp add: draft_turn_def Let_def)
    qed
  qed
qed

lemma balanced_snoc:
  assumes "balanced picked" "draft_ok orders s" "dr_picked s = picked" "t = fst (next_team rng s)"
  shows "balanced (picked @ [(x, t)])"
proof -
  have c: "dr_counts s u = team_count picked u" for u using assms(2,3) by (simp add: draft_ok_def)
  have "\<bar>int (team_count picked PRS) - int (team_count picked BASELINE)\<bar> \<le> 1"
    using assms(1) by (auto simp: balanced_def)
  then have "\<bar>int (team_count (picked @ [(x, t)]) PRS) - int (team_count (picked @ [(x, t)]) BASELINE)\<bar> \<le> 1"
    using assms(4) by (auto simp: next_team_def c split: if_splits)
  then show ?thesis using assms(1) by (auto simp: balanced_def le_Suc_eq)
qed

lemma draft_loop_ok:
  assumes "draft_ok orders s"
    "n + length (dr_picked s) = card (set (orders PRS) \<union> set (orders BASELINE))"
    "set (orders PRS) = set (orders BASELINE) \<longrightarrow> balanced (dr_picked s)"
  shows "draft_ok orders (draft_loop n rng orders s)
    \<and> dr_used (draft_loop n rng orders s) = set (orders PRS) \<union> set (orders BASELINE)
    \<and> (set (orders PRS) = set (orders BASELINE) \<longrightarrow> balanced (dr_picked (draft_loop n rng orders s)))"
  using assms
proof (induction n arbitrary: s)
  case 0
  have "card (dr_used s) = length (dr_picked s)"
    using 0(1) distinct_card [of "map fst (dr_picked s)"] by (simp add: draft_ok_def)
  then have "card (dr_used s) = card (set (orders PRS) \<union> set (orders BASELINE))" using 0(2) by simp
  moreover have "dr_used s \<subseteq> set (orders PRS) \<union> set (orders BASELINE)" using 0(1) unfolding draft_ok_def by blast
  ultimately have "dr_used s = set (orders PRS) \<union> set (orders BASELINE)"
    by (intro card_subset_eq) simp_all
  then show ?case using 0 by simp
next
  case (Suc n)
  note turn = draft_turn_ok [OF Suc.prems(1), of rng]
  show ?case
  proof (cases "draft_turn rng orders s")
    case None
    then have "dr_used s = set (orders PRS) \<union> set (orders BASELINE)"
      using turn Suc.prems(1) by (auto simp: draft_ok_def)
    then show ?thesis using None Suc.prems by simp
  next
    case (Some s')
    then obtain x u where s': "draft_ok orders s'" "dr_picked s' = dr_picked s @ [(x, u)]"
        "set (orders PRS) = set (orders BASELINE) \<longrightarrow> u = fst (next_team rng s)"
      using turn by auto
    have "set (orders PRS) = set (orders BASELINE) \<longrightarrow> balanced (dr_picked s')"
      using s' Suc.prems(1,3) balanced_snoc [of "dr_picked s" orders s u rng x] by simp
    then show ?thesis using Some Suc.IH [OF s'(1)] s'(2) Suc.prems(2) by simp
  qed
qed

lemma team_draft_fix:
  fixes prs :: "'a list"
  shows "distinct (map fst (team_draft prs base rng))
    \<and> fst ` set (team_draft prs base rng) = set prs \<union> set base
    \<and> best_picks (teams_lists prs base) (team_draft prs base rng)
    \<and> (set prs = set base \<longrightarrow> balanced (team_draft prs base rng))"
proof -
  have "draft_ok (teams_lists prs base) new_draft" "balanced (dr_picked (new_draft :: 'a draft))"
      "dr_picked (new_draft :: 'a draft) = []"
    by (simp_all add: draft_ok_def new_draft_def team_count_def best_picks_def balanced_def passed_def)
  moreover have "length (remdups (prs @ base)) = card (set prs \<union> set base)"
    using distinct_card [of "remdups (prs @ base)"] by simp
  ultimately have "draft_ok (teams_lists prs base) s
    \<and> dr_used s = set prs \<union> set base \<and> (set prs = set base \<longrightarrow> balanced (dr_picked s))"
    if "s = draft_loop (length (remdups (prs @ base))) rng (teams_lists prs base) new_draft" for s
    using draft_loop_ok [of "teams_lists prs base" new_draft "length (remdups (prs @ base))" rng]
    unfolding that by (simp add: teams_lists_def)
  then show ?thesis unfolding team_draft_def draft_ok_def by metis
qed

text \<open>C15: Whatever the coin flips, a draft lists every item of the two rankings once, every pick is the
  best its team had left, and when both rank the same items the teams are never more than one pick
  apart.\<close>

theorem team_draft_sound:
  "distinct (map fst (team_draft prs base rng))
    \<and> fst ` set (team_draft prs base rng) = set prs \<union> set base
    \<and> best_picks (teams_lists prs base) (team_draft prs base rng)
    \<and> (set prs = set base \<longrightarrow> balanced (team_draft prs base rng))"
  by (rule team_draft_fix)

theorem team_draft_sound_witness:
  "balanced (team_draft [1, 2, 3] [3, 2, 1 :: nat] (\<lambda>_. 0))
    \<and> team_draft [1, 2, 3] [3, 2, 1 :: nat] (\<lambda>_. 0) = [(1, PRS), (3, BASELINE), (2, PRS)]"
proof -
  have "set [1, 2, 3] = set [3, 2, 1 :: nat]" by auto
  then have "balanced (team_draft [1, 2, 3] [3, 2, 1 :: nat] (\<lambda>_. 0))" using team_draft_sound by blast
  moreover have "team_draft [1, 2, 3] [3, 2, 1 :: nat] (\<lambda>_. 0) = [(1, PRS), (3, BASELINE), (2, PRS)]"
    by (simp add: team_draft_def draft_turn_def next_team_def move_cursor_def pick_for_def Let_def
        new_draft_def teams_lists_def advance.simps numeral_3_eq_3)
  ultimately show ?thesis by blast
qed

lemma by_id_Some: "i \<in> row_id ` set ranked \<Longrightarrow> \<exists>r. by_id ranked i = Some r \<and> r \<in> set ranked \<and> row_id r = i"
proof (induction ranked rule: rev_induct)
  case (snoc r ranked)
  then show ?case by (cases "row_id r = i") (auto simp: by_id_def)
qed simp

lemma by_id_row: "distinct (map row_id ranked) \<Longrightarrow> r \<in> set ranked \<Longrightarrow> by_id ranked (row_id r) = Some r"
proof -
  assume a: "distinct (map row_id ranked)" "r \<in> set ranked"
  then obtain q where "by_id ranked (row_id r) = Some q" "q \<in> set ranked" "row_id q = row_id r"
    using by_id_Some [of "row_id r" ranked] by blast
  with a show ?thesis by (metis distinct_map inj_onD)
qed

definition unscored :: "row \<Rightarrow> content_item \<times> real" where
  "unscored r = (fst r, fst (snd r))"

lemma tag_row_props:
  assumes "by_id ranked (fst p) = Some r" "row_id r = fst p"
  shows "unscored (tag_row ranked p) = unscored r" "row_id (tag_row ranked p) = fst p"
    "bd_team (snd (snd (tag_row ranked p))) = Some (snd p)"
  using assms by (auto simp: tag_row_def unscored_def row_id_def split: prod.split)

text \<open>Interleaving scored rows with distinct items raises nothing, keeps every row with its score
  once, and assigns the rows to the teams evenly.\<close>

theorem interleave_ranked_sound:
  assumes "distinct (map row_id ranked)"
  shows "\<exists>out. interleave_ranked ranked rng = Inr out
    \<and> mset (map unscored out) = mset (map unscored ranked)
    \<and> balanced (map (\<lambda>r. (row_id r, the (bd_team (snd (snd r))))) out)"
proof -
  let ?d = "team_draft (map row_id ranked) (map row_id (baseline_order ranked)) rng"
  have same: "set (map row_id ranked) = set (map row_id (baseline_order ranked))"
    by (simp add: baseline_order_def)
  have d: "distinct (map fst ?d)" "fst ` set ?d = row_id ` set ranked" "balanced ?d"
    using team_draft_fix [of "map row_id ranked" "map row_id (baseline_order ranked)" rng] same by auto
  have some: "\<exists>r. by_id ranked (fst p) = Some r \<and> r \<in> set ranked \<and> row_id r = fst p" if "p \<in> set ?d" for p
    using by_id_Some d(2) that by blast
  have out: "interleave_ranked ranked rng = Inr (map (tag_row ranked) ?d)"
  proof -
    have "\<not> list_ex (\<lambda>(i, _). by_id ranked i = None) ?d" using some by (fastforce simp: list_ex_iff)
    then show ?thesis by (simp add: interleave_ranked_def Let_def)
  qed
  have "row_id (tag_row ranked p) = fst p \<and> the (bd_team (snd (snd (tag_row ranked p)))) = snd p"
    if p: "p \<in> set ?d" for p
  proof -
    obtain r where "by_id ranked (fst p) = Some r" "row_id r = fst p" using some p by blast
    from tag_row_props(2,3) [OF this] show ?thesis by simp
  qed
  then have ids: "map (\<lambda>r. (row_id r, the (bd_team (snd (snd r))))) (map (tag_row ranked) ?d) = ?d"
    by (simp add: map_idI)
  have "map unscored (map (tag_row ranked) ?d) = map (\<lambda>i. unscored (the (by_id ranked i))) (map fst ?d)"
  proof -
    have "unscored (tag_row ranked p) = unscored (the (by_id ranked (fst p)))" if p: "p \<in> set ?d" for p
    proof -
      obtain r where r: "by_id ranked (fst p) = Some r" "row_id r = fst p" using some p by blast
      from tag_row_props(1) [OF this] show ?thesis by (simp add: r)
    qed
    then show ?thesis by simp
  qed
  moreover have "mset (map fst ?d) = mset (map row_id ranked)"
    using d(1,2) assms by (metis list.set_map set_eq_iff_mset_eq_distinct)
  ultimately have "mset (map unscored (map (tag_row ranked) ?d))
      = mset (map (\<lambda>i. unscored (the (by_id ranked i))) (map row_id ranked))"
    by (metis mset_map)
  also have "map (\<lambda>i. unscored (the (by_id ranked i))) (map row_id ranked) = map unscored ranked"
    using by_id_row [OF assms] by simp
  finally have m: "mset (map unscored (map (tag_row ranked) ?d)) = mset (map unscored ranked)" .
  show ?thesis by (rule exI [of _ "map (tag_row ranked) ?d"]) (simp only: out m ids d(3) simp_thms)
qed

definition example_pair :: "row list" where
  "example_pair = [((blank_item 1)\<lparr>ci_fetched_at := 5\<rparr>, 0.9, empty_breakdown), (blank_item 2, 0.3, empty_breakdown)]"

theorem interleave_ranked_sound_witness:
  "\<exists>out. interleave_ranked example_pair (\<lambda>_. 0) = Inr out
    \<and> mset (map unscored out) = {#((blank_item 1)\<lparr>ci_fetched_at := 5\<rparr>, 0.9), (blank_item 2, 0.3)#}"
proof -
  have "distinct (map row_id example_pair)" by (simp add: example_pair_def row_id_def)
  from interleave_ranked_sound [OF this, of "\<lambda>_. 0"] show ?thesis
    by (auto simp: example_pair_def unscored_def)
qed

subsection \<open>Outcomes treat the teams alike\<close>

fun other_outcome :: "outcome \<Rightarrow> outcome" where
  "other_outcome (Won t) = Won (other_team t)"
| "other_outcome Tie = Tie"

lemma other_team_twice [simp]: "other_team (other_team t) = t"
  by (cases t) simp_all

lemma other_team_eq: "other_team u = t \<longleftrightarrow> u = other_team t"
  by (cases u; cases t) simp_all

lemma team_wins_swap:
  "team_wins (map (\<lambda>(i, t). (i, other_team t)) teams) ixs t = team_wins teams ixs (other_team t)"
  by (induction teams) (auto simp: team_wins_def other_team_eq)

text \<open>The verdict on a digest is neutral: exchanging the teams of all items exchanges the winner and
  keeps a tie a tie.\<close>

theorem digest_outcome_symmetric:
  "digest_outcome (map (\<lambda>(i, t). (i, other_team t)) teams) ixs = other_outcome (digest_outcome teams ixs)"
  by (simp add: digest_outcome_def team_wins_swap)

subsection \<open>The report\<close>

lemma keys_of_props: "distinct (keys_of rows)" "set (keys_of rows) = fst ` set rows"
  by (simp_all add: keys_of_def)

lemma mset_by_keys:
  assumes "distinct ks" "fst ` set rows \<subseteq> set ks"
  shows "mset (concat (map (\<lambda>k. map snd (filter (\<lambda>r. fst r = k) rows)) ks)) = mset (map snd rows)"
  using assms
proof (induction ks arbitrary: rows)
  case (Cons k ks)
  let ?rest = "filter (\<lambda>r. fst r \<noteq> k) rows"
  have "filter (\<lambda>r. fst r = k') rows = filter (\<lambda>r. fst r = k') ?rest" if "k' \<in> set ks" for k'
    using that Cons.prems(1) by (induction rows) auto
  then have "mset (concat (map (\<lambda>k. map snd (filter (\<lambda>r. fst r = k) rows)) ks)) = mset (map snd ?rest)"
    using Cons.IH [of ?rest] Cons.prems by (force cong: map_cong)
  moreover have "mset (map snd rows) = mset (map snd (filter (\<lambda>r. fst r = k) rows)) + mset (map snd ?rest)"
    by (induction rows) auto
  ultimately show ?case by simp
qed simp

lemma group_rows_mset: "mset (concat (map snd (group_rows rows))) = mset (map snd rows)"
  using mset_by_keys [OF keys_of_props(1) [of rows], of rows] keys_of_props(2) [of rows]
  by (simp add: group_rows_def comp_def)

lemma outcome_total: "count_list os (Won PRS) + count_list os (Won BASELINE) + count_list os Tie = length os"
proof (induction os)
  case (Cons x os)
  then show ?case by (cases x rule: other_outcome.cases) (auto intro: team.exhaust)
qed simp

lemma count_list_concat_groups: "count_list (concat (map snd (group_rows rows))) x = count_list (map snd rows) x"
  using group_rows_mset [of rows] by (metis count_mset)

lemma summary_rate_bounds: "su_rate (summary_of os) = Some r \<Longrightarrow> 0 \<le> r \<and> r \<le> 1"
proof -
  assume a: "su_rate (summary_of os) = Some r"
  let ?p = "count_list os (Won PRS)" and ?b = "count_list os (Won BASELINE)"
  have r: "r = py_round3 (real ?p / real (?p + ?b))" and pos: "0 < ?p + ?b"
    using a by (auto simp: summary_of_def Let_def split: if_splits)
  have "0 \<le> real ?p / real (?p + ?b) * 1000" "real ?p / real (?p + ?b) * 1000 \<le> 1000"
    using pos by (auto simp: field_simps)
  then have "py_round 0 \<le> py_round (real ?p / real (?p + ?b) * 1000)"
      "py_round (real ?p / real (?p + ?b) * 1000) \<le> py_round 1000"
    by (auto intro: py_round_mono)
  moreover have "py_round 0 = 0" "py_round 1000 = 1000"
    using py_round_of_int [of 0] py_round_of_int [of 1000] by simp_all
  ultimately show ?thesis by (simp add: r py_round3_def)
qed

lemma group_rows_length: "length (group_rows rows) \<le> length rows"
proof -
  have "length (keys_of rows) = card (set (map fst rows))"
    using distinct_card [OF keys_of_props(1), of rows] keys_of_props(2) [of rows] by simp
  also have "\<dots> \<le> length rows" using card_length [of "map fst rows"] by simp
  finally show ?thesis by (simp add: group_rows_def)
qed

text \<open>The operator's report counts every interleaved digest of the window once, as a win of one team
  or as a tie, and every rate in it lies in [0, 1].\<close>

theorem interleaving_report_adds_up:
  "let r = interleaving_report days rows ixs; p = rp_pooled r
   in su_prs p + su_baseline p + su_ties p = rp_digests r
    \<and> rp_digests r = card (im_digest ` set rows)
    \<and> rp_users r \<le> rp_digests r
    \<and> (\<forall>x \<in> set (rp_user_win_rates r). 0 \<le> x \<and> x \<le> 1)"
proof -
  let ?digests = "report_digests rows"
  let ?os = "map (\<lambda>(u, teams). (u, digest_outcome teams (ixs u))) ?digests"
  have "count_list (map snd ?os) (Won PRS) + count_list (map snd ?os) (Won BASELINE) + count_list (map snd ?os) Tie
      = length ?digests" by (simp only: outcome_total length_map)
  moreover have "length ?digests = card (im_digest ` set rows)"
    using distinct_card [OF keys_of_props(1), of "map (\<lambda>r. (im_digest r, r)) rows"]
      keys_of_props(2) [of "map (\<lambda>r. (im_digest r, r)) rows"]
    by (simp add: report_digests_def group_rows_def image_image)
  moreover have "length (group_rows ?os) \<le> length ?digests"
    using group_rows_length [of ?os] by simp
  moreover have "0 \<le> x \<and> x \<le> 1"
    if "x \<in> set (sort (List.map_filter (\<lambda>(_, os). su_rate (summary_of os)) (group_rows ?os)))" for x
    using that summary_rate_bounds by (auto simp: List.map_filter_def)
  ultimately show ?thesis
    unfolding interleaving_report_def Let_def
    by (auto simp: summary_of_def Let_def count_list_concat_groups simp del: map_map)
qed

text \<open>The comparison a reader sees names at most three articles, each one that the reader finished and
  that newest-first would have shown at least five places lower, the widest gaps first; a reader of
  less than seven days sees none.\<close>

theorem user_comparison_sound:
  "let c = user_comparison min_examples now created rows interleaved ixs
   in length (cp_examples c) \<le> 3
    \<and> sorted_wrt (\<lambda>x y. ex_theirs y - ex_ours y \<le> ex_theirs x - ex_ours x) (cp_examples c)
    \<and> (\<forall>e \<in> set (cp_examples c). finished (ixs (ex_content e)) \<and> 5 \<le> ex_theirs e - ex_ours e
         \<and> (\<exists>d position item. (d, ex_digest_at e, position, item) \<in> set rows \<and> ci_id item = ex_content e \<and> ex_ours e = position + 1))
    \<and> (\<not> some_and created (\<lambda>c. 7 * 86400 \<le> now - c) \<longrightarrow> cp_examples c = [])"
proof (cases "some_and created (\<lambda>c. 7 * 86400 \<le> now - c)")
  case True
  let ?all = "concat (map (\<lambda>(_, entries). digest_examples (\<lambda>i. finished (ixs i)) entries) (group_rows rows))"
  have e: "cp_examples (user_comparison min_examples now created rows interleaved ixs)
      = take 3 (sort_desc (\<lambda>e. of_int (ex_theirs e - ex_ours e)) ?all)"
    using True by (simp add: user_comparison_def Let_def)
  have "sorted_wrt (\<lambda>x y. real_of_int (ex_theirs y - ex_ours y) \<le> real_of_int (ex_theirs x - ex_ours x))
      (take 3 (sort_desc (\<lambda>e. of_int (ex_theirs e - ex_ours e)) ?all))"
    by (rule sorted_wrt_take) (rule sort_desc_sorted)
  then have s: "sorted_wrt (\<lambda>x y. ex_theirs y - ex_ours y \<le> ex_theirs x - ex_ours x)
      (take 3 (sort_desc (\<lambda>e. of_int (ex_theirs e - ex_ours e)) ?all))"
    by (simp only: of_int_le_iff)
  have mem: "finished (ixs (ex_content e)) \<and> 5 \<le> ex_theirs e - ex_ours e
      \<and> (\<exists>d position item. (d, ex_digest_at e, position, item) \<in> set rows \<and> ci_id item = ex_content e \<and> ex_ours e = position + 1)"
    if e_in: "e \<in> set ?all" for e
  proof -
    obtain d entries where g: "(d, entries) \<in> set (group_rows rows)"
      and e: "e \<in> set (digest_examples (\<lambda>i. finished (ixs i)) entries)" using e_in by auto
    obtain ts position item where "(ts, position, item) \<in> set entries" "finished (ixs (ci_id item))"
        "5 \<le> ex_theirs e - ex_ours e" "ex_content e = ci_id item" "ex_digest_at e = ts" "ex_ours e = position + 1"
      using e by (auto simp: digest_examples_def List.map_filter_def Let_def split: if_splits)
    moreover have "(d, x) \<in> set rows" if "x \<in> set entries" for x
      using g that by (auto simp: group_rows_def)
    ultimately show ?thesis by fastforce
  qed
  show ?thesis using s mem in_set_takeD [of _ 3 "sort_desc _ ?all"] True
    by (simp add: Let_def e)
next
  case False
  then show ?thesis by (simp add: user_comparison_def)
qed

theorem user_comparison_sound_witness:
  "cp_examples (user_comparison 1 100 (Some 0) [] [] (\<lambda>_. None)) = []"
  using user_comparison_sound [of 1 100 "Some 0" "[]" "[]" "\<lambda>_. None"] by (simp add: Let_def)

end
