(* ===== verification/Takedown.thy ===== *)
theory Takedown
  imports Content Urls
begin

text \<open>
  The takedown list, \<open>services/takedown.py\<close>: its entries, the check of one URL, and the condition
  that queries put on an item, with SQL's \<open>ILIKE\<close> written out. The table is the list of its rows
  \<open>(url_key, reason)\<close>; \<open>canon\<close> is \<open>canonicalize_url\<close>.
\<close>

type_synonym takedowns = "(string \<times> string) list"

subsection \<open>Normal forms\<close>

definition contains :: "string \<Rightarrow> string \<Rightarrow> bool" where
  "contains s sub \<longleftrightarrow> list_ex (\<lambda>i. starts_with (drop i s) sub) [0..<length s + 1]"

definition strip_slashes :: "string \<Rightarrow> string" where
  "strip_slashes s = rstrip_chars (\<lambda>c. c = CHR ''/'') (lstrip_chars (\<lambda>c. c = CHR ''/'') s)"

definition host_part :: "string \<Rightarrow> py_error + string" where
  "host_part h =
     (if contains h ''://''
      then map_sum id (\<lambda>parts. or_default (hostname parts) h) (urlparse h) else Inr h)"

definition normalize_host :: "string \<Rightarrow> py_error + string" where
  "normalize_host host_str =
     map_sum id (\<lambda>h. strip_slashes (remove_prefix h ''www.'')) (host_part (lower (strip host_str)))"

definition normalize_target ::
  "(string \<Rightarrow> string option) \<Rightarrow> string \<Rightarrow> bool option \<Rightarrow> py_error + string" where
  "normalize_target canon target is_host =
     (let raw = strip target
      in if raw = [] then Inr []
         else case is_host of
                Some True \<Rightarrow> normalize_host raw
              | Some False \<Rightarrow> Inr (or_default (canon raw) raw)
              | None \<Rightarrow>
                  if \<not> contains raw ''://'' then normalize_host raw
                  else case urlparse raw of
                         Inl e \<Rightarrow> Inl e
                       | Inr parsed \<Rightarrow>
                           let path = strip (up_path parsed)
                           in if (path = [] \<or> path = ''/'') \<and> up_query parsed = []
                              then normalize_host (case hostname parsed of None \<Rightarrow> raw
                                     | Some h \<Rightarrow> if h = [] then raw else h)
                              else Inr (or_default (canon raw) raw))"

subsection \<open>Entries\<close>

definition add_blocked_entry ::
  "(string \<Rightarrow> string option) \<Rightarrow> string \<Rightarrow> string \<Rightarrow> bool option \<Rightarrow> takedowns \<Rightarrow> py_error + takedowns" where
  "add_blocked_entry canon target reason is_host db =
     (case normalize_target canon target is_host of
        Inl e \<Rightarrow> Inl e
      | Inr key \<Rightarrow>
          if key = [] then Inl ValueError
          else if key \<in> fst ` set db then Inr (map (\<lambda>(k, r). (k, if k = key then reason else r)) db)
          else Inr (db @ [(key, reason)]))"

definition remove_blocked_entry ::
  "(string \<Rightarrow> string option) \<Rightarrow> string \<Rightarrow> bool option \<Rightarrow> takedowns \<Rightarrow> py_error + bool \<times> takedowns" where
  "remove_blocked_entry canon target is_host db =
     (case normalize_target canon target is_host of
        Inl e \<Rightarrow> Inl e
      | Inr key \<Rightarrow> if key \<in> fst ` set db then Inr (True, filter (\<lambda>(k, _). k \<noteq> key) db) else Inr (False, db))"

text \<open>The host and every parent domain, but never the top-level domain alone.\<close>

definition host_candidates :: "string \<Rightarrow> string list" where
  "host_candidates host =
     (let parts = split_char CHR ''.'' host;
          cands = map (\<lambda>i. join_with ''.'' (drop i parts)) [0..<length parts - 1]
      in if cands = [] then [host] else cands)"

definition is_url_blocked :: "(string \<Rightarrow> string option) \<Rightarrow> takedowns \<Rightarrow> string \<Rightarrow> py_error + bool" where
  "is_url_blocked canon db url =
     (if url = [] then Inr False
      else map_sum id (\<lambda>host. list_ex (\<lambda>(k, _). k = or_default (canon url) url \<or> k = url
                                 \<or> k \<in> set (host_candidates host)) db)
             (normalize_host url))"

subsection \<open>The condition of the queries\<close>

text \<open>SQL's \<open>LIKE\<close>: a per cent sign stands for any string, an underscore for any character, a
  backslash takes the next character as it is.\<close>

fun like :: "string \<Rightarrow> string \<Rightarrow> bool" where
  "like [] s = (s = [])"
| "like (p # ps) s =
     (if p = CHR ''%'' then like ps s \<or> (case s of [] \<Rightarrow> False | _ # t \<Rightarrow> like (p # ps) t)
      else if p = CHR ''_'' then (case s of [] \<Rightarrow> False | _ # t \<Rightarrow> like ps t)
      else if p = CHR 0x5C then (case ps of [] \<Rightarrow> False
             | q # qs \<Rightarrow> (case s of [] \<Rightarrow> False | c # t \<Rightarrow> c = q \<and> like qs t))
      else (case s of [] \<Rightarrow> False | c # t \<Rightarrow> c = p \<and> like ps t))"

definition ilike :: "string \<Rightarrow> string \<Rightarrow> bool" where
  "ilike s pattern = like (lower pattern) (lower s)"

definition host_patterns :: "string \<Rightarrow> string list" where
  "host_patterns key =
     [''%://'' @ key @ ''/%'', ''%://'' @ key, ''%://%.'' @ key @ ''/%'', ''%://%.'' @ key,
      ''%://www.'' @ key @ ''/%'', ''%://www.'' @ key]"

definition blocked_by :: "string \<Rightarrow> string \<Rightarrow> bool" where
  "blocked_by url key \<longleftrightarrow> url = key
     \<or> (CHR ''/'' \<notin> set key \<and> list_ex (ilike url) (host_patterns key))"

definition not_blocked_filter :: "takedowns \<Rightarrow> content_item \<Rightarrow> bool" where
  "not_blocked_filter db item \<longleftrightarrow> \<not> list_ex (\<lambda>(k, _). blocked_by (ci_url item) k) db"

subsection \<open>Adding, checking and removing\<close>

lemma add_blocked_keys:
  assumes "add_blocked_entry canon target reason is_host db = Inr db'"
  shows "\<exists>key. normalize_target canon target is_host = Inr key \<and> key \<noteq> []
    \<and> map_of db' key = Some reason \<and> fst ` set db' = insert key (fst ` set db)"
proof -
  obtain key where k: "normalize_target canon target is_host = Inr key" "key \<noteq> []"
    using assms by (auto simp: add_blocked_entry_def split: sum.splits if_splits)
  have keys: "fst ` set (map (\<lambda>(k, r). (k, if k = key then reason else r)) xs) = fst ` set xs" for xs
    by (induction xs) auto
  have upd: "key \<in> fst ` set xs \<Longrightarrow> map_of (map (\<lambda>(k, r). (k, if k = key then reason else r)) xs) key = Some reason" for xs
    by (induction xs) auto
  have new: "key \<notin> fst ` set xs \<Longrightarrow> map_of (xs @ [(key, reason)]) key = Some reason" for xs
    by (induction xs) auto
  show ?thesis
  proof (cases "key \<in> fst ` set db")
    case True
    then have "db' = map (\<lambda>(k, r). (k, if k = key then reason else r)) db"
      using assms k by (simp add: add_blocked_entry_def)
    then show ?thesis using True k keys [of db] upd [of db] by auto
  next
    case False
    then have "db' = db @ [(key, reason)]" using assms k by (simp add: add_blocked_entry_def)
    then show ?thesis using False k new [of db] by simp
  qed
qed

lemma is_url_blocked_iff:
  assumes "url \<noteq> []" "normalize_host url = Inr host"
  shows "is_url_blocked canon db url
    = Inr (\<exists>k \<in> fst ` set db. k = or_default (canon url) url \<or> k = url \<or> k \<in> set (host_candidates host))"
  using assms by (force simp: is_url_blocked_def list_ex_iff)


definition no_canon :: "string \<Rightarrow> string option" where
  "no_canon url = None"


text \<open>The check of one URL and the condition of the queries are not the same: a port or a query right
  after the host hides an item from the condition, and a URL that carries a blocked address in its own
  path is caught by it.\<close>

lemma filter_misses_port:
  "is_url_blocked no_canon [(''evil.example'', [])] ''https://evil.example:8443/x'' = Inr True
    \<and> \<not> blocked_by ''https://evil.example:8443/x'' ''evil.example''"
  by code_simp

lemma filter_catches_archive:
  "is_url_blocked no_canon [(''evil.example'', [])] ''https://archive.org/web/https://evil.example/x'' = Inr False
    \<and> blocked_by ''https://archive.org/web/https://evil.example/x'' ''evil.example''"
  by code_simp

end
