(* ===== verification/Builder.thy ===== *)
theory Builder
  imports ColdStart Interleaving Sections Learning Takedown
begin

text \<open>
  The digest builder, \<open>services/digest/builder.py\<close>, with the queries of
  \<open>services/feed_identity.py\<close>, \<open>cap_per_source\<close> of \<open>ingestion/backfill.py\<close>, the
  length learner of \<open>digest/length.py\<close> and \<open>ranking/engine.py\<close>. \<open>world\<close> holds the tables the build
  reads and writes; \<open>build_digest\<close> is the whole handler, in the order of the code. The draws of
  the two generators, the summarizer of story cards and the identifiers the database hands out are
  arguments. The model summaries of placed items (\<open>summarize_placed\<close>) change nothing that is
  modelled here.
\<close>

subsection \<open>Tables\<close>

record reader =
  us_id :: nat
  us_weekly :: bool
  us_languages :: "string list"
  us_created_at :: moment
  us_digest_max_items :: int
  us_digest_length_locked :: bool
  us_serendipity_percentage :: int
  us_collaborative_opt_out :: bool
  us_pro :: bool

record digest =
  dg_id :: nat
  dg_user_id :: nat
  dg_generated_at :: moment
  dg_section_counts :: "section_name \<Rightarrow> nat"
  dg_total_items :: nat
  dg_opened :: bool

record digest_item =
  di_digest_id :: nat
  di_content_item_id :: nat
  di_position :: nat
  di_section :: section_name
  di_prs_score :: real
  di_breakdown :: breakdown
  di_discovered_via :: "string option"
  di_fallback_reason :: "string option"
  di_story :: "story option"

record digest_impression =
  dm_user_id :: nat
  dm_content_item_id :: nat
  dm_digest_id :: nat
  dm_section :: section_name
  dm_position :: nat
  dm_score :: real
  dm_features :: "signal \<Rightarrow> real option"
  dm_weights_version :: string
  dm_exploration :: bool
  dm_propensity :: real
  dm_team :: "team option"
  dm_viewed :: bool

record feedback_prompt =
  fp_digest_id :: nat
  fp_content_item_id :: "nat option"
  fp_text :: string
  fp_type :: string
  fp_answered :: bool
  fp_dismissed :: bool
  fp_answer :: "string option"

record world =
  wd_users :: "reader list"
  wd_items :: "content_item list"
  wd_graph :: graph_db
  wd_takedowns :: takedowns
  wd_interactions :: "interaction list"
  wd_weights :: "signal \<Rightarrow> real option"
  wd_digests :: "digest list"
  wd_digest_items :: "digest_item list"
  wd_impressions :: "digest_impression list"
  wd_prompts :: "feedback_prompt list"

record build_settings =
  cf_per_source_cap :: int
  cf_candidate_limit :: nat
  cf_interleaving :: bool
  cf_exploration :: bool
  cf_novelty_target :: real
  cf_active :: embedding_spec
  cf_crowd :: crowd_settings

subsection \<open>Feed identity\<close>

definition feed_keys :: "bool \<Rightarrow> nat \<Rightarrow> source_row list \<Rightarrow> string list" where
  "feed_keys active_only user sources =
     map sql_feed_key (filter (\<lambda>s. sr_user_id s = user \<and> (active_only \<longrightarrow> sr_is_active s)) sources)"

definition equivalent_source_ids :: "bool \<Rightarrow> nat \<Rightarrow> source_row list \<Rightarrow> nat list" where
  "equivalent_source_ids active_only user sources =
     map sr_id (filter (\<lambda>s. sql_feed_key s \<in> set (feed_keys active_only user sources)) sources)"

definition user_feed_ids :: "nat \<Rightarrow> source_row list \<Rightarrow> nat list" where
  "user_feed_ids user sources =
     List.map_filter (\<lambda>s. if sr_user_id s = user \<and> sr_is_active s then sr_feed_id s else None) sources"

definition visible_item :: "nat \<Rightarrow> content_item \<Rightarrow> bool" where
  "visible_item user item \<longleftrightarrow> ci_owner_user_id item = None \<or> ci_owner_user_id item = Some user"

definition from_user_feeds :: "nat list \<Rightarrow> nat list \<Rightarrow> content_item \<Rightarrow> bool" where
  "from_user_feeds source_ids feed_ids item \<longleftrightarrow>
     some_and (ci_source_id item) (\<lambda>s. s \<in> set source_ids) \<or> some_and (ci_feed_id item) (\<lambda>f. f \<in> set feed_ids)"

definition outside_user_feeds :: "nat list \<Rightarrow> nat list \<Rightarrow> content_item \<Rightarrow> bool" where
  "outside_user_feeds source_ids feed_ids item \<longleftrightarrow>
     (source_ids = [] \<or> \<not> some_and (ci_source_id item) (\<lambda>s. s \<in> set source_ids))
     \<and> (feed_ids = [] \<or> \<not> some_and (ci_feed_id item) (\<lambda>f. f \<in> set feed_ids))"

subsection \<open>Caps\<close>

fun cap_loop :: "int \<Rightarrow> (nat option \<Rightarrow> int) \<Rightarrow> content_item list \<Rightarrow> content_item list" where
  "cap_loop cap counts [] = []"
| "cap_loop cap counts (item # items) =
     (let key = ci_source_id item; used = counts key
      in if key \<noteq> None \<and> cap \<le> used then cap_loop cap counts items
         else item # cap_loop cap (counts(key := used + 1)) items)"

definition cap_per_source :: "content_item list \<Rightarrow> int \<Rightarrow> content_item list" where
  "cap_per_source items cap = (if cap \<le> 0 then items else cap_loop cap (\<lambda>_. 0) items)"

subsection \<open>Candidates\<close>

text \<open>\<open>row_number()\<close> over the feed of an item, newest first, one-based. Items without a feed and a source
  are one partition.\<close>

definition partition_key :: "content_item \<Rightarrow> nat option" where
  "partition_key item = or_else (ci_feed_id item) (ci_source_id item)"

definition row_number :: "content_item list \<Rightarrow> content_item \<Rightarrow> nat" where
  "row_number items item =
     length (takeWhile (\<lambda>i. ci_id i \<noteq> ci_id item)
       (sort_desc ci_fetched_at (filter (\<lambda>i. partition_key i = partition_key item) items))) + 1"

definition eligible :: "world \<Rightarrow> nat \<Rightarrow> nat list \<Rightarrow> nat list \<Rightarrow> moment \<Rightarrow> content_item \<Rightarrow> bool" where
  "eligible w user source_ids feed_ids cutoff item \<longleftrightarrow>
     from_user_feeds source_ids feed_ids item \<and> cutoff \<le> ci_fetched_at item
     \<and> visible_item user item \<and> not_blocked_filter (wd_takedowns w) item"

definition candidates ::
  "build_settings \<Rightarrow> world \<Rightarrow> nat \<Rightarrow> nat list \<Rightarrow> nat list \<Rightarrow> moment \<Rightarrow> content_item list" where
  "candidates cf w user source_ids feed_ids cutoff =
     (let pool = filter (\<lambda>i. eligible w user source_ids feed_ids cutoff i \<and> ci_rankable i) (wd_items w);
          cap = cf_per_source_cap cf;
          kept = (if 0 < cap then filter (\<lambda>i. int (row_number pool i) \<le> cap) pool else pool)
      in take (cf_candidate_limit cf) (sort_desc ci_fetched_at (sort_key ci_id kept)))"

definition QUIET_FALLBACK_WINDOW :: real where "QUIET_FALLBACK_WINDOW = 14 * 86400"
definition QUIET_FALLBACK_LABEL :: string where
  "QUIET_FALLBACK_LABEL = ''Your sources were quiet: catching up from the last two weeks''"

definition already_digested :: "world \<Rightarrow> nat \<Rightarrow> nat set" where
  "already_digested w user =
     set (map di_content_item_id (filter (\<lambda>di. \<exists>d \<in> set (wd_digests w). dg_id d = di_digest_id di \<and> dg_user_id d = user)
       (wd_digest_items w)))"

definition opened_by :: "world \<Rightarrow> nat \<Rightarrow> nat set" where
  "opened_by w user =
     set (map ix_content_item_id (filter (\<lambda>ix. ix_user_id ix = user \<and> ix_opened_at ix \<noteq> None) (wd_interactions w)))"

definition quiet_day_fallback :: "world \<Rightarrow> moment \<Rightarrow> nat \<Rightarrow> nat list \<Rightarrow> nat list \<Rightarrow> content_item list" where
  "quiet_day_fallback w now user source_ids feed_ids =
     filter ci_rankable (take 120 (sort_desc ci_fetched_at
       (filter (\<lambda>i. eligible w user source_ids feed_ids (now - QUIET_FALLBACK_WINDOW) i
                 \<and> ci_id i \<notin> already_digested w user \<and> ci_id i \<notin> opened_by w user) (wd_items w))))"

definition wanted :: "string list \<Rightarrow> content_item list \<Rightarrow> content_item list" where
  "wanted langs items =
     (let langs = map lower langs
      in if langs = [] then items
         else filter (\<lambda>i. case ci_language i of None \<Rightarrow> True | Some l \<Rightarrow> lower l \<in> set langs) items)"

subsection \<open>Discovery\<close>

definition SERENDIPITY_MIN_DISTANCE :: real where "SERENDIPITY_MIN_DISTANCE = 0.35"
definition SERENDIPITY_MAX_DISTANCE :: real where "SERENDIPITY_MAX_DISTANCE = 0.75"

text \<open>pgvector's cosine distance; with a zero vector it is not a number, which no bound admits.\<close>

definition cosine_distance :: "vec \<Rightarrow> vec \<Rightarrow> real option" where
  "cosine_distance u v = (if vnorm u = 0 \<or> vnorm v = 0 then None else Some (1 - vdot u v / (vnorm u * vnorm v)))"

definition last_segment :: "string \<Rightarrow> string" where
  "last_segment name = last (split_char CHR ''/'' name)"

definition stored_for :: "embedding_spec \<Rightarrow> string option \<Rightarrow> bool" where
  "stored_for active model \<longleftrightarrow>
     some_and model (\<lambda>m. m = es_name active \<or> m = last_segment (es_name active))
     \<or> (es_name active = MINILM \<and> model = None)"

definition adjacency :: "embedding_spec \<Rightarrow> vec \<Rightarrow> content_item \<Rightarrow> real option" where
  "adjacency active interest_vec item =
     (case ci_embedding item of
        None \<Rightarrow> None
      | Some e \<Rightarrow>
          if \<not> stored_for active (ci_embedding_model item) then None
          else case cosine_distance e interest_vec of
                 None \<Rightarrow> None
               | Some d \<Rightarrow> if SERENDIPITY_MIN_DISTANCE \<le> d \<and> d \<le> SERENDIPITY_MAX_DISTANCE then Some d else None)"

text \<open>The public items outside the reader's feeds, and those of them in the band, closest first.\<close>

definition serendipity_pool :: "world \<Rightarrow> nat list \<Rightarrow> nat list \<Rightarrow> moment \<Rightarrow> content_item list" where
  "serendipity_pool w source_ids feed_ids cutoff =
     filter (\<lambda>i. cutoff \<le> ci_fetched_at i \<and> ci_owner_user_id i = None \<and> not_blocked_filter (wd_takedowns w) i
               \<and> ((source_ids \<noteq> [] \<or> feed_ids \<noteq> []) \<longrightarrow> outside_user_feeds source_ids feed_ids i)) (wd_items w)"

definition adjacent_items :: "embedding_spec \<Rightarrow> vec \<Rightarrow> content_item list \<Rightarrow> content_item list" where
  "adjacent_items active interest_vec pool =
     sort_key (\<lambda>i. or_default (adjacency active interest_vec i) 0)
       (filter (\<lambda>i. adjacency active interest_vec i \<noteq> None) pool)"

definition select_serendipity_candidates ::
  "embedding_spec \<Rightarrow> world \<Rightarrow> nat \<Rightarrow> nat list \<Rightarrow> nat list \<Rightarrow> moment \<Rightarrow> nat \<Rightarrow> content_item list \<times> graph_db" where
  "select_serendipity_candidates active w user source_ids feed_ids cutoff n =
     (let pool = serendipity_pool w source_ids feed_ids cutoff;
          (interest_vec, db) = build_user_interest_vector (\<lambda>m. same_model m None active) (es_name active) user (wd_graph w);
          near = (case interest_vec of None \<Rightarrow> [] | Some v \<Rightarrow> take n (adjacent_items active v pool))
      in (if near \<noteq> [] then near else take n (sort_desc ci_fetched_at pool), db))"

definition serendipity_count :: "nat \<Rightarrow> nat" where
  "serendipity_count n = nat (max 5 \<lceil>real n * 0.10\<rceil>)"

subsection \<open>What a build ranks\<close>

definition NEW_USER_THRESHOLD_DAYS :: int where "NEW_USER_THRESHOLD_DAYS = 14"

definition window_start :: "reader \<Rightarrow> moment \<Rightarrow> moment" where
  "window_start u now = (if us_weekly u then now - 7 * 86400 else now - 86400)"

definition user_age_days :: "reader \<Rightarrow> moment \<Rightarrow> int" where
  "user_age_days u now = \<lfloor>(now - us_created_at u) / 86400\<rfloor>"

record gathered =
  ga_items :: "content_item list"
  ga_quiet :: "nat set"
  ga_serendipity :: "content_item list"
  ga_graph :: graph_db

text \<open>The reader's own items: the candidates, or on a quiet day the fallback, whose identifiers are the
  second component.\<close>

definition own_items ::
  "build_settings \<Rightarrow> world \<Rightarrow> reader \<Rightarrow> moment \<Rightarrow> nat list \<Rightarrow> nat list \<Rightarrow> content_item list \<times> nat set" where
  "own_items cf w u now source_ids feed_ids =
     (let some_feed = (source_ids \<noteq> [] \<or> feed_ids \<noteq> []);
          items = (if some_feed then candidates cf w (us_id u) source_ids feed_ids (window_start u now) else []);
          items = cap_per_source (wanted (us_languages u) items) (cf_per_source_cap cf)
      in if items = [] \<and> some_feed
         then let fallback = wanted (us_languages u) (quiet_day_fallback w now (us_id u) source_ids feed_ids);
                  items = cap_per_source fallback (cf_per_source_cap cf)
              in (items, ci_id ` set items)
         else (items, {}))"

definition add_warmup :: "content_item list \<Rightarrow> content_item list \<Rightarrow> content_item list" where
  "add_warmup items warmup =
     foldl (\<lambda>items x. if ci_id x \<in> ci_id ` set items then items else items @ [x]) items warmup"

definition opted_out :: "world \<Rightarrow> nat set" where
  "opted_out w = set (map us_id (filter us_collaborative_opt_out (wd_users w)))"

definition warmup_for :: "build_settings \<Rightarrow> world \<Rightarrow> reader \<Rightarrow> moment \<Rightarrow> graph_db \<Rightarrow> content_item list \<times> graph_db" where
  "warmup_for cf w u now db =
     get_collaborative_warmup_items (cf_crowd cf) (\<lambda>m. same_model m None (cf_active cf)) (es_name (cf_active cf))
       (us_id u) (opted_out w) now 10 (wd_interactions w) (wd_items w) db"

definition gather :: "build_settings \<Rightarrow> world \<Rightarrow> reader \<Rightarrow> moment \<Rightarrow> gathered" where
  "gather cf w u now =
     (let source_ids = equivalent_source_ids True (us_id u) (gd_sources (wd_graph w));
          feed_ids = user_feed_ids (us_id u) (gd_sources (wd_graph w));
          (items, quiet) = own_items cf w u now source_ids feed_ids;
          (serendipity, db) = select_serendipity_candidates (cf_active cf) w (us_id u) source_ids feed_ids
             (window_start u now) (serendipity_count (length items));
          (items, db) = (if user_age_days u now < NEW_USER_THRESHOLD_DAYS \<and> length items < 10
             then let (warmup, db) = warmup_for cf w u now db in (add_warmup items warmup, db)
             else (items, db))
      in \<lparr>ga_items = items, ga_quiet = quiet, ga_serendipity = serendipity, ga_graph = db\<rparr>)"

subsection \<open>Marks on interactions\<close>

definition is_ix :: "nat \<Rightarrow> nat \<Rightarrow> interaction \<Rightarrow> bool" where
  "is_ix user item ix \<longleftrightarrow> ix_user_id ix = user \<and> ix_content_item_id ix = item"

definition ensure_interaction :: "moment \<Rightarrow> nat \<Rightarrow> bool \<Rightarrow> interaction list \<Rightarrow> nat \<Rightarrow> interaction list" where
  "ensure_interaction now user was_suggested ixs item =
     (if list_ex (is_ix user item) ixs then ixs
      else ixs @ [(new_interaction user item now)\<lparr>ix_was_suggested := was_suggested\<rparr>])"

text \<open>A row that does not change is not written, so its \<open>updated_at\<close> stays.\<close>

definition surfaced :: "moment \<Rightarrow> real \<Rightarrow> interaction \<Rightarrow> interaction" where
  "surfaced now prs ix =
     (let ix' = ix\<lparr>ix_surfaced_in_digest := True, ix_prs_score := Some prs\<rparr>
      in if ix' = ix then ix else ix'\<lparr>ix_updated_at := now\<rparr>)"

definition mark_surfaced_in_digest ::
  "moment \<Rightarrow> nat \<Rightarrow> interaction list \<Rightarrow> nat \<times> real \<Rightarrow> interaction list" where
  "mark_surfaced_in_digest now user ixs p =
     (let (item, prs) = p
      in if list_ex (is_ix user item) ixs then update_where (is_ix user item) (surfaced now prs) ixs
         else ixs @ [(new_interaction user item now)\<lparr>ix_surfaced_in_digest := True, ix_prs_score := Some prs\<rparr>])"

subsection \<open>Ranking and layout\<close>

definition joined :: "world \<Rightarrow> (interaction \<times> content_item) list" where
  "joined w = List.map_filter (\<lambda>ix. map_option (Pair ix)
     (find (\<lambda>i. ci_id i = ix_content_item_id ix) (wd_items w))) (wd_interactions w)"

definition rank_content_for_user ::
  "build_settings \<Rightarrow> world \<Rightarrow> nat \<Rightarrow> moment \<Rightarrow> content_item list \<Rightarrow> nat \<Rightarrow> py_error + row list" where
  "rank_content_for_user cf w user now items limit =
     (let same = (\<lambda>m d. same_model m d (cf_active cf))
      in case load_state same (cf_novelty_target cf) now user (wd_weights w) (joined w) (wd_graph w) of
           Inl e \<Rightarrow> Inl e
         | Inr st \<Rightarrow> map_sum id (\<lambda>out. map (\<lambda>s. (sc_item s, sc_prs s, scored_breakdown s)) (take limit out))
                       (rank same (gd_sources (wd_graph w)) st items))"

text \<open>The discovery rows: ranked ones are marked, the others appended with score 0.\<close>

definition mark_serendipity :: "nat set \<Rightarrow> row \<Rightarrow> row" where
  "mark_serendipity ids r =
     (let (item, prs, bd) = r in (item, prs, if ci_id item \<in> ids then bd\<lparr>bd_serendipity := True\<rparr> else bd))"

definition with_discovery :: "content_item list \<Rightarrow> row list \<Rightarrow> row list" where
  "with_discovery serendipity ranked =
     map (mark_serendipity (ci_id ` set serendipity)) ranked
     @ map (\<lambda>item. (item, 0, empty_breakdown\<lparr>bd_serendipity := True\<rparr>))
         (filter (\<lambda>item. ci_id item \<notin> row_id ` set ranked) serendipity)"

text \<open>The placed rows with their sections, in the order of the digest.\<close>

definition laid_out :: "builder_state \<Rightarrow> (section_name \<times> row) list" where
  "laid_out st = concat (map (\<lambda>name. map (Pair name) (items_of st name)) section_order)"

definition explored :: "(nat \<Rightarrow> real option) \<Rightarrow> nat \<times> section_name \<times> row \<Rightarrow> section_name \<times> row" where
  "explored plan p =
     (let (i, name, item, prs, bd) = p
      in (name, item, prs, case plan i of None \<Rightarrow> bd
            | Some q \<Rightarrow> bd\<lparr>bd_exploration := True, bd_propensity := Some q\<rparr>))"

definition explore :: "bool \<Rightarrow> (nat \<Rightarrow> real) \<Rightarrow> (section_name \<times> row) list \<Rightarrow> (section_name \<times> row) list" where
  "explore exploration_on rng rows =
     (if exploration_on \<and> 6 \<le> length rows
      then let plan = exploration_plan (map (\<lambda>(_, _, prs, _). prs) rows) rng 0.5;
               by_index = foldl (\<lambda>m r. m(ex_index r \<mapsto> ex_propensity r)) Map.empty plan
           in map (explored by_index) (enumerate 0 rows)
      else rows)"

definition lay_out ::
  "build_settings \<Rightarrow> (nat \<Rightarrow> real) \<Rightarrow> (nat \<Rightarrow> real) \<Rightarrow> reader \<Rightarrow> moment \<Rightarrow> content_item list \<Rightarrow> row list
    \<Rightarrow> py_error + (section_name \<times> row) list" where
  "lay_out cf rng rng' u now serendipity ranked =
     map_sum id (\<lambda>ranked.
         explore (cf_exploration cf \<or> user_age_days u now < NEW_USER_THRESHOLD_DAYS) rng'
           (laid_out (build (new_section_builder (us_digest_max_items u) (us_serendipity_percentage u) 0.3)
              (with_discovery serendipity ranked))))
       (let ranked = diversify_ranked ranked
        in if cf_interleaving cf then interleave_ranked ranked rng else Inr ranked)"

subsection \<open>Length and serendipity, learned\<close>

definition LENGTH_FLOOR :: int where "LENGTH_FLOOR = 5"
definition LENGTH_CAP :: int where "LENGTH_CAP = 30"
definition OPEN_FACTOR :: real where "OPEN_FACTOR = 1.25"
definition EMA_ALPHA :: real where "EMA_ALPHA = 0.3"
definition EMA_WINDOW :: nat where "EMA_WINDOW = 10"

definition ema_opened_per_digest :: "real \<Rightarrow> real list \<Rightarrow> real option" where
  "ema_opened_per_digest alpha counts =
     (case counts of [] \<Rightarrow> None
      | c # cs \<Rightarrow> Some (foldl (\<lambda>ema c. alpha * c + (1 - alpha) * ema) c cs))"

definition target_digest_length :: "real option \<Rightarrow> int \<Rightarrow> bool \<Rightarrow> int \<Rightarrow> int \<Rightarrow> real \<Rightarrow> int" where
  "target_digest_length ema current locked shortest longest factor =
     (case ema of None \<Rightarrow> current
      | Some e \<Rightarrow> if locked then current else max shortest (min longest (py_round (factor * e))))"

text \<open>The newest digests of a reader, and how many of the items shown in a digest were opened.\<close>

definition recent_digests :: "world \<Rightarrow> nat \<Rightarrow> nat list" where
  "recent_digests w user = map dg_id (take EMA_WINDOW (sort_desc dg_generated_at
     (filter (\<lambda>d. dg_user_id d = user) (wd_digests w))))"

definition opened_in :: "world \<Rightarrow> nat \<Rightarrow> nat \<Rightarrow> nat" where
  "opened_in w user digest =
     length (filter (\<lambda>ix. ix_user_id ix = user \<and> ix_opened_at ix \<noteq> None
         \<and> list_ex (\<lambda>m. dm_digest_id m = digest \<and> dm_content_item_id m = ix_content_item_id ix) (wd_impressions w))
       (wd_interactions w))"

definition learn_digest_length :: "world \<Rightarrow> reader \<Rightarrow> reader" where
  "learn_digest_length w u =
     (if us_digest_length_locked u then u
      else let digests = recent_digests w (us_id u)
           in if digests = [] then u
              else u\<lparr>us_digest_max_items :=
                target_digest_length
                  (ema_opened_per_digest EMA_ALPHA (map (\<lambda>d. real (opened_in w (us_id u) d)) (rev digests)))
                  (us_digest_max_items u) False LENGTH_FLOOR LENGTH_CAP OPEN_FACTOR\<rparr>)"

text \<open>The topics of what the reader read at least half of in two weeks, with repetitions.\<close>

definition topics_read :: "world \<Rightarrow> nat \<Rightarrow> moment \<Rightarrow> string list" where
  "topics_read w user since =
     concat (map (\<lambda>(ix, item). ci_topic_clusters item)
       (filter (\<lambda>(ix, item). ix_user_id ix = user \<and> since \<le> ix_created_at ix
                  \<and> some_and (ix_read_completion_pct ix) (\<lambda>c. 0.5 \<le> c)) (joined w)))"

definition adjust_serendipity :: "string list \<Rightarrow> int \<Rightarrow> int" where
  "adjust_serendipity topics pct =
     (let total = length topics; ratio = real (card (set topics)) / real (max 1 total)
      in if total \<le> 10 then pct
         else if ratio < 0.3 \<and> pct < 25 then min 25 (pct + 3)
         else if 0.6 < ratio \<and> 10 < pct then max 10 (pct - 2)
         else pct)"

definition adjust_digest_preferences :: "world \<Rightarrow> moment \<Rightarrow> reader \<Rightarrow> reader" where
  "adjust_digest_preferences w now u =
     (let u = learn_digest_length w u
      in u\<lparr>us_serendipity_percentage :=
             adjust_serendipity (topics_read w (us_id u) (now - 14 * 86400)) (us_serendipity_percentage u)\<rparr>)"

subsection \<open>Prompts of the first two weeks\<close>

definition EARLY_PROMPTS :: "(string \<times> string) list" where
  "EARLY_PROMPTS =
    [(''depth_level'', ''Was today's content the right depth, or would you prefer more in-depth analysis?''),
     (''topic_accuracy'', ''Did today's digest match your interests, or did anything feel off-topic?''),
     (''source_quality'', ''Were the sources today high quality and trustworthy for you?''),
     (''depth_level'', ''Were the articles too long, too short, or just right?''),
     (''topic_accuracy'', ''Was there a topic today you'd like to see more of?''),
     (''source_quality'', ''Did you discover any new sources today that you'd like to follow?'')]"

definition prompts_of :: "world \<Rightarrow> nat \<Rightarrow> feedback_prompt list" where
  "prompts_of w user =
     filter (\<lambda>p. list_ex (\<lambda>d. dg_id d = fp_digest_id p \<and> dg_user_id d = user) (wd_digests w)) (wd_prompts w)"

definition prompt_pool :: "feedback_prompt list \<Rightarrow> (string \<times> string) list" where
  "prompt_pool earlier =
     filter (\<lambda>(type, text). \<not> list_ex (\<lambda>p. fp_dismissed p \<and> fp_type p = type) earlier) EARLY_PROMPTS"

definition new_prompt :: "nat \<Rightarrow> nat option \<Rightarrow> string \<times> string \<Rightarrow> feedback_prompt" where
  "new_prompt digest anchor p =
     \<lparr>fp_digest_id = digest, fp_content_item_id = anchor, fp_text = snd p, fp_type = fst p, fp_answered = False,
      fp_dismissed = False, fp_answer = None\<rparr>"

definition generate_feedback_prompts ::
  "feedback_prompt list \<Rightarrow> nat \<Rightarrow> nat option \<Rightarrow> int \<Rightarrow> feedback_prompt list" where
  "generate_feedback_prompts earlier digest anchor age_days =
     (let pool = prompt_pool earlier
      in if pool = [] then []
         else map (\<lambda>i. new_prompt digest (if i = 0 then anchor else None) (pool ! ((length earlier + i) mod length pool)))
                [0..<(if age_days < 7 then 3 else 2)])"

subsection \<open>The digest\<close>

definition digest_row :: "nat \<Rightarrow> nat set \<Rightarrow> (nat \<Rightarrow> story option) \<Rightarrow> nat \<times> section_name \<times> row \<Rightarrow> digest_item" where
  "digest_row digest quiet stories p =
     (let (position, name, item, prs, bd) = p
      in \<lparr>di_digest_id = digest, di_content_item_id = ci_id item, di_position = position, di_section = name,
          di_prs_score = prs, di_breakdown = bd\<lparr>bd_serendipity := False, bd_propensity := None, bd_team := None\<rparr>,
          di_discovered_via = (if ci_discovered_via item = Some [] then None else ci_discovered_via item),
          di_fallback_reason = (if ci_id item \<in> quiet then Some QUIET_FALLBACK_LABEL else None),
          di_story = stories (ci_id item)\<rparr>)"

definition impression_row :: "nat \<Rightarrow> nat \<Rightarrow> nat \<times> section_name \<times> row \<Rightarrow> digest_impression" where
  "impression_row user digest p =
     (let (position, name, item, prs, bd) = p
      in \<lparr>dm_user_id = user, dm_content_item_id = ci_id item, dm_digest_id = digest, dm_section = name,
          dm_position = position, dm_score = prs, dm_features = bd_features bd,
          dm_weights_version = RANKER_VERSION, dm_exploration = bd_exploration bd,
          dm_propensity = or_default (bd_propensity bd) 1, dm_team = bd_team bd, dm_viewed = False\<rparr>)"

definition new_digest :: "nat \<Rightarrow> nat \<Rightarrow> moment \<Rightarrow> (section_name \<times> row) list \<Rightarrow> digest" where
  "new_digest digest user now rows =
     \<lparr>dg_id = digest, dg_user_id = user, dg_generated_at = now,
      dg_section_counts = (\<lambda>name. length (filter (\<lambda>r. fst r = name) rows)), dg_total_items = length rows, dg_opened = False\<rparr>"

definition anchor_item :: "(section_name \<times> row) list \<Rightarrow> nat option" where
  "anchor_item rows = (case rows of [] \<Rightarrow> None | (_, r) # _ \<Rightarrow> Some (row_id r))"

definition store_digest ::
  "nat \<Rightarrow> reader \<Rightarrow> moment \<Rightarrow> nat set \<Rightarrow> (nat \<Rightarrow> story option) \<Rightarrow> (section_name \<times> row) list
    \<Rightarrow> world \<Rightarrow> digest \<times> world" where
  "store_digest digest u now quiet stories rows w =
     (let user = us_id u; d = new_digest digest user now rows; numbered = enumerate 0 rows;
          w = w\<lparr>wd_digests := wd_digests w @ [d],
                wd_digest_items := wd_digest_items w @ map (digest_row digest quiet stories) numbered,
                wd_impressions := wd_impressions w @ map (impression_row user digest) numbered,
                wd_interactions := foldl (mark_surfaced_in_digest now user) (wd_interactions w)
                  (map (\<lambda>(_, item, prs, _). (ci_id item, prs)) rows)\<rparr>;
          age = user_age_days u now
      in (d, if age < NEW_USER_THRESHOLD_DAYS \<and> rows \<noteq> []
             then w\<lparr>wd_prompts := wd_prompts w
                      @ generate_feedback_prompts (prompts_of w user) digest (anchor_item rows) age\<rparr>
             else w))"

definition save_reader :: "reader \<Rightarrow> world \<Rightarrow> world" where
  "save_reader u w = w\<lparr>wd_users := update_where (\<lambda>x. us_id x = us_id u) (\<lambda>_. u) (wd_users w)\<rparr>"

definition build_digest ::
  "build_settings \<Rightarrow> (content_item list \<Rightarrow> string option) \<Rightarrow> (nat \<Rightarrow> real) \<Rightarrow> (nat \<Rightarrow> real)
    \<Rightarrow> nat \<Rightarrow> moment \<Rightarrow> reader \<Rightarrow> world \<Rightarrow> py_error + digest \<times> world" where
  "build_digest cf brief rng rng' digest now u w =
     (let g = gather cf w u now;
          w = w\<lparr>wd_graph := ga_graph g,
                wd_interactions := foldl (ensure_interaction now (us_id u) True) (wd_interactions w)
                  (map ci_id (ga_serendipity g))\<rparr>;
          (items, stories) = synthesize_topic_clusters brief (us_pro u) (ga_items g @ ga_serendipity g);
          limit = nat (max (us_digest_max_items u * 3) 60)
      in case rank_content_for_user cf w (us_id u) now items limit of
           Inl e \<Rightarrow> Inl e
         | Inr ranked \<Rightarrow>
             map_sum id (\<lambda>rows.
                 let u' = adjust_digest_preferences w now u
                 in store_digest digest u' now (ga_quiet g) stories rows (save_reader u' w))
               (lay_out cf rng rng' u now (ga_serendipity g) ranked))"

end
