(* ===== verification/BuildFacts.thy ===== *)
theory BuildFacts
  imports Builder
begin

text \<open>
  What the steps of a digest build pass on. Every step hands over a part of the items it was given
  (as multisets), so what holds for the candidates holds for the rows of the digest.
\<close>

subsection \<open>Parts\<close>

lemma part_filter: "mset (filter P xs) \<subseteq># mset xs"
  by (simp add: mset_filter)

lemma part_take: "mset (take n xs) \<subseteq># mset xs"
  by (metis append_take_drop_id mset_append mset_subset_eq_add_left)

lemma part_set: "mset xs \<subseteq># mset ys \<Longrightarrow> set xs \<subseteq> set ys"
  by (metis set_mset_mono set_mset_mset)

lemma part_map: "mset xs \<subseteq># mset ys \<Longrightarrow> mset (map f xs) \<subseteq># mset (map f ys)"
  by (simp add: image_mset_subseteq_mono)

lemma part_distinct_map: "mset xs \<subseteq># mset ys \<Longrightarrow> distinct (map f ys) \<Longrightarrow> distinct (map f xs)"
  by (rule distinct_submset [OF part_map])

lemma part_of_distinct: "distinct xs \<Longrightarrow> distinct ys \<Longrightarrow> set xs \<subseteq> set ys \<Longrightarrow> mset xs \<subseteq># mset ys"
  by (metis List.finite_set mset_set_set subset_imp_msubset_mset_set)

lemma part_cap_loop: "mset (cap_loop cap counts items) \<subseteq># mset items"
proof (induction items arbitrary: counts)
  case (Cons item items)
  then show ?case by (simp add: Let_def submset_add_mset)
qed simp

lemma part_cap: "mset (cap_per_source items cap) \<subseteq># mset items"
  by (simp add: cap_per_source_def part_cap_loop)

lemma part_wanted: "mset (wanted langs items) \<subseteq># mset items"
  by (simp add: wanted_def Let_def part_filter)

lemma part_candidates: "mset (candidates cf w user sids fids cutoff) \<subseteq># mset (wd_items w)"
proof -
  define pool where "pool = filter (\<lambda>i. eligible w user sids fids cutoff i \<and> ci_rankable i) (wd_items w)"
  have "mset (if 0 < cf_per_source_cap cf then filter P pool else pool) \<subseteq># mset pool" for P
    by (simp add: mset_filter)
  then have "mset (candidates cf w user sids fids cutoff) \<subseteq># mset pool"
    unfolding candidates_def Let_def pool_def [symmetric]
    by (intro subset_mset.order_trans [OF part_take]) simp
  also have "mset pool \<subseteq># mset (wd_items w)" unfolding pool_def by (rule part_filter)
  finally show ?thesis .
qed

lemma part_quiet: "mset (quiet_day_fallback w now user sids fids) \<subseteq># mset (wd_items w)"
  unfolding quiet_day_fallback_def
  by (rule subset_mset.order_trans [OF part_filter], rule subset_mset.order_trans [OF part_take])
    (simp add: part_filter del: mset_filter)

lemma part_adjacent: "mset (adjacent_items active v pool) \<subseteq># mset pool"
  by (simp add: adjacent_items_def mset_filter)

lemma part_serendipity_pool:
  "mset (fst (select_serendipity_candidates active w user sids fids cutoff n))
    \<subseteq># mset (serendipity_pool w sids fids cutoff)"
  unfolding select_serendipity_candidates_def Let_def
  by (auto split: prod.split option.split
      intro: subset_mset.order_trans [OF part_take] part_adjacent)

lemma part_serendipity:
  "mset (fst (select_serendipity_candidates active w user sids fids cutoff n)) \<subseteq># mset (wd_items w)"
  by (rule subset_mset.order_trans [OF part_serendipity_pool]) (simp only: serendipity_pool_def part_filter)

lemma part_cards: "mset (fst (synthesize_topic_clusters brief briefing items)) \<subseteq># mset items"
proof (cases "length items < 2")
  case True
  then show ?thesis by (simp add: synthesize_topic_clusters_def)
next
  case False
  define cs where "cs = cluster_stories items EMBED_THRESHOLD TITLE_THRESHOLD"
  have heads: "mset (map hd cs) \<subseteq># mset (concat cs)" if "[] \<notin> set cs" for cs :: "nat list list"
    using that
  proof (induction cs)
    case (Cons c cs)
    then obtain x xs where "c = x # xs" by (cases c) auto
    with Cons show ?case by (simp add: subset_mset.add_increasing)
  qed simp
  have "mset (concat cs) = mset [0..<length items]" "[] \<notin> set cs"
    using stories_run_ok [of items "story_width items" "length items" EMBED_THRESHOLD TITLE_THRESHOLD]
    by (auto simp: stories_ok_def cs_def cluster_stories_def list_all_iff)
  with heads have "mset (map hd cs) \<subseteq># mset [0..<length items]" by metis
  then have "mset (map (\<lambda>i. items ! i) (map hd cs)) \<subseteq># mset (map (\<lambda>i. items ! i) [0..<length items])"
    by (rule part_map)
  with False show ?thesis
    by (simp add: synthesize_topic_clusters_def Let_def cs_def map_nth del: mset_map) (simp add: o_def)
qed

subsection \<open>What is gathered\<close>

lemma own_items_origin:
  "\<exists>items. fst (own_items cf w u now sids fids) = cap_per_source (wanted (us_languages u) items) (cf_per_source_cap cf)
    \<and> items \<in> {[], candidates cf w (us_id u) sids fids (window_start u now), quiet_day_fallback w now (us_id u) sids fids}"
  unfolding own_items_def Let_def fst_conv if_distrib [of fst] by (cases "sids \<noteq> [] \<or> fids \<noteq> []") auto

lemma own_items_part: "mset (fst (own_items cf w u now sids fids)) \<subseteq># mset (wd_items w)"
proof -
  obtain items where i: "fst (own_items cf w u now sids fids)
      = cap_per_source (wanted (us_languages u) items) (cf_per_source_cap cf)"
    "mset items \<subseteq># mset (wd_items w)"
    using own_items_origin [of cf w u now sids fids] part_candidates part_quiet by auto
  show ?thesis
    unfolding i(1) by (rule subset_mset.order_trans [OF part_cap], rule subset_mset.order_trans [OF part_wanted i(2)])
qed

definition followable :: "world \<Rightarrow> nat \<Rightarrow> nat list \<Rightarrow> nat list \<Rightarrow> content_item \<Rightarrow> bool" where
  "followable w user sids fids item \<longleftrightarrow> from_user_feeds sids fids item \<and> visible_item user item
     \<and> not_blocked_filter (wd_takedowns w) item \<and> ci_rankable item"

lemma candidates_followable:
  "set (candidates cf w user sids fids cutoff) \<subseteq> Collect (followable w user sids fids)"
  by (auto simp: candidates_def Let_def followable_def eligible_def dest!: in_set_takeD split: if_splits)

lemma quiet_followable:
  "set (quiet_day_fallback w now user sids fids) \<subseteq> Collect (followable w user sids fids)"
  by (auto simp: quiet_day_fallback_def followable_def eligible_def dest!: in_set_takeD)

lemma own_items_followable:
  "set (fst (own_items cf w u now sids fids)) \<subseteq> Collect (followable w (us_id u) sids fids)"
proof -
  obtain items where i: "fst (own_items cf w u now sids fids)
      = cap_per_source (wanted (us_languages u) items) (cf_per_source_cap cf)"
    "set items \<subseteq> Collect (followable w (us_id u) sids fids)"
    using own_items_origin [of cf w u now sids fids] candidates_followable quiet_followable by force
  show ?thesis unfolding i(1) using part_set [OF part_cap] part_set [OF part_wanted] i(2) by blast
qed

lemma serendipity_pool_public:
  assumes "item \<in> set (serendipity_pool w sids fids cutoff)"
  shows "item \<in> set (wd_items w) \<and> ci_owner_user_id item = None \<and> not_blocked_filter (wd_takedowns w) item
    \<and> (sids \<noteq> [] \<or> fids \<noteq> [] \<longrightarrow> \<not> from_user_feeds sids fids item)"
  using assms
  by (auto simp: serendipity_pool_def outside_user_feeds_def from_user_feeds_def some_and_def split: option.splits)

lemma add_warmup_set: "set (add_warmup items warmup) \<subseteq> set items \<union> set warmup"
  unfolding add_warmup_def by (induction warmup rule: rev_induct) auto

lemma add_warmup_distinct: "distinct (map ci_id items) \<Longrightarrow> distinct (map ci_id (add_warmup items warmup))"
  unfolding add_warmup_def by (induction warmup rule: rev_induct) auto

subsection \<open>What is ranked\<close>

lemma rank_part:
  assumes "rank_content_for_user cf w user now items limit = Inr ranked"
  shows "mset (map fst ranked) \<subseteq># mset items"
proof -
  obtain st out where out: "rank (\<lambda>m d. same_model m d (cf_active cf)) (gd_sources (wd_graph w)) st items = Inr out"
    and r: "ranked = map (\<lambda>s. (sc_item s, sc_prs s, scored_breakdown s)) (take limit out)"
    using assms by (auto simp: rank_content_for_user_def Let_def map_sum_def split: sum.splits)
  have "mset (map sc_item out) = mset items"
  proof (cases "items = []")
    case False
    then obtain st' sc where sc: "score_candidates (\<lambda>m d. same_model m d (cf_active cf)) st' items = Inr sc"
      and o: "out = sort_desc sc_prs sc"
      using out by (auto simp: rank_def rank_candidates_def map_sum_def split: sum.splits)
    have "mset (map sc_item out) = mset (map sc_item sc)" by (simp add: o)
    then show ?thesis by (simp only: score_candidates_ok(2) [OF sc])
  qed (use out in \<open>simp add: rank_def\<close>)
  then show ?thesis
    using part_take [of limit "map sc_item out"] by (simp add: r o_def take_map)
qed

lemma diversify_part: "mset (diversify_ranked ranked) \<subseteq># mset ranked"
proof (cases "length ranked < 3")
  case False
  define p where "p = rank_pool ranked"
  define chosen where "chosen = pk_chosen (diversify_picks p 0.7 0.3 0 0.92)"
  have "picks_ok p (cap_of (length (pl_scores p)) 0.3) 0.92 (diversify_picks p 0.7 0.3 0 0.92)"
    by (rule diversify_picks_ok)
  moreover have "length (pl_scores p) = length ranked" by (simp add: p_def rank_pool_def)
  ultimately have "distinct chosen" "set chosen \<subseteq> set [0..<length ranked]"
    by (auto simp: picks_ok_def chosen_def)
  then have "mset chosen \<subseteq># mset [0..<length ranked]"
    by (intro part_of_distinct) simp_all
  then have "mset (map ((!) ranked) chosen) \<subseteq># mset (map ((!) ranked) [0..<length ranked])" by (rule part_map)
  moreover have "diversify_ranked ranked = map ((!) ranked) chosen"
    using False by (simp add: diversify_ranked_def Let_def diversify_def p_def chosen_def pool_eta)
  ultimately show ?thesis by (simp only: map_nth)
qed (simp add: diversify_ranked_def)

lemma interleave_total: "\<exists>out. interleave_ranked ranked rng = Inr out"
proof -
  let ?d = "team_draft (map row_id ranked) (map row_id (baseline_order ranked)) rng"
  have "fst ` set ?d = row_id ` set ranked"
    using team_draft_fix [of "map row_id ranked" "map row_id (baseline_order ranked)" rng]
    by (simp add: baseline_order_def)
  then have "\<exists>r. by_id ranked (fst p) = Some r" if "p \<in> set ?d" for p
    using by_id_Some that by blast
  then have "\<not> list_ex (\<lambda>(i, _). by_id ranked i = None) ?d" by (fastforce simp: list_ex_iff)
  then show ?thesis by (simp add: interleave_ranked_def Let_def)
qed

lemma interleave_part:
  assumes "interleave_ranked ranked rng = Inr out"
  shows "distinct (map row_id out)" "fst ` set out \<subseteq> fst ` set ranked" "row_id ` set out = row_id ` set ranked"
proof -
  let ?d = "team_draft (map row_id ranked) (map row_id (baseline_order ranked)) rng"
  have d: "distinct (map fst ?d)" "fst ` set ?d = row_id ` set ranked"
    using team_draft_fix [of "map row_id ranked" "map row_id (baseline_order ranked)" rng]
    by (simp_all add: baseline_order_def)
  have out: "out = map (tag_row ranked) ?d"
    using assms by (simp add: interleave_ranked_def Let_def split: if_splits)
  have tag: "row_id (tag_row ranked p) = fst p \<and> fst (tag_row ranked p) \<in> fst ` set ranked" if p: "p \<in> set ?d" for p
  proof -
    obtain r where r: "by_id ranked (fst p) = Some r" "r \<in> set ranked" "row_id r = fst p"
      using by_id_Some d(2) p by blast
    from tag_row_props(1,2) [OF r(1,3)] r(2) show ?thesis by (auto simp: unscored_def)
  qed
  then have "map row_id out = map fst ?d" by (simp add: out)
  with d show "distinct (map row_id out)" "row_id ` set out = row_id ` set ranked"
    by (simp, metis list.set_map)
  show "fst ` set out \<subseteq> fst ` set ranked" using tag by (auto simp: out)
qed

lemma with_discovery_items: "fst ` set (with_discovery serendipity ranked) \<subseteq> fst ` set ranked \<union> set serendipity"
  by (auto simp: with_discovery_def mark_serendipity_def split: prod.splits) force

lemma mark_serendipity_id [simp]: "row_id (mark_serendipity ids r) = row_id r"
  by (simp add: mark_serendipity_def row_id_def split: prod.split)

lemma with_discovery_ids:
  "map row_id (with_discovery serendipity ranked)
    = map row_id ranked @ map ci_id (filter (\<lambda>i. ci_id i \<notin> row_id ` set ranked) serendipity)"
  by (simp add: with_discovery_def o_def)

lemma with_discovery_distinct:
  assumes "distinct (map row_id ranked)" "distinct (map ci_id serendipity)"
  shows "distinct (map row_id (with_discovery serendipity ranked))"
proof -
  have "row_id ` set ranked \<inter> ci_id ` {i \<in> set serendipity. ci_id i \<notin> row_id ` set ranked} = {}"
    by (intro equals0I) (elim IntE imageE CollectE conjE, metis imageI)
  then show ?thesis
    using assms(1) part_distinct_map [OF part_filter assms(2)] by (simp add: with_discovery_ids)
qed

subsection \<open>What is placed\<close>

definition drawn_from :: "row set \<Rightarrow> builder_state \<Rightarrow> bool" where
  "drawn_from R st \<longleftrightarrow> set (placed st) \<subseteq> R"

lemma drawn_place: "drawn_from R st \<Longrightarrow> r \<in> R \<Longrightarrow> drawn_from R (place name r st)"
proof (cases "full st name")
  case False
  assume "drawn_from R st" "r \<in> R"
  moreover have "set (placed (place name r st)) = set (r # placed st)"
    using placed_place_mset [OF False] by (rule mset_eq_setD)
  ultimately show ?thesis by (simp add: drawn_from_def)
qed simp

lemma drawn_open_more: "drawn_from R st \<Longrightarrow> drawn_from R (open_more b st)"
  by (simp add: drawn_from_def placed_def section_order_def)

lemma drawn_fill_discovery: "drawn_from R st \<Longrightarrow> set rows \<subseteq> R \<Longrightarrow> drawn_from R (fill_discovery st rows)"
  by (induction rows arbitrary: st) (simp_all add: Let_def drawn_place)

lemma drawn_fill_section: "drawn_from R st \<Longrightarrow> set rows \<subseteq> R \<Longrightarrow> drawn_from R (fill_section cap name P st rows)"
  by (induction rows arbitrary: st) (simp_all add: Let_def drawn_place)

lemma drawn_fill_more: "drawn_from R st \<Longrightarrow> set rows \<subseteq> R \<Longrightarrow> drawn_from R (fill_more cap st rows)"
  by (induction rows arbitrary: st) (simp_all add: drawn_place)

lemma drawn_emit: "drawn_from R st \<Longrightarrow> set rows \<subseteq> R \<Longrightarrow> drawn_from R (emit_creators cap st rows)"
  by (induction rows arbitrary: st) (simp_all add: drawn_place)

lemma drawn_fill_creators: "drawn_from R st \<Longrightarrow> set rows \<subseteq> R \<Longrightarrow> drawn_from R (fill_creators cap st rows)"
  using part_set [OF creator_order_sound(1) [of cap st rows]] by (simp add: fill_creators_def drawn_emit)

lemma placed_build: "set (placed (build b ranked)) \<subseteq> set ranked"
proof -
  have "drawn_from (set ranked) (Sections.initial_state b)"
    by (simp add: drawn_from_def placed_def section_order_def items_of_def Sections.initial_state_def initial_sections_def)
  then have "drawn_from (set ranked) (build b ranked)"
    unfolding build_def Let_def
    by (intro drawn_fill_more drawn_open_more drawn_fill_section drawn_fill_creators drawn_fill_discovery)
      simp_all
  then show ?thesis by (simp add: drawn_from_def)
qed

lemma laid_out_rows: "map snd (laid_out st) = placed st"
  by (simp add: laid_out_def placed_def map_concat o_def)

lemma explored_item: "fst (snd (explored plan p)) = fst (snd (snd p)) \<and> fst (explored plan p) = fst (snd p)
    \<and> fst (snd (snd (explored plan p))) = fst (snd (snd (snd p)))"
  by (simp add: explored_def split: prod.split)

definition placed_item :: "section_name \<times> row \<Rightarrow> section_name \<times> content_item \<times> real" where
  "placed_item r = (fst r, fst (snd r), fst (snd (snd r)))"

lemma explore_items: "map placed_item (explore on rng rows) = map placed_item rows"
proof -
  have "map placed_item (map (explored plan) (enumerate n rows)) = map placed_item rows" for plan n
    by (rule nth_equalityI) (simp_all add: placed_item_def explored_item nth_enumerate_eq)
  then show ?thesis by (simp add: explore_def Let_def)
qed

end
