(* ===== verification/DigestBuild.thy ===== *)
theory DigestBuild
  imports BuildFacts
begin

text \<open>
  The correctness of a digest build: the records it writes agree with each other, it shows nothing
  the reader may not see, it shows nothing twice, and it returns. And the bounds of what the
  length and serendipity learners write.
\<close>

subsection \<open>The rows of a digest\<close>

lemma lay_out_rows:
  assumes "lay_out cf rng rng' u now serendipity ranked = Inr rows"
  obtains ranked' where
    "ranked' = diversify_ranked ranked \<or> interleave_ranked (diversify_ranked ranked) rng = Inr ranked'"
    "rows = explore (cf_exploration cf \<or> user_age_days u now < NEW_USER_THRESHOLD_DAYS) rng'
       (laid_out (build (new_section_builder (us_digest_max_items u) (us_serendipity_percentage u) 0.3)
          (with_discovery serendipity ranked')))"
proof (cases "cf_interleaving cf")
  case True
  with assms that show ?thesis by (auto simp: lay_out_def Let_def map_sum_def split: sum.splits)
next
  case False
  with assms show ?thesis by (intro that [of "diversify_ranked ranked"]) (simp_all add: lay_out_def Let_def)
qed

lemma explored_rows: "map (fst \<circ> snd) (explore on rng rows) = map (fst \<circ> snd) rows"
proof -
  have "map (fst \<circ> snd \<circ> placed_item) (explore on rng rows) = map (fst \<circ> snd \<circ> placed_item) rows"
    using arg_cong [OF explore_items, of "map (fst \<circ> snd)"] by simp
  then show ?thesis by (simp add: placed_item_def o_def)
qed

lemma lay_out_items:
  assumes "lay_out cf rng rng' u now serendipity ranked = Inr rows"
  shows "(fst \<circ> snd) ` set rows \<subseteq> fst ` set ranked \<union> set serendipity"
proof -
  obtain ranked' where r: "ranked' = diversify_ranked ranked
      \<or> interleave_ranked (diversify_ranked ranked) rng = Inr ranked'"
    and rows: "rows = explore (cf_exploration cf \<or> user_age_days u now < NEW_USER_THRESHOLD_DAYS) rng'
       (laid_out (build (new_section_builder (us_digest_max_items u) (us_serendipity_percentage u) 0.3)
          (with_discovery serendipity ranked')))"
    using assms by (rule lay_out_rows)
  let ?b = "build (new_section_builder (us_digest_max_items u) (us_serendipity_percentage u) 0.3)
      (with_discovery serendipity ranked')"
  have "map (fst \<circ> snd) rows = map fst (placed ?b)"
    unfolding rows explored_rows by (simp flip: laid_out_rows)
  then have "(fst \<circ> snd) ` set rows = fst ` set (placed ?b)" by (metis list.set_map)
  also have "\<dots> \<subseteq> fst ` set (with_discovery serendipity ranked')" using placed_build by (rule image_mono)
  also have "\<dots> \<subseteq> fst ` set ranked' \<union> set serendipity" by (rule with_discovery_items)
  also have "fst ` set ranked' \<subseteq> fst ` set ranked"
    using r interleave_part(2) part_set [OF diversify_part] by blast
  finally show ?thesis by blast
qed

lemma lay_out_distinct:
  assumes "lay_out cf rng rng' u now serendipity ranked = Inr rows"
    and "distinct (map row_id ranked)" "distinct (map ci_id serendipity)"
  shows "distinct (map (row_id \<circ> snd) rows)"
proof -
  obtain ranked' where r: "ranked' = diversify_ranked ranked
      \<or> interleave_ranked (diversify_ranked ranked) rng = Inr ranked'"
    and rows: "rows = explore (cf_exploration cf \<or> user_age_days u now < NEW_USER_THRESHOLD_DAYS) rng'
       (laid_out (build (new_section_builder (us_digest_max_items u) (us_serendipity_percentage u) 0.3)
          (with_discovery serendipity ranked')))"
    using assms(1) by (rule lay_out_rows)
  let ?b = "build (new_section_builder (us_digest_max_items u) (us_serendipity_percentage u) 0.3)
      (with_discovery serendipity ranked')"
  have "distinct (map row_id ranked')"
    using r interleave_part(1) part_distinct_map [OF diversify_part assms(2)] by blast
  then have "distinct (map row_id (with_discovery serendipity ranked'))"
    using assms(3) by (rule with_discovery_distinct)
  then have d: "distinct (map row_id (placed ?b))" using build_ok(1) by (simp add: books_ok_def)
  have "map (fst \<circ> snd) rows = map fst (placed ?b)"
    unfolding rows explored_rows by (simp flip: laid_out_rows)
  then have "map ci_id (map (fst \<circ> snd) rows) = map ci_id (map fst (placed ?b))" by simp
  with d show ?thesis by (simp add: row_id_def [abs_def] o_def)
qed

subsection \<open>The build, step by step\<close>

text \<open>\<open>built\<close> relates a build to the values it computes on its way.\<close>

definition marked :: "moment \<Rightarrow> reader \<Rightarrow> gathered \<Rightarrow> world \<Rightarrow> world" where
  "marked now u g w = w\<lparr>wd_graph := ga_graph g,
     wd_interactions := foldl (ensure_interaction now (us_id u) True) (wd_interactions w)
       (map ci_id (ga_serendipity g))\<rparr>"

lemma build_digest_steps:
  assumes "build_digest cf brief rng rng' digest now u w = Inr (d, w')"
  obtains items stories ranked rows where
    "synthesize_topic_clusters brief (us_pro u) (ga_items (gather cf w u now) @ ga_serendipity (gather cf w u now))
       = (items, stories)"
    "rank_content_for_user cf (marked now u (gather cf w u now) w) (us_id u) now items
       (nat (max (us_digest_max_items u * 3) 60)) = Inr ranked"
    "lay_out cf rng rng' u now (ga_serendipity (gather cf w u now)) ranked = Inr rows"
    "(d, w') = store_digest digest (adjust_digest_preferences (marked now u (gather cf w u now) w) now u) now
       (ga_quiet (gather cf w u now)) stories rows
       (save_reader (adjust_digest_preferences (marked now u (gather cf w u now) w) now u)
          (marked now u (gather cf w u now) w))"
proof -
  obtain items stories where s: "synthesize_topic_clusters brief (us_pro u)
      (ga_items (gather cf w u now) @ ga_serendipity (gather cf w u now)) = (items, stories)"
    by (rule prod.exhaust)
  show ?thesis
    using assms that [OF s] unfolding build_digest_def Let_def s prod.case marked_def [symmetric]
    by (auto simp: map_sum_def split: sum.splits)
qed

subsection \<open>What is logged of exploration\<close>

definition bd_of :: "row \<Rightarrow> breakdown" where
  "bd_of r = snd (snd r)"

definition plain :: "row \<Rightarrow> bool" where
  "plain r \<longleftrightarrow> bd_propensity (bd_of r) = None \<and> \<not> bd_exploration (bd_of r)"

definition logged_ok :: "nat \<Rightarrow> breakdown \<Rightarrow> bool" where
  "logged_ok i bd \<longleftrightarrow> (case bd_propensity bd of
     None \<Rightarrow> \<not> bd_exploration bd
   | Some q \<Rightarrow> bd_exploration bd \<and> 5 \<le> i \<and> 0 < q \<and> q \<le> 1)"

lemma rank_plain:
  assumes "rank_content_for_user cf w user now items limit = Inr ranked"
  shows "list_all plain ranked"
  using assms
  by (auto simp: rank_content_for_user_def Let_def map_sum_def list_all_iff plain_def bd_of_def scored_breakdown_def
      empty_breakdown_def split: sum.splits)

lemma interleave_plain:
  assumes "interleave_ranked ranked rng = Inr out" "list_all plain ranked"
  shows "list_all plain out"
proof -
  let ?d = "team_draft (map row_id ranked) (map row_id (baseline_order ranked)) rng"
  have d: "fst ` set ?d = row_id ` set ranked"
    using team_draft_fix [of "map row_id ranked" "map row_id (baseline_order ranked)" rng]
    by (simp add: baseline_order_def)
  have "plain (tag_row ranked p)" if p: "p \<in> set ?d" for p
  proof -
    obtain r where "by_id ranked (fst p) = Some r" "r \<in> set ranked"
      using by_id_Some d p by blast
    with assms(2) show ?thesis by (auto simp: tag_row_def plain_def bd_of_def list_all_iff split: prod.split)
  qed
  moreover have "out = map (tag_row ranked) ?d"
    using assms(1) by (simp add: interleave_ranked_def Let_def split: if_splits)
  ultimately show ?thesis by (auto simp: list_all_iff)
qed

lemma with_discovery_plain: "list_all plain ranked \<Longrightarrow> list_all plain (with_discovery serendipity ranked)"
proof -
  have "plain (mark_serendipity ids r) = plain r" for ids r
    by (cases r) (simp add: mark_serendipity_def plain_def bd_of_def)
  moreover have "plain (item, 0, empty_breakdown\<lparr>bd_serendipity := True\<rparr>)" for item
    by (simp add: plain_def bd_of_def empty_breakdown_def)
  ultimately show "list_all plain ranked \<Longrightarrow> list_all plain (with_discovery serendipity ranked)"
    by (auto simp: with_discovery_def list_all_iff)
qed

lemma plan_lookup:
  "foldl (\<lambda>m r. m(ex_index r \<mapsto> ex_propensity r)) Map.empty plan i = Some q
    \<Longrightarrow> \<exists>r \<in> set plan. ex_index r = i \<and> ex_propensity r = q"
  by (induction plan rule: rev_induct) (auto split: if_splits)

lemma explore_logged:
  assumes "list_all (plain \<circ> snd) rows" "i < length rows"
  shows "logged_ok i (bd_of (snd (explore on rng rows ! i)))"
proof -
  have p: "plain (snd (rows ! i))" using assms by (simp add: list_all_length)
  show ?thesis
  proof (cases "on \<and> 6 \<le> length rows")
    case False
    with p show ?thesis by (auto simp: explore_def plain_def logged_ok_def)
  next
    case True
    define plan where "plan = exploration_plan (map (\<lambda>(_, _, prs, _). prs) rows) rng 0.5"
    define by_index where "by_index = foldl (\<lambda>m r. m(ex_index r \<mapsto> ex_propensity r)) Map.empty plan"
    have ok: "\<forall>r \<in> set plan. 5 \<le> ex_index r \<and> 0 < ex_propensity r \<and> ex_propensity r \<le> 1"
      using exploration_plan_fix [of "map (\<lambda>(_, _, prs, _). prs) rows" rng "0.5"] True by (simp add: plan_def)
    have row: "explore on rng rows ! i = explored by_index (i, rows ! i)"
      using True assms(2) by (simp add: explore_def Let_def plan_def by_index_def nth_enumerate_eq)
    show ?thesis
    proof (cases "by_index i")
      case None
      with p show ?thesis by (simp add: row explored_def plain_def logged_ok_def bd_of_def split: prod.split)
    next
      case (Some q)
      with ok plan_lookup have "5 \<le> i \<and> 0 < q \<and> q \<le> 1" by (fastforce simp: by_index_def)
      with Some show ?thesis by (simp add: row explored_def logged_ok_def bd_of_def split: prod.split)
    qed
  qed
qed

lemma lay_out_logged:
  assumes "lay_out cf rng rng' u now serendipity ranked = Inr rows" "list_all plain ranked" "i < length rows"
  shows "logged_ok i (bd_of (snd (rows ! i)))"
proof -
  obtain ranked' where r: "ranked' = diversify_ranked ranked
      \<or> interleave_ranked (diversify_ranked ranked) rng = Inr ranked'"
    and rows: "rows = explore (cf_exploration cf \<or> user_age_days u now < NEW_USER_THRESHOLD_DAYS) rng'
       (laid_out (build (new_section_builder (us_digest_max_items u) (us_serendipity_percentage u) 0.3)
          (with_discovery serendipity ranked')))"
    using assms(1) by (rule lay_out_rows)
  let ?l = "laid_out (build (new_section_builder (us_digest_max_items u) (us_serendipity_percentage u) 0.3)
      (with_discovery serendipity ranked'))"
  have "list_all plain (diversify_ranked ranked)"
    using assms(2) part_set [OF diversify_part] by (auto simp: list_all_iff)
  then have "list_all plain ranked'" using r interleave_plain by blast
  then have "list_all plain (with_discovery serendipity ranked')" by (rule with_discovery_plain)
  then have "list_all plain (map snd ?l)"
    using placed_build by (fastforce simp: laid_out_rows list_all_iff)
  then have "list_all (plain \<circ> snd) ?l" by (simp add: list_all_iff)
  moreover have "length rows = length ?l"
    unfolding rows by (metis explore_items length_map)
  ultimately show ?thesis using assms(3) explore_logged by (simp only: rows)
qed

subsection \<open>The records of a digest\<close>

definition same_placement :: "nat \<Rightarrow> digest_item \<Rightarrow> digest_impression \<Rightarrow> bool" where
  "same_placement user di dm \<longleftrightarrow> dm_user_id dm = user \<and> dm_digest_id dm = di_digest_id di
     \<and> dm_content_item_id dm = di_content_item_id di \<and> dm_position dm = di_position di
     \<and> dm_section dm = di_section di \<and> dm_score dm = di_prs_score di
     \<and> dm_features dm = bd_features (di_breakdown di) \<and> dm_exploration dm = bd_exploration (di_breakdown di)"

lemma same_placement_rows:
  "same_placement user (digest_row digest quiet stories p) (impression_row user digest p)"
  by (simp add: same_placement_def digest_row_def impression_row_def split: prod.split)

lemma surfaced_props: "ix_surfaced_in_digest (surfaced now prs ix)" "is_ix u i (surfaced now prs ix) = is_ix u i ix"
proof -
  show "ix_surfaced_in_digest (surfaced now prs ix)"
  proof (cases "ix\<lparr>ix_surfaced_in_digest := True, ix_prs_score := Some prs\<rparr> = ix")
    case True
    from arg_cong [OF True, of ix_surfaced_in_digest] show ?thesis by (simp add: surfaced_def Let_def)
  qed (simp add: surfaced_def Let_def)
qed (simp add: surfaced_def Let_def is_ix_def)

definition shown :: "nat \<Rightarrow> nat \<Rightarrow> interaction list \<Rightarrow> bool" where
  "shown user i ixs \<longleftrightarrow> list_ex (is_ix user i) ixs
     \<and> list_all (\<lambda>ix. is_ix user i ix \<longrightarrow> ix_surfaced_in_digest ix) ixs"

lemma shown_map:
  assumes "\<And>ix. is_ix user i (g ix) = is_ix user i ix"
  shows "shown user i (map g ixs) \<longleftrightarrow> list_ex (is_ix user i) ixs
    \<and> list_all (\<lambda>ix. is_ix user i ix \<longrightarrow> ix_surfaced_in_digest (g ix)) ixs"
  by (simp add: shown_def list.pred_map list_ex_iff o_def assms)

lemma is_ix_update: "is_ix user i (if is_ix user j ix then surfaced now prs ix else ix) = is_ix user i ix"
  by (simp add: surfaced_props)

lemma shown_update:
  assumes "list_ex (is_ix user (fst p)) ixs"
  shows "shown user (fst p) (update_where (is_ix user (fst p)) (surfaced now prs) ixs)"
  unfolding update_where_def shown_map [OF is_ix_update]
  using assms by (simp add: surfaced_props(1) list_all_iff)

lemma shown_keep:
  assumes "shown user i ixs"
  shows "shown user i (update_where (is_ix user j) (surfaced now prs) ixs)"
  unfolding update_where_def shown_map [OF is_ix_update]
  using assms by (simp add: shown_def list_all_iff surfaced_props(1))

lemma is_ix_new: "is_ix user i ((new_interaction user j now)\<lparr>ix_surfaced_in_digest := b, ix_prs_score := s\<rparr>) \<longleftrightarrow> i = j"
  by (auto simp: is_ix_def new_interaction_def)

lemma mark_shown: "shown user (fst p) (mark_surfaced_in_digest now user ixs p)"
proof (cases "list_ex (is_ix user (fst p)) ixs")
  case True
  with shown_update [OF True] show ?thesis by (simp add: mark_surfaced_in_digest_def split_beta)
next
  case False
  then show ?thesis
    by (simp add: mark_surfaced_in_digest_def split_beta shown_def is_ix_new) (simp add: list_all_iff list_ex_iff)
qed

lemma mark_keeps:
  assumes "shown user i ixs"
  shows "shown user i (mark_surfaced_in_digest now user ixs p)"
proof (cases "list_ex (is_ix user (fst p)) ixs")
  case True
  with shown_keep [OF assms] show ?thesis by (simp add: mark_surfaced_in_digest_def split_beta)
next
  case False
  with assms show ?thesis by (simp add: mark_surfaced_in_digest_def split_beta shown_def)
qed

lemma shown_all: "list_all (\<lambda>p. shown user (fst p) (foldl (mark_surfaced_in_digest now user) ixs ps)) ps"
proof (induction ps rule: rev_induct)
  case (snoc p ps)
  then show ?case using mark_keeps mark_shown by (simp add: list_all_iff)
qed simp

lemma adjusted_reader [simp]: "us_id (adjust_digest_preferences w now u) = us_id u"
  by (simp add: adjust_digest_preferences_def learn_digest_length_def Let_def)

definition fair_log :: "digest_impression \<Rightarrow> bool" where
  "fair_log dm \<longleftrightarrow> 0 < dm_propensity dm \<and> dm_propensity dm \<le> 1
     \<and> (if dm_exploration dm then 5 \<le> dm_position dm else dm_propensity dm = 1)"

lemma logged_fair: "logged_ok (fst p) (bd_of (snd (snd p))) \<Longrightarrow> fair_log (impression_row user digest p)"
  by (auto simp: logged_ok_def fair_log_def impression_row_def bd_of_def or_default_def split: prod.split option.splits)

text \<open>What a stored digest consists of, when every row is logged right.\<close>

definition digest_ok :: "nat \<Rightarrow> nat \<Rightarrow> digest \<Rightarrow> digest_item list \<Rightarrow> digest_impression list \<Rightarrow> interaction list \<Rightarrow> bool" where
  "digest_ok digest user d items imps ixs \<longleftrightarrow>
     dg_id d = digest \<and> dg_user_id d = user \<and> dg_total_items d = length items
     \<and> map di_position items = [0..<length items]
     \<and> list_all2 (same_placement user) items imps
     \<and> (\<forall>name. dg_section_counts d name = length (filter (\<lambda>di. di_section di = name) items))
     \<and> list_all (\<lambda>di. di_digest_id di = digest \<and> shown user (di_content_item_id di) ixs) items
     \<and> list_all fair_log imps"

lemma digest_row_fields [simp]:
  "di_digest_id (digest_row digest quiet stories p) = digest" "di_position (digest_row digest quiet stories p) = fst p"
  "di_section (digest_row digest quiet stories p) = fst (snd p)"
  "di_content_item_id (digest_row digest quiet stories p) = row_id (snd (snd p))"
  by (simp_all add: digest_row_def row_id_def split: prod.split)

lemma store_digest_ok:
  assumes "store_digest digest u now quiet stories rows w = (d, w')"
    and "\<And>i. i < length rows \<Longrightarrow> logged_ok i (bd_of (snd (rows ! i)))"
  shows "wd_digests w' = wd_digests w @ [d]
    \<and> wd_digest_items w' = wd_digest_items w @ map (digest_row digest quiet stories) (enumerate 0 rows)
    \<and> wd_impressions w' = wd_impressions w @ map (impression_row (us_id u) digest) (enumerate 0 rows)
    \<and> digest_ok digest (us_id u) d (map (digest_row digest quiet stories) (enumerate 0 rows))
        (map (impression_row (us_id u) digest) (enumerate 0 rows)) (wd_interactions w')"
proof -
  let ?n = "enumerate 0 rows"
  let ?ps = "map (\<lambda>(_, item, prs, _). (ci_id item, prs)) rows"
  have d: "d = new_digest digest (us_id u) now rows"
    and i: "wd_interactions w' = foldl (mark_surfaced_in_digest now (us_id u)) (wd_interactions w) ?ps"
    and t: "wd_digests w' = wd_digests w @ [d]"
      "wd_digest_items w' = wd_digest_items w @ map (digest_row digest quiet stories) ?n"
      "wd_impressions w' = wd_impressions w @ map (impression_row (us_id u) digest) ?n"
    using assms(1) by (auto simp: store_digest_def Let_def split: if_splits)
  have "map (\<lambda>p. row_id (snd p)) rows = map fst ?ps"
    by (simp add: row_id_def split_beta)
  then have "(\<lambda>p. row_id (snd p)) ` set rows = fst ` set ?ps" by (metis list.set_map)
  then have "\<forall>r \<in> set rows. shown (us_id u) (row_id (snd r)) (wd_interactions w')"
    unfolding i using shown_all [of "us_id u" now "wd_interactions w" ?ps] by (fastforce simp: list_all_iff)
  then have s: "list_all (\<lambda>di. di_digest_id di = digest \<and> shown (us_id u) (di_content_item_id di) (wd_interactions w'))
      (map (digest_row digest quiet stories) ?n)"
  proof -
    have "snd p \<in> set rows" if p: "p \<in> set ?n" for p
      using imageI [OF p, of snd] by (simp flip: list.set_map)
    with \<open>\<forall>r \<in> set rows. _ r\<close> show ?thesis by (simp add: list_all_iff)
  qed
  have l: "list_all fair_log (map (impression_row (us_id u) digest) ?n)"
  proof -
    have "logged_ok (fst p) (bd_of (snd (snd p)))" if p: "p \<in> set ?n" for p
      using p assms(2) [of "fst p"] by (simp add: in_set_enumerate_eq)
    then show ?thesis by (simp add: list_all_iff logged_fair del: fun_upd_apply)
  qed
  have p: "list_all2 (same_placement (us_id u)) (map (digest_row digest quiet stories) ?n)
      (map (impression_row (us_id u) digest) ?n)"
    by (simp add: list.rel_map list.rel_refl same_placement_rows)
  have c: "dg_section_counts d name = length (filter (\<lambda>di. di_section di = name) (map (digest_row digest quiet stories) ?n))"
    for name
  proof -
    have "map (\<lambda>p. fst (snd p)) ?n = map fst rows" by (rule nth_equalityI) (simp_all add: nth_enumerate_eq)
    then have "length (filter ((=) name) (map (\<lambda>p. fst (snd p)) ?n)) = length (filter ((=) name) (map fst rows))" by simp
    then show ?thesis by (simp add: d new_digest_def filter_map o_def eq_commute)
  qed
  have "digest_ok digest (us_id u) d (map (digest_row digest quiet stories) ?n)
      (map (impression_row (us_id u) digest) ?n) (wd_interactions w')"
    unfolding digest_ok_def using s l p c
    by (intro conjI allI) (simp_all add: d new_digest_def o_def)
  with t show ?thesis by blast
qed


subsection \<open>A build returns\<close>

definition vectors_ok :: "nat \<Rightarrow> world \<Rightarrow> bool" where
  "vectors_ok width w \<longleftrightarrow>
     list_all (\<lambda>n. in_topic_embedding n = None \<or> length (or_default (in_topic_embedding n) []) = width) (gd_nodes (wd_graph w))
     \<and> list_all (\<lambda>i. ci_embedding i = None \<or> length (or_default (ci_embedding i) []) = width) (wd_items w)"

lemma interest_vector_nodes: "gd_nodes (snd (build_user_interest_vector same model user db)) = gd_nodes db"
  by (auto simp: build_user_interest_vector_def Let_def split: option.split list.split)

lemma serendipity_nodes:
  "gd_nodes (snd (select_serendipity_candidates active w user sids fids cutoff n)) = gd_nodes (wd_graph w)"
  using interest_vector_nodes [of "\<lambda>m. same_model m None active" "es_name active" user "wd_graph w"]
  by (simp add: select_serendipity_candidates_def Let_def split_beta)

lemma warmup_nodes: "gd_nodes (snd (warmup_for cf w u now db)) = gd_nodes db"
  using interest_vector_nodes [of "\<lambda>m. same_model m None (cf_active cf)" "es_name (cf_active cf)" "us_id u" db]
  by (simp add: warmup_for_def get_collaborative_warmup_items_def Let_def split_beta)

definition my_sources :: "world \<Rightarrow> reader \<Rightarrow> nat list" where
  "my_sources w u = equivalent_source_ids True (us_id u) (gd_sources (wd_graph w))"

definition my_feeds :: "world \<Rightarrow> reader \<Rightarrow> nat list" where
  "my_feeds w u = user_feed_ids (us_id u) (gd_sources (wd_graph w))"

definition my_items :: "build_settings \<Rightarrow> world \<Rightarrow> reader \<Rightarrow> moment \<Rightarrow> content_item list" where
  "my_items cf w u now = fst (own_items cf w u now (my_sources w u) (my_feeds w u))"

definition my_discovery :: "build_settings \<Rightarrow> world \<Rightarrow> reader \<Rightarrow> moment \<Rightarrow> content_item list \<times> graph_db" where
  "my_discovery cf w u now = select_serendipity_candidates (cf_active cf) w (us_id u) (my_sources w u) (my_feeds w u)
     (window_start u now) (serendipity_count (length (my_items cf w u now)))"

lemma gather_parts:
  "ga_serendipity (gather cf w u now) = fst (my_discovery cf w u now)"
  "ga_items (gather cf w u now) = (if user_age_days u now < NEW_USER_THRESHOLD_DAYS \<and> length (my_items cf w u now) < 10
     then add_warmup (my_items cf w u now) (fst (warmup_for cf w u now (snd (my_discovery cf w u now))))
     else my_items cf w u now)"
  "ga_graph (gather cf w u now) = (if user_age_days u now < NEW_USER_THRESHOLD_DAYS \<and> length (my_items cf w u now) < 10
     then snd (warmup_for cf w u now (snd (my_discovery cf w u now))) else snd (my_discovery cf w u now))"
  by (simp_all add: gather_def Let_def split_beta my_discovery_def my_items_def my_sources_def my_feeds_def)

lemma gather_nodes: "gd_nodes (ga_graph (gather cf w u now)) = gd_nodes (wd_graph w)"
  by (simp add: gather_parts warmup_nodes my_discovery_def serendipity_nodes)

lemma joined_items: "(ix, item) \<in> set (joined w) \<Longrightarrow> item \<in> set (wd_items w)"
  using find_mem by (fastforce simp: joined_def set_map_filter)

lemma marked_widths:
  assumes "vectors_ok width w"
  shows "widths_ok width (wd_graph (marked now u (gather cf w u now) w)) (joined (marked now u (gather cf w u now) w))"
proof -
  have "wd_items (marked now u g w) = wd_items w" "wd_graph (marked now u g w) = ga_graph g" for g
    by (simp_all add: marked_def)
  with assms joined_items show ?thesis
    by (fastforce simp: widths_ok_def vectors_ok_def gather_nodes list_all_iff)
qed

lemma rank_returns:
  assumes "widths_ok width (wd_graph w) (joined w)"
  shows "\<exists>ranked. rank_content_for_user cf w user now items limit = Inr ranked"
proof -
  obtain st where st: "load_state (\<lambda>m d. same_model m d (cf_active cf)) (cf_novelty_target cf) now user (wd_weights w)
      (joined w) (wd_graph w) = Inr st"
    and r: "\<forall>table candidates. \<exists>out. rank (\<lambda>m d. same_model m d (cf_active cf)) table st candidates = Inr out"
    using load_state_returns [OF assms] by blast
  obtain out where "rank (\<lambda>m d. same_model m d (cf_active cf)) (gd_sources (wd_graph w)) st items = Inr out"
    using r by blast
  with st show ?thesis by (simp add: rank_content_for_user_def)
qed

lemma lay_out_returns: "\<exists>rows. lay_out cf rng rng' u now serendipity ranked = Inr rows"
proof (cases "cf_interleaving cf")
  case True
  obtain out where "interleave_ranked (diversify_ranked ranked) rng = Inr out" using interleave_total by blast
  with True show ?thesis by (simp add: lay_out_def)
qed (simp add: lay_out_def)

lemma build_digest_total:
  assumes "vectors_ok width w"
  shows "\<exists>d w'. build_digest cf brief rng rng' digest now u w = Inr (d, w')"
proof -
  let ?g = "gather cf w u now"
  obtain items stories where s: "synthesize_topic_clusters brief (us_pro u) (ga_items ?g @ ga_serendipity ?g) = (items, stories)"
    by (rule prod.exhaust)
  obtain ranked where "rank_content_for_user cf (marked now u ?g w) (us_id u) now items
      (nat (max (us_digest_max_items u * 3) 60)) = Inr ranked"
    using rank_returns [OF marked_widths [OF assms]] by blast
  moreover obtain rows where "lay_out cf rng rng' u now (ga_serendipity ?g) ranked = Inr rows"
    using lay_out_returns by blast
  ultimately show ?thesis
    by (simp add: build_digest_def Let_def s marked_def [symmetric])
qed

text \<open>C21: A build always produces a digest: when all stored vectors have one width, nothing in the
  gathering, ranking, interleaving and layout raises, on any candidates, an empty day included.\<close>

theorem build_digest_returns:
  assumes "vectors_ok width w"
  shows "\<exists>d w'. build_digest cf brief rng rng' digest now u w = Inr (d, w')"
  using assms by (rule build_digest_total)

definition tiny_world :: world where
  "tiny_world = \<lparr>wd_users = [], wd_items = [(blank_item 7)\<lparr>ci_embedding := Some [3, 4], ci_source_id := Some 5\<rparr>],
     wd_graph = example_graph, wd_takedowns = [], wd_interactions = [], wd_weights = (\<lambda>_. Some 1), wd_digests = [],
     wd_digest_items = [], wd_impressions = [], wd_prompts = []\<rparr>"

definition tiny_settings :: build_settings where
  "tiny_settings = \<lparr>cf_per_source_cap = 3, cf_candidate_limit = 400, cf_interleaving = True, cf_exploration = True,
     cf_novelty_target = 0.35, cf_active = \<lparr>es_name = MINILM, es_dim = 2, es_version = [],
       es_prefix_document = [], es_prefix_query = [], es_max_tokens = 256\<rparr>, cf_crowd = chess_crowd\<rparr>"

definition old_reader :: reader where
  "old_reader = \<lparr>us_id = 1, us_weekly = False, us_languages = [], us_created_at = 0, us_digest_max_items = 12,
     us_digest_length_locked = False, us_serendipity_percentage = 15, us_collaborative_opt_out = False, us_pro = False\<rparr>"

lemma tiny_vectors: "vectors_ok 2 tiny_world"
  by (simp add: vectors_ok_def tiny_world_def example_graph_def empty_graph_def)

theorem build_digest_returns_witness:
  "\<exists>d w'. build_digest tiny_settings (\<lambda>_. None) (\<lambda>_. 0) (\<lambda>_. 0) 40 (20 * 86400) old_reader tiny_world = Inr (d, w')"
  by (rule build_digest_returns [OF tiny_vectors])


subsection \<open>What a digest shows\<close>

lemma built_items:
  assumes "build_digest cf brief rng rng' digest now u w = Inr (d, w')"
  obtains items stories ranked rows where
    "wd_digest_items w' = wd_digest_items w @ map (digest_row digest (ga_quiet (gather cf w u now)) stories) (enumerate 0 rows)"
    "mset items \<subseteq># mset (ga_items (gather cf w u now) @ ga_serendipity (gather cf w u now))"
    "mset (map fst ranked) \<subseteq># mset items"
    "lay_out cf rng rng' u now (ga_serendipity (gather cf w u now)) ranked = Inr rows"
proof -
  obtain items stories ranked rows where
    i: "synthesize_topic_clusters brief (us_pro u) (ga_items (gather cf w u now) @ ga_serendipity (gather cf w u now))
       = (items, stories)"
    and r: "rank_content_for_user cf (marked now u (gather cf w u now) w) (us_id u) now items
       (nat (max (us_digest_max_items u * 3) 60)) = Inr ranked"
    and l: "lay_out cf rng rng' u now (ga_serendipity (gather cf w u now)) ranked = Inr rows"
    and s: "(d, w') = store_digest digest (adjust_digest_preferences (marked now u (gather cf w u now) w) now u) now
       (ga_quiet (gather cf w u now)) stories rows
       (save_reader (adjust_digest_preferences (marked now u (gather cf w u now) w) now u)
          (marked now u (gather cf w u now) w))"
    using assms by (rule build_digest_steps)
  have "mset items \<subseteq># mset (ga_items (gather cf w u now) @ ga_serendipity (gather cf w u now))"
    using part_cards [of brief "us_pro u" "ga_items (gather cf w u now) @ ga_serendipity (gather cf w u now)"]
    by (simp only: i fst_conv)
  moreover have "wd_digest_items (save_reader x (marked now u g w)) = wd_digest_items w" for x g
    by (simp add: save_reader_def marked_def)
  then have "wd_digest_items w'
      = wd_digest_items w @ map (digest_row digest (ga_quiet (gather cf w u now)) stories) (enumerate 0 rows)"
    using store_digest_ok [OF s [symmetric] lay_out_logged [OF l rank_plain [OF r]]] by simp
  ultimately show ?thesis using rank_part [OF r] l by (intro that)
qed

lemma gathered_visible:
  assumes "item \<in> set (ga_items (gather cf w u now) @ ga_serendipity (gather cf w u now))"
  shows "item \<in> set (wd_items w) \<and> visible_item (us_id u) item
    \<and> (user_age_days u now < NEW_USER_THRESHOLD_DAYS \<or> not_blocked_filter (wd_takedowns w) item)"
proof -
  have own: "item \<in> set (wd_items w) \<and> visible_item (us_id u) item \<and> not_blocked_filter (wd_takedowns w) item"
    if i: "item \<in> set (my_items cf w u now)"
    using i own_items_followable [of cf w u now "my_sources w u" "my_feeds w u"]
      part_set [OF own_items_part [of cf w u now "my_sources w u" "my_feeds w u"]]
    by (auto simp: my_items_def followable_def)
  have warm: "item \<in> set (wd_items w) \<and> visible_item (us_id u) item" if i: "item \<in> set (fst (warmup_for cf w u now db))" for db
  proof -
    obtain c where "(item, c) \<in> set (crowd_items (cw_k_anonymity (cf_crowd cf)) (us_id u) (opted_out w) now
        (wd_interactions w) (wd_items w))"
      using warmup_mem i unfolding warmup_for_def by force
    from crowd_mem [OF this] show ?thesis by (simp add: visible_item_def)
  qed
  have disc: "item \<in> set (wd_items w) \<and> visible_item (us_id u) item \<and> not_blocked_filter (wd_takedowns w) item"
    if i: "item \<in> set (fst (my_discovery cf w u now))"
    using i part_set [OF part_serendipity_pool] serendipity_pool_public
    unfolding my_discovery_def visible_item_def by blast
  have "item \<in> set (my_items cf w u now) \<or> item \<in> set (fst (my_discovery cf w u now))
      \<or> user_age_days u now < NEW_USER_THRESHOLD_DAYS
        \<and> item \<in> set (fst (warmup_for cf w u now (snd (my_discovery cf w u now))))"
    using assms add_warmup_set by (fastforce simp: gather_parts split: if_splits)
  then show ?thesis using own warm disc by blast
qed

definition shows_item :: "world \<Rightarrow> (content_item \<Rightarrow> bool) \<Rightarrow> digest_item \<Rightarrow> bool" where
  "shows_item w P di \<longleftrightarrow> (\<exists>item \<in> set (wd_items w). ci_id item = di_content_item_id di \<and> P item)"



subsection \<open>Nothing twice\<close>

lemma ids_injective:
  assumes "distinct (map ci_id xs)" "x \<in> set xs" "y \<in> set xs" "ci_id x = ci_id y"
  shows "x = y"
  using assms by (metis distinct_map inj_onD)

lemma own_items_none: "my_sources w u = [] \<Longrightarrow> my_feeds w u = [] \<Longrightarrow> my_items cf w u now = []"
  by (simp add: my_items_def own_items_def Let_def cap_per_source_def wanted_def)

lemma gathered_distinct:
  assumes "distinct (map ci_id (wd_items w))" "14 \<le> user_age_days u now"
  shows "distinct (map ci_id (ga_items (gather cf w u now) @ ga_serendipity (gather cf w u now)))"
proof -
  have g: "ga_items (gather cf w u now) = my_items cf w u now"
    "ga_serendipity (gather cf w u now) = fst (my_discovery cf w u now)"
    using assms(2) by (simp_all add: gather_parts NEW_USER_THRESHOLD_DAYS_def)
  have d: "distinct (map ci_id (my_items cf w u now))" "distinct (map ci_id (fst (my_discovery cf w u now)))"
    using part_distinct_map [OF own_items_part assms(1)] part_distinct_map [OF part_serendipity assms(1)]
    by (simp_all add: my_items_def my_discovery_def)
  have "ci_id x \<noteq> ci_id y" if xy: "x \<in> set (my_items cf w u now)" "y \<in> set (fst (my_discovery cf w u now))" for x y
  proof -
    have some: "my_sources w u \<noteq> [] \<or> my_feeds w u \<noteq> []"
      using own_items_none [of w u cf now] xy(1) by fastforce
    have x: "x \<in> set (wd_items w)" "from_user_feeds (my_sources w u) (my_feeds w u) x"
      using xy(1) own_items_followable [of cf w u now "my_sources w u" "my_feeds w u"]
        part_set [OF own_items_part [of cf w u now "my_sources w u" "my_feeds w u"]]
      by (auto simp: my_items_def followable_def)
    have y: "y \<in> set (wd_items w)" "\<not> from_user_feeds (my_sources w u) (my_feeds w u) y"
      using xy(2) some part_set [OF part_serendipity_pool] serendipity_pool_public
      unfolding my_discovery_def by blast+
    show ?thesis using x y ids_injective [OF assms(1) x(1) y(1)] by blast
  qed
  with d show ?thesis unfolding g by auto
qed

text \<open>After the first two weeks no item is in a digest twice, whatever the ranking, the interleaving
  and the re-appended discovery rows do.\<close>

theorem digest_items_distinct:
  assumes "build_digest cf brief rng rng' digest now u w = Inr (d, w')"
    and "distinct (map ci_id (wd_items w))" "14 \<le> user_age_days u now"
  shows "\<exists>items. wd_digest_items w' = wd_digest_items w @ items \<and> distinct (map di_content_item_id items)"
proof -
  obtain items stories ranked rows where
    w': "wd_digest_items w' = wd_digest_items w @ map (digest_row digest (ga_quiet (gather cf w u now)) stories) (enumerate 0 rows)"
    and i: "mset items \<subseteq># mset (ga_items (gather cf w u now) @ ga_serendipity (gather cf w u now))"
    and r: "mset (map fst ranked) \<subseteq># mset items"
    and l: "lay_out cf rng rng' u now (ga_serendipity (gather cf w u now)) ranked = Inr rows"
    using assms(1) by (rule built_items)
  note all = gathered_distinct [OF assms(2,3), of cf]
  have "distinct (map ci_id (map fst ranked))"
    using part_distinct_map [OF subset_mset.order_trans [OF r i] all] .
  then have "distinct (map row_id ranked)" by (simp add: row_id_def [abs_def] o_def)
  moreover have "distinct (map ci_id (ga_serendipity (gather cf w u now)))" using all by simp
  ultimately have "distinct (map (row_id \<circ> snd) rows)" using lay_out_distinct [OF l] by blast
  moreover have "map (\<lambda>p. row_id (snd (snd p))) (enumerate 0 rows) = map (row_id \<circ> snd) rows"
    by (rule nth_equalityI) (simp_all add: nth_enumerate_eq)
  ultimately show ?thesis using w' by (simp add: o_def)
qed

theorem digest_items_distinct_witness:
  "\<exists>d w'. build_digest tiny_settings (\<lambda>_. None) (\<lambda>_. 0) (\<lambda>_. 0) 40 (20 * 86400) old_reader tiny_world = Inr (d, w')
    \<and> distinct (map di_content_item_id (wd_digest_items w'))"
proof -
  obtain d w' where b: "build_digest tiny_settings (\<lambda>_. None) (\<lambda>_. 0) (\<lambda>_. 0) 40 (20 * 86400) old_reader tiny_world = Inr (d, w')"
    using build_digest_total [OF tiny_vectors] by blast
  have "14 \<le> user_age_days old_reader (20 * 86400)" by (simp add: user_age_days_def old_reader_def)
  moreover have "distinct (map ci_id (wd_items tiny_world))" "wd_digest_items tiny_world = []"
    by (simp_all add: tiny_world_def)
  ultimately show ?thesis using digest_items_distinct [OF b] b by auto
qed

text \<open>The picks for discovery are rows of the layout whatever the steps before did with them: also one
  that was folded into the card of a story, or dropped as a near duplicate.\<close>

lemma discovery_reappears:
  "item \<in> set serendipity \<Longrightarrow> ci_id item \<in> row_id ` set (with_discovery serendipity ranked)"
proof -
  have "row_id ` set (with_discovery serendipity ranked) = set (map row_id (with_discovery serendipity ranked))" by simp
  also have "\<dots> = row_id ` set ranked \<union> ci_id ` {i \<in> set serendipity. ci_id i \<notin> row_id ` set ranked}"
    by (simp only: with_discovery_ids set_append set_map set_filter)
  finally show "item \<in> set serendipity \<Longrightarrow> ci_id item \<in> row_id ` set (with_discovery serendipity ranked)" by blast
qed

text \<open>The warm-up of a new reader does not look at the takedown list, so a blocked item is gathered.\<close>

definition chess_world :: world where
  "chess_world = \<lparr>wd_users = [], wd_items = [chess_item], wd_graph = chess_graph,
     wd_takedowns = [(''https://chess.example/x'', ''court order'')], wd_interactions = chess_fans,
     wd_weights = (\<lambda>_. Some 1), wd_digests = [], wd_digest_items = [], wd_impressions = [], wd_prompts = []\<rparr>"

lemma blocked_item_is_gathered:
  "\<not> not_blocked_filter (wd_takedowns chess_world) chess_item \<and>
   fst (get_collaborative_warmup_items chess_crowd (\<lambda>_. True) [] 5 {9} 200 10 (wd_interactions chess_world)
     (wd_items chess_world) (wd_graph chess_world)) = [chess_item]"
proof
  have "ci_url chess_item = ''https://chess.example/x''" by (simp add: chess_item_def)
  then show "\<not> not_blocked_filter (wd_takedowns chess_world) chess_item"
    by (simp add: not_blocked_filter_def blocked_by_def chess_world_def)
qed (simp add: chess_world_def warmup_example)

subsection \<open>What is learned\<close>

text \<open>The learners keep their ranges: a locked length stays as it is, any other length is unchanged
  or between 5 and 30, the share of discovery moves by at most three points and only towards the
  band from 10 to 25, and nothing else of the reader changes.\<close>

theorem learned_preferences_bounded:
  "(us_digest_length_locked u \<and> us_digest_max_items (adjust_digest_preferences w now u) = us_digest_max_items u
     \<or> us_digest_max_items (adjust_digest_preferences w now u) \<in> insert (us_digest_max_items u) {5..30})
   \<and> min 10 (us_serendipity_percentage u) \<le> us_serendipity_percentage (adjust_digest_preferences w now u)
   \<and> us_serendipity_percentage (adjust_digest_preferences w now u) \<le> max 25 (us_serendipity_percentage u)
   \<and> \<bar>us_serendipity_percentage (adjust_digest_preferences w now u) - us_serendipity_percentage u\<bar> \<le> 3
   \<and> (adjust_digest_preferences w now u)\<lparr>us_digest_max_items := us_digest_max_items u,
        us_serendipity_percentage := us_serendipity_percentage u\<rparr> = u"
proof -
  have t: "target_digest_length e cur False LENGTH_FLOOR LENGTH_CAP OPEN_FACTOR \<in> insert cur {5..30}" for e cur
    by (auto simp: target_digest_length_def LENGTH_FLOOR_def LENGTH_CAP_def split: option.split)
  obtain n where n: "learn_digest_length w u = u\<lparr>us_digest_max_items := n\<rparr>"
    "us_digest_length_locked u \<and> n = us_digest_max_items u \<or> n \<in> insert (us_digest_max_items u) {5..30}"
  proof (cases "us_digest_length_locked u \<or> recent_digests w (us_id u) = []")
    case True
    then show ?thesis by (intro that [of "us_digest_max_items u"]) (auto simp: learn_digest_length_def)
  next
    case False
    then show ?thesis using t by (intro that) (auto simp: learn_digest_length_def Let_def)
  qed
  have step: "min 10 p \<le> q \<and> q \<le> max 25 p \<and> \<bar>q - p\<bar> \<le> 3"
    if q: "q = (if a then p else if b \<and> p < 25 then min 25 (p + 3) else if c \<and> 10 < p then max 10 (p - 2) else p)"
    for a b c and p q :: int
    using q by (cases a; cases "b \<and> p < 25"; cases "c \<and> 10 < p") (auto simp: min_def max_def abs_le_iff)
  have a: "min 10 p \<le> adjust_serendipity ts p \<and> adjust_serendipity ts p \<le> max 25 p
      \<and> \<bar>adjust_serendipity ts p - p\<bar> \<le> 3" for ts p
    unfolding adjust_serendipity_def Let_def by (rule step) (rule refl)
  obtain ts where s: "adjust_digest_preferences w now u
      = u\<lparr>us_digest_max_items := n, us_serendipity_percentage := adjust_serendipity ts (us_serendipity_percentage u)\<rparr>"
    by (simp add: adjust_digest_preferences_def n(1))
  show ?thesis using n(2) a by (simp add: s)
qed

text \<open>The moving average lies between the smallest and the largest count.\<close>

lemma ema_between:
  assumes "ema_opened_per_digest alpha counts = Some e" "0 \<le> alpha" "alpha \<le> 1"
    "\<And>c. c \<in> set counts \<Longrightarrow> lo \<le> c \<and> c \<le> hi"
  shows "lo \<le> e \<and> e \<le> hi"
proof -
  obtain c cs where counts: "counts = c # cs" and e: "e = foldl (\<lambda>ema c. alpha * c + (1 - alpha) * ema) c cs"
    using assms(1) by (cases counts) (auto simp: ema_opened_per_digest_def)
  have step: "lo \<le> alpha * x + (1 - alpha) * y \<and> alpha * x + (1 - alpha) * y \<le> hi"
    if "lo \<le> x" "x \<le> hi" "lo \<le> y" "y \<le> hi" for x y
    using that assms(2,3) convex_bound_le [of x hi y alpha "1 - alpha"] convex_bound_le [of "- x" "- lo" "- y" alpha "1 - alpha"]
    by (simp add: algebra_simps)
  have "lo \<le> c \<Longrightarrow> c \<le> hi \<Longrightarrow> (\<forall>x \<in> set cs. lo \<le> x \<and> x \<le> hi)
      \<Longrightarrow> lo \<le> foldl (\<lambda>ema c. alpha * c + (1 - alpha) * ema) c cs
        \<and> foldl (\<lambda>ema c. alpha * c + (1 - alpha) * ema) c cs \<le> hi"
    using step by (induction cs arbitrary: c) auto
  with assms(4) show ?thesis by (simp add: counts e)
qed

subsection \<open>Prompts\<close>

text \<open>The prompts of a new reader's digest come from the catalogue, never ask what the reader has
  dismissed, are three in the first week and two after it (or none once every type is dismissed),
  and only the first is tied to an item.\<close>

theorem prompts_respect_dismissals:
  "list_all (\<lambda>p. (fp_type p, fp_text p) \<in> set EARLY_PROMPTS \<and> fp_digest_id p = digest \<and> \<not> fp_dismissed p
       \<and> \<not> list_ex (\<lambda>q. fp_dismissed q \<and> fp_type q = fp_type p) earlier)
     (generate_feedback_prompts earlier digest anchor age)
   \<and> length (generate_feedback_prompts earlier digest anchor age)
       = (if prompt_pool earlier = [] then 0 else if age < 7 then 3 else 2)
   \<and> list_all (\<lambda>p. fp_content_item_id p = None) (tl (generate_feedback_prompts earlier digest anchor age))"
proof (cases "prompt_pool earlier = []")
  case False
  define n :: nat where "n = (if age < 7 then 3 else 2)"
  define f where "f = (\<lambda>i. new_prompt digest (if i = 0 then anchor else None)
      (prompt_pool earlier ! ((length earlier + i) mod length (prompt_pool earlier))))"
  have g: "generate_feedback_prompts earlier digest anchor age = map f [0..<n]"
    using False by (simp add: generate_feedback_prompts_def n_def f_def Let_def)
  have "(length earlier + i) mod length (prompt_pool earlier) < length (prompt_pool earlier)" for i
    using False by simp
  then have pool: "prompt_pool earlier ! ((length earlier + i) mod length (prompt_pool earlier)) \<in> set (prompt_pool earlier)"
    for i by simp
  have ok: "(fp_type (f i), fp_text (f i)) \<in> set EARLY_PROMPTS \<and> fp_digest_id (f i) = digest \<and> \<not> fp_dismissed (f i)
      \<and> \<not> list_ex (\<lambda>q. fp_dismissed q \<and> fp_type q = fp_type (f i)) earlier" for i
    using pool [of i] by (auto simp: prompt_pool_def f_def new_prompt_def)
  have "[0..<n] = 0 # [1..<n]" by (simp add: n_def upt_conv_Cons)
  then have t: "tl (map f [0..<n]) = map f [1..<n]" by simp
  have "list_all (\<lambda>p. fp_content_item_id p = None) (map f [1..<n])"
    by (simp add: list_all_iff f_def new_prompt_def)
  with ok False show ?thesis unfolding g t by (simp add: list_all_iff n_def)
qed (simp add: generate_feedback_prompts_def)

text \<open>With one type left the catalogue has two prompts, and a digest of the first week asks the same
  question twice.\<close>

definition dismissed_prompt :: "string \<Rightarrow> feedback_prompt" where
  "dismissed_prompt type = (new_prompt 1 None (type, []))\<lparr>fp_dismissed := True\<rparr>"

lemma prompt_asked_twice:
  "map fp_text (generate_feedback_prompts [dismissed_prompt ''depth_level'', dismissed_prompt ''topic_accuracy''] 9 None 3)
    = [''Were the sources today high quality and trustworthy for you?'',
       ''Did you discover any new sources today that you'd like to follow?'',
       ''Were the sources today high quality and trustworthy for you?'']"
  by code_simp

end
