(* ===== verification/Billing.thy ===== *)
theory Billing
  imports Content Urls
begin

text \<open>
  Billing, \<open>services/billing/__init__.py\<close>: the plan in force, the trial, and the webhooks of the
  payment provider. \<open>billing_update\<close> is a parsed webhook; \<open>account\<close> has the columns of a user that
  billing reads and writes, \<open>billing_db\<close> the accounts and the table of processed events. A SELECT
  with LIMIT 1 takes the first row. The adapters that turn a provider's JSON into an update are not
  modelled.
\<close>

subsection \<open>Settings and rows\<close>

datatype billing_status = Active | Trialing | Past_due | Cancelled | Ended

record billing_update =
  bu_provider :: string
  bu_key :: string
  bu_event_type :: string
  bu_occurred_at :: moment
  bu_status :: "billing_status option"
  bu_user_id :: "nat option"
  bu_customer_id :: "string option"
  bu_subscription_id :: "string option"
  bu_price_id :: "string option"
  bu_period_end :: "moment option"
  bu_portal_url :: "string option"

record account =
  ac_id :: nat
  ac_email :: string
  ac_email_verified_at :: "moment option"
  ac_tier :: string
  ac_quota_overrides :: "string \<Rightarrow> int option"
  ac_trial_ends_at :: "moment option"
  ac_trial_email_stage :: nat
  ac_deletion_reminder_sent_at :: "moment option"
  ac_plan_expires_at :: "moment option"
  ac_billing_provider :: "string option"
  ac_billing_customer_id :: "string option"
  ac_billing_subscription_id :: "string option"
  ac_billing_status :: "billing_status option"
  ac_billing_portal_url :: "string option"
  ac_billing_event_at :: "moment option"
  ac_created_at :: moment

record billing_settings =
  bc_hosted :: bool
  bc_provider :: string
  bc_reader_price_ids :: string
  bc_pro_price_ids :: string
  bc_team_price_ids :: string
  bc_razorpay_plan_id_pro :: string
  bc_checkout :: "string \<Rightarrow> bool \<Rightarrow> string"
  bc_checkout_monthly :: string
  bc_checkout_yearly :: string
  bc_trial_days :: int
  bc_past_due_grace_days :: int
  bc_academic_domains :: string
  bc_academic_discount :: string
  bc_plan_quotas :: "string \<Rightarrow> string \<Rightarrow> int option"
  bc_paused_delete_days :: int
  bc_delete_reminder_days :: int
  bc_trial_ending_notice_days :: int

definition days :: "int \<Rightarrow> real" where
  "days n = 86400 * of_int n"

definition PAID_TIERS :: "string list" where
  "PAID_TIERS = [''reader'', ''pro'', ''team'']"

definition SOLD_PLANS :: "string list" where
  "SOLD_PLANS = [''reader'', ''pro'']"

subsection \<open>Prices and checkout\<close>

definition ids :: "string \<Rightarrow> string list" where
  "ids raw = filter (\<lambda>p. p \<noteq> []) (map strip (split_char CHR '','' raw))"

definition billing_enabled :: "billing_settings \<Rightarrow> bool" where
  "billing_enabled bc \<longleftrightarrow> bc_hosted bc \<and> bc_provider bc \<noteq> []"

definition tier_for_price :: "billing_settings \<Rightarrow> string option \<Rightarrow> string option" where
  "tier_for_price bc price_id =
     (case price_id of
        None \<Rightarrow> None
      | Some p \<Rightarrow>
          if p \<in> set (ids (bc_team_price_ids bc)) then Some ''team''
          else if p \<in> set (ids (bc_pro_price_ids bc))
                 \<or> (bc_razorpay_plan_id_pro bc \<noteq> [] \<and> p = bc_razorpay_plan_id_pro bc) then Some ''pro''
          else if p \<in> set (ids (bc_reader_price_ids bc)) then Some ''reader''
          else None)"

text \<open>\<open>bc_checkout plan yearly\<close> is the setting of that plan and interval.\<close>

definition checkout_target :: "billing_settings \<Rightarrow> string \<Rightarrow> string \<Rightarrow> string" where
  "checkout_target bc plan interval =
     (let yearly = (interval = ''year'')
      in if plan = ''reader''
         then let own = bc_checkout bc ''reader'' yearly
              in if own \<noteq> [] then own else if yearly then bc_checkout_yearly bc else bc_checkout_monthly bc
         else if plan = ''pro'' then bc_checkout bc ''pro'' yearly else [])"

definition plan_intervals :: "billing_settings \<Rightarrow> string \<Rightarrow> string list" where
  "plan_intervals bc plan = filter (\<lambda>i. checkout_target bc plan i \<noteq> []) [''month'', ''year'']"

definition plans_on_sale :: "billing_settings \<Rightarrow> (string \<times> string list) list" where
  "plans_on_sale bc =
     (if \<not> billing_enabled bc then []
      else filter (\<lambda>(plan, intervals). intervals \<noteq> []) (map (\<lambda>plan. (plan, plan_intervals bc plan)) SOLD_PLANS))"

subsection \<open>The plan in force\<close>

definition later :: "moment option \<Rightarrow> moment \<Rightarrow> bool" where
  "later t now \<longleftrightarrow> some_and t (\<lambda>t. now < t)"

definition effective_plan :: "billing_settings \<Rightarrow> account \<Rightarrow> moment \<Rightarrow> string" where
  "effective_plan bc a now =
     (if \<not> bc_hosted bc then ''selfhost''
      else if ac_tier a \<in> set PAID_TIERS \<and> (ac_plan_expires_at a = None \<or> later (ac_plan_expires_at a) now) then ac_tier a
      else if later (ac_trial_ends_at a) now then ''trial''
      else ''paused'')"

definition paused_since :: "account \<Rightarrow> moment" where
  "paused_since a =
     (case (ac_trial_ends_at a, ac_plan_expires_at a) of
        (Some s, Some t) \<Rightarrow> max s t
      | (Some s, None) \<Rightarrow> s
      | (None, Some t) \<Rightarrow> t
      | (None, None) \<Rightarrow> ac_created_at a)"

definition start_trial :: "billing_settings \<Rightarrow> moment \<Rightarrow> account \<Rightarrow> account" where
  "start_trial bc now a =
     (if bc_hosted bc \<and> 0 < bc_trial_days bc \<and> ac_trial_ends_at a = None
      then a\<lparr>ac_trial_ends_at := Some (now + days (bc_trial_days bc))\<rparr> else a)"

subsection \<open>Webhooks\<close>

datatype billing_outcome = Applied | Duplicate | Stale | Ignored | Unknown_user

record billing_event =
  be_key :: string
  be_provider :: string
  be_event_type :: string
  be_user_id :: "nat option"
  be_outcome :: billing_outcome

text \<open>A product event: reader, name, plan and previous plan.\<close>

record billing_db =
  bd_accounts :: "account list"
  bd_events :: "billing_event list"
  bd_tracked :: "(nat \<times> string \<times> string \<times> string option) list"

definition same_text :: "string option \<Rightarrow> string option \<Rightarrow> bool" where
  "same_text column value \<longleftrightarrow> some_and value (\<lambda>v. v \<noteq> [] \<and> column = Some v)"

definition find_user :: "billing_update \<Rightarrow> account list \<Rightarrow> account option" where
  "find_user bu accounts =
     or_else (case bu_user_id bu of None \<Rightarrow> None | Some i \<Rightarrow> find (\<lambda>a. ac_id a = i) accounts)
       (find (\<lambda>a. same_text (ac_billing_subscription_id a) (bu_subscription_id bu)
                 \<or> same_text (ac_billing_customer_id a) (bu_customer_id bu)) accounts)"

text \<open>Python's \<open>or\<close> on strings.\<close>

definition or_text :: "string option \<Rightarrow> string option \<Rightarrow> string option" where
  "or_text s t = (if s = None \<or> s = Some [] then t else s)"

definition stamped :: "billing_update \<Rightarrow> account \<Rightarrow> account" where
  "stamped bu a = a\<lparr>
     ac_billing_provider := Some (bu_provider bu),
     ac_billing_customer_id := or_text (bu_customer_id bu) (ac_billing_customer_id a),
     ac_billing_subscription_id := or_text (bu_subscription_id bu) (ac_billing_subscription_id a),
     ac_billing_portal_url := or_text (bu_portal_url bu) (ac_billing_portal_url a),
     ac_billing_status := bu_status bu,
     ac_billing_event_at := Some (bu_occurred_at bu)\<rparr>"

definition access_end :: "billing_settings \<Rightarrow> billing_update \<Rightarrow> moment \<Rightarrow> moment option" where
  "access_end bc bu now =
     (if bu_status bu = Some Past_due
      then map_option (\<lambda>t. max t now + days (bc_past_due_grace_days bc)) (bu_period_end bu)
      else bu_period_end bu)"

definition apply_to_account :: "billing_settings \<Rightarrow> moment \<Rightarrow> billing_update \<Rightarrow> account \<Rightarrow> account" where
  "apply_to_account bc now bu a =
     (let a = stamped bu a
      in if bu_status bu = Some Ended then a\<lparr>ac_tier := ''free'', ac_plan_expires_at := Some now\<rparr>
         else
           let tier = tier_for_price bc (bu_price_id bu)
           in if tier = None \<and> ac_tier a \<notin> set PAID_TIERS then a
              else
                let a = a\<lparr>ac_tier := or_default tier (ac_tier a), ac_plan_expires_at := access_end bc bu now\<rparr>
                in if bu_status bu \<in> {Some Active, Some Trialing} then a\<lparr>ac_trial_ends_at := None\<rparr> else a)"

definition ended_status :: "billing_status option \<Rightarrow> bool" where
  "ended_status s \<longleftrightarrow> s = Some Cancelled \<or> s = Some Ended"

definition plan_change_events ::
  "billing_settings \<Rightarrow> moment \<Rightarrow> account \<Rightarrow> account \<Rightarrow> (nat \<times> string \<times> string \<times> string option) list" where
  "plan_change_events bc now before after =
     (let plan_before = effective_plan bc before now; plan_after = effective_plan bc after now
      in (if plan_after \<in> set PAID_TIERS \<and> plan_before \<notin> set PAID_TIERS
          then [(ac_id after, ''trial_converted'', plan_after, Some plan_before)] else [])
         @ (if ended_status (ac_billing_status after) \<and> \<not> ended_status (ac_billing_status before)
            then [(ac_id after, ''cancel'', plan_before, None)] else []))"

definition judge :: "billing_update \<Rightarrow> account option \<Rightarrow> billing_outcome" where
  "judge bu user =
     (if bu_status bu = None then Ignored
      else case user of
             None \<Rightarrow> Unknown_user
           | Some a \<Rightarrow> if some_and (ac_billing_event_at a) (\<lambda>t. bu_occurred_at bu < t) then Stale else Applied)"

definition apply_update ::
  "billing_settings \<Rightarrow> moment \<Rightarrow> billing_update \<Rightarrow> billing_db \<Rightarrow> billing_outcome \<times> billing_db" where
  "apply_update bc now bu db =
     (let user = (if bu_status bu = None then None else find_user bu (bd_accounts db));
          outcome = judge bu user
      in if bu_key bu \<in> be_key ` set (bd_events db) then (Duplicate, db)
         else
           let db = db\<lparr>bd_events := bd_events db @ [\<lparr>be_key = bu_key bu, be_provider = bu_provider bu,
                  be_event_type = bu_event_type bu, be_user_id = map_option ac_id user, be_outcome = outcome\<rparr>]\<rparr>
           in case user of
                None \<Rightarrow> (outcome, db)
              | Some a \<Rightarrow>
                  if outcome \<noteq> Applied then (outcome, db)
                  else let a' = apply_to_account bc now bu a
                       in (outcome, db\<lparr>
                            bd_accounts := map (\<lambda>x. if ac_id x = ac_id a then a' else x) (bd_accounts db),
                            bd_tracked := bd_tracked db @ plan_change_events bc now a a'\<rparr>))"

text \<open>The cancellation before an erasure. \<open>cancel\<close> is the provider's call, true when it succeeds, and
  \<open>known\<close> tells which provider names have an adapter.\<close>

definition cancel_for_deletion ::
  "billing_settings \<Rightarrow> (string \<Rightarrow> bool) \<Rightarrow> (string \<Rightarrow> string \<Rightarrow> bool) \<Rightarrow> account \<Rightarrow> string option" where
  "cancel_for_deletion bc known cancel a =
     (case ac_billing_subscription_id a of
        None \<Rightarrow> None
      | Some sub \<Rightarrow>
          if sub = [] \<or> ac_billing_status a = Some Ended then None
          else let name = or_default (or_text (ac_billing_provider a) (Some (bc_provider bc))) []
               in Some (if known name \<and> cancel name sub then ''cancelled'' else ''failed''))"

subsection \<open>The academic discount\<close>

definition email_domain :: "string \<Rightarrow> string" where
  "email_domain email =
     (let dot = (\<lambda>c. c = CHR ''.'')
      in lstrip_chars dot (rstrip_chars dot (lower (snd (rpartition_char CHR ''@'' email)))))"

definition academic_suffixes :: "billing_settings \<Rightarrow> string list" where
  "academic_suffixes bc = map (\<lambda>x. lower (strip x)) (split_char CHR '','' (bc_academic_domains bc))"

definition academic_eligible :: "billing_settings \<Rightarrow> account \<Rightarrow> bool" where
  "academic_eligible bc a \<longleftrightarrow>
     ac_email_verified_at a \<noteq> None \<and> CHR ''@'' \<in> set (ac_email a)
     \<and> list_ex (\<lambda>suffix. suffix \<noteq> []
           \<and> (ends_with (email_domain (ac_email a)) suffix
              \<or> email_domain (ac_email a) = lstrip_chars (\<lambda>c. c = CHR ''.'') suffix)) (academic_suffixes bc)"

definition academic_discount_for :: "billing_settings \<Rightarrow> account \<Rightarrow> string option" where
  "academic_discount_for bc a =
     (if bc_academic_discount bc \<noteq> [] \<and> academic_eligible bc a then Some (bc_academic_discount bc) else None)"

subsection \<open>Replays\<close>

lemma apply_recorded:
  "bu_key bu \<in> be_key ` set (bd_events db) \<Longrightarrow> apply_update bc now bu db = (Duplicate, db)"
  by (simp add: apply_update_def Let_def)

lemma event_recorded: "be_key ` set (bd_events (snd (apply_update bc now bu db))) = insert (bu_key bu) (be_key ` set (bd_events db))"
  by (auto simp: apply_update_def Let_def split: option.split)


subsection \<open>Orders of delivery\<close>

definition deliver :: "billing_settings \<Rightarrow> billing_db \<Rightarrow> moment \<times> billing_update \<Rightarrow> billing_db" where
  "deliver bc db e = snd (apply_update bc (fst e) (snd e) db)"

definition account_of :: "nat \<Rightarrow> billing_db \<Rightarrow> account option" where
  "account_of u db = find (\<lambda>a. ac_id a = u) (bd_accounts db)"

lemma apply_to_account_props:
  "ac_id (apply_to_account bc now bu a) = ac_id a"
  "ac_billing_status (apply_to_account bc now bu a) = bu_status bu"
  "ac_billing_event_at (apply_to_account bc now bu a) = Some (bu_occurred_at bu)"
  "bu_status bu = Some Ended \<Longrightarrow> ac_tier (apply_to_account bc now bu a) = ''free''"
  by (simp_all add: apply_to_account_def stamped_def Let_def)

lemma find_updated:
  "find (\<lambda>a. ac_id a = u) xs = Some a \<Longrightarrow> ac_id a' = u
    \<Longrightarrow> find (\<lambda>a. ac_id a = u) (map (\<lambda>x. if ac_id x = u then a' else x) xs) = Some a'"
  by (induction xs) (auto split: if_splits)

lemma find_account: "find (\<lambda>a. ac_id a = u) xs = Some a \<Longrightarrow> ac_id a = u"
  by (induction xs) (auto split: if_splits)

text \<open>The effect of a delivery on the account it names.\<close>

lemma deliver_account:
  assumes "account_of u db = Some a" "bu_user_id bu = Some u" "bu_status bu \<noteq> None"
    "bu_key bu \<notin> be_key ` set (bd_events db)"
  shows "account_of u (deliver bc db (now, bu))
    = Some (if judge bu (Some a) = Applied then apply_to_account bc now bu a else a)"
proof -
  have f: "find_user bu (bd_accounts db) = Some a"
    using assms(1,2) by (simp add: find_user_def account_of_def or_else_def)
  have i: "ac_id a = u" using assms(1) find_account by (simp add: account_of_def)
  obtain st where st: "bu_status bu = Some st" using assms(3) by blast
  show ?thesis
    using assms(1,2,4) st f i find_updated [of u "bd_accounts db" a "apply_to_account bc now bu a"]
    by (simp add: deliver_def apply_update_def Let_def account_of_def apply_to_account_props)
qed

definition settled_by :: "billing_update \<Rightarrow> account \<Rightarrow> bool" where
  "settled_by e a \<longleftrightarrow> ac_billing_status a = bu_status e \<and> ac_billing_event_at a = Some (bu_occurred_at e)
     \<and> (bu_status e = Some Ended \<longrightarrow> ac_tier a = ''free'')"

definition before_or_settled :: "nat \<Rightarrow> billing_update \<Rightarrow> billing_db \<Rightarrow> bool" where
  "before_or_settled u e db \<longleftrightarrow> (\<exists>a. account_of u db = Some a
     \<and> (if bu_key e \<in> be_key ` set (bd_events db) then settled_by e a
        else \<not> some_and (ac_billing_event_at a) (\<lambda>t. bu_occurred_at e < t)))"

definition older_or_same :: "nat \<Rightarrow> billing_update \<Rightarrow> moment \<times> billing_update \<Rightarrow> bool" where
  "older_or_same u e d \<longleftrightarrow> bu_user_id (snd d) = Some u \<and> bu_status (snd d) \<noteq> None
     \<and> (snd d = e \<or> bu_occurred_at (snd d) < bu_occurred_at e \<and> bu_key (snd d) \<noteq> bu_key e)"

lemma deliver_settles:
  assumes "before_or_settled u e db" "older_or_same u e d"
  shows "before_or_settled u e (deliver bc db d)"
proof -
  obtain now bu where d: "d = (now, bu)" by (cases d)
  obtain a where a: "account_of u db = Some a" "if bu_key e \<in> be_key ` set (bd_events db) then settled_by e a
        else \<not> some_and (ac_billing_event_at a) (\<lambda>t. bu_occurred_at e < t)"
    using assms(1) by (auto simp: before_or_settled_def)
  have o: "bu_user_id bu = Some u" "bu_status bu \<noteq> None"
    "bu = e \<or> bu_occurred_at bu < bu_occurred_at e \<and> bu_key bu \<noteq> bu_key e"
    using assms(2) by (simp_all add: older_or_same_def d)
  show ?thesis
  proof (cases "bu_key bu \<in> be_key ` set (bd_events db)")
    case True
    then have "deliver bc db d = db" by (simp add: deliver_def d apply_recorded)
    then show ?thesis using assms(1) by simp
  next
    case False
    note acc = deliver_account [OF a(1) o(1,2) False, of bc now]
    have keys: "be_key ` set (bd_events (deliver bc db (now, bu))) = insert (bu_key bu) (be_key ` set (bd_events db))"
      by (simp add: deliver_def event_recorded)
    show ?thesis
    proof (cases "bu = e")
      case True
      then have "judge bu (Some a) = Applied" using False a(2) o(2) by (simp add: judge_def)
      then show ?thesis
        using acc keys True by (simp add: before_or_settled_def d settled_by_def apply_to_account_props)
    next
      case older: False
      then have lt: "bu_occurred_at bu < bu_occurred_at e" "bu_key bu \<noteq> bu_key e" using o(3) by auto
      show ?thesis
      proof (cases "bu_key e \<in> be_key ` set (bd_events db)")
        case True
        then have "judge bu (Some a) \<noteq> Applied"
          using a(2) lt(1) o(2) by (simp add: judge_def settled_by_def some_and_def)
        then show ?thesis using acc keys True a(2) by (simp add: before_or_settled_def d)
      next
        case False
        then show ?thesis
          using acc keys lt a(2) by (auto simp: before_or_settled_def d apply_to_account_props some_and_def)
      qed
    qed
  qed
qed

interpretation deliveries: preserving "deliver bc" "before_or_settled u e" "older_or_same u e"
  by unfold_locales (rule deliver_settles)

lemma deliveries_recorded:
  "be_key ` set (bd_events (foldl (deliver bc) db es)) = be_key ` set (bd_events db) \<union> (bu_key \<circ> snd) ` set es"
  by (induction es arbitrary: db) (auto simp: deliver_def event_recorded)

text \<open>C12: The newest event wins in every order of delivery, with any replays: when the updates of an
  account are delivered in any order, the account ends with the status of the newest one, and a
  plan whose newest event ended it is not paid for any more.\<close>

theorem newest_event_wins:
  assumes "list_all (older_or_same u e) es" "e \<in> snd ` set es"
    "account_of u db = Some a" "\<not> some_and (ac_billing_event_at a) (\<lambda>t. bu_occurred_at e < t)"
    "bu_key e \<notin> be_key ` set (bd_events db)"
  shows "\<exists>a'. account_of u (foldl (deliver bc) db es) = Some a' \<and> ac_billing_status a' = bu_status e
    \<and> ac_billing_event_at a' = Some (bu_occurred_at e) \<and> (bu_status e = Some Ended \<longrightarrow> ac_tier a' = ''free'')"
proof -
  have "before_or_settled u e db" using assms(3-5) by (simp add: before_or_settled_def)
  then have "before_or_settled u e (foldl (deliver bc) db es)" using assms(1) by (rule deliveries.run_inv)
  moreover have "bu_key e \<in> be_key ` set (bd_events (foldl (deliver bc) db es))"
    using assms(2) unfolding deliveries_recorded by force
  ultimately show ?thesis by (auto simp: before_or_settled_def settled_by_def)
qed

definition example_account :: account where
  "example_account = \<lparr>ac_id = 1, ac_email = ''r@uni.edu'', ac_email_verified_at = Some 0, ac_tier = ''free'',
     ac_quota_overrides = (\<lambda>_. None), ac_trial_ends_at = Some 100, ac_trial_email_stage = 0,
     ac_deletion_reminder_sent_at = None, ac_plan_expires_at = None, ac_billing_provider = None,
     ac_billing_customer_id = None, ac_billing_subscription_id = None, ac_billing_status = None,
     ac_billing_portal_url = None, ac_billing_event_at = None, ac_created_at = 0\<rparr>"

definition example_update :: "string \<Rightarrow> moment \<Rightarrow> billing_status \<Rightarrow> billing_update" where
  "example_update key at_time status = \<lparr>bu_provider = ''paddle'', bu_key = key, bu_event_type = ''subscription.updated'',
     bu_occurred_at = at_time, bu_status = Some status, bu_user_id = Some 1, bu_customer_id = Some ''c1'',
     bu_subscription_id = Some ''s1'', bu_price_id = Some ''p_pro'', bu_period_end = Some 5000, bu_portal_url = None\<rparr>"

definition example_settings :: billing_settings where
  "example_settings = \<lparr>bc_hosted = True, bc_provider = ''paddle'', bc_reader_price_ids = ''p_reader'',
     bc_pro_price_ids = ''p_pro, p_pro_year'', bc_team_price_ids = [], bc_razorpay_plan_id_pro = [],
     bc_checkout = (\<lambda>_ _. []), bc_checkout_monthly = [], bc_checkout_yearly = [], bc_trial_days = 30,
     bc_past_due_grace_days = 3, bc_academic_domains = ''.edu,.ac.uk'', bc_academic_discount = ''A'',
     bc_plan_quotas = (\<lambda>_ _. None), bc_paused_delete_days = 30, bc_delete_reminder_days = 7,
     bc_trial_ending_notice_days = 5\<rparr>"

lemma example_hosted [simp]: "bc_hosted example_settings"
  by (simp add: example_settings_def)

lemma example_price [simp]: "tier_for_price example_settings (Some ''p_pro'') = Some ''pro''"
  by code_simp

definition example_db :: billing_db where
  "example_db = \<lparr>bd_accounts = [example_account], bd_events = [], bd_tracked = []\<rparr>"

text \<open>The end of the subscription arrives first, a replay of it last, and an older renewal in between.\<close>

definition example_deliveries :: "(moment \<times> billing_update) list" where
  "example_deliveries = [(60, example_update ''e2'' 50 Ended), (61, example_update ''e1'' 40 Active),
     (62, example_update ''e2'' 50 Ended)]"

theorem newest_event_wins_witness:
  "\<exists>a'. account_of 1 (foldl (deliver example_settings) example_db example_deliveries) = Some a'
    \<and> ac_billing_status a' = Some Ended \<and> ac_tier a' = ''free''"
proof -
  have e: "list_all (older_or_same 1 (example_update ''e2'' 50 Ended)) example_deliveries"
    "example_update ''e2'' 50 Ended \<in> snd ` set example_deliveries"
    "account_of 1 example_db = Some example_account"
    "\<not> some_and (ac_billing_event_at example_account) (\<lambda>t. bu_occurred_at (example_update ''e2'' 50 Ended) < t)"
    "bu_key (example_update ''e2'' 50 Ended) \<notin> be_key ` set (bd_events example_db)"
    by (simp_all add: example_deliveries_def example_update_def older_or_same_def account_of_def example_db_def
        example_account_def some_and_def)
  from newest_event_wins [OF e, of example_settings] show ?thesis by (auto simp: example_update_def)
qed

text \<open>Events of the same second have no order: the one that is delivered last wins, so the end of a
  subscription can be undone by a renewal with the same time stamp.\<close>

lemma same_second_resurrects:
  "map_option ac_tier (account_of 1 (foldl (deliver example_settings) example_db
       [(60, example_update ''e2'' 50 Ended), (61, example_update ''e1'' 50 Active)])) = Some ''pro''
   \<and> map_option ac_tier (account_of 1 (foldl (deliver example_settings) example_db
       [(60, example_update ''e1'' 50 Active), (61, example_update ''e2'' 50 Ended)])) = Some ''free''"
proof -
  show ?thesis
    by (simp add: deliver_def apply_update_def Let_def example_db_def find_user_def or_else_def judge_def
        example_update_def example_account_def some_and_def apply_to_account_def stamped_def account_of_def
        PAID_TIERS_def)
qed

text \<open>An update is applied whatever subscription it is about: the end of an old subscription takes the
  plan that a newer one pays for.\<close>

definition two_subscriptions :: "(moment \<times> billing_update) list" where
  "two_subscriptions = [(60, (example_update ''e1'' 50 Active)\<lparr>bu_subscription_id := Some ''new''\<rparr>),
     (61, (example_update ''e2'' 55 Ended)\<lparr>bu_subscription_id := Some ''old''\<rparr>)]"

lemma old_subscription_ends_new_plan:
  "map_option (\<lambda>a. (effective_plan example_settings a 200, ac_billing_subscription_id a))
     (account_of 1 (foldl (deliver example_settings) example_db two_subscriptions))
   = Some (''paused'', Some ''old'')"
proof -
  show ?thesis
    by (simp add: deliver_def apply_update_def Let_def example_db_def find_user_def or_else_def judge_def two_subscriptions_def
        example_update_def example_account_def some_and_def apply_to_account_def stamped_def account_of_def
        PAID_TIERS_def effective_plan_def later_def or_text_def)
qed

subsection \<open>Where a tier comes from\<close>

definition tier_bought :: "billing_settings \<Rightarrow> billing_update set \<Rightarrow> account \<Rightarrow> bool" where
  "tier_bought bc E a \<longleftrightarrow> ac_tier a = ''free'' \<or> (\<exists>e \<in> E. tier_for_price bc (bu_price_id e) = Some (ac_tier a))"

lemma apply_tier_bought: "tier_bought bc E a \<Longrightarrow> bu \<in> E \<Longrightarrow> tier_bought bc E (apply_to_account bc now bu a)"
  by (auto simp: tier_bought_def apply_to_account_def stamped_def Let_def or_default_def split: option.split)

lemma find_user_mem: "find_user bu accounts = Some a \<Longrightarrow> a \<in> set accounts"
proof -
  have "find P xs = Some x \<Longrightarrow> x \<in> set xs" for P and x :: account and xs
    by (induction xs) (auto split: if_splits)
  then show "find_user bu accounts = Some a \<Longrightarrow> a \<in> set accounts"
    by (auto simp: find_user_def or_else_def split: option.splits if_splits)
qed

lemma deliver_tier_bought:
  assumes "list_all (tier_bought bc E) (bd_accounts db)" "snd d \<in> E"
  shows "list_all (tier_bought bc E) (bd_accounts (deliver bc db d))"
proof (cases "find_user (snd d) (bd_accounts db)")
  case None
  then show ?thesis using assms(1) by (simp add: deliver_def apply_update_def Let_def)
next
  case (Some a)
  then have "tier_bought bc E (apply_to_account bc (fst d) (snd d) a)"
    using assms find_user_mem apply_tier_bought by (fastforce simp: list_all_iff)
  then show ?thesis
    using assms(1) Some by (auto simp: deliver_def apply_update_def Let_def list_all_iff)
qed

interpretation tiers: preserving "deliver bc" "\<lambda>db. list_all (tier_bought bc E) (bd_accounts db)" "\<lambda>d. snd d \<in> E"
  by unfold_locales (rule deliver_tier_bought)

text \<open>A paid plan is bought: after any run of webhooks on accounts without a plan, an account whose
  plan in force is a paid one has it from an update whose price is configured for exactly that plan.\<close>

theorem paid_plan_was_bought:
  assumes "list_all (\<lambda>a. ac_tier a = ''free'') (bd_accounts db)"
    "a \<in> set (bd_accounts (foldl (deliver bc) db es))" "effective_plan bc a now \<in> set PAID_TIERS"
  shows "\<exists>d \<in> set es. tier_for_price bc (bu_price_id (snd d)) = Some (effective_plan bc a now)"
proof -
  have "list_all (tier_bought bc (snd ` set es)) (bd_accounts db)"
    using assms(1) by (auto simp: list_all_iff tier_bought_def)
  then have "list_all (tier_bought bc (snd ` set es)) (bd_accounts (foldl (deliver bc) db es))"
    by (rule tiers.run_inv) (simp add: list_all_iff)
  then have "tier_bought bc (snd ` set es) a" using assms(2) by (simp add: list_all_iff)
  moreover have "effective_plan bc a now = ac_tier a \<and> ac_tier a \<noteq> ''free''"
    using assms(3) by (auto simp: effective_plan_def PAID_TIERS_def split: if_splits)
  ultimately show ?thesis by (auto simp: tier_bought_def)
qed

theorem paid_plan_was_bought_witness:
  "\<exists>d \<in> {(60, example_update ''e1'' 50 Active)}. tier_for_price example_settings (bu_price_id (snd d)) = Some ''pro''"
proof -
  define a where "a = apply_to_account example_settings 60 (example_update ''e1'' 50 Active) example_account"
  have run: "bd_accounts (foldl (deliver example_settings) example_db [(60, example_update ''e1'' 50 Active)]) = [a]"
    by (simp add: deliver_def apply_update_def Let_def example_db_def find_user_def or_else_def judge_def a_def
        example_update_def example_account_def some_and_def)
  have p: "effective_plan example_settings a 70 = ''pro''"
    by (simp add: a_def apply_to_account_def stamped_def Let_def example_update_def effective_plan_def PAID_TIERS_def
        access_end_def later_def some_and_def)
  have "list_all (\<lambda>a. ac_tier a = ''free'') (bd_accounts example_db)"
    by (simp add: example_db_def example_account_def)
  from paid_plan_was_bought [OF this, of a example_settings "[(60, example_update ''e1'' 50 Active)]" 70] run p
  show ?thesis by (simp add: PAID_TIERS_def)
qed

end
