(* ===== verification/Entitlements.thy ===== *)
theory Entitlements
  imports Billing
begin

text \<open>
  Plan entitlements, \<open>services/entitlements.py\<close> with the quota table of \<open>config.py\<close> and \<open>cache_incr\<close> of
  \<open>utils/cache.py\<close>: the quota of an account, the limits on totals (an error is a 402 response), and
  the daily allowances. The counters in Redis are a function from account, quota and day; \<open>up i\<close>
  tells whether Redis answers the \<open>i\<close>-th call. The counter of a day expires after two days, when
  nothing reads it any more.
\<close>

subsection \<open>Quotas\<close>

datatype quota = Sources | Creator_total | Newsletters | Newsletter_mb | Llm_summaries | Digest_builds

fun quota_name :: "quota \<Rightarrow> string" where
  "quota_name Sources = ''sources''"
| "quota_name Creator_total = ''creators''"
| "quota_name Newsletters = ''newsletters_per_day''"
| "quota_name Newsletter_mb = ''newsletter_mb_per_day''"
| "quota_name Llm_summaries = ''llm_summaries_per_day''"
| "quota_name Digest_builds = ''digest_builds_per_day''"

definition QUOTAS :: "quota list" where
  "QUOTAS = [Sources, Creator_total, Newsletters, Newsletter_mb, Llm_summaries, Digest_builds]"

definition DAILY :: "quota list" where
  "DAILY = [Newsletters, Newsletter_mb, Llm_summaries, Digest_builds]"

fun pro_quota :: "quota \<Rightarrow> int" where
  "pro_quota Sources = 2000" | "pro_quota Creator_total = 200" | "pro_quota Newsletters = 300"
| "pro_quota Newsletter_mb = 150" | "pro_quota Llm_summaries = 1000" | "pro_quota Digest_builds = 12"

fun reader_quota :: "quota \<Rightarrow> int" where
  "reader_quota Sources = 500" | "reader_quota Creator_total = 50" | "reader_quota Newsletters = 100"
| "reader_quota Newsletter_mb = 50" | "reader_quota Llm_summaries = 200" | "reader_quota Digest_builds = 6"

definition DEFAULT_PLAN_QUOTAS :: "string \<Rightarrow> quota \<Rightarrow> int option" where
  "DEFAULT_PLAN_QUOTAS plan =
     (if plan \<in> {''trial'', ''pro'', ''team''} then Some \<circ> pro_quota
      else if plan = ''reader'' then Some \<circ> reader_quota else (\<lambda>_. None))"

definition plan_quotas :: "billing_settings \<Rightarrow> string \<Rightarrow> quota \<Rightarrow> int" where
  "plan_quotas bc plan q =
     or_default (or_else (bc_plan_quotas bc plan (quota_name q)) (DEFAULT_PLAN_QUOTAS plan q)) 0"

definition limit :: "billing_settings \<Rightarrow> account \<Rightarrow> moment \<Rightarrow> quota \<Rightarrow> int" where
  "limit bc a now q =
     (if \<not> bc_hosted bc then 0
      else case ac_quota_overrides a (quota_name q) of
             Some n \<Rightarrow> n | None \<Rightarrow> plan_quotas bc (effective_plan bc a now) q)"

definition is_paused :: "billing_settings \<Rightarrow> account \<Rightarrow> moment \<Rightarrow> bool" where
  "is_paused bc a now \<longleftrightarrow> bc_hosted bc \<and> effective_plan bc a now = ''paused''"

definition PRO_PLANS :: "string list" where "PRO_PLANS = [''pro'', ''team'', ''trial'']"

definition pro_features :: "billing_settings \<Rightarrow> account \<Rightarrow> moment \<Rightarrow> bool" where
  "pro_features bc a now \<longleftrightarrow> \<not> bc_hosted bc \<or> effective_plan bc a now \<in> set PRO_PLANS"

subsection \<open>Account totals\<close>

datatype upgrade_hint = Subscribe | Pro_raises | Contact_support

definition upgrade_hint_of :: "billing_settings \<Rightarrow> account \<Rightarrow> moment \<Rightarrow> upgrade_hint" where
  "upgrade_hint_of bc a now =
     (let plan = effective_plan bc a now
      in if plan = ''paused'' \<or> plan = ''trial'' then Subscribe
         else if plan = ''reader'' then Pro_raises else Contact_support)"

text \<open>The reasons of a 402 response; \<open>Sources_full\<close> has the cap, the count and what may still be added.\<close>

datatype payment_required = Account_paused | Pro_only string | Sources_full int int int upgrade_hint
  | Creators_full int upgrade_hint

definition require_pro :: "billing_settings \<Rightarrow> account \<Rightarrow> moment \<Rightarrow> string \<Rightarrow> payment_required + unit" where
  "require_pro bc a now feature = (if pro_features bc a now then Inr () else Inl (Pro_only feature))"

definition enforce_source_limit ::
  "billing_settings \<Rightarrow> account \<Rightarrow> moment \<Rightarrow> int \<Rightarrow> int \<Rightarrow> payment_required + unit" where
  "enforce_source_limit bc a now current adding =
     (if is_paused bc a now then Inl Account_paused
      else
        let cap = limit bc a now Sources
        in if 0 < cap \<and> cap < current + adding
           then Inl (Sources_full cap current (max 0 (cap - current)) (upgrade_hint_of bc a now))
           else Inr ())"

definition enforce_creator_limit ::
  "billing_settings \<Rightarrow> account \<Rightarrow> moment \<Rightarrow> int \<Rightarrow> int \<Rightarrow> payment_required + unit" where
  "enforce_creator_limit bc a now current adding =
     (if is_paused bc a now then Inl Account_paused
      else
        let cap = limit bc a now Creator_total
        in if 0 < cap \<and> cap < current + adding then Inl (Creators_full cap (upgrade_hint_of bc a now)) else Inr ())"

subsection \<open>Daily allowances\<close>

type_synonym counters = "nat \<times> quota \<times> int \<Rightarrow> int"

definition day_key :: "account \<Rightarrow> quota \<Rightarrow> moment \<Rightarrow> nat \<times> quota \<times> int" where
  "day_key a q now = (ac_id a, q, \<lfloor>now / 86400\<rfloor>)"

definition scaled_amount :: "quota \<Rightarrow> int \<Rightarrow> int" where
  "scaled_amount q amount = (if q = Newsletter_mb then amount * 1000000 else amount)"

definition cache_incr :: "bool \<Rightarrow> nat \<times> quota \<times> int \<Rightarrow> int \<Rightarrow> counters \<Rightarrow> int option \<times> counters" where
  "cache_incr up key amount cs =
     (if up then (Some (cs key + amount), cs(key := cs key + amount)) else (None, cs))"

definition used_today :: "bool \<Rightarrow> counters \<Rightarrow> account \<Rightarrow> quota \<Rightarrow> moment \<Rightarrow> int" where
  "used_today up cs a q now = (if up then cs (day_key a q now) else 0)"

definition remaining_today ::
  "billing_settings \<Rightarrow> bool \<Rightarrow> counters \<Rightarrow> account \<Rightarrow> quota \<Rightarrow> moment \<Rightarrow> int option" where
  "remaining_today bc up cs a q now =
     (if is_paused bc a now then Some 0
      else
        let cap = limit bc a now q
        in if cap \<le> 0 then None else Some (max 0 (scaled_amount q cap - used_today up cs a q now)))"

definition record_use ::
  "billing_settings \<Rightarrow> bool \<Rightarrow> account \<Rightarrow> quota \<Rightarrow> moment \<Rightarrow> int \<Rightarrow> counters \<Rightarrow> counters" where
  "record_use bc up a q now amount cs =
     (if amount = 0 \<or> limit bc a now q \<le> 0 then cs
      else snd (cache_incr up (day_key a q now) amount cs))"

definition take_allowance ::
  "billing_settings \<Rightarrow> (nat \<Rightarrow> bool) \<Rightarrow> account \<Rightarrow> quota \<Rightarrow> moment \<Rightarrow> int \<Rightarrow> counters \<Rightarrow> bool \<times> counters" where
  "take_allowance bc up a q now amount cs =
     (if is_paused bc a now then (False, cs)
      else
        let cap = limit bc a now q
        in if cap \<le> 0 then (True, cs)
           else
             let key = day_key a q now; (used, cs) = cache_incr (up 0) key amount cs
             in if used = None \<or> or_default used 0 \<le> scaled_amount q cap then (True, cs)
                else (False, snd (cache_incr (up 1) key (- amount) cs)))"

definition newsletter_allowed ::
  "billing_settings \<Rightarrow> (nat \<Rightarrow> bool) \<Rightarrow> account \<Rightarrow> moment \<Rightarrow> int \<Rightarrow> counters \<Rightarrow> bool \<times> counters" where
  "newsletter_allowed bc up a now size_bytes cs =
     (let (ok, cs) = take_allowance bc up a Newsletters now 1 cs
      in if \<not> ok then (False, cs)
         else
           let (ok, cs) = take_allowance bc (\<lambda>i. up (i + 2)) a Newsletter_mb now size_bytes cs
           in if \<not> ok then (False, record_use bc (up 4) a Newsletters now (- 1) cs) else (True, cs))"

text \<open>The rows of the plan screen: quota, limit, use, whether daily. Volume is in megabytes with one decimal.\<close>

definition usage ::
  "billing_settings \<Rightarrow> bool \<Rightarrow> (quota \<Rightarrow> int) \<Rightarrow> counters \<Rightarrow> account \<Rightarrow> moment \<Rightarrow> (quota \<times> int \<times> real \<times> bool) list" where
  "usage bc up totals cs a now =
     (if \<not> bc_hosted bc then []
      else map (\<lambda>q.
             let n = (if q \<in> {Sources, Creator_total} then totals q else used_today up cs a q now);
                 used = (if q = Newsletter_mb then of_int (py_round (of_int n / 1000000 * 10)) / 10 else of_int n)
             in (q, limit bc a now q, used, q \<in> set DAILY)) QUOTAS)"

subsection \<open>The limits hold\<close>

lemma limit_selfhost: "\<not> bc_hosted bc \<Longrightarrow> limit bc a now q = 0"
  by (simp add: limit_def)

text \<open>A limit on sources or creators is exact: the request passes on a self-hosted instance, with a
  limit of zero, or when the new total fits, and a paused account is always refused.\<close>

theorem totals_enforced:
  "(enforce_source_limit bc a now current adding = Inr ()
      \<longleftrightarrow> \<not> is_paused bc a now \<and> (limit bc a now Sources \<le> 0 \<or> current + adding \<le> limit bc a now Sources))
   \<and> (enforce_creator_limit bc a now current adding = Inr ()
      \<longleftrightarrow> \<not> is_paused bc a now \<and> (limit bc a now Creator_total \<le> 0 \<or> current + adding \<le> limit bc a now Creator_total))"
  by (auto simp: enforce_source_limit_def enforce_creator_limit_def Let_def)

lemma take_refused_unchanged:
  assumes "up 0 \<Longrightarrow> up 1" "take_allowance bc up a q now amount cs = (False, cs')"
  shows "cs' = cs"
  using assms
  by (auto simp: take_allowance_def cache_incr_def Let_def split: if_splits)

lemma take_granted:
  assumes "take_allowance bc up a q now amount cs = (True, cs')" "up 0"
  shows "cs' = (if limit bc a now q \<le> 0 then cs else cs(day_key a q now := cs (day_key a q now) + amount))
    \<and> (limit bc a now q \<le> 0 \<or> cs (day_key a q now) + amount \<le> scaled_amount q (limit bc a now q))"
  using assms by (auto simp: take_allowance_def cache_incr_def Let_def or_default_def split: if_splits)

text \<open>A day of requests against one allowance, Redis answering; the amounts granted.\<close>

fun take_all ::
  "billing_settings \<Rightarrow> account \<Rightarrow> quota \<Rightarrow> moment \<Rightarrow> int list \<Rightarrow> counters \<Rightarrow> int list \<times> counters" where
  "take_all bc a q now [] cs = ([], cs)"
| "take_all bc a q now (n # ns) cs =
     (let (ok, cs) = take_allowance bc (\<lambda>_. True) a q now n cs;
          (granted, cs) = take_all bc a q now ns cs
      in ((if ok then n # granted else granted), cs))"

text \<open>C22: A daily allowance is never exceeded, in any sequence of requests of non-negative size: the
  counter is what it was plus what was granted, and stays within the allowance; refused requests
  cost nothing.\<close>

theorem allowance_never_exceeded:
  assumes "list_all (\<lambda>n. 0 \<le> n) ns" "0 < limit bc a now q"
    "cs (day_key a q now) \<le> scaled_amount q (limit bc a now q)"
  shows "snd (take_all bc a q now ns cs) (day_key a q now)
      = cs (day_key a q now) + sum_list (fst (take_all bc a q now ns cs))
    \<and> snd (take_all bc a q now ns cs) (day_key a q now) \<le> scaled_amount q (limit bc a now q)
    \<and> (\<forall>k. k \<noteq> day_key a q now \<longrightarrow> snd (take_all bc a q now ns cs) k = cs k)"
  using assms(1,3)
proof (induction ns arbitrary: cs)
  case (Cons n ns)
  obtain ok cs1 where t: "take_allowance bc (\<lambda>_. True) a q now n cs = (ok, cs1)" by (rule prod.exhaust)
  show ?case
  proof (cases ok)
    case True
    then have "cs1 (day_key a q now) = cs (day_key a q now) + n" "\<forall>k. k \<noteq> day_key a q now \<longrightarrow> cs1 k = cs k"
      "cs (day_key a q now) + n \<le> scaled_amount q (limit bc a now q)"
      using take_granted [of bc "\<lambda>_. True" a q now n cs cs1] t assms(2) by auto
    with Cons.IH [of cs1] Cons.prems True t show ?thesis by (simp add: split_beta Let_def)
  next
    case False
    then have "take_allowance bc (\<lambda>_. True) a q now n cs = (False, cs1)" using t by simp
    then have "cs1 = cs" by (rule take_refused_unchanged [rotated]) simp
    with Cons.IH [of cs] Cons.prems False t show ?thesis by (simp add: split_beta Let_def)
  qed
qed simp

theorem allowance_never_exceeded_witness:
  "snd (take_all example_settings example_account Digest_builds 50 [5, 9, 7] (\<lambda>_. 0)) (1, Digest_builds, 0) \<le> 12"
proof -
  have l: "limit example_settings example_account 50 Digest_builds = 12"
    by (simp add: limit_def example_account_def plan_quotas_def effective_plan_def PAID_TIERS_def later_def some_and_def
        DEFAULT_PLAN_QUOTAS_def example_settings_def or_else_def or_default_def)
  have k: "day_key example_account Digest_builds 50 = (1, Digest_builds, 0)"
    by (simp add: day_key_def example_account_def)
  show ?thesis
    using allowance_never_exceeded [of "[5, 9, 7]" example_settings example_account 50 Digest_builds "\<lambda>_. 0"]
    by (simp add: l k scaled_amount_def)
qed

text \<open>A newsletter takes from both allowances or from none.\<close>

lemma newsletter_all_or_nothing:
  assumes "newsletter_allowed bc (\<lambda>_. True) a now bytes cs = (False, cs')"
  shows "cs' = cs"
proof -
  obtain ok cs1 where t: "take_allowance bc (\<lambda>_. True) a Newsletters now 1 cs = (ok, cs1)" by (rule prod.exhaust)
  obtain ok2 cs2 where t2: "take_allowance bc (\<lambda>_. True) a Newsletter_mb now bytes cs1 = (ok2, cs2)" by (rule prod.exhaust)
  show ?thesis
  proof (cases ok)
    case False
    then show ?thesis using assms t take_refused_unchanged [of "\<lambda>_. True"] by (auto simp: newsletter_allowed_def)
  next
    case True
    then have ok2: "\<not> ok2" "cs' = record_use bc True a Newsletters now (- 1) cs2"
      using assms t t2 by (auto simp: newsletter_allowed_def split: if_splits)
    then have "take_allowance bc (\<lambda>_. True) a Newsletter_mb now bytes cs1 = (False, cs2)" using t2 by simp
    then have "cs2 = cs1" by (rule take_refused_unchanged [rotated]) simp
    moreover have "cs1 = (if limit bc a now Newsletters \<le> 0 then cs
        else cs(day_key a Newsletters now := cs (day_key a Newsletters now) + 1))"
      using take_granted [of bc "\<lambda>_. True" a Newsletters now 1 cs cs1] t True by simp
    ultimately show ?thesis by (auto simp: ok2(2) record_use_def cache_incr_def)
  qed
qed

end
