(* ===== verification/Lifecycle.thy ===== *)
theory Lifecycle
  imports Entitlements
begin

text \<open>
  The life of a hosted account: email verification (\<open>services/email_verification.py\<close>), the trial emails
  (\<open>workers/tasks/trial_emails.py\<close>), the win-back emails (\<open>workers/tasks/reengagement.py\<close>) and the
  deletion of paused accounts (\<open>workers/tasks/paused_accounts.py\<close>). Sending an email is an entry in a
  log; \<open>delivered\<close> tells whether the mail server took it. The texts of the emails are not modelled.
\<close>

subsection \<open>Email verification\<close>

definition verification_required :: "string \<Rightarrow> bool \<Rightarrow> bool" where
  "verification_required setting hosted =
     (let mode = lower (strip (if setting = [] then ''auto'' else setting))
      in if mode \<in> {''required'', ''on'', ''true''} then True
         else if mode \<in> {''off'', ''false''} then False else hosted)"

text \<open>\<open>required\<close> is the value of \<open>verification_required\<close>.\<close>

definition may_email :: "bool \<Rightarrow> account \<Rightarrow> bool" where
  "may_email required a \<longleftrightarrow> ac_email_verified_at a \<noteq> None \<or> \<not> required"

definition mark_verified :: "moment \<Rightarrow> account \<Rightarrow> account" where
  "mark_verified now a = (if ac_email_verified_at a = None then a\<lparr>ac_email_verified_at := Some now\<rparr> else a)"

subsection \<open>Trial emails\<close>

definition STARTED :: nat where "STARTED = 1"
definition ENDING :: nat where "ENDING = 2"
definition ENDED :: nat where "ENDED = 3"

definition due_stage :: "billing_settings \<Rightarrow> moment \<Rightarrow> nat \<Rightarrow> bool \<Rightarrow> moment \<Rightarrow> nat option" where
  "due_stage bc trial_ends_at current_stage paid now =
     (let reached = (if trial_ends_at \<le> now then ENDED
                     else if trial_ends_at - days (bc_trial_ending_notice_days bc) \<le> now then ENDING else STARTED)
      in if reached \<le> current_stage then None
         else if paid \<and> reached \<noteq> STARTED then None
         else Some reached)"

definition trial_email ::
  "billing_settings \<Rightarrow> bool \<Rightarrow> bool \<Rightarrow> moment \<Rightarrow> account \<Rightarrow> account \<times> nat option" where
  "trial_email bc required delivered now a =
     (case ac_trial_ends_at a of
        None \<Rightarrow> (a, None)
      | Some ends \<Rightarrow>
          if \<not> bc_hosted bc \<or> ENDED \<le> ac_trial_email_stage a then (a, None)
          else
            let paid = effective_plan bc a now \<in> set PAID_TIERS
            in if paid \<and> ends \<le> now then (a\<lparr>ac_trial_email_stage := ENDED\<rparr>, None)
               else case due_stage bc ends (ac_trial_email_stage a) paid now of
                      None \<Rightarrow> (a, None)
                    | Some stage \<Rightarrow>
                        if \<not> may_email required a then (a, None)
                        else (if delivered then a\<lparr>ac_trial_email_stage := stage\<rparr> else a, Some stage))"

subsection \<open>Paused accounts\<close>

definition remind_days :: "billing_settings \<Rightarrow> int" where
  "remind_days bc = max 0 (min (bc_delete_reminder_days bc) (bc_paused_delete_days bc))"

definition delete_at :: "billing_settings \<Rightarrow> moment \<Rightarrow> moment" where
  "delete_at bc since = since + days (bc_paused_delete_days bc)"

text \<open>A reminder of an earlier pause does not count.\<close>

definition reminder_of_pause :: "moment \<Rightarrow> moment option \<Rightarrow> moment option" where
  "reminder_of_pause since sent = (case sent of None \<Rightarrow> None | Some t \<Rightarrow> if since \<le> t then Some t else None)"

definition pause_schedule :: "billing_settings \<Rightarrow> moment \<Rightarrow> moment option \<Rightarrow> moment \<Rightarrow> bool \<times> bool" where
  "pause_schedule bc since reminder_sent_at now =
     (if bc_paused_delete_days bc \<le> 0 then (False, False)
      else case reminder_of_pause since reminder_sent_at of
             None \<Rightarrow> (delete_at bc since - days (remind_days bc) \<le> now, False)
           | Some sent \<Rightarrow> (False, max (delete_at bc since) (sent + days (remind_days bc)) \<le> now))"

text \<open>The day the reminder names.\<close>

definition announced_deletion :: "billing_settings \<Rightarrow> account \<Rightarrow> moment \<Rightarrow> moment" where
  "announced_deletion bc a now =
     max (delete_at bc (paused_since a)) (now + days (bc_delete_reminder_days bc))"

datatype lifecycle_entry = Reminded nat moment moment bool | Deleted nat moment "string option"

definition candidate :: "account \<Rightarrow> moment \<Rightarrow> bool" where
  "candidate a now \<longleftrightarrow>
     \<not> (ac_tier a \<in> set PAID_TIERS \<and> (ac_plan_expires_at a = None \<or> later (ac_plan_expires_at a) now))
     \<and> \<not> later (ac_trial_ends_at a) now"

text \<open>What the task does with one account: the account, unless it is deleted, and the log entry. A
  reminder is recorded also when the address may not be mailed (the last component).\<close>

definition process_account ::
  "billing_settings \<Rightarrow> bool \<Rightarrow> (account \<Rightarrow> string option) \<Rightarrow> moment \<Rightarrow> account
    \<Rightarrow> account option \<times> lifecycle_entry list" where
  "process_account bc required cancel now a =
     (if \<not> candidate a now \<or> effective_plan bc a now \<noteq> ''paused'' then (Some a, [])
      else
        let (remind, delete) = pause_schedule bc (paused_since a) (ac_deletion_reminder_sent_at a) now
        in if remind then (Some (a\<lparr>ac_deletion_reminder_sent_at := Some now\<rparr>),
                           [Reminded (ac_id a) now (announced_deletion bc a now) (may_email required a)])
           else if delete then (None, [Deleted (ac_id a) now (cancel a)])
           else (Some a, []))"

definition process_paused_accounts ::
  "billing_settings \<Rightarrow> bool \<Rightarrow> (account \<Rightarrow> string option) \<Rightarrow> moment \<Rightarrow> account list
    \<Rightarrow> account list \<times> lifecycle_entry list" where
  "process_paused_accounts bc required cancel now accounts =
     (if \<not> bc_hosted bc \<or> bc_paused_delete_days bc \<le> 0 then (accounts, [])
      else
        let results = map (process_account bc required cancel now) accounts
        in (List.map_filter fst results, concat (map snd results)))"

subsection \<open>Win-back emails\<close>

record nudge_settings =
  ng_stage_days :: "int list"
  ng_min_gap_days :: int
  ng_pause_digest_at_final :: bool

record nudged =
  nu_onboarding_complete :: bool
  nu_created_at :: moment
  nu_stage :: nat
  nu_sent_at :: "moment option"
  nu_in_app_only :: bool

definition stage_days :: "nudge_settings \<Rightarrow> int list" where
  "stage_days ng = take 3 (sort (ng_stage_days ng))"

definition nudge_stage :: "nudge_settings \<Rightarrow> real \<Rightarrow> nat \<Rightarrow> moment option \<Rightarrow> moment \<Rightarrow> nat option" where
  "nudge_stage ng days_inactive current_stage last_sent now =
     (let reached = length (filter (\<lambda>d. of_int d \<le> days_inactive) (stage_days ng))
      in if reached \<le> current_stage then None
         else if some_and last_sent (\<lambda>t. now - t < days (ng_min_gap_days ng)) then None
         else Some reached)"

text \<open>The state of a reader before the decision, and one run of the task; \<open>opened\<close> is the newest
  \<open>generated_at\<close> of the digests the reader opened.\<close>

definition came_back :: "moment \<Rightarrow> nudged \<Rightarrow> nudged" where
  "came_back last_open u =
     (if nu_stage u \<noteq> 0 \<and> some_and (nu_sent_at u) (\<lambda>t. t < last_open) then u\<lparr>nu_stage := 0\<rparr> else u)"

definition nudge ::
  "nudge_settings \<Rightarrow> bool \<Rightarrow> bool \<Rightarrow> moment option \<Rightarrow> moment \<Rightarrow> nudged \<Rightarrow> nudged \<times> nat option" where
  "nudge ng mailable delivered opened now u =
     (if nu_in_app_only u \<or> \<not> nu_onboarding_complete u then (u, None)
      else
        let last_open = or_default opened (nu_created_at u);
            u = came_back last_open u
        in case nudge_stage ng ((now - last_open) / 86400) (nu_stage u) (nu_sent_at u) now of
             None \<Rightarrow> (u, None)
           | Some stage \<Rightarrow>
               if \<not> mailable then (u, None)
               else if \<not> delivered then (u, Some stage)
               else (u\<lparr>nu_stage := stage, nu_sent_at := Some now,
                       nu_in_app_only := nu_in_app_only u \<or> (stage = 3 \<and> ng_pause_digest_at_final ng)\<rparr>, Some stage))"

subsection \<open>Deletion\<close>

text \<open>The query of the task and \<open>effective_plan\<close> agree on who is paused.\<close>

lemma candidates_are_paused: "bc_hosted bc \<Longrightarrow> candidate a now \<longleftrightarrow> effective_plan bc a now = ''paused''"
  by (auto simp: candidate_def effective_plan_def PAID_TIERS_def)

datatype life_event = Task moment | Hook moment billing_update

definition life_step ::
  "billing_settings \<Rightarrow> bool \<Rightarrow> (account \<Rightarrow> string option) \<Rightarrow> billing_db \<times> lifecycle_entry list \<Rightarrow> life_event
    \<Rightarrow> billing_db \<times> lifecycle_entry list" where
  "life_step bc required cancel s ev =
     (case ev of
        Task now \<Rightarrow>
          let (accounts, entries) = process_paused_accounts bc required cancel now (bd_accounts (fst s))
          in ((fst s)\<lparr>bd_accounts := accounts\<rparr>, snd s @ entries)
      | Hook now bu \<Rightarrow> (deliver bc (fst s) (now, bu), snd s))"

definition reminder_logged :: "lifecycle_entry list \<Rightarrow> nat \<Rightarrow> moment \<Rightarrow> bool" where
  "reminder_logged lg i t \<longleftrightarrow> (\<exists>p m. Reminded i t p m \<in> set lg)"

definition reminded_ok :: "lifecycle_entry list \<Rightarrow> account \<Rightarrow> bool" where
  "reminded_ok lg a \<longleftrightarrow> (\<forall>t. ac_deletion_reminder_sent_at a = Some t \<longrightarrow> reminder_logged lg (ac_id a) t)"

definition deletion_ok :: "billing_settings \<Rightarrow> lifecycle_entry list \<Rightarrow> lifecycle_entry \<Rightarrow> bool" where
  "deletion_ok bc lg e \<longleftrightarrow> (case e of Reminded i t p m \<Rightarrow> True
     | Deleted i t c \<Rightarrow> (\<exists>s. reminder_logged lg i s \<and> s + days (remind_days bc) \<le> t))"

definition notice_ok :: "billing_settings \<Rightarrow> billing_db \<times> lifecycle_entry list \<Rightarrow> bool" where
  "notice_ok bc s \<longleftrightarrow> list_all (reminded_ok (snd s)) (bd_accounts (fst s)) \<and> list_all (deletion_ok bc (snd s)) (snd s)"

lemma reminder_logged_mono: "reminder_logged lg i t \<Longrightarrow> set lg \<subseteq> set lg' \<Longrightarrow> reminder_logged lg' i t"
  by (auto simp: reminder_logged_def)

lemma reminded_ok_mono: "reminded_ok lg a \<Longrightarrow> set lg \<subseteq> set lg' \<Longrightarrow> reminded_ok lg' a"
  by (auto simp: reminded_ok_def intro: reminder_logged_mono)

lemma deletion_ok_mono: "deletion_ok bc lg e \<Longrightarrow> set lg \<subseteq> set lg' \<Longrightarrow> deletion_ok bc lg' e"
  by (auto simp: deletion_ok_def intro: reminder_logged_mono split: lifecycle_entry.splits)

lemma apply_keeps_reminder [simp]:
  "ac_deletion_reminder_sent_at (apply_to_account bc now bu a) = ac_deletion_reminder_sent_at a"
  by (simp add: apply_to_account_def stamped_def Let_def)

lemma deliver_reminded:
  assumes "list_all (reminded_ok lg) (bd_accounts db)"
  shows "list_all (reminded_ok lg) (bd_accounts (deliver bc db d))"
proof (cases "find_user (snd d) (bd_accounts db)")
  case None
  then show ?thesis using assms by (simp add: deliver_def apply_update_def Let_def)
next
  case (Some a)
  then have "reminded_ok lg (apply_to_account bc (fst d) (snd d) a)"
    using assms find_user_mem by (fastforce simp: list_all_iff reminded_ok_def apply_to_account_props)
  then show ?thesis
    using assms Some by (auto simp: deliver_def apply_update_def Let_def list_all_iff)
qed

lemma process_account_ok:
  assumes "reminded_ok lg a" "process_account bc required cancel now a = (a', entries)"
  shows "(case a' of None \<Rightarrow> True | Some b \<Rightarrow> reminded_ok (lg @ entries) b) \<and> list_all (deletion_ok bc lg) entries"
proof (cases "candidate a now \<and> effective_plan bc a now = ''paused''")
  case False
  with assms show ?thesis by (auto simp: process_account_def)
next
  case True
  obtain remind delete where s: "pause_schedule bc (paused_since a) (ac_deletion_reminder_sent_at a) now = (remind, delete)"
    by (rule prod.exhaust)
  have d: "delete \<Longrightarrow> \<exists>t. ac_deletion_reminder_sent_at a = Some t \<and> t + days (remind_days bc) \<le> now"
    using s by (auto simp: pause_schedule_def reminder_of_pause_def split: if_splits option.splits)
  consider "remind" | "\<not> remind" "delete" | "\<not> remind" "\<not> delete" by blast
  then show ?thesis
  proof cases
    case 1
    then have "a' = Some (a\<lparr>ac_deletion_reminder_sent_at := Some now\<rparr>)"
      "entries = [Reminded (ac_id a) now (announced_deletion bc a now) (may_email required a)]"
      using assms(2) True s by (simp_all add: process_account_def)
    then show ?thesis by (auto simp: reminded_ok_def reminder_logged_def deletion_ok_def)
  next
    case 2
    then have r: "a' = None" "entries = [Deleted (ac_id a) now (cancel a)]"
      using assms(2) True s by (simp_all add: process_account_def)
    obtain t where "ac_deletion_reminder_sent_at a = Some t" "t + days (remind_days bc) \<le> now" using d 2 by blast
    with assms(1) show ?thesis by (auto simp: r reminded_ok_def deletion_ok_def)
  next
    case 3
    then have "a' = Some a" "entries = []" using assms(2) True s by (simp_all add: process_account_def)
    then show ?thesis using assms(1) by simp
  qed
qed

lemma task_ok:
  assumes "list_all (reminded_ok lg) accounts" "process_paused_accounts bc required cancel now accounts = (accounts', entries)"
  shows "list_all (reminded_ok (lg @ entries)) accounts' \<and> list_all (deletion_ok bc lg) entries"
proof (cases "\<not> bc_hosted bc \<or> bc_paused_delete_days bc \<le> 0")
  case True
  with assms show ?thesis by (auto simp: process_paused_accounts_def)
next
  case False
  let ?r = "process_account bc required cancel now"
  have e: "entries = concat (map (\<lambda>a. snd (?r a)) accounts)"
    and a': "accounts' = List.map_filter (\<lambda>a. fst (?r a)) accounts"
    using assms(2) False by (auto simp: process_paused_accounts_def Let_def o_def List.map_filter_def filter_map)
  have one: "(case fst (?r a) of None \<Rightarrow> True | Some b \<Rightarrow> reminded_ok (lg @ snd (?r a)) b)
      \<and> list_all (deletion_ok bc lg) (snd (?r a))" if a: "a \<in> set accounts" for a
    using process_account_ok [of lg a bc required cancel now "fst (?r a)" "snd (?r a)"] a assms(1)
    by (simp add: list_all_iff)
  have "reminded_ok (lg @ entries) b" if b: "b \<in> set accounts'" for b
  proof -
    obtain a where a: "a \<in> set accounts" "fst (?r a) = Some b" using b by (auto simp: a' List.map_filter_def)
    then have "reminded_ok (lg @ snd (?r a)) b" using one by fastforce
    then show ?thesis by (rule reminded_ok_mono) (use a(1) in \<open>auto simp: e\<close>)
  qed
  with one show ?thesis by (auto simp: e list_all_iff)
qed

lemma life_step_ok:
  assumes "notice_ok bc s"
  shows "notice_ok bc (life_step bc required cancel s ev)"
proof (cases ev)
  case (Task now)
  obtain accounts entries where p: "process_paused_accounts bc required cancel now (bd_accounts (fst s)) = (accounts, entries)"
    by (rule prod.exhaust)
  have ok: "list_all (reminded_ok (snd s @ entries)) accounts" "list_all (deletion_ok bc (snd s)) entries"
    using task_ok [OF _ p] assms by (auto simp: notice_ok_def)
  have "list_all (deletion_ok bc (snd s @ entries)) (snd s @ entries)"
    using ok(2) assms deletion_ok_mono [of bc "snd s" _ "snd s @ entries"] by (auto simp: notice_ok_def list_all_iff)
  with ok(1) show ?thesis by (simp add: life_step_def Task p notice_ok_def)
next
  case (Hook now bu)
  with assms show ?thesis by (simp add: life_step_def notice_ok_def deliver_reminded)
qed

interpretation life: preserving "life_step bc required cancel" "notice_ok bc" "\<lambda>_. True"
  by unfold_locales (rule life_step_ok)


definition tasks_of_a_pause :: "life_event list" where
  "tasks_of_a_pause = [Task (100 + 86400 * 23), Task (100 + 86400 * 30)]"


text \<open>A paused account that was reminded in this pause is deleted by the first run at which both the
  retention period is over and the reminder is old enough, and not before.\<close>

lemma reminded_account_deleted:
  assumes "bc_hosted bc" "0 < bc_paused_delete_days bc" "effective_plan bc a now = ''paused''"
    "ac_deletion_reminder_sent_at a = Some s" "paused_since a \<le> s"
  shows "fst (process_account bc required cancel now a) = None
    \<longleftrightarrow> delete_at bc (paused_since a) \<le> now \<and> s + days (remind_days bc) \<le> now"
  using assms candidates_are_paused [OF assms(1), of a now]
  by (simp add: process_account_def pause_schedule_def reminder_of_pause_def)

text \<open>The reminder announces a day that uses the configured reminder period, the deletion the shorter of
  it and the retention period: with 40 and 30 days the account is deleted ten days before the day the
  email names.\<close>

definition long_reminder :: billing_settings where
  "long_reminder = example_settings\<lparr>bc_delete_reminder_days := 40\<rparr>"

lemma deleted_before_announced_day:
  "announced_deletion long_reminder example_account 100 = 100 + 86400 * 40
   \<and> snd (foldl (life_step long_reminder True (\<lambda>_. None)) (example_db, []) [Task 100, Task (100 + 86400 * 30)])
     = [Reminded 1 100 (100 + 86400 * 40) True, Deleted 1 (100 + 86400 * 30) None]"
proof -
  have s: "bc_hosted long_reminder" "bc_paused_delete_days long_reminder = 30" "remind_days long_reminder = 30"
    "delete_at long_reminder 100 = 100 + 86400 * 30" "bc_delete_reminder_days long_reminder = 40"
    by (simp_all add: long_reminder_def example_settings_def remind_days_def delete_at_def days_def)
  have a: "announced_deletion long_reminder (example_account\<lparr>ac_deletion_reminder_sent_at := r\<rparr>) 100 = 100 + 86400 * 40" for r
    by (simp add: announced_deletion_def s paused_since_def example_account_def days_def)
  have p: "effective_plan long_reminder (example_account\<lparr>ac_deletion_reminder_sent_at := r\<rparr>) t = ''paused''" if "100 \<le> t" for t r
    using that by (simp add: effective_plan_def s example_account_def PAID_TIERS_def later_def some_and_def)
  have c: "candidate (example_account\<lparr>ac_deletion_reminder_sent_at := r\<rparr>) t" if "100 \<le> t" for t r
    using candidates_are_paused [OF s(1)] p [OF that] by simp
  have since: "paused_since (example_account\<lparr>ac_deletion_reminder_sent_at := r\<rparr>) = 100" for r
    by (simp add: paused_since_def example_account_def)
  have same: "example_account = example_account\<lparr>ac_deletion_reminder_sent_at := None\<rparr>"
    by (simp add: example_account_def)
  have i: "ac_id example_account = 1" "may_email True example_account"
    by (simp_all add: example_account_def may_email_def)
  have one: "process_account long_reminder True (\<lambda>_. None) 100 example_account
      = (Some (example_account\<lparr>ac_deletion_reminder_sent_at := Some 100\<rparr>), [Reminded 1 100 (100 + 86400 * 40) True])"
    by (subst same) (use p [of 100 None] c [of 100 None] since [of None] a [of None] i in
      \<open>simp add: process_account_def pause_schedule_def reminder_of_pause_def s days_def may_email_def\<close>)
  have two: "process_account long_reminder True (\<lambda>_. None) (100 + 86400 * 30) (example_account\<lparr>ac_deletion_reminder_sent_at := Some 100\<rparr>)
      = (None, [Deleted 1 (100 + 86400 * 30) None])"
    using p [of "100 + 86400 * 30" "Some 100"] c [of "100 + 86400 * 30" "Some 100"] i
    by (simp add: process_account_def pause_schedule_def reminder_of_pause_def s since days_def)
  show ?thesis
    using a [of None] same
    by (simp add: life_step_def process_paused_accounts_def s example_db_def one two [simplified] List.map_filter_simps)
qed

subsection \<open>Emails of a trial\<close>

fun trial_run ::
  "billing_settings \<Rightarrow> bool \<Rightarrow> (moment \<times> bool) list \<Rightarrow> account \<Rightarrow> (nat \<times> moment \<times> bool) list" where
  "trial_run bc required [] a = []"
| "trial_run bc required ((now, delivered) # runs) a =
     (case trial_email bc required delivered now a of
        (a', None) \<Rightarrow> trial_run bc required runs a'
      | (a', Some stage) \<Rightarrow>
          (if delivered then [(stage, now, effective_plan bc a now \<in> set PAID_TIERS)] else [])
          @ trial_run bc required runs a')"

lemma trial_email_stage:
  assumes "trial_email bc required delivered now a = (a', Some stage)"
  shows "ac_trial_email_stage a < stage \<and> stage \<le> ENDED \<and> (delivered \<longrightarrow> ac_trial_email_stage a' = stage)
    \<and> (effective_plan bc a now \<in> set PAID_TIERS \<longrightarrow> stage = STARTED)"
  using assms
  by (auto simp: trial_email_def due_stage_def Let_def ENDED_def ENDING_def STARTED_def split: option.splits if_splits)

lemma trial_email_monotone:
  "ac_trial_email_stage a \<le> ac_trial_email_stage (fst (trial_email bc required delivered now a))"
  by (auto simp: trial_email_def due_stage_def Let_def ENDED_def ENDING_def STARTED_def split: option.split)

lemma trial_run_stages:
  "sorted_wrt (<) (map fst (trial_run bc required runs a))
    \<and> list_all (\<lambda>(stage, now, paid). ac_trial_email_stage a < stage \<and> stage \<le> ENDED \<and> (paid \<longrightarrow> stage = STARTED))
        (trial_run bc required runs a)"
proof (induction runs arbitrary: a)
  case (Cons run runs)
  obtain now delivered where run: "run = (now, delivered)" by (rule prod.exhaust)
  obtain a' sent where t: "trial_email bc required delivered now a = (a', sent)" by (rule prod.exhaust)
  have m: "ac_trial_email_stage a \<le> ac_trial_email_stage a'" using trial_email_monotone [of a bc required delivered now] t by simp
  note ih = Cons.IH [of a']
  show ?case
  proof (cases "\<exists>stage. sent = Some stage \<and> delivered")
    case False
    have "trial_run bc required (run # runs) a = trial_run bc required runs a'"
    proof (cases sent)
      case None
      then show ?thesis using t by (simp add: run)
    next
      case (Some stage)
      then show ?thesis using t False by (simp add: run)
    qed
    with ih m show ?thesis by (auto simp: list_all_iff dest: le_less_trans)
  next
    case True
    then obtain stage where s: "sent = Some stage" "delivered" by blast
    with trial_email_stage [of bc required delivered now a a' stage] t
    have st: "ac_trial_email_stage a < stage" "stage \<le> ENDED" "ac_trial_email_stage a' = stage"
      "effective_plan bc a now \<in> set PAID_TIERS \<longrightarrow> stage = STARTED" by auto
    have "trial_run bc required (run # runs) a
        = (stage, now, effective_plan bc a now \<in> set PAID_TIERS) # trial_run bc required runs a'"
      using t s by (simp add: run)
    moreover have "x \<in> set (trial_run bc required runs a') \<Longrightarrow> stage < fst x" for x
      using ih st(3) by (auto simp: list_all_iff)
    ultimately show ?thesis using ih st by (auto simp: list_all_iff dest: less_trans)
  qed
qed simp

text \<open>The trial emails of an account, over any number of daily runs and mail failures, come in order and
  once each, and an account with a paid plan gets none but the first.\<close>

theorem trial_emails_once:
  "sorted_wrt (<) (map fst (trial_run bc required runs a))
    \<and> list_all (\<lambda>(stage, now, paid). stage \<in> {STARTED, ENDING, ENDED} \<and> (paid, stage) \<notin> {True} \<times> {ENDING, ENDED})
        (trial_run bc required runs a)"
  using trial_run_stages [of bc required runs a]
  by (fastforce simp: list_all_iff STARTED_def ENDING_def ENDED_def)

subsection \<open>Win-back\<close>

text \<open>The task looks at when the opened digests were generated, not at when they were opened: a reader who
  opens an older digest after a nudge is not counted as back, and the next stage is sent.\<close>

definition nudge_defaults :: nudge_settings where
  "nudge_defaults = \<lparr>ng_stage_days = [3, 10, 30], ng_min_gap_days = 3, ng_pause_digest_at_final = False\<rparr>"

definition nudged_reader :: nudged where
  "nudged_reader = \<lparr>nu_onboarding_complete = True, nu_created_at = 0, nu_stage = 1, nu_sent_at = Some (3 * 86400),
     nu_in_app_only = False\<rparr>"

lemma late_open_not_noticed:
  "came_back 0 nudged_reader = nudged_reader
   \<and> snd (nudge nudge_defaults True True (Some 0) (11 * 86400) nudged_reader) = Some 2"
proof -
  have c: "came_back 0 nudged_reader = nudged_reader"
    by (simp add: came_back_def nudged_reader_def some_and_def)
  have s: "stage_days nudge_defaults = [3, 10, 30]" by (simp add: stage_days_def nudge_defaults_def)
  have g: "ng_min_gap_days nudge_defaults = 3" by (simp add: nudge_defaults_def)
  have n: "nudge_stage nudge_defaults (11 * 86400 / 86400) (nu_stage nudged_reader) (nu_sent_at nudged_reader) (11 * 86400) = Some 2"
    by (simp add: nudge_stage_def s g some_and_def days_def nudged_reader_def Let_def)
  have "\<not> (nu_in_app_only nudged_reader \<or> \<not> nu_onboarding_complete nudged_reader)" by (simp add: nudged_reader_def)
  then show ?thesis using c n by (simp add: nudge_def or_default_def)
qed

end
