(* ===== verification/Learner.thy ===== *)
theory Learner
  imports Builder
begin

text \<open>
  Learning a reader's weights from settled digests, \<open>services/ranking/learner.py\<close>, and the stored weights,
  \<open>services/ranking/meta_weights.py\<close>. The tables are those of the digest builder; \<open>weights_db\<close> has the row
  of weights, its revisions and the cache. A reader is one row of weights.
\<close>

subsection \<open>Stored weights\<close>

fun DEFAULT_WEIGHTS :: "signal \<Rightarrow> real" where
  "DEFAULT_WEIGHTS Semantic = 0.25"
| "DEFAULT_WEIGHTS ReadingDepth = 0.15"
| "DEFAULT_WEIGHTS Suggestion = 0.20"
| "DEFAULT_WEIGHTS ExplicitFeedback = 0.15"
| "DEFAULT_WEIGHTS SourceTrust = 0.10"
| "DEFAULT_WEIGHTS ContentQuality = 0.05"
| "DEFAULT_WEIGHTS TemporalContext = 0.07"
| "DEFAULT_WEIGHTS Novelty = 0.03"

record weights_row =
  wr_weights :: "signal \<Rightarrow> real option"
  wr_update_count :: int
  wr_pairs_seen :: int
  wr_trained_until :: "moment option"

record weights_db =
  wx_row :: "weights_row option"
  wx_revisions :: "(string \<times> (signal \<Rightarrow> real option)) list"
  wx_cache :: "(signal \<Rightarrow> real option) option"

text \<open>\<open>UserMetaWeights\<close>: an empty dictionary is replaced by the defaults, and the values are normalized.\<close>

definition normalize_weights :: "(signal \<Rightarrow> real option) \<Rightarrow> signal \<Rightarrow> real option" where
  "normalize_weights m =
     (let total = sum_list (map (\<lambda>name. or_default (m name) 0) SIGNALS)
      in if 0 < total then (\<lambda>name. map_option (\<lambda>v. v / total) (m name)) else m)"

definition user_meta_weights :: "(signal \<Rightarrow> real option) \<Rightarrow> signal \<Rightarrow> real option" where
  "user_meta_weights m =
     normalize_weights (if list_all (\<lambda>name. m name = None) SIGNALS then Some \<circ> DEFAULT_WEIGHTS else m)"

definition get_meta_weights :: "weights_db \<Rightarrow> (signal \<Rightarrow> real option) \<times> weights_db" where
  "get_meta_weights db =
     (case wx_cache db of
        Some m \<Rightarrow> (user_meta_weights m, db)
      | None \<Rightarrow>
          (case wx_row db of
             None \<Rightarrow> (user_meta_weights (\<lambda>_. None), db)
           | Some row \<Rightarrow> let m = user_meta_weights (wr_weights row) in (m, db\<lparr>wx_cache := Some m\<rparr>)))"

subsection \<open>Pairs of a digest\<close>

definition SETTLE_AFTER :: real where "SETTLE_AFTER = 12 * 3600"
definition MIN_LABEL_GAP :: real where "MIN_LABEL_GAP = 0.25"
definition MAX_PAIRS_PER_DIGEST :: nat where "MAX_PAIRS_PER_DIGEST = 60"
definition MAX_DIGESTS_PER_RUN :: nat where "MAX_DIGESTS_PER_RUN = 30"
definition BASE_LR :: real where "BASE_LR = 0.05"

definition prior_vector :: "py_error + vec" where
  "prior_vector = project_simplex (map (\<lambda>name. Fin (DEFAULT_WEIGHTS name)) SIGNALS) FLOOR"

definition logged_features :: "digest_impression \<Rightarrow> vec" where
  "logged_features m = map (\<lambda>name. or_default (dm_features m name) 0.5) SIGNALS"

definition event_of :: "interaction \<Rightarrow> bool \<Rightarrow> moment \<Rightarrow> event" where
  "event_of ix viewed now =
     \<lparr>ev_completion = (if ix_opened_at ix \<noteq> None then ix_read_completion_pct ix else None),
      ev_rating = ix_explicit_rating ix, ev_saved = ix_saved ix,
      ev_skipped = ix_skipped ix \<or> (ix_opened_at ix = None \<and> \<not> ix_saved ix \<and> ix_explicit_rating ix = None),
      ev_reread = ix_re_read_count ix, ev_viewed = viewed, ev_reason = ix_explicit_rating_reason ix,
      ev_saved_unopened_days =
        (if ix_saved ix \<and> ix_opened_at ix = None then map_option (\<lambda>t. (now - t) / 86400) (ix_saved_at ix) else None)\<rparr>"

definition label_of :: "interaction option \<Rightarrow> bool \<Rightarrow> moment \<Rightarrow> (real \<times> real) option" where
  "label_of ix viewed now = (case ix of None \<Rightarrow> None | Some ix \<Rightarrow> label_event_with_reason (event_of ix viewed now))"

definition digest_viewed :: "digest_impression list \<Rightarrow> (nat \<Rightarrow> interaction option) \<Rightarrow> bool" where
  "digest_viewed impressions ixs \<longleftrightarrow> list_ex dm_viewed impressions
     \<or> list_ex (\<lambda>m. some_and (ixs (dm_content_item_id m)) (\<lambda>ix. ix_opened_at ix \<noteq> None)) impressions"

text \<open>A labelled impression: label, confidence, inverse propensity weight, features.\<close>

type_synonym labeled = "real \<times> real \<times> real \<times> vec"

definition label_impression ::
  "bool \<Rightarrow> moment \<Rightarrow> (nat \<Rightarrow> interaction option) \<Rightarrow> digest_impression \<Rightarrow> labeled option" where
  "label_impression viewed now ixs m =
     map_option (\<lambda>(y, c). (y, c, if dm_exploration m then clipped_ipw (dm_propensity m) IPW_CAP else 1, logged_features m))
       (label_of (ixs (dm_content_item_id m)) viewed now)"

fun pairs_of_labeled :: "labeled list \<Rightarrow> (vec \<times> vec \<times> real) list" where
  "pairs_of_labeled [] = []"
| "pairs_of_labeled ((li, ci, wi, fi) # rows) =
     map (\<lambda>(lj, cj, wj, fj). (fi, fj, min ci cj * max wi wj)) (filter (\<lambda>(lj, _). MIN_LABEL_GAP \<le> li - lj) rows)
     @ pairs_of_labeled rows"

definition digest_pairs ::
  "digest_impression list \<Rightarrow> (nat \<Rightarrow> interaction option) \<Rightarrow> moment \<Rightarrow> (vec \<times> vec \<times> real) list" where
  "digest_pairs impressions ixs now =
     take MAX_PAIRS_PER_DIGEST (pairs_of_labeled (sort_desc fst
       (List.map_filter (label_impression (digest_viewed impressions ixs) now ixs) impressions)))"

subsection \<open>Training\<close>

definition settled_digests :: "world \<Rightarrow> nat \<Rightarrow> moment option \<Rightarrow> moment \<Rightarrow> digest list" where
  "settled_digests w user trained_until now =
     take MAX_DIGESTS_PER_RUN (sort_key dg_generated_at
       (filter (\<lambda>d. dg_user_id d = user \<and> dg_generated_at d \<le> now - SETTLE_AFTER
                  \<and> \<not> some_and trained_until (\<lambda>t. dg_generated_at d \<le> t)) (wd_digests w)))"

definition impressions_of :: "world \<Rightarrow> nat \<Rightarrow> nat \<Rightarrow> digest_impression list" where
  "impressions_of w user digest =
     filter (\<lambda>m. dm_digest_id m = digest \<and> dm_user_id m = user) (wd_impressions w)"

definition interactions_of :: "world \<Rightarrow> nat \<Rightarrow> digest_impression list \<Rightarrow> nat \<Rightarrow> interaction option" where
  "interactions_of w user impressions =
     foldl (\<lambda>m ix. if ix_user_id ix = user \<and> ix_content_item_id ix \<in> dm_content_item_id ` set impressions
        then m(ix_content_item_id ix \<mapsto> ix) else m) Map.empty (wd_interactions w)"

definition training_pairs :: "world \<Rightarrow> nat \<Rightarrow> moment \<Rightarrow> digest list \<Rightarrow> (vec \<times> vec \<times> real) list" where
  "training_pairs w user now digests =
     concat (map (\<lambda>d. let ms = impressions_of w user (dg_id d) in digest_pairs ms (interactions_of w user ms) now) digests)"

definition pair_steps :: "(vec \<times> vec \<times> real) list \<Rightarrow> pair_step list" where
  "pair_steps pairs = map (\<lambda>(preferred, other, weight). (preferred, other, BASE_LR * weight, 0.1)) pairs"

definition weights_dict :: "vec \<Rightarrow> signal \<Rightarrow> real option" where
  "weights_dict v = map_of (zip SIGNALS v)"

definition new_weights_row :: "vec \<Rightarrow> weights_row" where
  "new_weights_row prior = \<lparr>wr_weights = weights_dict prior, wr_update_count = 0, wr_pairs_seen = 0, wr_trained_until = None\<rparr>"

definition row_state :: "vec \<Rightarrow> weights_row \<Rightarrow> py_error + weight_state" where
  "row_state prior row =
     map_sum id (\<lambda>v. \<lparr>ws_weights = v, ws_version = RANKER_VERSION, ws_updates = wr_update_count row,
                      ws_pairs_seen = wr_pairs_seen row\<rparr>)
       (project_simplex (map (\<lambda>(name, p). Fin (or_default (wr_weights row name) p)) (zip SIGNALS prior)) FLOOR)"

definition trained_row :: "weights_row \<Rightarrow> weight_state \<Rightarrow> digest list \<Rightarrow> (vec \<times> vec \<times> real) list \<Rightarrow> weights_row" where
  "trained_row row st digests pairs =
     (let row = row\<lparr>wr_trained_until := Some (Max (dg_generated_at ` set digests)), wr_pairs_seen := ws_pairs_seen st\<rparr>
      in if pairs = [] then row
         else row\<lparr>wr_weights := weights_dict (ws_weights st), wr_update_count := ws_updates st\<rparr>)"

text \<open>The digests it trained on, and the database.\<close>

definition train_user :: "world \<Rightarrow> nat \<Rightarrow> moment \<Rightarrow> weights_db \<Rightarrow> py_error + digest list \<times> weights_db" where
  "train_user w user now db =
     (case prior_vector of
        Inl e \<Rightarrow> Inl e
      | Inr prior \<Rightarrow>
          let row = or_default (wx_row db) (new_weights_row prior);
              db = db\<lparr>wx_row := Some row\<rparr>;
              digests = settled_digests w user (wr_trained_until row) now
          in if digests = [] then Inr ([], db)
             else case row_state prior row of
                    Inl e \<Rightarrow> Inl e
                  | Inr st \<Rightarrow>
                      let pairs = training_pairs w user now digests
                      in map_sum id (\<lambda>st.
                           (digests, db\<lparr>wx_row := Some (trained_row row st digests pairs),
                              wx_revisions := wx_revisions db
                                @ (if pairs = [] then [] else [(RANKER_VERSION, weights_dict (ws_weights st))]),
                              wx_cache := None\<rparr>))
                         (run_fallible (learn_step (Some prior)) st (pair_steps pairs)))"


subsection \<open>Learning from a digest never fails\<close>

definition PRIOR :: vec where
  "PRIOR = [0.25, 0.15, 0.2, 0.15, 0.1, 0.05, 0.07, 0.03]"

lemma PRIOR_ok: "length PRIOR = 8" "distribution PRIOR" "\<forall>x \<in> set PRIOR. FLOOR - 2 / 10 ^ 8 \<le> x"
  by (simp_all add: PRIOR_def distribution_def FLOOR_def)

lemma prior_vector_eq: "prior_vector = Inr PRIOR"
proof -
  have "project_simplex (map Fin PRIOR) FLOOR = Inr PRIOR"
    by (rule project_simplex_fix) (simp add: on_simplex_def distribution_def FLOOR_def EPS_def PRIOR_def)
  then show ?thesis by (simp add: prior_vector_def SIGNALS_def PRIOR_def)
qed

text \<open>Steps towards the default prior: the same machine as the uniform learner.\<close>

interpretation digest_learner: total_fallible "learn_step (Some PRIOR)" weight_state_ok pair_ok
proof unfold_locales
  fix st p
  assume "weight_state_ok st" "pair_ok p"
  then show "\<exists>st'. learn_step (Some PRIOR) st p = Inr st' \<and> weight_state_ok st'"
    using update_weights_total [of st _ _ PRIOR]
    by (fastforce simp: learn_step_def pair_ok_def PRIOR_ok split: prod.splits)
qed

lemma pairs_of_labeled_elem:
  "p \<in> set (pairs_of_labeled rows) \<Longrightarrow>
    \<exists>li ci wi fi lj cj wj fj. (li, ci, wi, fi) \<in> set rows \<and> (lj, cj, wj, fj) \<in> set rows
      \<and> MIN_LABEL_GAP \<le> li - lj \<and> p = (fi, fj, min ci cj * max wi wj)"
  by (induction rows rule: pairs_of_labeled.induct) (auto, (metis | blast)+)

lemma digest_pairs_elem:
  assumes "(pos, neg, weight) \<in> set (digest_pairs ms ixs now)"
  obtains m m' y c y' c' where "m \<in> set ms" "m' \<in> set ms"
    "label_of (ixs (dm_content_item_id m)) (digest_viewed ms ixs) now = Some (y, c)"
    "label_of (ixs (dm_content_item_id m')) (digest_viewed ms ixs) now = Some (y', c')"
    "MIN_LABEL_GAP \<le> y - y'" "pos = logged_features m" "neg = logged_features m'"
    "weight = min c c' * max (if dm_exploration m then clipped_ipw (dm_propensity m) IPW_CAP else 1)
                            (if dm_exploration m' then clipped_ipw (dm_propensity m') IPW_CAP else 1)"
proof -
  have "(pos, neg, weight) \<in> set (pairs_of_labeled (sort_desc fst
      (List.map_filter (label_impression (digest_viewed ms ixs) now ixs) ms)))"
    using assms by (auto simp: digest_pairs_def dest: in_set_takeD)
  from pairs_of_labeled_elem [OF this] show thesis
    by (force simp: map_filter_def label_impression_def intro: that)
qed

lemma length_logged_features [simp]: "length (logged_features m) = 8"
  by (simp add: logged_features_def)

lemma training_pairs_ok: "list_all pair_ok (pair_steps (training_pairs w user now ds))"
  by (auto simp: list_all_iff pair_steps_def training_pairs_def Let_def pair_ok_def elim!: digest_pairs_elem)


subsection \<open>Stored weights stay a distribution\<close>

text \<open>A stored dictionary is the dictionary of a vector of the learner.\<close>

definition dict_ok :: "(signal \<Rightarrow> real option) \<Rightarrow> bool" where
  "dict_ok m \<longleftrightarrow> (\<forall>name. \<exists>x. m name = Some x \<and> FLOOR - 2 / 10 ^ 8 \<le> x)
     \<and> sum_list (map (\<lambda>name. or_default (m name) 0) SIGNALS) = 1"

definition row_ok :: "weights_row \<Rightarrow> bool" where
  "row_ok r \<longleftrightarrow> dict_ok (wr_weights r) \<and> 0 \<le> wr_update_count r \<and> wr_update_count r \<le> wr_pairs_seen r"

definition db_ok :: "weights_db \<Rightarrow> bool" where
  "db_ok db \<longleftrightarrow> (\<forall>r. wx_row db = Some r \<longrightarrow> row_ok r)
     \<and> (\<forall>m. wx_cache db = Some m \<longrightarrow> (\<exists>r. wx_row db = Some r \<and> m = wr_weights r))"

lemma vector_of_8:
  assumes "length v = 8"
  obtains a b c d e f g h where "v = [a, b, c, d, e, f, g, h]"
  using assms by (auto simp: numeral_eq_Suc length_Suc_conv)

lemma dict_ok_weights_dict:
  assumes "length v = 8" "distribution v" "\<forall>x \<in> set v. FLOOR - 2 / 10 ^ 8 \<le> x"
  shows "dict_ok (weights_dict v)"
proof -
  obtain a b c d e f g h where v: "v = [a, b, c, d, e, f, g, h]" using assms(1) by (rule vector_of_8)
  have "\<exists>x. weights_dict v name = Some x \<and> FLOOR - 2 / 10 ^ 8 \<le> x" for name
    using assms(3) by (cases name) (simp_all add: v weights_dict_def SIGNALS_def)
  moreover have "sum_list (map (\<lambda>name. or_default (weights_dict v name) 0) SIGNALS) = 1"
    using assms(2) by (simp add: v weights_dict_def SIGNALS_def distribution_def)
  ultimately show ?thesis by (simp add: dict_ok_def)
qed

lemma dict_okE:
  assumes "dict_ok m"
  obtains x where "m name = Some x" "FLOOR - 2 / 10 ^ 8 \<le> x"
  using assms unfolding dict_ok_def by blast

lemma normalize_weights_fix: "dict_ok m \<Longrightarrow> normalize_weights m = m"
proof (rule ext)
  fix name
  assume m: "dict_ok m"
  then obtain x where "m name = Some x" by (rule dict_okE)
  with m show "normalize_weights m name = m name" by (simp add: dict_ok_def normalize_weights_def Let_def)
qed

lemma user_meta_weights_fix: "dict_ok m \<Longrightarrow> user_meta_weights m = m"
proof -
  assume m: "dict_ok m"
  obtain x where "m Semantic = Some x" using dict_okE [OF m] .
  then have "\<not> list_all (\<lambda>name. m name = None) SIGNALS" by (auto simp: list_all_iff intro!: exI [of _ Semantic])
  with m show ?thesis by (simp add: user_meta_weights_def normalize_weights_fix)
qed

lemma new_weights_row_ok: "row_ok (new_weights_row PRIOR)"
  using dict_ok_weights_dict [OF PRIOR_ok] by (simp add: row_ok_def new_weights_row_def)

lemma row_state_ok:
  assumes "0 \<le> wr_update_count r" "wr_update_count r \<le> wr_pairs_seen r"
  obtains st where "row_state PRIOR r = Inr st" "weight_state_ok st"
    "ws_updates st = wr_update_count r" "ws_pairs_seen st = wr_pairs_seen r"
proof -
  let ?v = "map (\<lambda>(name, p). or_default (wr_weights r name) p) (zip SIGNALS PRIOR)"
  have len: "length ?v = 8" by (simp add: PRIOR_ok)
  have eq: "map (\<lambda>(name, p). Fin (or_default (wr_weights r name) p)) (zip SIGNALS PRIOR) = map Fin ?v"
    by (simp add: case_prod_unfold)
  obtain v where "project_simplex (map Fin ?v) FLOOR = Inr v" "length v = 8" "distribution v"
    "\<forall>x \<in> set v. FLOOR - 2 / 10 ^ 8 \<le> x"
    using project_8 [OF len] .
  note v = this
  let ?st = "\<lparr>ws_weights = v, ws_version = RANKER_VERSION, ws_updates = wr_update_count r, ws_pairs_seen = wr_pairs_seen r\<rparr>"
  have "row_state PRIOR r = Inr ?st" unfolding row_state_def eq v(1) by simp
  moreover have "weight_state_ok ?st" using v assms by (simp add: weight_state_ok_def)
  ultimately show thesis by (rule that) simp_all
qed

lemma trained_row_ok:
  assumes "row_ok r" "weight_state_ok st" "pairs = [] \<Longrightarrow> ws_pairs_seen st = wr_pairs_seen r"
  shows "row_ok (trained_row r st ds pairs)"
  using assms by (auto simp: trained_row_def row_ok_def weight_state_ok_def Let_def dict_ok_weights_dict)

text \<open>What one training does: the digests it used are those due, the row stays sound.\<close>

lemma train_user_ok:
  assumes "db_ok db"
  obtains ds db' where "train_user w user now db = Inr (ds, db')" "db_ok db'"
    "ds = settled_digests w user (case wx_row db of None \<Rightarrow> None | Some r \<Rightarrow> wr_trained_until r) now"
    "case wx_row db' of None \<Rightarrow> False | Some r' \<Rightarrow>
       wr_trained_until r' = (if ds = [] then (case wx_row db of None \<Rightarrow> None | Some r \<Rightarrow> wr_trained_until r)
                              else Some (Max (dg_generated_at ` set ds)))"
proof -
  define row where "row = or_default (wx_row db) (new_weights_row PRIOR)"
  define ds where "ds = settled_digests w user (wr_trained_until row) now"
  have row: "row_ok row" using assms
    by (cases "wx_row db") (auto simp: row_def db_ok_def new_weights_row_ok)
  have until: "(case wx_row db of None \<Rightarrow> None | Some r \<Rightarrow> wr_trained_until r) = wr_trained_until row"
    by (cases "wx_row db") (simp_all add: row_def new_weights_row_def)
  show thesis
  proof (cases "ds = []")
    case True
    have "db_ok (db\<lparr>wx_row := Some row\<rparr>)"
      using assms row by (auto simp: db_ok_def row_def)
    moreover have "train_user w user now db = Inr ([], db\<lparr>wx_row := Some row\<rparr>)"
      using True by (simp add: train_user_def prior_vector_eq row_def ds_def Let_def)
    ultimately show thesis using that [of "[]"] True until by (simp add: ds_def)
  next
    case False
    obtain st where st: "row_state PRIOR row = Inr st" "weight_state_ok st" "ws_pairs_seen st = wr_pairs_seen row"
      using row_state_ok row by (metis row_ok_def)
    define pairs where "pairs = training_pairs w user now ds"
    obtain st' where st': "run_fallible (learn_step (Some PRIOR)) st (pair_steps pairs) = Inr st'" "weight_state_ok st'"
      using digest_learner.run_total [OF st(2) training_pairs_ok] unfolding pairs_def by blast
    have seen: "ws_pairs_seen st' = wr_pairs_seen row" if "pairs = []"
      using st' st(3) that by (simp add: pair_steps_def)
    let ?db = "db\<lparr>wx_row := Some (trained_row row st' ds pairs),
                 wx_revisions := wx_revisions db @ (if pairs = [] then [] else [(RANKER_VERSION, weights_dict (ws_weights st'))]),
                 wx_cache := None\<rparr>"
    have eq: "train_user w user now db = Inr (ds, ?db)"
      using False st(1) st'(1)
      by (simp add: train_user_def prior_vector_eq row_def [symmetric] ds_def [symmetric] pairs_def [symmetric] Let_def)
    have "db_ok ?db" using trained_row_ok [OF row st'(2) seen] by (simp add: db_ok_def)
    moreover have "wr_trained_until (trained_row row st' ds pairs) = Some (Max (dg_generated_at ` set ds))"
      by (simp add: trained_row_def Let_def)
    ultimately show thesis using that [OF eq] False until by (simp add: ds_def)
  qed
qed

lemma get_meta_weights_ok:
  assumes "db_ok db"
  shows "db_ok (snd (get_meta_weights db))"
    and "fst (get_meta_weights db) = user_meta_weights (case wx_row db of None \<Rightarrow> Map.empty | Some r \<Rightarrow> wr_weights r)"
    and "wx_row (snd (get_meta_weights db)) = wx_row db"
  using assms by (auto simp: get_meta_weights_def db_ok_def row_ok_def user_meta_weights_fix Let_def
      split: option.splits)


subsection \<open>Histories of a reader's weights\<close>

text \<open>What happens to the weights of a reader: a training, or a read by the ranker.\<close>

datatype weights_event = Train world moment | Read

fun weights_step :: "nat \<Rightarrow> weights_db \<Rightarrow> weights_event \<Rightarrow> py_error + weights_db" where
  "weights_step user db (Train w now) = map_sum id snd (train_user w user now db)"
| "weights_step user db Read = Inr (snd (get_meta_weights db))"

definition no_weights :: weights_db where
  "no_weights = \<lparr>wx_row = None, wx_revisions = [], wx_cache = None\<rparr>"

lemma no_weights_ok: "db_ok no_weights"
  by (simp add: no_weights_def db_ok_def)

interpretation stored_weights: total_fallible "weights_step user" db_ok "\<lambda>_. True" for user
proof unfold_locales
  fix db ev
  assume ok: "db_ok db"
  show "\<exists>db'. weights_step user db ev = Inr db' \<and> db_ok db'"
  proof (cases ev)
    case (Train w now)
    obtain ds db' where "train_user w user now db = Inr (ds, db')" "db_ok db'"
      using train_user_ok [OF ok] by blast
    then show ?thesis by (simp add: Train)
  next
    case Read
    then show ?thesis using get_meta_weights_ok(1) [OF ok] by simp
  qed
qed

lemma default_weights_ok: "dict_ok (Some \<circ> DEFAULT_WEIGHTS)"
  unfolding dict_ok_def
proof (intro conjI allI)
  show "\<exists>x. (Some \<circ> DEFAULT_WEIGHTS) name = Some x \<and> FLOOR - 2 / 10 ^ 8 \<le> x" for name
    by (intro exI [of _ "DEFAULT_WEIGHTS name"] conjI, simp, cases name) (simp_all add: FLOOR_def)
qed (simp add: SIGNALS_def)

lemma served_weights:
  assumes "db_ok db"
  shows "fst (get_meta_weights db) = (case wx_row db of None \<Rightarrow> Some \<circ> DEFAULT_WEIGHTS | Some r \<Rightarrow> wr_weights r)"
    and "dict_ok (fst (get_meta_weights db))"
proof -
  have "user_meta_weights Map.empty = Some \<circ> DEFAULT_WEIGHTS"
    using default_weights_ok by (simp add: user_meta_weights_def list_all_iff normalize_weights_fix)
  then show "fst (get_meta_weights db) = (case wx_row db of None \<Rightarrow> Some \<circ> DEFAULT_WEIGHTS | Some r \<Rightarrow> wr_weights r)"
    using assms by (auto simp: get_meta_weights_ok(2) db_ok_def row_ok_def user_meta_weights_fix split: option.splits)
  then show "dict_ok (fst (get_meta_weights db))"
    using assms default_weights_ok by (auto simp: db_ok_def row_ok_def split: option.splits)
qed


text \<open>
  a training pair prefers an impression to another impression of the same digest whose label is at least
  \<open>MIN_LABEL_GAP\<close> lower, its features are those logged when the digest was built, its weight is positive and at
  most six times the learning rate, and a digest gives at most sixty pairs.
\<close>

theorem digest_pairs_sound:
  "length (digest_pairs ms ixs now) \<le> 60
   \<and> (\<forall>(pos, neg, weight) \<in> set (digest_pairs ms ixs now).
        \<exists>m \<in> set ms. \<exists>m' \<in> set ms. \<exists>y c y' c'.
          label_of (ixs (dm_content_item_id m)) (digest_viewed ms ixs) now = Some (y, c)
        \<and> label_of (ixs (dm_content_item_id m')) (digest_viewed ms ixs) now = Some (y', c')
        \<and> y' + 1 / 4 \<le> y \<and> pos = logged_features m \<and> neg = logged_features m' \<and> 0 < weight \<and> weight \<le> 6)"
proof (intro conjI ballI)
  fix t
  assume "t \<in> set (digest_pairs ms ixs now)"
  moreover obtain pos neg weight where t: "t = (pos, neg, weight)" by (cases t)
  ultimately obtain m m' y c y' c' where mm: "m \<in> set ms" "m' \<in> set ms"
    "label_of (ixs (dm_content_item_id m)) (digest_viewed ms ixs) now = Some (y, c)"
    "label_of (ixs (dm_content_item_id m')) (digest_viewed ms ixs) now = Some (y', c')"
    "MIN_LABEL_GAP \<le> y - y'" "pos = logged_features m" "neg = logged_features m'"
    "weight = min c c' * max (if dm_exploration m then clipped_ipw (dm_propensity m) IPW_CAP else 1)
                            (if dm_exploration m' then clipped_ipw (dm_propensity m') IPW_CAP else 1)"
    using digest_pairs_elem by metis
  have ipw: "0 < (if e then clipped_ipw p IPW_CAP else 1) \<and> (if e then clipped_ipw p IPW_CAP else 1) \<le> 5" for e p
    by (auto simp: clipped_ipw_def IPW_CAP_def)
  have range: "0.3 \<le> c \<and> c \<le> 1.2" if "label_of ix viewed now = Some (y, c)" for ix viewed y c
    using that label_event_with_reason_range [of _ y c] by (auto simp: label_of_def split: option.splits)
  have conf: "0.3 \<le> min c c'" "min c c' \<le> 1.2"
    using range [OF mm(3)] range [OF mm(4)] by (simp_all add: min_def)
  let ?w = "max (if dm_exploration m then clipped_ipw (dm_propensity m) IPW_CAP else 1)
                (if dm_exploration m' then clipped_ipw (dm_propensity m') IPW_CAP else 1)"
  have w: "0 < ?w" "?w \<le> 5"
    using ipw [of "dm_exploration m" "dm_propensity m"] ipw [of "dm_exploration m'" "dm_propensity m'"]
    by (simp_all only: less_max_iff_disj max.bounded_iff) auto
  have "0 < weight" unfolding mm(8) using conf(1) w(1) by (intro mult_pos_pos) linarith+
  moreover have "weight \<le> 1.2 * 5" unfolding mm(8) using conf w by (intro mult_mono) linarith+
  ultimately show "case t of (pos, neg, weight) \<Rightarrow> \<exists>m \<in> set ms. \<exists>m' \<in> set ms. \<exists>y c y' c'.
          label_of (ixs (dm_content_item_id m)) (digest_viewed ms ixs) now = Some (y, c)
        \<and> label_of (ixs (dm_content_item_id m')) (digest_viewed ms ixs) now = Some (y', c')
        \<and> y' + 1 / 4 \<le> y \<and> pos = logged_features m \<and> neg = logged_features m' \<and> 0 < weight \<and> weight \<le> 6"
    unfolding t prod.case using mm(5-7)
    by - (rule bexI [OF _ mm(1)], rule bexI [OF _ mm(2)], intro exI conjI, rule mm(3), rule mm(4),
      simp_all add: MIN_LABEL_GAP_def)
qed (simp add: digest_pairs_def MAX_PAIRS_PER_DIGEST_def)

definition shown :: "nat \<Rightarrow> digest_impression" where
  "shown item = \<lparr>dm_user_id = 1, dm_content_item_id = item, dm_digest_id = 4, dm_section = More,
     dm_position = item, dm_score = 0.5, dm_features = (\<lambda>_. Some 0.5), dm_weights_version = RANKER_VERSION,
     dm_exploration = False, dm_propensity = 1, dm_team = None, dm_viewed = True\<rparr>"

definition rated :: "nat \<Rightarrow> interaction option" where
  "rated item = Some ((new_interaction 1 item 0)\<lparr>ix_explicit_rating := Some (if item = 1 then 1 else - 1)\<rparr>)"

theorem digest_pairs_sound_witness:
  "\<exists>m \<in> set [shown 1, shown 2]. \<exists>m' \<in> set [shown 1, shown 2]. \<exists>y c y' c'.
      label_of (rated (dm_content_item_id m)) (digest_viewed [shown 1, shown 2] rated) 0 = Some (y, c)
    \<and> label_of (rated (dm_content_item_id m')) (digest_viewed [shown 1, shown 2] rated) 0 = Some (y', c')
    \<and> y' + 1 / 4 \<le> y \<and> logged_features (shown 1) = logged_features m
    \<and> logged_features (shown 2) = logged_features m' \<and> 0 < (1 :: real) \<and> (1 :: real) \<le> 6"
proof -
  let ?p = "(logged_features (shown 1), logged_features (shown 2), 1)"
  have v: "digest_viewed [shown 1, shown 2] rated" by (simp add: digest_viewed_def shown_def)
  have "label_impression True 0 rated (shown 1) = Some (1, 1, 1, logged_features (shown 1))"
    "label_impression True 0 rated (shown 2) = Some (0, 1, 1, logged_features (shown 2))"
    by (simp_all add: label_impression_def shown_def label_of_def rated_def event_of_def new_interaction_def
        label_event_with_reason_def reason_effect_def label_event_def some_and_def)
  then have rows: "List.map_filter (label_impression True 0 rated) [shown 1, shown 2]
      = [(1, 1, 1, logged_features (shown 1)), (0, 1, 1, logged_features (shown 2))]"
    by (simp add: map_filter_simps)
  have "?p \<in> set (digest_pairs [shown 1, shown 2] rated 0)"
    by (simp only: digest_pairs_def v rows) (simp add: sort_desc_def MIN_LABEL_GAP_def MAX_PAIRS_PER_DIGEST_def)
  then show ?thesis using bspec [OF conjunct2 [OF digest_pairs_sound], of ?p "[shown 1, shown 2]" rated 0]
    by (simp only: prod.case)
qed

text \<open>The trainings of a reader over time, each on the database of its moment.\<close>

fun trainings :: "nat \<Rightarrow> weights_db \<Rightarrow> (world \<times> moment) list \<Rightarrow> py_error + digest list" where
  "trainings user db [] = Inr []"
| "trainings user db ((w, now) # runs) =
     (case train_user w user now db of
        Inl e \<Rightarrow> Inl e
      | Inr (ds, db') \<Rightarrow> map_sum id (\<lambda>rest. ds @ rest) (trainings user db' runs))"

definition after :: "moment option \<Rightarrow> digest \<Rightarrow> bool" where
  "after t d \<longleftrightarrow> (case t of None \<Rightarrow> True | Some t \<Rightarrow> t < dg_generated_at d)"

lemma settled_digests_props:
  assumes "distinct (map dg_id (wd_digests w))"
  shows "distinct (map dg_id (settled_digests w user t now))"
    and "\<forall>d \<in> set (settled_digests w user t now). d \<in> set (wd_digests w) \<and> after t d"
    and "sorted (map dg_generated_at (settled_digests w user t now))"
proof -
  let ?P = "\<lambda>d. dg_user_id d = user \<and> dg_generated_at d \<le> now - SETTLE_AFTER
     \<and> \<not> some_and t (\<lambda>t. dg_generated_at d \<le> t)"
  have "distinct (map dg_id (filter ?P (wd_digests w)))" using assms by (rule distinct_map_filter)
  then have "distinct (map dg_id (sort_key dg_generated_at (filter ?P (wd_digests w))))"
    by (simp add: distinct_map)
  then show "distinct (map dg_id (settled_digests w user t now))"
    by (simp add: settled_digests_def take_map [symmetric] distinct_take)
  show "\<forall>d \<in> set (settled_digests w user t now). d \<in> set (wd_digests w) \<and> after t d"
    by (auto simp: settled_digests_def after_def some_and_def dest!: in_set_takeD split: option.splits)
  show "sorted (map dg_generated_at (settled_digests w user t now))"
    unfolding settled_digests_def take_map [symmetric] by (rule sorted_wrt_take) simp
qed

lemma trainings_sound:
  assumes "db_ok db"
    and "\<forall>(w, now) \<in> set runs. distinct (map dg_id (wd_digests w))
           \<and> (\<forall>d \<in> set (wd_digests w). dg_generated_at d = generated (dg_id d))"
  shows "\<exists>ds. trainings user db runs = Inr ds \<and> distinct (map dg_id ds) \<and> sorted (map dg_generated_at ds)
     \<and> (\<forall>d \<in> set ds. after (case wx_row db of None \<Rightarrow> None | Some r \<Rightarrow> wr_trained_until r) d
          \<and> dg_generated_at d = generated (dg_id d))"
  using assms
proof (induction runs arbitrary: db)
  case Nil
  then show ?case by simp
next
  case (Cons run runs)
  obtain w now where run: "run = (w, now)" by (cases run)
  let ?until = "\<lambda>db. case wx_row db of None \<Rightarrow> None | Some r \<Rightarrow> wr_trained_until r"
  obtain ds db' where tr: "train_user w user now db = Inr (ds, db')" "db_ok db'"
    and ds: "ds = settled_digests w user (?until db) now"
    and row: "case wx_row db' of None \<Rightarrow> False | Some r' \<Rightarrow>
       wr_trained_until r' = (if ds = [] then ?until db else Some (Max (dg_generated_at ` set ds)))"
    using train_user_ok [OF Cons.prems(1)] by blast
  have until: "?until db' = (if ds = [] then ?until db else Some (Max (dg_generated_at ` set ds)))"
    using row by (simp split: option.splits)
  have w: "distinct (map dg_id (wd_digests w))" "\<forall>d \<in> set (wd_digests w). dg_generated_at d = generated (dg_id d)"
    using Cons.prems(2) by (simp_all add: run)
  note here = settled_digests_props [OF w(1), of user "?until db" now, folded ds]
  obtain rest where rest: "trainings user db' runs = Inr rest" "distinct (map dg_id rest)"
    "sorted (map dg_generated_at rest)"
    "\<forall>d \<in> set rest. after (?until db') d \<and> dg_generated_at d = generated (dg_id d)"
    using Cons.IH [OF tr(2)] Cons.prems(2) by auto
  have later: "dg_generated_at d < dg_generated_at d'" if "d \<in> set ds" "d' \<in> set rest" for d d'
  proof -
    have "after (?until db') d'" using rest(4) that(2) by blast
    moreover have "ds \<noteq> []" using that(1) by auto
    ultimately have "Max (dg_generated_at ` set ds) < dg_generated_at d'" by (simp add: until after_def)
    moreover have "dg_generated_at d \<le> Max (dg_generated_at ` set ds)" using that(1) by simp
    ultimately show ?thesis by simp
  qed
  have "after (?until db) d'" if d': "d' \<in> set rest" for d'
  proof (cases ds)
    case Nil
    then show ?thesis using rest(4) d' by (simp add: until)
  next
    case (Cons d ds')
    then show ?thesis using here(2) later [of d d'] d' by (force simp: after_def split: option.splits)
  qed
  then have aft: "\<forall>d \<in> set (ds @ rest). after (?until db) d" using here(2) by auto
  have gen: "dg_generated_at d = generated (dg_id d)" if "d \<in> set (ds @ rest)" for d
    using that here(2) w(2) rest(4) by auto
  have "dg_id d \<noteq> dg_id d'" if "d \<in> set ds" "d' \<in> set rest" for d d'
    using later [OF that] gen [of d] gen [of d'] that by auto
  then have "distinct (map dg_id (ds @ rest))"
    using rest(2) here(1) by (auto simp: disjoint_iff)
  moreover have "sorted (map dg_generated_at (ds @ rest))"
    using rest(3) here(3) later by (fastforce simp: sorted_append)
  moreover have "trainings user db (run # runs) = Inr (ds @ rest)"
    using tr(1) rest(1) by (simp add: run)
  ultimately show ?case using aft gen by blast
qed

text \<open>
  over any sequence of trainings, on databases in which a digest keeps its moment, every digest is
  trained on at most once, in chronological order, and no training raises.
\<close>

theorem trained_at_most_once:
  assumes "db_ok db"
    and "\<forall>(w, now) \<in> set runs. distinct (map dg_id (wd_digests w))
           \<and> (\<forall>d \<in> set (wd_digests w). dg_generated_at d = generated (dg_id d))"
  shows "\<exists>ds. trainings user db runs = Inr ds \<and> distinct (map dg_id ds) \<and> sorted (map dg_generated_at ds)"
  using trainings_sound [OF assms, of user] by blast


definition learner_world :: world where
  "learner_world = \<lparr>wd_users = [], wd_items = [], wd_graph = empty_graph,
     wd_takedowns = [], wd_interactions = [], wd_weights = Map.empty,
     wd_digests = [\<lparr>dg_id = 4, dg_user_id = 1, dg_generated_at = 0, dg_section_counts = (\<lambda>_. 0), dg_total_items = 0, dg_opened = False\<rparr>],
     wd_digest_items = [], wd_impressions = [], wd_prompts = []\<rparr>"

theorem trained_at_most_once_witness:
  "\<exists>ds. trainings 1 no_weights [(learner_world, 86400), (learner_world, 172800)] = Inr ds
     \<and> distinct (map dg_id ds) \<and> sorted (map dg_generated_at ds)"
  by (rule trained_at_most_once [OF no_weights_ok, of _ "\<lambda>_. 0"]) (simp add: learner_world_def)

end
