(* ===== verification/SignedLinks.thy ===== *)
theory SignedLinks
  imports Urls
begin

text \<open>
  Signed links of the emails: \<open>utils/signed_links.py\<close> (item, topic and account actions) and
  \<open>utils/unsubscribe.py\<close>. HMAC-SHA256 is a parameter \<open>mac\<close>, from the key and the message to the hexadecimal
  digest. Identifiers are the texts of UUIDs; the functions take them as strings.
\<close>

type_synonym mac = "string \<Rightarrow> string \<Rightarrow> string"

record link_settings =
  lk_secret_key :: string
  lk_public_api_url :: string

subsection \<open>Parts of the standard library\<close>

definition py_str_int :: "int \<Rightarrow> string" where
  "py_str_int n = (if n < 0 then CHR ''-'' # show_int (- n) else show_int n)"

definition is_ascii :: "string \<Rightarrow> bool" where
  "is_ascii = list_all (\<lambda>c. char_code c < 128)"

text \<open>\<open>hmac.compare_digest\<close> of two strings raises on a character that is not ASCII.\<close>

definition compare_digest :: "string \<Rightarrow> string \<Rightarrow> py_error + bool" where
  "compare_digest a b = (if is_ascii a \<and> is_ascii b then Inr (a = b) else Inl TypeError)"

definition hex_upper :: "int \<Rightarrow> char" where
  "hex_upper d = (if d < 10 then char_of (48 + d) else char_of (55 + d))"

definition quote_plus :: "string \<Rightarrow> string" where
  "quote_plus s = concat (map (\<lambda>c.
     if is_alnum_char c \<or> c \<in> set ''_.-~'' then [c]
     else if c = CHR '' '' then ''+''
     else [CHR ''%'', hex_upper (char_code c div 16), hex_upper (char_code c mod 16)]) s)"

subsection \<open>Links\<close>

definition ACTIONS :: "string list" where "ACTIONS = [''open'', ''up'', ''down'', ''save'']"
definition TOPIC_ACTIONS :: "string list" where "TOPIC_ACTIONS = [''less'', ''more'']"
definition USER_ACTIONS :: "string list" where "USER_ACTIONS = [''weekly'']"
definition DEFAULT_TTL_SECONDS :: int where "DEFAULT_TTL_SECONDS = 30 * 24 * 3600"

definition action_message :: "string \<Rightarrow> string \<Rightarrow> string \<Rightarrow> int \<Rightarrow> string" where
  "action_message uid item action until =
     ''email-action:'' @ uid @ '':'' @ item @ '':'' @ action @ '':'' @ py_str_int until"

definition topic_message :: "string \<Rightarrow> string \<Rightarrow> string \<Rightarrow> int \<Rightarrow> string" where
  "topic_message uid topic action until =
     ''topic-action:'' @ uid @ '':'' @ topic @ '':'' @ action @ '':'' @ py_str_int until"

definition user_message :: "string \<Rightarrow> string \<Rightarrow> int \<Rightarrow> string" where
  "user_message uid action until = ''user-action:'' @ uid @ '':'' @ action @ '':'' @ py_str_int until"

definition expiry :: "moment \<Rightarrow> int \<Rightarrow> int" where
  "expiry now ttl = py_int (now + of_int ttl)"

definition api_base :: "link_settings \<Rightarrow> string" where
  "api_base cfg = rstrip_chars (\<lambda>c. c = CHR ''/'') (lk_public_api_url cfg)"

definition action_url ::
  "mac \<Rightarrow> link_settings \<Rightarrow> string \<Rightarrow> string \<Rightarrow> string \<Rightarrow> int \<Rightarrow> moment \<Rightarrow> py_error + string" where
  "action_url mac cfg uid item action ttl now =
     (if action \<notin> set ACTIONS then Inl ValueError
      else let until = expiry now ttl;
               sig = mac (lk_secret_key cfg) (action_message uid item action until)
           in Inr (api_base cfg @ ''/api/v1/digest/e/'' @ action @ ''/'' @ item @ ''?uid='' @ uid
                     @ ''&exp='' @ py_str_int until @ ''&sig='' @ sig))"

definition topic_action_url ::
  "mac \<Rightarrow> link_settings \<Rightarrow> string \<Rightarrow> string \<Rightarrow> string \<Rightarrow> int \<Rightarrow> moment \<Rightarrow> py_error + string" where
  "topic_action_url mac cfg uid topic action ttl now =
     (if action \<notin> set TOPIC_ACTIONS then Inl ValueError
      else let until = expiry now ttl;
               sig = mac (lk_secret_key cfg) (topic_message uid topic action until)
           in Inr (api_base cfg @ ''/api/v1/digest/t/'' @ action @ ''?uid='' @ quote_plus uid
                     @ ''&topic='' @ quote_plus topic @ ''&exp='' @ quote_plus (py_str_int until)
                     @ ''&sig='' @ quote_plus sig))"

definition user_action_url ::
  "mac \<Rightarrow> link_settings \<Rightarrow> string \<Rightarrow> string \<Rightarrow> int \<Rightarrow> moment \<Rightarrow> py_error + string" where
  "user_action_url mac cfg uid action ttl now =
     (if action \<notin> set USER_ACTIONS then Inl ValueError
      else let until = expiry now ttl;
               sig = mac (lk_secret_key cfg) (user_message uid action until)
           in Inr (api_base cfg @ ''/api/v1/digest/u/'' @ action @ ''?uid='' @ uid
                     @ ''&exp='' @ py_str_int until @ ''&sig='' @ sig))"

definition verify_action ::
  "mac \<Rightarrow> link_settings \<Rightarrow> string \<Rightarrow> string \<Rightarrow> string \<Rightarrow> int \<Rightarrow> string \<Rightarrow> moment \<Rightarrow> py_error + bool" where
  "verify_action mac cfg uid item action until sig now =
     (if action \<notin> set ACTIONS then Inr False
      else if sig = [] then Inr False
      else if until < py_int now then Inr False
      else compare_digest (mac (lk_secret_key cfg) (action_message uid item action until)) sig)"

definition verify_topic_action ::
  "mac \<Rightarrow> link_settings \<Rightarrow> string \<Rightarrow> string \<Rightarrow> string \<Rightarrow> int \<Rightarrow> string \<Rightarrow> moment \<Rightarrow> py_error + bool" where
  "verify_topic_action mac cfg uid topic action until sig now =
     (if action \<notin> set TOPIC_ACTIONS \<or> sig = [] then Inr False
      else if until < py_int now then Inr False
      else compare_digest (mac (lk_secret_key cfg) (topic_message uid topic action until)) sig)"

definition verify_user_action ::
  "mac \<Rightarrow> link_settings \<Rightarrow> string \<Rightarrow> string \<Rightarrow> int \<Rightarrow> string \<Rightarrow> moment \<Rightarrow> py_error + bool" where
  "verify_user_action mac cfg uid action until sig now =
     (if action \<notin> set USER_ACTIONS \<or> sig = [] then Inr False
      else if until < py_int now then Inr False
      else compare_digest (mac (lk_secret_key cfg) (user_message uid action until)) sig)"

subsection \<open>Unsubscribing\<close>

definition make_unsubscribe_token :: "mac \<Rightarrow> link_settings \<Rightarrow> string \<Rightarrow> string" where
  "make_unsubscribe_token mac cfg uid = mac (lk_secret_key cfg) (''unsubscribe:'' @ uid)"

definition weekly_unsubscribe_token :: "mac \<Rightarrow> link_settings \<Rightarrow> string \<Rightarrow> string" where
  "weekly_unsubscribe_token mac cfg uid = mac (lk_secret_key cfg) (''unsubscribe-weekly:'' @ uid)"

definition verify_unsubscribe_token :: "mac \<Rightarrow> link_settings \<Rightarrow> string \<Rightarrow> string \<Rightarrow> py_error + bool" where
  "verify_unsubscribe_token mac cfg uid token =
     (if token = [] then Inr False else compare_digest (make_unsubscribe_token mac cfg uid) token)"

definition verify_weekly_unsubscribe_token :: "mac \<Rightarrow> link_settings \<Rightarrow> string \<Rightarrow> string \<Rightarrow> py_error + bool" where
  "verify_weekly_unsubscribe_token mac cfg uid token =
     (if token = [] then Inr False else compare_digest (weekly_unsubscribe_token mac cfg uid) token)"

definition unsubscribe_url :: "mac \<Rightarrow> link_settings \<Rightarrow> string \<Rightarrow> string" where
  "unsubscribe_url mac cfg uid =
     api_base cfg @ ''/api/v1/digest/unsubscribe?uid='' @ uid @ ''&token='' @ make_unsubscribe_token mac cfg uid"

definition weekly_unsubscribe_url :: "mac \<Rightarrow> link_settings \<Rightarrow> string \<Rightarrow> string" where
  "weekly_unsubscribe_url mac cfg uid =
     api_base cfg @ ''/api/v1/digest/unsubscribe-weekly?uid='' @ uid @ ''&token='' @ weekly_unsubscribe_token mac cfg uid"

subsection \<open>All links of the application\<close>

text \<open>Everything that one secret key signs, and the check that each kind of link meets.\<close>

datatype link =
    ItemLink string string string int
  | TopicAction string string string int
  | AccountLink string string int
  | Unsubscribe string
  | UnsubscribeWeekly string

fun link_message :: "link \<Rightarrow> string" where
  "link_message (ItemLink uid item action until) = action_message uid item action until"
| "link_message (TopicAction uid topic action until) = topic_message uid topic action until"
| "link_message (AccountLink uid action until) = user_message uid action until"
| "link_message (Unsubscribe uid) = ''unsubscribe:'' @ uid"
| "link_message (UnsubscribeWeekly uid) = ''unsubscribe-weekly:'' @ uid"

definition link_signature :: "mac \<Rightarrow> link_settings \<Rightarrow> link \<Rightarrow> string" where
  "link_signature mac cfg l = mac (lk_secret_key cfg) (link_message l)"

fun link_accepted :: "mac \<Rightarrow> link_settings \<Rightarrow> moment \<Rightarrow> link \<Rightarrow> string \<Rightarrow> py_error + bool" where
  "link_accepted mac cfg now (ItemLink uid item action until) sig = verify_action mac cfg uid item action until sig now"
| "link_accepted mac cfg now (TopicAction uid topic action until) sig = verify_topic_action mac cfg uid topic action until sig now"
| "link_accepted mac cfg now (AccountLink uid action until) sig = verify_user_action mac cfg uid action until sig now"
| "link_accepted mac cfg now (Unsubscribe uid) sig = verify_unsubscribe_token mac cfg uid sig"
| "link_accepted mac cfg now (UnsubscribeWeekly uid) sig = verify_weekly_unsubscribe_token mac cfg uid sig"

text \<open>A link whose identifiers are texts of UUIDs, in particular without a colon.\<close>

fun plain_link :: "link \<Rightarrow> bool" where
  "plain_link (ItemLink uid item action until) \<longleftrightarrow> CHR '':'' \<notin> set uid \<and> CHR '':'' \<notin> set item \<and> action \<in> set ACTIONS"
| "plain_link (TopicAction uid topic action until) \<longleftrightarrow> CHR '':'' \<notin> set uid \<and> action \<in> set TOPIC_ACTIONS"
| "plain_link (AccountLink uid action until) \<longleftrightarrow> CHR '':'' \<notin> set uid \<and> action \<in> set USER_ACTIONS"
| "plain_link (Unsubscribe uid) \<longleftrightarrow> True"
| "plain_link (UnsubscribeWeekly uid) \<longleftrightarrow> True"

fun link_expiry :: "link \<Rightarrow> int option" where
  "link_expiry (ItemLink uid item action until) = Some until"
| "link_expiry (TopicAction uid topic action until) = Some until"
| "link_expiry (AccountLink uid action until) = Some until"
| "link_expiry (Unsubscribe uid) = None"
| "link_expiry (UnsubscribeWeekly uid) = None"

subsection \<open>Messages determine their links\<close>

lemma split_first_colon:
  "c \<notin> set a \<Longrightarrow> c \<notin> set b \<Longrightarrow> a @ c # x = b @ c # y \<longleftrightarrow> a = b \<and> x = y"
proof (induction a arbitrary: b)
  case Nil
  then show ?case by (cases b) auto
next
  case (Cons z a)
  then show ?case by (cases b) auto
qed

lemma split_last_colon:
  assumes "c \<notin> set a" "c \<notin> set b"
  shows "x @ c # a = y @ c # b \<longleftrightarrow> x = y \<and> a = b"
proof -
  have "x @ c # a = y @ c # b \<longleftrightarrow> rev a @ c # rev x = rev b @ c # rev y"
    by (metis append.assoc append_Cons append_Nil rev.simps(2) rev_append rev_rev_ident)
  also have "\<dots> \<longleftrightarrow> rev a = rev b \<and> rev x = rev y" using assms by (intro split_first_colon) simp_all
  finally show ?thesis by auto
qed

lemma digit_char_props:
  assumes "0 \<le> d" "d < 10"
  shows "char_code (digit_char d) = 48 + d" "digit_value (digit_char d) = d"
proof -
  show c: "char_code (digit_char d) = 48 + d"
    using assms by (simp add: digit_char_def char_code_def)
  then show "digit_value (digit_char d) = d"
    using assms by (simp add: digit_value_def is_digit_char_def)
qed

lemma show_int_digits: "0 \<le> n \<Longrightarrow> list_all is_digit_char (show_int n)"
  unfolding show_int_def
proof (induction "10 :: int" n rule: show_base.induct)
  case (1 n)
  have d: "is_digit_char (digit_char d)" if "0 \<le> d" "d < 10" for d
    using digit_char_props(1) [OF that] that by (simp add: is_digit_char_def)
  show ?case
  proof (cases "n < 10")
    case True
    with 1(2) d show ?thesis by (subst show_base.simps) simp
  next
    case False
    have "list_all is_digit_char (show_base 10 (n div 10))" using False 1 by (intro 1(1)) simp_all
    with False d [of "n mod 10"] show ?thesis by (subst show_base.simps) simp
  qed
qed

lemma digits_value_show_int: "0 \<le> n \<Longrightarrow> digits_value 10 (show_int n) = n"
  unfolding show_int_def
proof (induction "10 :: int" n rule: show_base.induct)
  case (1 n)
  show ?case
  proof (cases "n < 10")
    case True
    with 1(2) show ?thesis by (subst show_base.simps) (simp add: digits_value_def digit_char_props)
  next
    case False
    have "digits_value 10 (show_base 10 (n div 10)) = n div 10" using False 1 by (intro 1(1)) simp_all
    with False show ?thesis
      by (subst show_base.simps) (simp add: digits_value_def digit_char_props)
  qed
qed

lemma show_int_inj: "0 \<le> m \<Longrightarrow> 0 \<le> n \<Longrightarrow> show_int m = show_int n \<Longrightarrow> m = n"
  using digits_value_show_int by metis

lemma show_int_no_minus:
  assumes "0 \<le> n"
  shows "show_int n \<noteq> CHR ''-'' # s"
proof
  assume "show_int n = CHR ''-'' # s"
  then have "is_digit_char (CHR ''-'')" using show_int_digits [OF assms] by simp
  then show False by (simp add: is_digit_char_def char_code_def)
qed

lemma py_str_int_inj: "py_str_int m = py_str_int n \<Longrightarrow> m = n"
  using show_int_inj [of "- m" "- n"] show_int_inj [of m n] show_int_no_minus
  by (auto simp: py_str_int_def split: if_splits) (metis linorder_not_less)+

lemma colon_not_digit [simp]: "\<not> is_digit_char (CHR '':'')"
  by (simp add: is_digit_char_def char_code_def)

lemma py_str_int_no_colon [simp]: "CHR '':'' \<notin> set (py_str_int n)"
  using show_int_digits [of n] show_int_digits [of "- n"]
  by (cases "n < 0") (auto simp: py_str_int_def list_all_iff)

lemma action_no_colon [simp]:
  "a \<in> set ACTIONS \<Longrightarrow> CHR '':'' \<notin> set a" "a \<in> set TOPIC_ACTIONS \<Longrightarrow> CHR '':'' \<notin> set a"
  "a \<in> set USER_ACTIONS \<Longrightarrow> CHR '':'' \<notin> set a"
  by (auto simp: ACTIONS_def TOPIC_ACTIONS_def USER_ACTIONS_def)

text \<open>The head of a message names the kind of its link.\<close>

fun link_kind :: "link \<Rightarrow> string" where
  "link_kind (ItemLink uid item action until) = ''email-action''"
| "link_kind (TopicAction uid topic action until) = ''topic-action''"
| "link_kind (AccountLink uid action until) = ''user-action''"
| "link_kind (Unsubscribe uid) = ''unsubscribe''"
| "link_kind (UnsubscribeWeekly uid) = ''unsubscribe-weekly''"

fun link_rest :: "link \<Rightarrow> string" where
  "link_rest (ItemLink uid item action until) = uid @ '':'' @ item @ '':'' @ action @ '':'' @ py_str_int until"
| "link_rest (TopicAction uid topic action until) = uid @ '':'' @ topic @ '':'' @ action @ '':'' @ py_str_int until"
| "link_rest (AccountLink uid action until) = uid @ '':'' @ action @ '':'' @ py_str_int until"
| "link_rest (Unsubscribe uid) = uid"
| "link_rest (UnsubscribeWeekly uid) = uid"

lemma link_message_split: "link_message l = link_kind l @ CHR '':'' # link_rest l"
  by (cases l) (simp_all add: action_message_def topic_message_def user_message_def)

lemma link_kind_no_colon: "CHR '':'' \<notin> set (link_kind l)"
  by (cases l) simp_all

lemma split_last_two:
  assumes "c \<notin> set a" "c \<notin> set b" "c \<notin> set a'" "c \<notin> set b'"
    and "x @ c # a @ c # b = y @ c # a' @ c # b'"
  shows "x = y \<and> a = a' \<and> b = b'"
proof -
  have "(x @ c # a) @ c # b = (y @ c # a') @ c # b'" using assms(5) by simp
  then have "x @ c # a = y @ c # a'" "b = b'" using assms(2,4) split_last_colon by metis+
  then show ?thesis using assms(1,3) split_last_colon by metis
qed

lemma link_message_inj:
  assumes "plain_link l" "plain_link l'" "link_message l = link_message l'"
  shows "l = l'"
proof -
  have "link_kind l = link_kind l'" "link_rest l = link_rest l'"
    using assms(3) split_first_colon [OF link_kind_no_colon link_kind_no_colon, of l "link_rest l" l' "link_rest l'"]
    by (simp_all add: link_message_split)
  then show ?thesis
  proof (cases l)
    case (ItemLink uid item action until)
    then obtain uid' item' action' until' where l': "l' = ItemLink uid' item' action' until'"
      using \<open>link_kind l = link_kind l'\<close> by (cases l') simp_all
    with ItemLink \<open>link_rest l = link_rest l'\<close> assms(1,2) show ?thesis
      by (auto simp: split_first_colon dest: py_str_int_inj)
  next
    case (TopicAction uid topic action until)
    then obtain uid' topic' action' until' where l': "l' = TopicAction uid' topic' action' until'"
      using \<open>link_kind l = link_kind l'\<close> by (cases l') simp_all
    with TopicAction \<open>link_rest l = link_rest l'\<close> assms(1,2)
    have "uid = uid'" and rest: "topic @ CHR '':'' # action @ CHR '':'' # py_str_int until
        = topic' @ CHR '':'' # action' @ CHR '':'' # py_str_int until'"
      by (auto simp: split_first_colon)
    moreover have "topic = topic' \<and> action = action' \<and> py_str_int until = py_str_int until'"
      by (rule split_last_two [OF _ _ _ _ rest]) (use assms(1,2) in \<open>simp_all add: TopicAction l'\<close>)
    ultimately show ?thesis by (auto simp: TopicAction l' dest: py_str_int_inj)
  next
    case (AccountLink uid action until)
    then obtain uid' action' until' where l': "l' = AccountLink uid' action' until'"
      using \<open>link_kind l = link_kind l'\<close> by (cases l') simp_all
    with AccountLink \<open>link_rest l = link_rest l'\<close> assms(1,2) show ?thesis
      by (auto simp: split_first_colon dest: py_str_int_inj)
  next
    case (Unsubscribe uid)
    then show ?thesis using \<open>link_kind l = link_kind l'\<close> \<open>link_rest l = link_rest l'\<close> by (cases l') simp_all
  next
    case (UnsubscribeWeekly uid)
    then show ?thesis using \<open>link_kind l = link_kind l'\<close> \<open>link_rest l = link_rest l'\<close> by (cases l') simp_all
  qed
qed

lemma compare_digest_True: "compare_digest a b = Inr True \<Longrightarrow> a = b"
  by (simp add: compare_digest_def split: if_splits)

lemma link_accepted_signature:
  "link_accepted mac cfg now l sig = Inr True \<Longrightarrow> sig = link_signature mac cfg l"
  by (cases l)
    (auto simp: verify_action_def verify_topic_action_def verify_user_action_def verify_unsubscribe_token_def
      verify_weekly_unsubscribe_token_def make_unsubscribe_token_def weekly_unsubscribe_token_def
      link_signature_def dest!: compare_digest_True split: if_splits)


text \<open>A function that stands for HMAC in the examples.\<close>

definition example_mac :: mac where "example_mac key message = ''k'' @ message"

definition example_links :: link_settings where
  "example_links = \<lparr>lk_secret_key = ''s'', lk_public_api_url = ''https://api.example/''\<rparr>"


text \<open>
  A link works from when it is issued until its expiry and never after, and an unsubscribe link always:
  every issued link is accepted exactly at the moments not past its expiry.
\<close>

theorem link_lifetime:
  assumes "plain_link l" "link_signature mac cfg l \<noteq> []" "is_ascii (link_signature mac cfg l)"
  shows "link_accepted mac cfg now l (link_signature mac cfg l)
    = Inr (case link_expiry l of None \<Rightarrow> True | Some until \<Rightarrow> py_int now \<le> until)"
  using assms
  by (cases l)
    (auto simp: verify_action_def verify_topic_action_def verify_user_action_def verify_unsubscribe_token_def
      verify_weekly_unsubscribe_token_def make_unsubscribe_token_def weekly_unsubscribe_token_def
      link_signature_def compare_digest_def not_less)

theorem link_lifetime_witness:
  "link_accepted example_mac example_links 5 (Unsubscribe ''u1'') (link_signature example_mac example_links (Unsubscribe ''u1''))
     = Inr (case link_expiry (Unsubscribe ''u1'') of None \<Rightarrow> True | Some until \<Rightarrow> py_int 5 \<le> until)"
  by (rule link_lifetime)
    (simp_all add: link_signature_def example_mac_def is_ascii_def char_code_def)

text \<open>
  Two limits. The identifier of a topic link is not checked before its signature: a topic with a colon
  can be cut differently, and the endpoint then fails on the identifier. And a signature outside ASCII
  raises instead of being refused.
\<close>

lemma topic_message_ambiguous:
  "link_message (TopicAction ''u1'' ''c:d'' ''less'' until) = link_message (TopicAction ''u1:c'' ''d'' ''less'' until)"
  by (simp add: topic_message_def)

lemma non_ascii_signature_raises:
  assumes "a \<in> set ACTIONS" "py_int now \<le> until" "\<not> is_ascii sig"
  shows "verify_action mac cfg uid item a until sig now = Inl TypeError"
  using assms by (auto simp: verify_action_def compare_digest_def is_ascii_def)

end
