(* ===== verification/Web.thy ===== *)
theory Web
  imports Urls
begin

text \<open>
  What the HTTP endpoints share: an \<open>HTTPException\<close> is its status, any other exception ends the request with a
  server error. A request that fails is rolled back, so an endpoint returns either an error or its reply and the new
  state.
\<close>

datatype api_error = Http nat | Raised py_error

definition NOT_FOUND :: api_error where "NOT_FOUND = Http 404"
definition UNAUTHORIZED :: api_error where "UNAUTHORIZED = Http 401"
definition BAD_REQUEST :: api_error where "BAD_REQUEST = Http 400"
definition FORBIDDEN :: api_error where "FORBIDDEN = Http 403"
definition UNPROCESSABLE :: api_error where "UNPROCESSABLE = Http 422"
definition TOO_MANY_REQUESTS :: api_error where "TOO_MANY_REQUESTS = Http 429"
definition PAYMENT_REQUIRED :: api_error where "PAYMENT_REQUIRED = Http 402"
definition CONFLICT :: api_error where "CONFLICT = Http 409"
definition UNAVAILABLE :: api_error where "UNAVAILABLE = Http 503"

text \<open>Sequencing of fallible steps.\<close>

definition and_then :: "'e + 'a \<Rightarrow> ('a \<Rightarrow> 'e + 'b) \<Rightarrow> 'e + 'b" where
  "and_then r f = (case r of Inl e \<Rightarrow> Inl e | Inr v \<Rightarrow> f v)"

definition guard_that :: "bool \<Rightarrow> 'e \<Rightarrow> 'e + unit" where
  "guard_that b e = (if b then Inr () else Inl e)"

definition raised :: "py_error + 'a \<Rightarrow> api_error + 'a" where
  "raised r = map_sum Raised id r"

lemma and_then_Inr [simp]: "and_then (Inr v) f = f v" "and_then (Inl e) f = Inl e"
  by (simp_all add: and_then_def)

lemma and_then_eq_Inr: "and_then r f = Inr v \<longleftrightarrow> (\<exists>u. r = Inr u \<and> f u = Inr v)"
  by (cases r) simp_all

lemma guard_that_eq_Inr [simp]: "guard_that b e = Inr u \<longleftrightarrow> b"
  by (simp add: guard_that_def)

lemma raised_eq_Inr [simp]: "raised r = Inr v \<longleftrightarrow> r = Inr v"
  by (cases r) (simp_all add: raised_def)

text \<open>A state in which a failed request is rolled back.\<close>

definition commit_or_keep :: "'s \<Rightarrow> 'e + 'r \<times> 's \<Rightarrow> 's" where
  "commit_or_keep s r = (case r of Inl _ \<Rightarrow> s | Inr (_, s') \<Rightarrow> s')"

end
