(* ===== verification/Feedback.thy ===== *)
theory Feedback
  imports Builder SignedLinks Web
begin

text \<open>
  What readers tell the system: the telemetry endpoint \<open>api/feedback.py\<close>, the product events an interaction implies
  (\<open>services/product_metrics.py\<close>), and the one-click actions and views of \<open>api/digest.py\<close>. The state adds to the
  tables of the digest builder the product events, the queue of graph updates and the mail preferences. An interaction
  is identified by its reader and item, which its unique key makes equivalent to its id; a prompt by its position in the
  table. \<open>uuid.UUID(s)\<close> is the parameter \<open>parse_uuid\<close>.
\<close>

subsection \<open>State\<close>

record interaction_body =
  ib_content_item_id :: nat
  ib_read_completion_pct :: "real option"
  ib_time_on_page_seconds :: "int option"
  ib_scroll_depth_pct :: "real option"
  ib_active_time_seconds :: "real option"
  ib_reached_end :: bool
  ib_explicit_rating :: "int option"
  ib_explicit_rating_reason :: "string option"
  ib_saved :: bool
  ib_skipped :: bool
  ib_opened_externally :: bool

record product_event =
  pe_user_id :: nat
  pe_event :: string
  pe_value :: "int option"
  pe_via :: "string option"
  pe_digest :: "nat option"

record feedback_state =
  fs_world :: world
  fs_events :: "product_event list"
  fs_queue :: "(nat \<times> nat) list"
  fs_frequency :: "nat \<Rightarrow> string"
  fs_weekly_email :: "nat \<Rightarrow> bool"

subsection \<open>Product events\<close>

definition PRODUCT_EVENTS :: "string list" where
  "PRODUCT_EVENTS = [''signup'', ''onboarding_finished'', ''source_added'', ''digest_sent'', ''digest_opened'',
     ''item_opened'', ''item_finished'', ''rating'', ''save'', ''trial_converted'', ''cancel'', ''top5_rating'']"

definition FINISHED :: real where "FINISHED = 0.7"

definition metrics_enabled :: "string \<Rightarrow> bool \<Rightarrow> bool" where
  "metrics_enabled setting hosted =
     (let setting = lower (strip setting)
      in if setting \<in> {''on'', ''true'', ''1''} then True
         else if setting \<in> {''off'', ''false'', ''0''} then False
         else hosted)"

definition new_event :: "nat \<Rightarrow> string \<Rightarrow> int option \<Rightarrow> product_event" where
  "new_event user event v = \<lparr>pe_user_id = user, pe_event = event, pe_value = v, pe_via = None, pe_digest = None\<rparr>"

definition track :: "bool \<Rightarrow> product_event \<Rightarrow> product_event list \<Rightarrow> product_event list" where
  "track on e events = (if \<not> on then events else if pe_event e \<notin> set PRODUCT_EVENTS then events else events @ [e])"

record ix_snapshot =
  sn_opened_at :: "moment option"
  sn_completion :: "real option"
  sn_rating :: "int option"
  sn_saved :: bool

definition snapshot :: "interaction option \<Rightarrow> ix_snapshot option" where
  "snapshot ix = map_option (\<lambda>ix. \<lparr>sn_opened_at = ix_opened_at ix, sn_completion = ix_read_completion_pct ix,
     sn_rating = ix_explicit_rating ix, sn_saved = ix_saved ix\<rparr>) ix"

definition interaction_events :: "ix_snapshot option \<Rightarrow> interaction \<Rightarrow> (string \<times> int option) list" where
  "interaction_events before ix =
     (let b = or_default before \<lparr>sn_opened_at = None, sn_completion = None, sn_rating = None, sn_saved = False\<rparr>
      in (if ix_opened_at ix \<noteq> None \<and> sn_opened_at b = None then [(''item_opened'', None)] else [])
         @ (if FINISHED \<le> or_default (ix_read_completion_pct ix) 0 \<and> or_default (sn_completion b) 0 < FINISHED
            then [(''item_finished'', None)] else [])
         @ (case ix_explicit_rating ix of
              None \<Rightarrow> []
            | Some r \<Rightarrow> if r \<noteq> 0 \<and> sn_rating b \<noteq> Some r then [(''rating'', Some r)] else [])
         @ (if ix_saved ix \<and> \<not> sn_saved b then [(''save'', None)] else []))"

definition track_interaction ::
  "bool \<Rightarrow> ix_snapshot option \<Rightarrow> interaction \<Rightarrow> product_event list \<Rightarrow> product_event list" where
  "track_interaction on before ix events =
     foldl (\<lambda>events (event, v). track on (new_event (ix_user_id ix) event v) events) events (interaction_events before ix)"

subsection \<open>Telemetry\<close>

text \<open>A row that does not change keeps its \<open>updated_at\<close>.\<close>

definition written :: "moment \<Rightarrow> interaction \<Rightarrow> interaction \<Rightarrow> interaction" where
  "written now old ix = (if ix = old then old else ix\<lparr>ix_updated_at := now\<rparr>)"

definition apply_values :: "moment \<Rightarrow> interaction_body \<Rightarrow> interaction \<Rightarrow> interaction" where
  "apply_values now b ix =
     ix\<lparr>ix_read_completion_pct := or_else (ib_read_completion_pct b) (ix_read_completion_pct ix),
        ix_time_on_page_seconds := or_else (ib_time_on_page_seconds b) (ix_time_on_page_seconds ix),
        ix_scroll_depth_pct := or_else (ib_scroll_depth_pct b) (ix_scroll_depth_pct ix),
        ix_active_time_seconds := or_else (ib_active_time_seconds b) (ix_active_time_seconds ix),
        ix_reached_end := ib_reached_end b \<or> ix_reached_end ix,
        ix_explicit_rating := or_else (ib_explicit_rating b) (ix_explicit_rating ix),
        ix_explicit_rating_reason := or_else (ib_explicit_rating_reason b) (ix_explicit_rating_reason ix),
        ix_saved := ib_saved b \<or> ix_saved ix,
        ix_saved_at := (if ib_saved b \<and> ix_saved_at ix = None then Some now else ix_saved_at ix),
        ix_skipped := ib_skipped b \<or> ix_skipped ix,
        ix_opened_at := (if ix_opened_at ix = None \<and> \<not> ib_skipped b then Some now else ix_opened_at ix)\<rparr>"

definition mark_saved_read :: "moment \<Rightarrow> interaction_body \<Rightarrow> interaction \<Rightarrow> interaction" where
  "mark_saved_read now b ix =
     (if ix_saved ix \<and> some_and (ib_read_completion_pct b) (\<lambda>c. 0.9 \<le> c) \<and> ix_saved_read_at ix = None
      then ix\<lparr>ix_saved_read_at := Some now\<rparr> else ix)"

text \<open>The test of a re-read runs on the row as already updated.\<close>

definition is_reread :: "moment \<Rightarrow> interaction_body \<Rightarrow> interaction \<Rightarrow> bool" where
  "is_reread now b ix \<longleftrightarrow> some_and (ib_read_completion_pct b) (\<lambda>c. 0.85 \<le> c)
     \<and> some_and (ix_read_completion_pct ix) (\<lambda>c. 0.85 \<le> c) \<and> (ix_reached_end ix \<or> ib_reached_end b)
     \<and> (case ix_opened_at ix of None \<Rightarrow> True | Some t \<Rightarrow> 300 < now - t)"

definition count_reread :: "moment \<Rightarrow> interaction_body \<Rightarrow> interaction \<Rightarrow> interaction" where
  "count_reread now b ix =
     (if is_reread now b ix then ix\<lparr>ix_re_read_count := ix_re_read_count ix + 1\<rparr> else ix)"

definition update_interaction :: "moment \<Rightarrow> interaction_body \<Rightarrow> interaction \<Rightarrow> interaction" where
  "update_interaction now b ix =
     written now ix (count_reread now b (mark_saved_read now b (apply_values now b ix)))"

definition create_interaction :: "moment \<Rightarrow> nat \<Rightarrow> interaction_body \<Rightarrow> interaction" where
  "create_interaction now user b =
     (new_interaction user (ib_content_item_id b) now)
       \<lparr>ix_read_completion_pct := ib_read_completion_pct b, ix_time_on_page_seconds := ib_time_on_page_seconds b,
        ix_scroll_depth_pct := ib_scroll_depth_pct b, ix_active_time_seconds := ib_active_time_seconds b,
        ix_reached_end := ib_reached_end b, ix_explicit_rating := ib_explicit_rating b,
        ix_explicit_rating_reason := ib_explicit_rating_reason b, ix_saved := ib_saved b,
        ix_saved_at := (if ib_saved b then Some now else None), ix_skipped := ib_skipped b,
        ix_opened_at := (if ib_skipped b then None else Some now)\<rparr>"

definition find_ix :: "nat \<Rightarrow> nat \<Rightarrow> interaction list \<Rightarrow> interaction option" where
  "find_ix user item ixs = find (is_ix user item) ixs"

definition put_ix :: "interaction \<Rightarrow> interaction list \<Rightarrow> interaction list" where
  "put_ix ix ixs =
     (if list_ex (is_ix (ix_user_id ix) (ix_content_item_id ix)) ixs
      then update_where (is_ix (ix_user_id ix) (ix_content_item_id ix)) (\<lambda>_. ix) ixs else ixs @ [ix])"

definition carries_signal :: "interaction_body \<Rightarrow> bool" where
  "carries_signal b \<longleftrightarrow> ib_read_completion_pct b \<noteq> None \<or> ib_time_on_page_seconds b \<noteq> None
     \<or> ib_active_time_seconds b \<noteq> None \<or> ib_scroll_depth_pct b \<noteq> None \<or> ib_reached_end b
     \<or> ib_explicit_rating b \<noteq> None \<or> ib_saved b \<or> ib_skipped b"

definition apply_reason_effects :: "content_item \<Rightarrow> string \<Rightarrow> nat \<Rightarrow> graph_db \<Rightarrow> graph_db" where
  "apply_reason_effects content reason user db =
     (case reason_effect (Some reason) of
        None \<Rightarrow> db
      | Some eff \<Rightarrow>
          let db = (if cluster_weight_delta eff \<noteq> 0 \<and> ci_topic_clusters content \<noteq> []
                    then db\<lparr>gd_nodes := update_where (node_key user (hd (ci_topic_clusters content)))
                               (\<lambda>n. n\<lparr>in_weight := max 0 (min 1 (in_weight n + cluster_weight_delta eff))\<rparr>) (gd_nodes db)\<rparr>
                    else db)
          in if source_trust_delta eff \<noteq> 0 \<and> ci_source_id content \<noteq> None
             then db\<lparr>gd_sources := update_where (\<lambda>s. Some (sr_id s) = ci_source_id content)
                        (\<lambda>s. s\<lparr>sr_trust_weight := max 0 (min 1 (sr_trust_weight s + source_trust_delta eff))\<rparr>) (gd_sources db)\<rparr>
             else db)"

definition reason_applied :: "content_item \<Rightarrow> interaction_body \<Rightarrow> string option \<Rightarrow> nat \<Rightarrow> graph_db \<Rightarrow> graph_db" where
  "reason_applied content b previous_reason user db =
     (case ib_explicit_rating_reason b of
        None \<Rightarrow> db
      | Some reason \<Rightarrow> if previous_reason = Some reason then db else apply_reason_effects content reason user db)"

text \<open>The endpoint for everyone but the demo reader.\<close>

definition record_interaction ::
  "bool \<Rightarrow> moment \<Rightarrow> nat \<Rightarrow> interaction_body \<Rightarrow> feedback_state \<Rightarrow> api_error + interaction \<times> feedback_state" where
  "record_interaction on now user b st =
     (let w = fs_world st
      in case find (\<lambda>i. ci_id i = ib_content_item_id b) (wd_items w) of
           None \<Rightarrow> Inl NOT_FOUND
         | Some content \<Rightarrow>
             let old = find_ix user (ib_content_item_id b) (wd_interactions w);
                 ix = (case old of None \<Rightarrow> create_interaction now user b | Some ix \<Rightarrow> update_interaction now b ix);
                 previous_reason = (case old of None \<Rightarrow> None | Some ix \<Rightarrow> ix_explicit_rating_reason ix);
                 w = w\<lparr>wd_interactions := put_ix ix (wd_interactions w),
                       wd_graph := reason_applied content b previous_reason user (wd_graph w)\<rparr>
             in Inr (ix, st\<lparr>fs_world := w, fs_events := track_interaction on (snapshot old) ix (fs_events st),
                    fs_queue := fs_queue st
                      @ (if ib_opened_externally b \<and> \<not> carries_signal b then [] else [(user, ib_content_item_id b)])\<rparr>))"

subsection \<open>The sandbox of the demo reader\<close>

record sandbox_row =
  sb_read_completion_pct :: "real option"
  sb_time_on_page_seconds :: "int option"
  sb_explicit_rating :: "int option"
  sb_explicit_rating_reason :: "string option"
  sb_saved :: bool
  sb_skipped :: bool
  sb_created_at :: moment

type_synonym sandbox = "string \<times> nat \<Rightarrow> sandbox_row option"

definition session_of :: "string option \<Rightarrow> string option \<Rightarrow> string" where
  "session_of session_id header_value = falsy_string session_id (falsy_string header_value ''demo_session'')"

definition record_demo ::
  "moment \<Rightarrow> string \<Rightarrow> interaction_body \<Rightarrow> content_item list \<Rightarrow> sandbox \<Rightarrow> api_error + sandbox_row \<times> sandbox" where
  "record_demo now session b items sandbox =
     (if \<not> list_ex (\<lambda>i. ci_id i = ib_content_item_id b) items then Inl NOT_FOUND
      else
        let old = sandbox (session, ib_content_item_id b);
            row = \<lparr>sb_read_completion_pct = or_else (ib_read_completion_pct b) (Option.bind old sb_read_completion_pct),
                   sb_time_on_page_seconds = or_else (ib_time_on_page_seconds b) (Option.bind old sb_time_on_page_seconds),
                   sb_explicit_rating = or_else (ib_explicit_rating b) (Option.bind old sb_explicit_rating),
                   sb_explicit_rating_reason = or_else (ib_explicit_rating_reason b) (Option.bind old sb_explicit_rating_reason),
                   sb_saved = ib_saved b \<or> some_and old sb_saved,
                   sb_skipped = ib_skipped b \<or> some_and old sb_skipped,
                   sb_created_at = (case old of None \<Rightarrow> now | Some r \<Rightarrow> sb_created_at r)\<rparr>
        in Inr (row, sandbox((session, ib_content_item_id b) \<mapsto> row)))"

text \<open>Reading one's interaction: the demo reader sees the sandbox of the session first.\<close>

definition get_interaction ::
  "bool \<Rightarrow> string \<Rightarrow> sandbox \<Rightarrow> nat \<Rightarrow> nat \<Rightarrow> interaction list \<Rightarrow> (sandbox_row + interaction) option" where
  "get_interaction is_demo session sandbox user item ixs =
     (case (if is_demo then sandbox (session, item) else None) of
        Some row \<Rightarrow> Some (Inl row)
      | None \<Rightarrow> map_option Inr (find_ix user item ixs))"

subsection \<open>Views and actions from emails\<close>

definition mark_opened :: "bool \<Rightarrow> string \<Rightarrow> nat \<Rightarrow> feedback_state \<Rightarrow> feedback_state" where
  "mark_opened on via digest st =
     (case find (\<lambda>d. dg_id d = digest) (wd_digests (fs_world st)) of
        None \<Rightarrow> st
      | Some d \<Rightarrow>
          if dg_opened d then st
          else st\<lparr>fs_world := (fs_world st)\<lparr>wd_digests :=
                      update_where (\<lambda>d. dg_id d = digest) (\<lambda>d. d\<lparr>dg_opened := True\<rparr>) (wd_digests (fs_world st))\<rparr>,
                  fs_events := track on ((new_event (dg_user_id d) ''digest_opened'' None)\<lparr>pe_via := Some via\<rparr>) (fs_events st)\<rparr>)"

text \<open>The newest digest of the reader that has the item.\<close>

definition newest_digest_with :: "nat \<Rightarrow> nat \<Rightarrow> world \<Rightarrow> digest option" where
  "newest_digest_with user item w =
     (case sort_desc dg_generated_at (filter (\<lambda>d. dg_user_id d = user
        \<and> list_ex (\<lambda>i. di_digest_id i = dg_id d \<and> di_content_item_id i = item) (wd_digest_items w)) (wd_digests w)) of
        [] \<Rightarrow> None
      | d # _ \<Rightarrow> Some d)"

definition mark_digest_opened_from_email :: "bool \<Rightarrow> nat \<Rightarrow> nat \<Rightarrow> feedback_state \<Rightarrow> feedback_state" where
  "mark_digest_opened_from_email on user item st =
     (case newest_digest_with user item (fs_world st) of
        None \<Rightarrow> st
      | Some d \<Rightarrow> mark_opened on ''email'' (dg_id d) st)"

definition email_action_on :: "moment \<Rightarrow> string \<Rightarrow> interaction \<Rightarrow> interaction" where
  "email_action_on now action ix =
     (if action = ''open'' then ix\<lparr>ix_opened_at := or_else (ix_opened_at ix) (Some now)\<rparr>
      else if action = ''up'' then ix\<lparr>ix_explicit_rating := Some 1, ix_opened_at := or_else (ix_opened_at ix) (Some now)\<rparr>
      else if action = ''down'' then ix\<lparr>ix_explicit_rating := Some (- 1)\<rparr>
      else if action = ''save'' then ix\<lparr>ix_saved := True, ix_saved_at := or_else (ix_saved_at ix) (Some now)\<rparr>
      else ix)"

definition record_email_action ::
  "bool \<Rightarrow> moment \<Rightarrow> nat \<Rightarrow> nat \<Rightarrow> string \<Rightarrow> feedback_state \<Rightarrow> feedback_state" where
  "record_email_action on now user item action st =
     (let w = fs_world st;
          old = find_ix user item (wd_interactions w);
          ix = (case old of
                  None \<Rightarrow> email_action_on now action (new_interaction user item now)
                | Some ix \<Rightarrow> written now ix (email_action_on now action ix));
          st = st\<lparr>fs_world := w\<lparr>wd_interactions := put_ix ix (wd_interactions w)\<rparr>,
                  fs_events := track_interaction on (snapshot old) ix (fs_events st)\<rparr>
      in mark_digest_opened_from_email on user item st)"

definition MUTATING_ACTIONS :: "string list" where "MUTATING_ACTIONS = [''up'', ''down'', ''save'']"
definition POST_ONLY_ACTIONS :: "string list" where "POST_ONLY_ACTIONS = MUTATING_ACTIONS @ [''open'']"

definition verify_email_action ::
  "mac \<Rightarrow> link_settings \<Rightarrow> (string \<Rightarrow> nat option) \<Rightarrow> (nat \<Rightarrow> string) \<Rightarrow> moment \<Rightarrow> string \<Rightarrow> nat \<Rightarrow> string \<Rightarrow> int \<Rightarrow> string
    \<Rightarrow> world \<Rightarrow> api_error + nat \<times> content_item" where
  "verify_email_action mac cfg parse_uuid show_uuid now action item uid until sig w =
     (if action \<notin> set ACTIONS then Inl BAD_REQUEST
      else case parse_uuid uid of
             None \<Rightarrow> Inl BAD_REQUEST
           | Some user \<Rightarrow>
               and_then (raised (verify_action mac cfg uid (show_uuid item) action until sig now)) (\<lambda>valid.
                 if \<not> valid then Inl UNAUTHORIZED
                 else if \<not> list_ex (\<lambda>u. us_id u = user) (wd_users w) then Inl BAD_REQUEST
                 else case find (\<lambda>i. ci_id i = item) (wd_items w) of
                        None \<Rightarrow> Inl NOT_FOUND
                      | Some content \<Rightarrow> Inr (user, content)))"

text \<open>The GET of a link verifies it and shows a page; only the POST records.\<close>

definition email_action_link ::
  "mac \<Rightarrow> link_settings \<Rightarrow> (string \<Rightarrow> nat option) \<Rightarrow> (nat \<Rightarrow> string) \<Rightarrow> moment \<Rightarrow> string \<Rightarrow> nat \<Rightarrow> string \<Rightarrow> int \<Rightarrow> string
    \<Rightarrow> feedback_state \<Rightarrow> api_error + (string \<times> nat \<times> nat) \<times> feedback_state" where
  "email_action_link mac cfg parse_uuid show_uuid now action item uid until sig st =
     map_sum id (\<lambda>(user, content). ((action, user, ci_id content), st))
       (verify_email_action mac cfg parse_uuid show_uuid now action item uid until sig (fs_world st))"

definition email_action_submit ::
  "bool \<Rightarrow> mac \<Rightarrow> link_settings \<Rightarrow> (string \<Rightarrow> nat option) \<Rightarrow> (nat \<Rightarrow> string) \<Rightarrow> moment \<Rightarrow> string \<Rightarrow> nat \<Rightarrow> string \<Rightarrow> int \<Rightarrow> string
    \<Rightarrow> feedback_state \<Rightarrow> api_error + nat \<times> feedback_state" where
  "email_action_submit on mac cfg parse_uuid show_uuid now action item uid until sig st =
     (if action \<notin> set POST_ONLY_ACTIONS then Inl BAD_REQUEST
      else and_then (verify_email_action mac cfg parse_uuid show_uuid now action item uid until sig (fs_world st))
        (\<lambda>(user, content).
           let st = record_email_action on now user (ci_id content) action st
           in Inr (ci_id content,
                   if action \<in> set MUTATING_ACTIONS then st\<lparr>fs_queue := fs_queue st @ [(user, ci_id content)]\<rparr> else st)))"

definition topic_action_submit ::
  "mac \<Rightarrow> link_settings \<Rightarrow> (string \<Rightarrow> nat option) \<Rightarrow> moment \<Rightarrow> string \<Rightarrow> string \<Rightarrow> string \<Rightarrow> int \<Rightarrow> string
    \<Rightarrow> feedback_state \<Rightarrow> api_error + unit \<times> feedback_state" where
  "topic_action_submit mac cfg parse_uuid now action uid topic until sig st =
     and_then (raised (verify_topic_action mac cfg uid topic action until sig now)) (\<lambda>valid.
       if \<not> valid then Inl UNAUTHORIZED
       else case parse_uuid uid of
              None \<Rightarrow> Inl (Raised ValueError)
            | Some user \<Rightarrow>
                Inr ((), st\<lparr>fs_world := (fs_world st)\<lparr>wd_graph :=
                       topic_action (action = ''less'') user topic (wd_graph (fs_world st))\<rparr>\<rparr>))"

definition user_action_submit ::
  "mac \<Rightarrow> link_settings \<Rightarrow> (string \<Rightarrow> nat option) \<Rightarrow> moment \<Rightarrow> string \<Rightarrow> string \<Rightarrow> int \<Rightarrow> string
    \<Rightarrow> feedback_state \<Rightarrow> api_error + unit \<times> feedback_state" where
  "user_action_submit mac cfg parse_uuid now action uid until sig st =
     and_then (raised (verify_user_action mac cfg uid action until sig now)) (\<lambda>valid.
       if \<not> valid then Inl UNAUTHORIZED
       else case parse_uuid uid of
              None \<Rightarrow> Inl (Raised ValueError)
            | Some user \<Rightarrow>
                Inr ((), if list_ex (\<lambda>u. us_id u = user) (wd_users (fs_world st)) \<and> action = ''weekly''
                         then st\<lparr>fs_frequency := (fs_frequency st)(user := ''weekly'')\<rparr> else st))"

definition apply_unsubscribe ::
  "mac \<Rightarrow> link_settings \<Rightarrow> (string \<Rightarrow> nat option) \<Rightarrow> string \<Rightarrow> string \<Rightarrow> feedback_state \<Rightarrow> api_error + bool \<times> feedback_state" where
  "apply_unsubscribe mac cfg parse_uuid uid token st =
     (case parse_uuid uid of
        None \<Rightarrow> Inr (False, st)
      | Some user \<Rightarrow>
          and_then (raised (verify_unsubscribe_token mac cfg uid token)) (\<lambda>valid.
            if \<not> valid \<or> \<not> list_ex (\<lambda>u. us_id u = user) (wd_users (fs_world st)) then Inr (False, st)
            else Inr (True, st\<lparr>fs_frequency := (fs_frequency st)(user := ''in_app_only'')\<rparr>)))"

definition apply_weekly_unsubscribe ::
  "mac \<Rightarrow> link_settings \<Rightarrow> (string \<Rightarrow> nat option) \<Rightarrow> string \<Rightarrow> string \<Rightarrow> feedback_state \<Rightarrow> api_error + bool \<times> feedback_state" where
  "apply_weekly_unsubscribe mac cfg parse_uuid uid token st =
     (case parse_uuid uid of
        None \<Rightarrow> Inr (False, st)
      | Some user \<Rightarrow>
          and_then (raised (verify_weekly_unsubscribe_token mac cfg uid token)) (\<lambda>valid.
            if \<not> valid \<or> \<not> list_ex (\<lambda>u. us_id u = user) (wd_users (fs_world st)) then Inr (False, st)
            else Inr (True, st\<lparr>fs_weekly_email := (fs_weekly_email st)(user := False)\<rparr>)))"


text \<open>The owner opened the digest: its items were shown.\<close>

definition mark_viewed :: "bool \<Rightarrow> digest \<Rightarrow> feedback_state \<Rightarrow> feedback_state" where
  "mark_viewed on d st =
     (let st = mark_opened on ''app'' (dg_id d) st
      in st\<lparr>fs_world := (fs_world st)\<lparr>wd_impressions :=
           update_where (\<lambda>m. dm_digest_id m = dg_id d \<and> dm_user_id m = dg_user_id d \<and> \<not> dm_viewed m)
             (\<lambda>m. m\<lparr>dm_viewed := True\<rparr>) (wd_impressions (fs_world st))\<rparr>\<rparr>)"

subsection \<open>What a reader did is not forgotten\<close>

definition ix_key :: "interaction \<Rightarrow> nat \<times> nat" where
  "ix_key ix = (ix_user_id ix, ix_content_item_id ix)"

lemma is_ix_key: "is_ix user item ix \<longleftrightarrow> ix_key ix = (user, item)"
  by (simp add: is_ix_def ix_key_def)

text \<open>A later state of the same interaction: first moments stay, marks are never taken back, counts never fall.\<close>

definition grows :: "interaction \<Rightarrow> interaction \<Rightarrow> bool" where
  "grows ix ix' \<longleftrightarrow> ix_key ix' = ix_key ix \<and> ix_created_at ix' = ix_created_at ix
     \<and> (ix_opened_at ix \<noteq> None \<longrightarrow> ix_opened_at ix' = ix_opened_at ix)
     \<and> (ix_saved_at ix \<noteq> None \<longrightarrow> ix_saved_at ix' = ix_saved_at ix)
     \<and> (ix_saved_read_at ix \<noteq> None \<longrightarrow> ix_saved_read_at ix' = ix_saved_read_at ix)
     \<and> (ix_saved ix \<longrightarrow> ix_saved ix') \<and> (ix_reached_end ix \<longrightarrow> ix_reached_end ix')
     \<and> (ix_skipped ix \<longrightarrow> ix_skipped ix') \<and> ix_re_read_count ix \<le> ix_re_read_count ix'
     \<and> (ix_read_completion_pct ix \<noteq> None \<longrightarrow> ix_read_completion_pct ix' \<noteq> None)
     \<and> (ix_explicit_rating ix \<noteq> None \<longrightarrow> ix_explicit_rating ix' \<noteq> None)"

lemma ix_grows_refl [simp]: "grows ix ix"
  by (simp add: grows_def)

lemma ix_grows_trans: "grows a b \<Longrightarrow> grows b c \<Longrightarrow> grows a c"
  by (auto simp: grows_def)

lemma grows_written: "grows old ix \<Longrightarrow> grows old (written now old ix)"
  by (auto simp: written_def grows_def ix_key_def)

lemma or_else_not_None: "b \<noteq> None \<Longrightarrow> or_else a b \<noteq> None"
  by (cases a) simp_all

lemma grows_apply_values: "grows ix (apply_values now b ix)"
  by (auto simp: grows_def apply_values_def ix_key_def or_else_not_None)

lemma grows_mark_saved_read: "grows ix (mark_saved_read now b ix)"
  by (auto simp: grows_def mark_saved_read_def ix_key_def)

lemma grows_count_reread: "grows ix (count_reread now b ix)"
  by (simp add: grows_def count_reread_def ix_key_def)

lemma grows_update: "grows ix (update_interaction now b ix)"
  unfolding update_interaction_def
  by (intro grows_written) (blast intro: ix_grows_trans grows_apply_values grows_mark_saved_read grows_count_reread)

lemma or_else_same: "a \<noteq> None \<Longrightarrow> or_else a b = a"
  by (cases a) simp_all

lemma grows_email: "grows ix (email_action_on now action ix)"
  by (simp add: grows_def email_action_on_def ix_key_def or_else_same)

lemma ix_key_create [simp]: "ix_key (create_interaction now user b) = (user, ib_content_item_id b)"
  by (simp add: create_interaction_def new_interaction_def ix_key_def)

lemma ix_key_new [simp]: "ix_key (new_interaction user item now) = (user, item)"
  by (simp add: new_interaction_def ix_key_def)

definition keys_unique :: "interaction list \<Rightarrow> bool" where
  "keys_unique ixs \<longleftrightarrow> distinct (map ix_key ixs)"

definition remembers :: "interaction list \<Rightarrow> interaction list \<Rightarrow> bool" where
  "remembers before ixs \<longleftrightarrow> keys_unique ixs \<and> (\<forall>ix \<in> set before. \<exists>ix' \<in> set ixs. grows ix ix')"

lemma find_ix_Some: "find_ix user item ixs = Some ix \<Longrightarrow> ix \<in> set ixs \<and> ix_key ix = (user, item)"
  by (auto simp: find_ix_def find_Some_iff is_ix_key)

lemma find_ix_None: "find_ix user item ixs = None \<longleftrightarrow> (user, item) \<notin> ix_key ` set ixs"
  by (force simp: find_ix_def find_None_iff is_ix_key)

lemma keys_update_where:
  "ix_key ix = k \<Longrightarrow> map ix_key (update_where (\<lambda>r. ix_key r = k) (\<lambda>_. ix) ixs) = map ix_key ixs"
  by (auto simp: update_where_def)

lemma put_ix_remembers:
  assumes "remembers before ixs"
    and "\<And>old. find_ix (ix_user_id ix) (ix_content_item_id ix) ixs = Some old \<Longrightarrow> grows old ix"
  shows "remembers before (put_ix ix ixs)"
proof (cases "find_ix (ix_user_id ix) (ix_content_item_id ix) ixs")
  case None
  then have "\<not> list_ex (is_ix (ix_user_id ix) (ix_content_item_id ix)) ixs"
    by (auto simp: find_ix_def find_None_iff list_ex_iff)
  moreover have "ix_key ix \<notin> ix_key ` set ixs" using None by (simp add: find_ix_None ix_key_def [of ix])
  ultimately show ?thesis using assms(1) by (auto simp: put_ix_def remembers_def keys_unique_def)
next
  case (Some old)
  have old: "old \<in> set ixs" "ix_key old = ix_key ix" using find_ix_Some [OF Some] by (simp_all add: ix_key_def)
  have uniq: "\<And>r. r \<in> set ixs \<Longrightarrow> ix_key r = ix_key ix \<Longrightarrow> r = old"
    using assms(1) old by (metis distinct_map inj_onD keys_unique_def remembers_def)
  have put: "put_ix ix ixs = update_where (\<lambda>r. ix_key r = ix_key ix) (\<lambda>_. ix) ixs"
  proof -
    have "is_ix (ix_user_id ix) (ix_content_item_id ix) = (\<lambda>r. ix_key r = ix_key ix)"
      by (rule ext) (simp add: is_ix_key ix_key_def [of ix])
    then show ?thesis using old by (auto simp: put_ix_def list_ex_iff)
  qed
  have "keys_unique (put_ix ix ixs)"
    using assms(1) by (simp add: put keys_unique_def keys_update_where remembers_def)
  moreover have "\<exists>x' \<in> set (put_ix ix ixs). grows x x'" if x: "x \<in> set before" for x
  proof -
    obtain y where y: "y \<in> set ixs" "grows x y" using assms(1) x unfolding remembers_def by blast
    show ?thesis
    proof (cases "ix_key y = ix_key ix")
      case True
      then have "grows x ix" using y uniq assms(2) [OF Some] by (metis ix_grows_trans)
      moreover have "ix \<in> set (put_ix ix ixs)" using old by (force simp: put update_where_def)
      ultimately show ?thesis by blast
    next
      case False
      then have "y \<in> set (put_ix ix ixs)" using y by (force simp: put update_where_def)
      then show ?thesis using y by blast
    qed
  qed
  ultimately show ?thesis by (simp add: remembers_def)
qed

text \<open>Everything the endpoints do with the interactions of readers.\<close>

datatype feedback_event =
    Telemetry moment nat interaction_body
  | EmailAction moment nat nat string
  | DigestView digest

fun feedback_step :: "bool \<Rightarrow> feedback_state \<Rightarrow> feedback_event \<Rightarrow> feedback_state" where
  "feedback_step on st (Telemetry now user b) = commit_or_keep st (record_interaction on now user b st)"
| "feedback_step on st (EmailAction now user item action) = record_email_action on now user item action st"
| "feedback_step on st (DigestView d) = mark_viewed on d st"

abbreviation ixs_of :: "feedback_state \<Rightarrow> interaction list" where
  "ixs_of st \<equiv> wd_interactions (fs_world st)"

lemma ixs_mark_opened [simp]: "ixs_of (mark_opened on via d st) = ixs_of st"
  by (simp add: mark_opened_def split: option.split)

lemma ixs_mark_viewed [simp]: "ixs_of (mark_viewed on d st) = ixs_of st"
  by (simp add: mark_viewed_def Let_def)

lemma ixs_mark_email [simp]: "ixs_of (mark_digest_opened_from_email on user item st) = ixs_of st"
  by (simp add: mark_digest_opened_from_email_def split: option.split)

lemma key_eq: "ix_key ix = (user, item) \<longleftrightarrow> ix_user_id ix = user \<and> ix_content_item_id ix = item"
  by (simp add: ix_key_def)

lemma grows_key: "grows old ix \<Longrightarrow> ix_key ix = ix_key old"
  by (simp add: grows_def)

lemma upsert_remembers:
  assumes "remembers before ixs" "ix_key new = (user, item)" "\<And>old. grows old (change old)"
  shows "remembers before (put_ix (case find_ix user item ixs of None \<Rightarrow> new | Some old \<Rightarrow> change old) ixs)"
proof (cases "find_ix user item ixs")
  case None
  have "remembers before (put_ix new ixs)"
    by (rule put_ix_remembers [OF assms(1)]) (use None assms(2) in \<open>simp add: key_eq\<close>)
  with None show ?thesis by simp
next
  case (Some old)
  then have "ix_key (change old) = (user, item)" using grows_key [OF assms(3)] find_ix_Some by simp
  with Some assms(1,3) show ?thesis by (auto simp: key_eq intro: put_ix_remembers)
qed

lemma record_interaction_ixs:
  assumes "record_interaction on now user b st = Inr (ix, st')"
  shows "ix = (case find_ix user (ib_content_item_id b) (ixs_of st) of
      None \<Rightarrow> create_interaction now user b | Some ix \<Rightarrow> update_interaction now b ix)"
    and "ixs_of st' = put_ix ix (ixs_of st)"
  using assms by (auto simp: record_interaction_def Let_def split: option.splits)

lemma feedback_step_remembers:
  assumes "remembers before (ixs_of st)"
  shows "remembers before (ixs_of (feedback_step on st e))"
proof (cases e)
  case (Telemetry now user b)
  show ?thesis
  proof (cases "record_interaction on now user b st")
    case (Inl a)
    then show ?thesis using assms by (simp add: Telemetry commit_or_keep_def)
  next
    case (Inr r)
    obtain ix st' where r: "r = (ix, st')" by (cases r)
    have "remembers before (ixs_of st')"
      unfolding record_interaction_ixs(2) [OF Inr [unfolded r]] record_interaction_ixs(1) [OF Inr [unfolded r]]
      using assms by (rule upsert_remembers) (simp_all add: grows_update)
    then show ?thesis by (simp add: Telemetry Inr r commit_or_keep_def)
  qed
next
  case (EmailAction now user item action)
  have new: "ix_key (email_action_on now action (new_interaction user item now)) = (user, item)"
    using grows_key [OF grows_email, of now action "new_interaction user item now"] by simp
  show ?thesis
    using upsert_remembers [OF assms new, of "\<lambda>ix. written now ix (email_action_on now action ix)"]
    by (simp add: EmailAction record_email_action_def Let_def grows_written grows_email cong: option.case_cong)
next
  case (DigestView d)
  then show ?thesis using assms by simp
qed

interpretation feedback: preserving "feedback_step on" "\<lambda>st. remembers before (ixs_of st)" "\<lambda>_. True"
  by unfold_locales (rule feedback_step_remembers)



definition no_body :: "nat \<Rightarrow> interaction_body" where
  "no_body item = \<lparr>ib_content_item_id = item, ib_read_completion_pct = None, ib_time_on_page_seconds = None,
     ib_scroll_depth_pct = None, ib_active_time_seconds = None, ib_reached_end = False, ib_explicit_rating = None,
     ib_explicit_rating_reason = None, ib_saved = False, ib_skipped = False, ib_opened_externally = False\<rparr>"

definition feedback_world :: world where
  "feedback_world = \<lparr>wd_users = [], wd_items = [(blank_item 7)\<lparr>ci_topic_clusters := [''ai''], ci_source_id := Some 5\<rparr>],
     wd_graph = empty_graph, wd_takedowns = [], wd_interactions = [], wd_weights = Map.empty, wd_digests = [],
     wd_digest_items = [], wd_impressions = [], wd_prompts = []\<rparr>"

definition feedback_start :: feedback_state where
  "feedback_start = \<lparr>fs_world = feedback_world, fs_events = [], fs_queue = [], fs_frequency = (\<lambda>_. ''daily''),
     fs_weekly_email = (\<lambda>_. False)\<rparr>"


subsection \<open>Retries\<close>

text \<open>The row already says what the request says.\<close>

definition says :: "interaction_body \<Rightarrow> interaction \<Rightarrow> bool" where
  "says b ix \<longleftrightarrow> (\<forall>c. ib_read_completion_pct b = Some c \<longrightarrow> ix_read_completion_pct ix = Some c)
     \<and> (\<forall>r. ib_explicit_rating b = Some r \<longrightarrow> ix_explicit_rating ix = Some r)
     \<and> (\<forall>r. ib_explicit_rating_reason b = Some r \<longrightarrow> ix_explicit_rating_reason ix = Some r)
     \<and> (ib_saved b \<longrightarrow> ix_saved ix) \<and> (\<not> ib_skipped b \<longrightarrow> ix_opened_at ix \<noteq> None)"

lemma says_create: "says b (create_interaction now user b)"
  by (simp add: says_def create_interaction_def)

lemma written_fields [simp]:
  "ix_read_completion_pct (written now old ix) = ix_read_completion_pct ix"
  "ix_explicit_rating (written now old ix) = ix_explicit_rating ix"
  "ix_explicit_rating_reason (written now old ix) = ix_explicit_rating_reason ix"
  "ix_saved (written now old ix) = ix_saved ix" "ix_opened_at (written now old ix) = ix_opened_at ix"
  "ix_user_id (written now old ix) = ix_user_id ix" "ix_re_read_count (written now old ix) = ix_re_read_count ix"
  by (simp_all add: written_def)

lemma marks_fields [simp]:
  "ix_read_completion_pct (count_reread now b (mark_saved_read now b ix)) = ix_read_completion_pct ix"
  "ix_explicit_rating (count_reread now b (mark_saved_read now b ix)) = ix_explicit_rating ix"
  "ix_explicit_rating_reason (count_reread now b (mark_saved_read now b ix)) = ix_explicit_rating_reason ix"
  "ix_saved (count_reread now b (mark_saved_read now b ix)) = ix_saved ix"
  "ix_opened_at (count_reread now b (mark_saved_read now b ix)) = ix_opened_at ix"
  "ix_user_id (count_reread now b (mark_saved_read now b ix)) = ix_user_id ix"
  by (simp_all add: count_reread_def mark_saved_read_def)

lemma says_update: "says b (update_interaction now b ix)"
  by (simp add: says_def update_interaction_def apply_values_def)

lemma says_no_events:
  assumes "says b ix"
  shows "interaction_events (snapshot (Some ix)) (update_interaction now b ix) = []"
proof -
  have v: "or_else (ib_read_completion_pct b) (ix_read_completion_pct ix) = ix_read_completion_pct ix"
    "or_else (ib_explicit_rating b) (ix_explicit_rating ix) = ix_explicit_rating ix"
    "(ib_saved b \<or> ix_saved ix) = ix_saved ix"
    using assms by (auto simp: says_def or_else_def split: option.splits)
  show ?thesis
    using assms
    by (auto simp: interaction_events_def snapshot_def update_interaction_def apply_values_def v says_def
        Let_def split: option.splits)
qed

lemma says_reason_free:
  "says b ix \<Longrightarrow> reason_applied content b (ix_explicit_rating_reason ix) user db = db"
  by (auto simp: reason_applied_def says_def split: option.splits)

lemma find_put_ix: "ix_key ix = (user, item) \<Longrightarrow> find_ix user item (put_ix ix ixs) = Some ix"
proof (cases "list_ex (is_ix user item) ixs")
  case True
  assume k: "ix_key ix = (user, item)"
  have "find (is_ix user item) (update_where (is_ix user item) (\<lambda>_. ix) ixs) = Some ix"
    using True k by (induction ixs) (auto simp: update_where_def is_ix_key)
  with True k show ?thesis by (simp add: put_ix_def find_ix_def key_eq)
next
  case False
  assume k: "ix_key ix = (user, item)"
  have "find (is_ix user item) (ixs @ [ix]) = Some ix"
    using False k by (induction ixs) (auto simp: is_ix_key)
  with False k show ?thesis by (simp add: put_ix_def find_ix_def key_eq)
qed

lemma recorded_says:
  assumes "record_interaction on now user b st = Inr (ix, st')"
  shows "says b ix" "ix_key ix = (user, ib_content_item_id b)"
proof -
  show "says b ix"
    unfolding record_interaction_ixs(1) [OF assms] by (simp add: says_create says_update split: option.split)
  show "ix_key ix = (user, ib_content_item_id b)"
    unfolding record_interaction_ixs(1) [OF assms]
    using grows_key [OF grows_update] by (auto dest: find_ix_Some split: option.split)
qed

text \<open>
  C38: A retried request is free: sent again at any time, it neither applies its reason to the interest graph
  and source trust a second time nor records a product event again.
\<close>

theorem retry_is_free:
  assumes "record_interaction on now user b st = Inr (ix, st')"
  shows "\<exists>ix'' st''. record_interaction on later user b st' = Inr (ix'', st'')
    \<and> wd_graph (fs_world st'') = wd_graph (fs_world st') \<and> fs_events st'' = fs_events st'"
proof -
  obtain content where c: "find (\<lambda>i. ci_id i = ib_content_item_id b) (wd_items (fs_world st)) = Some content"
    using assms by (auto simp: record_interaction_def Let_def split: option.splits)
  have items: "wd_items (fs_world st') = wd_items (fs_world st)"
    using assms by (auto simp: record_interaction_def Let_def split: option.splits)
  have f: "find_ix user (ib_content_item_id b) (ixs_of st') = Some ix"
    unfolding record_interaction_ixs(2) [OF assms] using recorded_says(2) [OF assms] by (rule find_put_ix)
  note says = recorded_says(1) [OF assms]
  show ?thesis
    using c by (simp add: record_interaction_def Let_def items f says_reason_free [OF says]
        track_interaction_def says_no_events [OF says])
qed

theorem retry_is_free_witness:
  "\<exists>ix st' ix'' st''. record_interaction True 5 1 ((no_body 7)\<lparr>ib_explicit_rating := Some 1\<rparr>) feedback_start = Inr (ix, st')
    \<and> record_interaction True 9 1 ((no_body 7)\<lparr>ib_explicit_rating := Some 1\<rparr>) st' = Inr (ix'', st'')
    \<and> fs_events st'' = fs_events st'"
proof -
  obtain ix st' where r: "record_interaction True 5 1 ((no_body 7)\<lparr>ib_explicit_rating := Some 1\<rparr>) feedback_start = Inr (ix, st')"
    by (simp add: record_interaction_def Let_def feedback_start_def feedback_world_def no_body_def)
  from retry_is_free [OF r, of 9] r show ?thesis by blast
qed

subsection \<open>Where the telemetry goes wrong\<close>

text \<open>A re-read is counted although nothing was completed before: the completion of this very request is
  taken for the earlier one.\<close>

lemma first_completion_counts_as_reread:
  assumes "ix_opened_at ix = Some t" "300 < now - t" "ix_read_completion_pct ix = None"
    "ib_read_completion_pct b = Some c" "0.85 \<le> c" "ib_reached_end b"
  shows "ix_re_read_count (update_interaction now b ix) = ix_re_read_count ix + 1"
  using assms
  by (simp add: update_interaction_def count_reread_def is_reread_def mark_saved_read_def apply_values_def)

text \<open>A saved item whose first request says it was read to the end is not marked as a saved read; the retry
  of that request marks it, and the signal of the interaction rises from 0.1 to 0.9.\<close>

lemma saved_read_needs_second_request:
  assumes "ib_saved b" "ib_read_completion_pct b = Some 1" "ib_explicit_rating b = None"
  shows "compute_signal_strength (create_interaction now user b) = 0.1"
    and "compute_signal_strength (update_interaction later b (create_interaction now user b)) = 0.9"
  using assms
  by (simp_all add: compute_signal_strength_def create_interaction_def new_interaction_def update_interaction_def
      written_def count_reread_def is_reread_def mark_saved_read_def apply_values_def)

text \<open>A reason tag changes the trust of the subscription under which the shared item is stored, whoever owns
  it: one reader's tag lowers the trust another reader has learned, and their own stays. It also leaves the
  range \<open>[TRUST_MIN, TRUST_MAX]\<close> in which the learner keeps every trust.\<close>

definition two_subscriptions :: graph_db where
  "two_subscriptions = empty_graph\<lparr>gd_sources :=
     [\<lparr>sr_id = 5, sr_user_id = 2, sr_feed_id = None, sr_url = ''u'', sr_feed_url = None, sr_name = None,
       sr_trust_weight = 0.15, sr_created_at = 0, sr_is_active = True\<rparr>,
      \<lparr>sr_id = 6, sr_user_id = 1, sr_feed_id = None, sr_url = ''u'', sr_feed_url = None, sr_name = None,
       sr_trust_weight = 0.5, sr_created_at = 0, sr_is_active = True\<rparr>]\<rparr>"

lemma reason_lowers_other_readers_trust:
  "map (\<lambda>s. (sr_user_id s, sr_trust_weight s))
     (gd_sources (apply_reason_effects ((blank_item 7)\<lparr>ci_source_id := Some 5\<rparr>) ''clickbait'' 1 two_subscriptions))
   = [(2, 0.05), (1, 0.5)]"
  "graph_ok two_subscriptions"
  "\<not> graph_ok (apply_reason_effects ((blank_item 7)\<lparr>ci_source_id := Some 5\<rparr>) ''clickbait'' 1 two_subscriptions)"
  by (simp_all add: apply_reason_effects_def reason_effect_def REASON_EFFECTS_def two_subscriptions_def empty_graph_def
      update_where_def graph_ok_def trust_ok_def TRUST_MIN_def TRUST_MAX_def)

end
