(* ===== verification/Throttle.thy ===== *)
theory Throttle
  imports Lifecycle Web SignedLinks
begin

text \<open>
  Who may do how much: rate limits (\<open>utils/ratelimit.py\<close>), hosted abuse controls (\<open>services/abuse.py\<close>), the cap on
  sign-ups per domain (\<open>services/email_verification.py\<close>) and registration (\<open>services/registration.py\<close>). Counters in
  Redis carry their expiry; every Redis call may fail, which an argument says.
\<close>

subsection \<open>Counters with an expiry\<close>

type_synonym counter_key = "string \<times> string \<times> int"
type_synonym ttl_counters = "counter_key \<Rightarrow> (int \<times> moment option) option"

definition live_at :: "moment \<Rightarrow> moment option \<Rightarrow> bool" where
  "live_at now t = (case t of None \<Rightarrow> True | Some t \<Rightarrow> now < t)"

definition read_counter :: "counter_key \<Rightarrow> moment \<Rightarrow> ttl_counters \<Rightarrow> (int \<times> moment option) option" where
  "read_counter key now cs = (case cs key of None \<Rightarrow> None | Some (v, t) \<Rightarrow> if live_at now t then Some (v, t) else None)"

text \<open>INCRBY: an absent key counts from zero and has no expiry. EXPIRE sets it.\<close>

definition incrby :: "counter_key \<Rightarrow> int \<Rightarrow> moment \<Rightarrow> ttl_counters \<Rightarrow> int \<times> ttl_counters" where
  "incrby key amount now cs =
     (case read_counter key now cs of
        None \<Rightarrow> (amount, cs(key \<mapsto> (amount, None)))
      | Some (v, t) \<Rightarrow> (v + amount, cs(key \<mapsto> (v + amount, t))))"

definition expire_key :: "counter_key \<Rightarrow> real \<Rightarrow> moment \<Rightarrow> ttl_counters \<Rightarrow> ttl_counters" where
  "expire_key key ttl now cs = (case read_counter key now cs of None \<Rightarrow> cs | Some (v, _) \<Rightarrow> cs(key \<mapsto> (v, Some (now + ttl))))"

text \<open>What the two calls of a request do: INCR may fail, and so may EXPIRE after it.\<close>

datatype redis = Up | Incr_fails | Expire_fails

text \<open>\<open>cache_incr\<close> of \<open>utils/cache.py\<close> with its expiry: a failure of either call is \<open>None\<close>.\<close>

definition cache_incr_ttl :: "redis \<Rightarrow> counter_key \<Rightarrow> int \<Rightarrow> real \<Rightarrow> moment \<Rightarrow> ttl_counters \<Rightarrow> int option \<times> ttl_counters" where
  "cache_incr_ttl rd key amount ttl now cs =
     (if rd = Incr_fails then (None, cs)
      else
        let (v, cs) = incrby key amount now cs
        in if v = amount then (if rd = Expire_fails then (None, cs) else (Some v, expire_key key ttl now cs))
           else (Some v, cs))"

subsection \<open>Rate limits\<close>

record limiter =
  rl_max_requests :: int
  rl_window_seconds :: real
  rl_scope :: string
  rl_fail_closed :: bool

definition client_ip :: "string option \<Rightarrow> string option \<Rightarrow> string" where
  "client_ip forwarded client_host =
     (case forwarded of
        Some f \<Rightarrow> if f \<noteq> [] then strip (hd (split_char CHR '','' f)) else or_default client_host ''unknown''
      | None \<Rightarrow> or_default client_host ''unknown'')"

definition rate_key :: "limiter \<Rightarrow> string \<Rightarrow> counter_key" where
  "rate_key rl ip = (rl_scope rl, ip, 0)"

definition rate_limit ::
  "bool \<Rightarrow> redis \<Rightarrow> limiter \<Rightarrow> string \<Rightarrow> moment \<Rightarrow> ttl_counters \<Rightarrow> (api_error + unit) \<times> ttl_counters" where
  "rate_limit enabled rd rl ip now cs =
     (if \<not> enabled \<or> rl_max_requests rl \<le> 0 then (Inr (), cs)
      else
        let refused = (if rl_fail_closed rl then Inl UNAVAILABLE else Inr ())
        in if rd = Incr_fails then (refused, cs)
           else
             let (n, cs) = incrby (rate_key rl ip) 1 now cs
             in if n = 1 \<and> rd = Expire_fails then (refused, cs)
                else
                  let cs = (if n = 1 then expire_key (rate_key rl ip) (rl_window_seconds rl) now cs else cs)
                  in (if rl_max_requests rl < n then Inl TOO_MANY_REQUESTS else Inr (), cs))"

subsection \<open>Hosted abuse controls\<close>

record abuse_settings =
  ab_hosted :: bool
  ab_fetch_budget_per_hour :: int
  ab_host_polls_per_hour :: int
  ab_max_sources_per_host :: int
  ab_inbound_max_message_bytes :: int
  ab_inbound_per_day :: int
  ab_inbound_mb_per_day :: int

definition host_of :: "string \<Rightarrow> py_error + string" where
  "host_of url = map_sum id (\<lambda>p. remove_prefix (lower (or_default (hostname p) [])) ''www.'') (urlparse url)"

definition hour_of :: "moment \<Rightarrow> int" where
  "hour_of now = \<lfloor>now / 3600\<rfloor>"

definition next_hour :: "moment \<Rightarrow> moment" where
  "next_hour now = of_int (hour_of now) * 3600 + 3600"

definition charge_fetch ::
  "abuse_settings \<Rightarrow> redis \<Rightarrow> string \<Rightarrow> int \<Rightarrow> moment \<Rightarrow> ttl_counters \<Rightarrow> bool \<times> ttl_counters" where
  "charge_fetch ab rd user n now cs =
     (if \<not> ab_hosted ab \<or> ab_fetch_budget_per_hour ab \<le> 0 then (True, cs)
      else
        let (used, cs) = cache_incr_ttl rd (''fetchbudget'', user, hour_of now) n 7200 now cs
        in (used = None \<or> or_default used 0 \<le> ab_fetch_budget_per_hour ab, cs))"

definition charge_host_poll ::
  "abuse_settings \<Rightarrow> redis \<Rightarrow> string \<Rightarrow> moment \<Rightarrow> ttl_counters \<Rightarrow> py_error + bool \<times> ttl_counters" where
  "charge_host_poll ab rd url now cs =
     map_sum id (\<lambda>host.
       if \<not> ab_hosted ab \<or> ab_host_polls_per_hour ab \<le> 0 \<or> host = [] then (True, cs)
       else
         let (used, cs) = cache_incr_ttl rd (''hostpolls'', host, hour_of now) 1 7200 now cs
         in (used = None \<or> or_default used 0 \<le> ab_host_polls_per_hour ab, cs)) (host_of url)"

text \<open>\<open>fetch_paused_until\<close> of the accounts; the pause is committed although the request then fails.\<close>

definition pause_fetches :: "nat list \<Rightarrow> moment \<Rightarrow> (nat \<Rightarrow> moment option) \<Rightarrow> moment \<times> (nat \<Rightarrow> moment option)" where
  "pause_fetches users now paused = (next_hour now, \<lambda>u. if u \<in> set users then Some (next_hour now) else paused u)"

definition require_fetch_budget ::
  "abuse_settings \<Rightarrow> redis \<Rightarrow> (nat \<Rightarrow> string) \<Rightarrow> nat \<Rightarrow> moment \<Rightarrow> ttl_counters \<Rightarrow> (nat \<Rightarrow> moment option)
    \<Rightarrow> (api_error + unit) \<times> ttl_counters \<times> (nat \<Rightarrow> moment option)" where
  "require_fetch_budget ab rd show_uuid user now cs paused =
     (let (ok, cs) = charge_fetch ab rd (show_uuid user) 1 now cs
      in if ok then (Inr (), cs, paused)
         else (Inl TOO_MANY_REQUESTS, cs, snd (pause_fetches [user] now paused)))"

fun count_hosts :: "string list \<Rightarrow> (string \<Rightarrow> nat) \<Rightarrow> string \<Rightarrow> nat" where
  "count_hosts [] counts = counts"
| "count_hosts (h # hs) counts = count_hosts hs (counts(h := counts h + 1))"

fun add_hosts :: "nat \<Rightarrow> string list \<Rightarrow> (string \<Rightarrow> nat) \<Rightarrow> api_error + unit" where
  "add_hosts cap [] counts = Inr ()"
| "add_hosts cap (h # hs) counts =
     (if h = [] then add_hosts cap hs counts
      else if cap < counts h + 1 then Inl UNPROCESSABLE
      else add_hosts cap hs (counts(h := counts h + 1)))"

text \<open>The hosts of the account's sources and of the new ones; an address that \<open>urlparse\<close> refuses raises.\<close>

fun hosts_of :: "string list \<Rightarrow> py_error + string list" where
  "hosts_of [] = Inr []"
| "hosts_of (u # us) =
     (case host_of u of Inl e \<Rightarrow> Inl e
      | Inr h \<Rightarrow> (case hosts_of us of Inl e \<Rightarrow> Inl e | Inr hs \<Rightarrow> Inr (h # hs)))"

definition enforce_sources_per_host :: "abuse_settings \<Rightarrow> string list \<Rightarrow> string list \<Rightarrow> api_error + unit" where
  "enforce_sources_per_host ab existing urls =
     (if \<not> ab_hosted ab \<or> ab_max_sources_per_host ab \<le> 0 \<or> urls = [] then Inr ()
      else and_then (raised (hosts_of existing)) (\<lambda>old.
        and_then (raised (hosts_of urls)) (\<lambda>new.
          add_hosts (nat (ab_max_sources_per_host ab)) new (count_hosts old (\<lambda>_. 0)))))"

text \<open>The reasons of a refused newsletter.\<close>

datatype inbound = Allowed | Too_large | Count_reached | Volume_reached

definition inbound_allowed ::
  "abuse_settings \<Rightarrow> (nat \<Rightarrow> redis) \<Rightarrow> string option \<Rightarrow> int \<Rightarrow> moment \<Rightarrow> ttl_counters \<Rightarrow> inbound \<times> ttl_counters" where
  "inbound_allowed ab rd user size_bytes now cs =
     (if 0 < ab_inbound_max_message_bytes ab \<and> ab_inbound_max_message_bytes ab < size_bytes then (Too_large, cs)
      else if \<not> ab_hosted ab then (Allowed, cs)
      else case user of
        None \<Rightarrow> (Allowed, cs)
      | Some user \<Rightarrow>
          let day = \<lfloor>now / 86400\<rfloor>;
              (n, cs) = (if 0 < ab_inbound_per_day ab
                         then cache_incr_ttl (rd 0) (''inbound:n'', user, day) 1 (2 * 86400) now cs else (None, cs))
          in if n \<noteq> None \<and> ab_inbound_per_day ab < or_default n 0 then (Count_reached, cs)
             else
               let (used, cs) = (if 0 < ab_inbound_mb_per_day ab
                                 then cache_incr_ttl (rd 1) (''inbound:b'', user, day) size_bytes (2 * 86400) now cs
                                 else (None, cs))
               in if used \<noteq> None \<and> ab_inbound_mb_per_day ab * 1000000 < or_default used 0 then (Volume_reached, cs)
                  else (Allowed, cs))"

subsection \<open>Sign-ups\<close>

definition LARGE_PROVIDERS :: "string list" where
  "LARGE_PROVIDERS = [''gmail.com'', ''googlemail.com'', ''outlook.com'', ''hotmail.com'', ''live.com'', ''yahoo.com'',
     ''icloud.com'', ''me.com'', ''proton.me'', ''protonmail.com'', ''fastmail.com'', ''gmx.com'', ''aol.com'']"

definition LARGE_PROVIDER_MULTIPLIER :: int where "LARGE_PROVIDER_MULTIPLIER = 20"

definition signup_domain :: "string \<Rightarrow> string" where
  "signup_domain email = lower (strip (snd (rpartition_char CHR ''@'' email)))"

text \<open>\<open>lower(email) LIKE '%@domain'\<close>, for a domain without the wildcards of LIKE.\<close>

definition at_domain :: "string \<Rightarrow> account \<Rightarrow> bool" where
  "at_domain domain a \<longleftrightarrow> ends_with (lower (ac_email a)) (CHR ''@'' # domain)"

definition domain_signup_allowed :: "bool \<Rightarrow> int \<Rightarrow> string \<Rightarrow> moment \<Rightarrow> account list \<Rightarrow> bool" where
  "domain_signup_allowed required per_hour email now accounts =
     (if \<not> required then True
      else if per_hour \<le> 0 then True
      else
        let domain = signup_domain email;
            cap = (if domain \<in> set LARGE_PROVIDERS then per_hour * LARGE_PROVIDER_MULTIPLIER else per_hour);
            recent = length (filter (\<lambda>a. at_domain domain a \<and> now - 3600 \<le> ac_created_at a) accounts)
        in int recent < cap)"

datatype registration_mode = Closed | Invite | Open_mode

record registration_settings =
  rg_mode :: string
  rg_hosted :: bool
  rg_invite_codes :: string

definition effective_mode :: "registration_settings \<Rightarrow> registration_mode" where
  "effective_mode rg =
     (let mode = lower (strip (rg_mode rg))
      in if mode = ''closed'' then Closed else if mode = ''invite'' then Invite else if mode = ''open'' then Open_mode
         else if rg_hosted rg then Open_mode else Closed)"

text \<open>\<open>any(compare_digest(code, valid) for valid in codes)\<close>\<close>

fun any_digest :: "string \<Rightarrow> string list \<Rightarrow> py_error + bool" where
  "any_digest code [] = Inr False"
| "any_digest code (v # vs) =
     (case compare_digest code v of Inl e \<Rightarrow> Inl e | Inr hit \<Rightarrow> if hit then Inr True else any_digest code vs)"

definition valid_invite :: "registration_settings \<Rightarrow> string option \<Rightarrow> py_error + bool" where
  "valid_invite rg code =
     (case code of
        None \<Rightarrow> Inr False
      | Some code \<Rightarrow>
          if code = [] then Inr False
          else
            any_digest (strip code)
              (filter (\<lambda>c. c \<noteq> []) (map strip (split_char CHR '','' (rg_invite_codes rg)))))"

definition can_register :: "registration_settings \<Rightarrow> string option \<Rightarrow> account list \<Rightarrow> py_error + bool" where
  "can_register rg invite accounts =
     (if effective_mode rg = Open_mode \<or> accounts = [] then Inr True
      else if effective_mode rg = Invite then valid_invite rg invite
      else Inr False)"

text \<open>The first account, by creation and then id.\<close>

definition instance_owner :: "account list \<Rightarrow> nat option" where
  "instance_owner accounts =
     (case sort_key ac_created_at (sort_key ac_id accounts) of [] \<Rightarrow> None | a # _ \<Rightarrow> Some (ac_id a))"

subsection \<open>Windows\<close>

text \<open>The requests of many clients, in order: what each was answered.\<close>

fun rate_run :: "limiter \<Rightarrow> (string \<times> moment) list \<Rightarrow> ttl_counters \<Rightarrow> (string \<times> (api_error + unit)) list" where
  "rate_run rl [] cs = []"
| "rate_run rl ((ip, t) # reqs) cs =
     (let (answer, cs) = rate_limit True Up rl ip t cs in (ip, answer) # rate_run rl reqs cs)"

definition answers_of :: "string \<Rightarrow> (string \<times> (api_error + unit)) list \<Rightarrow> (api_error + unit) list" where
  "answers_of ip rs = map snd (filter (\<lambda>(i, _). i = ip) rs)"

lemma answers_of_simps [simp]:
  "answers_of ip [] = []"
  "answers_of ip ((i, a) # rs) = (if i = ip then a # answers_of ip rs else answers_of ip rs)"
  by (simp_all add: answers_of_def)

lemma rate_limit_other_key:
  "ip \<noteq> ip' \<Longrightarrow> snd (rate_limit b rd rl ip t cs) (rate_key rl ip') = cs (rate_key rl ip')"
  by (simp add: rate_limit_def incrby_def expire_key_def rate_key_def Let_def split: option.split prod.split if_splits)

text \<open>What one request finds and leaves: the window opens with the first one.\<close>

lemma rate_limit_first:
  assumes "read_counter (rate_key rl ip) t cs = None" "0 < rl_max_requests rl" "0 < rl_window_seconds rl"
  shows "rate_limit True Up rl ip t cs = (Inr (), cs(rate_key rl ip \<mapsto> (1, Some (t + rl_window_seconds rl))))"
  using assms by (simp add: rate_limit_def incrby_def expire_key_def read_counter_def live_at_def)

lemma rate_limit_later:
  assumes "read_counter (rate_key rl ip) t cs = Some (n, u)" "0 < n" "0 < rl_max_requests rl"
  shows "rate_limit True rd rl ip t cs =
    (if rd = Incr_fails then (if rl_fail_closed rl then Inl UNAVAILABLE else Inr (), cs)
     else (if rl_max_requests rl < n + 1 then Inl TOO_MANY_REQUESTS else Inr (), cs(rate_key rl ip \<mapsto> (n + 1, u))))"
  using assms by (simp add: rate_limit_def incrby_def Let_def)

definition window_answer :: "limiter \<Rightarrow> nat \<Rightarrow> api_error + unit" where
  "window_answer rl k = (if int k < rl_max_requests rl then Inr () else Inl TOO_MANY_REQUESTS)"

lemma open_window:
  assumes "cs (rate_key rl ip) = Some (int n, Some u)" "0 < n" "0 < rl_max_requests rl"
    and "\<forall>(i, t) \<in> set reqs. t < u"
  shows "answers_of ip (rate_run rl reqs cs)
    = map (window_answer rl) [n ..< n + length (filter (\<lambda>(i, _). i = ip) reqs)]"
  using assms
proof (induction reqs arbitrary: cs n)
  case Nil
  then show ?case by simp
next
  case (Cons q reqs)
  obtain i t where q: "q = (i, t)" by (cases q)
  obtain a cs' where step: "rate_limit True Up rl i t cs = (a, cs')" by (cases "rate_limit True Up rl i t cs") auto
  have later: "\<forall>(i, t) \<in> set reqs. t < u" using Cons.prems(4) by simp
  show ?case
  proof (cases "i = ip")
    case False
    then have "cs' (rate_key rl ip) = Some (int n, Some u)"
      using rate_limit_other_key [of i ip True Up rl t cs] step Cons.prems(1) by simp
    from Cons.IH [of cs' n, OF this Cons.prems(2,3) later] show ?thesis using q step False by simp
  next
    case True
    have "read_counter (rate_key rl ip) t cs = Some (int n, Some u)"
      using Cons.prems q by (simp add: read_counter_def live_at_def)
    from rate_limit_later [OF this, of Up] step Cons.prems True
    have a: "a = window_answer rl n" and cs': "cs' (rate_key rl ip) = Some (int (Suc n), Some u)"
      by (auto simp: window_answer_def)
    from Cons.IH [of cs' "Suc n", OF cs' _ Cons.prems(3) later]
    have "answers_of ip (rate_run rl reqs cs')
      = map (window_answer rl) [Suc n ..< Suc n + length (filter (\<lambda>(i, _). i = ip) reqs)]" by simp
    then show ?thesis using q a step True by (simp add: upt_conv_Cons del: upt_Suc)
  qed
qed


definition login_limiter :: limiter where
  "login_limiter = \<lparr>rl_max_requests = 2, rl_window_seconds = 60, rl_scope = ''login'', rl_fail_closed = True\<rparr>"


text \<open>
  When Redis loses the EXPIRE after the first INCR of a window, the counter never expires: from then on the client is
  refused at every later moment.
\<close>

lemma lost_expiry_locks_out:
  assumes "cs (rate_key rl ip) = Some (n, None)" "0 < rl_max_requests rl" "rl_max_requests rl \<le> n"
  shows "fst (rate_limit True Up rl ip t cs) = Inl TOO_MANY_REQUESTS"
    and "\<exists>n'. rl_max_requests rl \<le> n' \<and> snd (rate_limit True Up rl ip t cs) (rate_key rl ip) = Some (n', None)"
proof -
  have "read_counter (rate_key rl ip) t cs = Some (n, None)" using assms by (simp add: read_counter_def live_at_def)
  from rate_limit_later [OF this, of Up] assms
  show "fst (rate_limit True Up rl ip t cs) = Inl TOO_MANY_REQUESTS"
    and "\<exists>n'. rl_max_requests rl \<le> n' \<and> snd (rate_limit True Up rl ip t cs) (rate_key rl ip) = Some (n', None)"
    by auto
qed

lemma lost_expiry_example:
  "let cs = snd (rate_limit True Expire_fails login_limiter ''a'' 0 (\<lambda>_. None))
   in answers_of ''a'' (rate_run login_limiter [(''a'', 100000), (''a'', 200000), (''a'', 300000)] cs)
     = [Inr (), Inl TOO_MANY_REQUESTS, Inl TOO_MANY_REQUESTS]"
  by (simp add: rate_limit_def login_limiter_def incrby_def read_counter_def rate_key_def live_at_def expire_key_def)

text \<open>
  The address is the first entry of \<open>X-Forwarded-For\<close>, which the client writes (a proxy appends its own): a new entry
  for every request is a new counter for every request.
\<close>

lemma first_entry: "CHR '','' \<notin> set x \<Longrightarrow> hd (split_char CHR '','' (x @ CHR '','' # rest)) = x"
proof (induction x)
  case Nil
  then show ?case by simp
next
  case (Cons c x)
  then show ?case by (cases "split_char CHR '','' (x @ CHR '','' # rest)") auto
qed

lemma spoofed_address:
  "CHR '','' \<notin> set x \<Longrightarrow> client_ip (Some (x @ CHR '','' # rest)) host = strip x"
  by (simp add: client_ip_def first_entry)

subsection \<open>Feeds per host\<close>

lemma count_hosts_eq: "count_hosts hs counts h = counts h + length (filter (\<lambda>x. x = h) hs)"
  by (induction hs arbitrary: counts) simp_all

lemma add_hosts_iff:
  "add_hosts cap hs counts = Inr () \<longleftrightarrow>
    (\<forall>h \<in> set hs. h \<noteq> [] \<longrightarrow> counts h + length (filter (\<lambda>x. x = h) hs) \<le> cap)"
proof (induction hs arbitrary: counts)
  case Nil
  then show ?case by simp
next
  case (Cons h hs)
  consider "h = []" | "h \<noteq> []" "cap < counts h + 1" | "h \<noteq> []" "counts h + 1 \<le> cap" by linarith
  then show ?case
  proof cases
    case 1
    then show ?thesis using Cons.IH by auto
  next
    case 2
    then show ?thesis by auto
  next
    case 3
    have none: "filter (\<lambda>x. x = h) hs = []" if h: "h \<notin> set hs" using h by (auto simp: filter_empty_conv)
    show ?thesis
    proof (cases "h \<in> set hs")
      case True
      then show ?thesis using 3 by (auto simp: Cons.IH)
    next
      case False
      then show ?thesis using 3 none by (auto simp: Cons.IH)
    qed
  qed
qed

text \<open>
  On a hosted instance new feeds are accepted exactly when, with them, no host they name would have more feeds of
  the account than the limit.
\<close>

theorem sources_per_host_capped:
  assumes "ab_hosted ab" "0 < ab_max_sources_per_host ab" "urls \<noteq> []"
    and "hosts_of existing = Inr old" "hosts_of urls = Inr new"
  shows "enforce_sources_per_host ab existing urls = Inr () \<longleftrightarrow>
    (\<forall>h \<in> set new. h \<noteq> [] \<longrightarrow> int (length (filter (\<lambda>x. x = h) (old @ new))) \<le> ab_max_sources_per_host ab)"
proof -
  have "enforce_sources_per_host ab existing urls
    = add_hosts (nat (ab_max_sources_per_host ab)) new (count_hosts old (\<lambda>_. 0))"
    using assms by (simp add: enforce_sources_per_host_def raised_def)
  then show ?thesis using assms(2) by (simp add: add_hosts_iff count_hosts_eq le_nat_iff)
qed

end
