(* ===== verification/Sessions.thy ===== *)
theory Sessions
  imports Throttle Feedback
begin

text \<open>
  Who a request speaks for: the tokens of \<open>api/auth.py\<close>, the browser cookies of \<open>api/session_cookies.py\<close> and the API
  tokens of \<open>models/api_token.py\<close>. The libraries (PyJWT, bcrypt, SHA-256, the random generators, \<open>uuid\<close>, pydantic's
  \<open>EmailStr\<close>) are the functions of a record; the checks that PyJWT makes on a decoded token are written out. The
  state holds the tables and what Redis holds; each request comes with its moment and with what Redis does for it.
\<close>

subsection \<open>Parameters and state\<close>

record claims =
  cl_type :: string
  cl_sub :: "string option"
  cl_email :: "string option"
  cl_jti :: "string option"
  cl_sid :: "string option"
  cl_iat :: int
  cl_exp :: int

record auth_lib =
  ly_encode :: "string \<Rightarrow> claims \<Rightarrow> string"
  ly_decode :: "string \<Rightarrow> string \<Rightarrow> claims option"
  ly_hash :: "nat \<Rightarrow> string \<Rightarrow> py_error + string"
  ly_check :: "string \<Rightarrow> string \<Rightarrow> py_error + bool"
  ly_random :: "nat \<Rightarrow> string"
  ly_sha256 :: "string \<Rightarrow> string"
  ly_show_uuid :: "nat \<Rightarrow> string"
  ly_parse_uuid :: "string \<Rightarrow> nat option"
  ly_email :: "string \<Rightarrow> string option"

record auth_settings =
  at_secret_key :: string
  at_refresh_secret_key :: string
  at_access_minutes :: int
  at_refresh_days :: int
  at_magic_minutes :: int
  at_verify_hours :: int
  at_demo_mode :: bool
  at_demo_user_email :: string
  at_terms_version :: string
  at_email_verification :: string
  at_signup_per_domain :: int
  at_cookie_secure :: string
  at_cookie_domain :: string
  at_rate_limit_enabled :: bool
  at_login_per_minute :: int
  at_register_per_minute :: int
  at_metrics :: string
  at_registration :: registration_settings
  at_billing :: billing_settings

record api_token =
  tk_id :: nat
  tk_user_id :: nat
  tk_name :: string
  tk_token_hash :: string
  tk_prefix :: string
  tk_scopes :: "string list"
  tk_created_at :: moment
  tk_last_used_at :: "moment option"
  tk_revoked :: bool
  tk_use_count :: int

record credentials =
  cr_hashed_password :: string
  cr_display_name :: "string option"
  cr_terms_accepted_at :: "moment option"
  cr_terms_version :: "string option"

text \<open>What is sent: the address and the token of the link.\<close>

datatype mail = Magic_mail string string | Verify_mail string string

type_synonym kv = "string \<Rightarrow> (string \<times> moment) option"

record auth_state =
  au_users :: "account list"
  au_credentials :: "nat \<Rightarrow> credentials option"
  au_api_tokens :: "api_token list"
  au_events :: "product_event list"
  au_kv :: kv
  au_limits :: ttl_counters
  au_outbox :: "mail list"
  au_draws :: nat

record request =
  rq_method :: string
  rq_path :: string
  rq_scheme :: string
  rq_headers :: "string \<Rightarrow> string option"
  rq_cookies :: "string \<Rightarrow> string option"
  rq_client :: "string option"

datatype cache_op = Get | Set | Del | Set_nx

record env =
  en_now :: moment
  en_redis :: redis
  en_up :: "cache_op \<Rightarrow> bool"
  en_request :: request

subsection \<open>The cache\<close>

definition cache_get :: "env \<Rightarrow> string \<Rightarrow> kv \<Rightarrow> string option" where
  "cache_get en key kv =
     (if \<not> en_up en Get then None
      else case kv key of None \<Rightarrow> None | Some (v, t) \<Rightarrow> if en_now en < t then Some v else None)"

definition cache_set :: "env \<Rightarrow> string \<Rightarrow> string \<Rightarrow> int \<Rightarrow> kv \<Rightarrow> bool \<times> kv" where
  "cache_set en key v ttl kv =
     (if en_up en Set then (True, kv(key \<mapsto> (v, en_now en + of_int ttl))) else (False, kv))"

definition cache_delete :: "env \<Rightarrow> string \<Rightarrow> kv \<Rightarrow> bool \<times> kv" where
  "cache_delete en key kv = (if en_up en Del then (True, kv(key := None)) else (False, kv))"

definition cache_set_nx :: "env \<Rightarrow> string \<Rightarrow> string \<Rightarrow> int \<Rightarrow> kv \<Rightarrow> bool \<times> kv" where
  "cache_set_nx en key v ttl kv =
     (if \<not> en_up en Set_nx then (True, kv)
      else case kv key of
        Some (_, t) \<Rightarrow> if en_now en < t then (False, kv) else (True, kv(key \<mapsto> (v, en_now en + of_int ttl)))
      | None \<Rightarrow> (True, kv(key \<mapsto> (v, en_now en + of_int ttl))))"

subsection \<open>Tokens\<close>

definition access_secret :: "auth_settings \<Rightarrow> string" where
  "access_secret cfg = at_secret_key cfg"

definition refresh_secret :: "auth_settings \<Rightarrow> string" where
  "refresh_secret cfg = (if at_refresh_secret_key cfg \<noteq> [] then at_refresh_secret_key cfg else at_secret_key cfg)"

definition magic_secret :: "auth_settings \<Rightarrow> string" where
  "magic_secret cfg = at_secret_key cfg"

definition refresh_allowlist_key :: "string \<Rightarrow> string" where
  "refresh_allowlist_key jti = ''refresh:'' @ jti"

definition magic_key :: "string \<Rightarrow> string" where
  "magic_key jti = ''magic:'' @ jti"

text \<open>PyJWT writes moments as whole seconds and refuses a token from the future or at its end.\<close>

definition timestamp :: "moment \<Rightarrow> int" where
  "timestamp t = \<lfloor>t\<rfloor>"

definition issued :: "moment \<Rightarrow> claims \<Rightarrow> bool" where
  "issued now c \<longleftrightarrow> of_int (cl_iat c) \<le> now"

definition unexpired :: "moment \<Rightarrow> claims \<Rightarrow> bool" where
  "unexpired now c \<longleftrightarrow> now < of_int (cl_exp c)"

definition decode_token :: "auth_lib \<Rightarrow> string \<Rightarrow> string \<Rightarrow> moment \<Rightarrow> api_error + claims" where
  "decode_token lib secret token now =
     (case ly_decode lib secret token of
        None \<Rightarrow> Inl UNAUTHORIZED
      | Some c \<Rightarrow> if issued now c \<and> unexpired now c then Inr c else Inl UNAUTHORIZED)"

definition access_claims :: "auth_lib \<Rightarrow> auth_settings \<Rightarrow> nat \<Rightarrow> string option \<Rightarrow> moment \<Rightarrow> claims" where
  "access_claims lib cfg user session_id now =
     \<lparr>cl_type = ''access'', cl_sub = Some (ly_show_uuid lib user), cl_email = None, cl_jti = None,
      cl_sid = (if session_id = Some [] then None else session_id),
      cl_iat = timestamp now, cl_exp = timestamp (now + 60 * of_int (at_access_minutes cfg))\<rparr>"

definition create_access_token :: "auth_lib \<Rightarrow> auth_settings \<Rightarrow> nat \<Rightarrow> string option \<Rightarrow> moment \<Rightarrow> string" where
  "create_access_token lib cfg user session_id now =
     ly_encode lib (access_secret cfg) (access_claims lib cfg user session_id now)"

text \<open>A draw of the random generator.\<close>

definition draw :: "auth_lib \<Rightarrow> auth_state \<Rightarrow> string \<times> auth_state" where
  "draw lib st = (ly_random lib (au_draws st), st\<lparr>au_draws := au_draws st + 1\<rparr>)"

definition create_refresh_token :: "auth_lib \<Rightarrow> auth_settings \<Rightarrow> env \<Rightarrow> nat \<Rightarrow> auth_state \<Rightarrow> string \<times> auth_state" where
  "create_refresh_token lib cfg en user st =
     (let now = en_now en;
          (jti, st) = draw lib st;
          payload = \<lparr>cl_type = ''refresh'', cl_sub = Some (ly_show_uuid lib user), cl_email = None, cl_jti = Some jti,
                     cl_sid = None, cl_iat = timestamp now, cl_exp = timestamp (now + days (at_refresh_days cfg))\<rparr>;
          (_, kv) = cache_set en (refresh_allowlist_key jti) (ly_show_uuid lib user)
                      (at_refresh_days cfg * 86400) (au_kv st)
      in (ly_encode lib (refresh_secret cfg) payload, st\<lparr>au_kv := kv\<rparr>))"

definition create_magic_token :: "auth_lib \<Rightarrow> auth_settings \<Rightarrow> env \<Rightarrow> string \<Rightarrow> auth_state \<Rightarrow> string \<times> auth_state" where
  "create_magic_token lib cfg en email st =
     (let now = en_now en;
          (jti, st) = draw lib st;
          payload = \<lparr>cl_type = ''magic'', cl_sub = None, cl_email = Some email, cl_jti = Some jti, cl_sid = None,
                     cl_iat = timestamp now, cl_exp = timestamp (now + 60 * of_int (at_magic_minutes cfg))\<rparr>;
          (_, kv) = cache_set en (magic_key jti) email (at_magic_minutes cfg * 60) (au_kv st)
      in (ly_encode lib (magic_secret cfg) payload, st\<lparr>au_kv := kv\<rparr>))"

text \<open>The link that proves an address (\<open>email_verification.make_token\<close> and \<open>verify_token\<close>).\<close>

definition make_token :: "auth_lib \<Rightarrow> auth_settings \<Rightarrow> account \<Rightarrow> moment \<Rightarrow> string" where
  "make_token lib cfg a now =
     ly_encode lib (at_secret_key cfg)
       \<lparr>cl_type = ''verify_email'', cl_sub = Some (ly_show_uuid lib (ac_id a)), cl_email = Some (lower (ac_email a)),
        cl_jti = None, cl_sid = None, cl_iat = timestamp now,
        cl_exp = timestamp (now + 3600 * of_int (at_verify_hours cfg))\<rparr>"

definition find_user :: "account list \<Rightarrow> nat \<Rightarrow> account option" where
  "find_user users i = find (\<lambda>a. ac_id a = i) users"

definition find_email :: "account list \<Rightarrow> string \<Rightarrow> account option" where
  "find_email users e = find (\<lambda>a. ac_email a = e) users"

definition put_user :: "account list \<Rightarrow> account \<Rightarrow> account list" where
  "put_user users a = map (\<lambda>b. if ac_id b = ac_id a then a else b) users"

definition mark_user_verified :: "moment \<Rightarrow> account \<Rightarrow> auth_state \<Rightarrow> auth_state" where
  "mark_user_verified now a st = st\<lparr>au_users := put_user (au_users st) (mark_verified now a)\<rparr>"

definition verify_token :: "auth_lib \<Rightarrow> auth_settings \<Rightarrow> string \<Rightarrow> moment \<Rightarrow> auth_state \<Rightarrow> account option \<times> auth_state" where
  "verify_token lib cfg token now st =
     (case decode_token lib (at_secret_key cfg) token now of
        Inl _ \<Rightarrow> (None, st)
      | Inr c \<Rightarrow>
          if cl_type c \<noteq> ''verify_email'' then (None, st)
          else case ly_parse_uuid lib (or_default (cl_sub c) ''None'') of
            None \<Rightarrow> (None, st)
          | Some i \<Rightarrow>
              (case find_user (au_users st) i of
                 None \<Rightarrow> (None, st)
               | Some a \<Rightarrow>
                   if Some (lower (ac_email a)) \<noteq> cl_email c then (None, st)
                   else (Some (mark_verified now a), mark_user_verified now a st)))"

definition send_verification_email :: "auth_lib \<Rightarrow> auth_settings \<Rightarrow> account \<Rightarrow> moment \<Rightarrow> auth_state \<Rightarrow> auth_state" where
  "send_verification_email lib cfg a now st =
     st\<lparr>au_outbox := au_outbox st @ [Verify_mail (ac_email a) (make_token lib cfg a now)]\<rparr>"

subsection \<open>Cookies\<close>

definition ACCESS_COOKIE :: string where "ACCESS_COOKIE = ''rp_access''"
definition REFRESH_COOKIE :: string where "REFRESH_COOKIE = ''rp_refresh''"
definition CSRF_COOKIE :: string where "CSRF_COOKIE = ''rp_csrf''"
definition AUTH_MODE_HEADER :: string where "AUTH_MODE_HEADER = ''x-auth-mode''"
definition CSRF_HEADER :: string where "CSRF_HEADER = ''x-csrf-token''"
definition REFRESH_COOKIE_PATH :: string where "REFRESH_COOKIE_PATH = ''/api/v1/auth''"
definition MUTATING_METHODS :: "string list" where
  "MUTATING_METHODS = [''POST'', ''PUT'', ''PATCH'', ''DELETE'']"

text \<open>A cookie that is set has its name, value, age and path, whether it is \<open>Secure\<close>, and its domain; all are
  \<open>HttpOnly\<close> and \<open>SameSite=strict\<close>.\<close>

datatype cookie = Set_cookie string string int string bool "string option" | Delete_cookie string string "string option"

definition wants_cookies :: "request \<Rightarrow> bool" where
  "wants_cookies rq \<longleftrightarrow> lower (or_default (rq_headers rq AUTH_MODE_HEADER) []) = ''cookie''"

definition is_secure_request :: "request \<Rightarrow> bool" where
  "is_secure_request rq \<longleftrightarrow>
     (let forwarded = lower (strip (hd (split_char CHR '','' (or_default (rq_headers rq ''x-forwarded-proto'') []))))
      in (if forwarded \<noteq> [] then forwarded else rq_scheme rq) = ''https'')"

definition secure :: "auth_settings \<Rightarrow> request \<Rightarrow> bool" where
  "secure cfg rq =
     (let mode = lower (strip (at_cookie_secure cfg))
      in if mode \<in> {''true'', ''1'', ''yes''} then True
         else if mode \<in> {''false'', ''0'', ''no''} then False
         else is_secure_request rq)"

definition common_domain :: "auth_settings \<Rightarrow> string option" where
  "common_domain cfg = (if at_cookie_domain cfg \<noteq> [] then Some (at_cookie_domain cfg) else None)"

definition set_session_cookies ::
  "auth_lib \<Rightarrow> auth_settings \<Rightarrow> request \<Rightarrow> string \<Rightarrow> string option \<Rightarrow> auth_state \<Rightarrow> (string \<times> cookie list) \<times> auth_state" where
  "set_session_cookies lib cfg rq access refresh st =
     (let long = at_refresh_days cfg * 86400;
          make = (\<lambda>name v age path. Set_cookie name v age path (secure cfg rq) (common_domain cfg));
          (csrf, st) = draw lib st
      in ((csrf, [make ACCESS_COOKIE access (at_access_minutes cfg * 60) ''/'']
                 @ (case refresh of
                      None \<Rightarrow> []
                    | Some r \<Rightarrow> if r \<noteq> [] then [make REFRESH_COOKIE r long REFRESH_COOKIE_PATH] else [])
                 @ [make CSRF_COOKIE csrf long ''/'']), st))"

definition clear_session_cookies :: "auth_settings \<Rightarrow> cookie list" where
  "clear_session_cookies cfg =
     [Delete_cookie ACCESS_COOKIE ''/'' (common_domain cfg),
      Delete_cookie REFRESH_COOKIE REFRESH_COOKIE_PATH (common_domain cfg),
      Delete_cookie CSRF_COOKIE ''/'' (common_domain cfg)]"

definition enforce_csrf :: "request \<Rightarrow> api_error + unit" where
  "enforce_csrf rq =
     (if rq_method rq \<notin> set MUTATING_METHODS then Inr ()
      else
        let cookie = or_default (rq_cookies rq CSRF_COOKIE) [];
            header = or_default (rq_headers rq CSRF_HEADER) []
        in if cookie = [] \<or> header = [] then Inl FORBIDDEN
           else and_then (raised (compare_digest cookie header)) (\<lambda>same. guard_that same FORBIDDEN))"

subsection \<open>The user of a request\<close>

datatype auth_via = Bearer | Cookie | Api_token

record caller =
  ca_user :: account
  ca_via :: auth_via
  ca_session_id :: "string option"

definition is_demo :: "auth_settings \<Rightarrow> account \<Rightarrow> bool" where
  "is_demo cfg a \<longleftrightarrow> at_demo_mode cfg \<and> ac_email a = at_demo_user_email cfg"

definition is_demo_allowed_write :: "request \<Rightarrow> bool" where
  "is_demo_allowed_write rq \<longleftrightarrow>
     ends_with (rq_path rq) ''/feedback/interaction'' \<or> ends_with (rq_path rq) ''/auth/logout''
       \<or> ends_with (rq_path rq) ''/auth/demo''"

definition enforce_demo_read_only :: "auth_settings \<Rightarrow> request \<Rightarrow> account \<Rightarrow> api_error + unit" where
  "enforce_demo_read_only cfg rq a =
     (if is_demo cfg a \<and> rq_method rq \<in> set MUTATING_METHODS \<and> \<not> is_demo_allowed_write rq
      then Inl FORBIDDEN else Inr ())"

definition EXTENSION_ROUTES :: "(string \<times> string) list" where
  "EXTENSION_ROUTES =
     [(''POST'', ''/api/v1/extension/save''), (''POST'', ''/api/v1/sources''), (''POST'', ''/api/v1/creators'')]"

definition without_slash :: "string \<Rightarrow> string" where
  "without_slash = rstrip_chars (\<lambda>c. c = CHR ''/'')"

definition enforce_api_access :: "auth_settings \<Rightarrow> request \<Rightarrow> account \<Rightarrow> moment \<Rightarrow> api_error + unit" where
  "enforce_api_access cfg rq a now =
     (if (rq_method rq, without_slash (rq_path rq)) \<in> set EXTENSION_ROUTES then Inr ()
      else map_sum (\<lambda>_. PAYMENT_REQUIRED) id (require_pro (at_billing cfg) a now ''API and MCP access''))"

definition PAUSED_ALLOWED_PREFIXES :: "string list" where
  "PAUSED_ALLOWED_PREFIXES = [''/api/v1/billing'', ''/api/v1/auth/'']"

definition enforce_paused_read_only :: "auth_settings \<Rightarrow> request \<Rightarrow> account \<Rightarrow> moment \<Rightarrow> api_error + unit" where
  "enforce_paused_read_only cfg rq a now =
     (if rq_method rq \<notin> set MUTATING_METHODS then Inr ()
      else if list_ex (starts_with (rq_path rq)) PAUSED_ALLOWED_PREFIXES then Inr ()
      else if rq_method rq = ''DELETE'' \<and> without_slash (rq_path rq) = ''/api/v1/account'' then Inr ()
      else if is_paused (at_billing cfg) a now then Inl PAYMENT_REQUIRED
      else Inr ())"

definition hash_api_token :: "auth_lib \<Rightarrow> string \<Rightarrow> string" where
  "hash_api_token lib plaintext = ly_sha256 lib plaintext"

definition new_api_token :: "auth_lib \<Rightarrow> auth_state \<Rightarrow> (string \<times> string \<times> string) \<times> auth_state" where
  "new_api_token lib st =
     (let (random, st) = draw lib st;
          plaintext = ''rp_'' @ random
      in ((plaintext, hash_api_token lib plaintext, take 12 plaintext), st))"

definition used_token :: "moment \<Rightarrow> nat \<Rightarrow> api_token list \<Rightarrow> api_token list" where
  "used_token now i rows =
     map (\<lambda>r. if tk_id r = i then r\<lparr>tk_last_used_at := Some now, tk_use_count := tk_use_count r + 1\<rparr> else r) rows"

definition user_for_api_token ::
  "auth_lib \<Rightarrow> string \<Rightarrow> request \<Rightarrow> moment \<Rightarrow> auth_state \<Rightarrow> api_error + account option \<times> auth_state" where
  "user_for_api_token lib token rq now st =
     (case find (\<lambda>r. tk_token_hash r = hash_api_token lib token) (au_api_tokens st) of
        None \<Rightarrow> Inr (None, st)
      | Some row \<Rightarrow>
          if tk_revoked row then Inr (None, st)
          else
            let scopes = (if tk_scopes row = [] then [''read''] else tk_scopes row)
            in if rq_method rq \<in> set MUTATING_METHODS \<and> ''write'' \<notin> set scopes then Inl FORBIDDEN
               else case find_user (au_users st) (tk_user_id row) of
                 None \<Rightarrow> Inr (None, st)
               | Some a \<Rightarrow> Inr (Some a, st\<lparr>au_api_tokens := used_token now (tk_id row) (au_api_tokens st)\<rparr>))"

definition jwt_user :: "auth_lib \<Rightarrow> auth_settings \<Rightarrow> string \<Rightarrow> moment \<Rightarrow> auth_state \<Rightarrow> api_error + account \<times> string option" where
  "jwt_user lib cfg token now st =
     and_then (decode_token lib (access_secret cfg) token now) (\<lambda>c.
       if cl_type c \<noteq> ''access'' then Inl UNAUTHORIZED
       else case cl_sub c of
         None \<Rightarrow> Inl UNAUTHORIZED
       | Some s \<Rightarrow>
           if s = [] then Inl UNAUTHORIZED
           else case ly_parse_uuid lib s of
             None \<Rightarrow> Inl (Raised ValueError)
           | Some i \<Rightarrow>
               (case find_user (au_users st) i of
                  None \<Rightarrow> Inl UNAUTHORIZED
                | Some a \<Rightarrow> Inr (a, cl_sid c)))"

text \<open>Where the token comes from: the \<open>Authorization\<close> header or, with its CSRF check, the cookie.\<close>

definition token_of_request :: "request \<Rightarrow> string option \<Rightarrow> api_error + string \<times> auth_via" where
  "token_of_request rq token =
     (if token \<noteq> None \<and> token \<noteq> Some [] then Inr (the token, Bearer)
      else case rq_cookies rq ACCESS_COOKIE of
        None \<Rightarrow> Inl UNAUTHORIZED
      | Some t \<Rightarrow>
          if t = [] then Inl UNAUTHORIZED else and_then (enforce_csrf rq) (\<lambda>_. Inr (t, Cookie)))"

definition get_current_user ::
  "auth_lib \<Rightarrow> auth_settings \<Rightarrow> env \<Rightarrow> string option \<Rightarrow> auth_state \<Rightarrow> api_error + caller \<times> auth_state" where
  "get_current_user lib cfg en token st =
     (let rq = en_request en; now = en_now en
      in and_then (token_of_request rq token) (\<lambda>(token, via).
        if starts_with token ''rp_'' then
          and_then (user_for_api_token lib token rq now st) (\<lambda>(user, st).
            case user of
              None \<Rightarrow> Inl UNAUTHORIZED
            | Some a \<Rightarrow>
                and_then (enforce_demo_read_only cfg rq a) (\<lambda>_.
                and_then (enforce_paused_read_only cfg rq a now) (\<lambda>_.
                and_then (enforce_api_access cfg rq a now) (\<lambda>_.
                  Inr (\<lparr>ca_user = a, ca_via = Api_token, ca_session_id = None\<rparr>, st)))))
        else
          and_then (jwt_user lib cfg token now st) (\<lambda>(a, sid).
            and_then (enforce_demo_read_only cfg rq a) (\<lambda>_.
            and_then (enforce_paused_read_only cfg rq a now) (\<lambda>_.
              Inr (\<lparr>ca_user = a, ca_via = via, ca_session_id = sid\<rparr>, st))))))"

definition get_current_user_jwt ::
  "auth_lib \<Rightarrow> auth_settings \<Rightarrow> env \<Rightarrow> string option \<Rightarrow> auth_state \<Rightarrow> api_error + caller \<times> auth_state" where
  "get_current_user_jwt lib cfg en token st =
     and_then (get_current_user lib cfg en token st) (\<lambda>(c, st).
       if ca_via c = Api_token then Inl FORBIDDEN else Inr (c, st))"

subsection \<open>API tokens\<close>

definition VALID_SCOPES :: "string list" where
  "VALID_SCOPES = [''read'', ''write'']"

definition create_token ::
  "auth_lib \<Rightarrow> auth_settings \<Rightarrow> env \<Rightarrow> string option \<Rightarrow> string \<Rightarrow> string list \<Rightarrow> auth_state
    \<Rightarrow> api_error + (nat \<times> string \<times> string \<times> string list) \<times> auth_state" where
  "create_token lib cfg en token name scopes st =
     and_then (get_current_user_jwt lib cfg en token st) (\<lambda>(c, st).
       if length name < 1 \<or> 100 < length name then Inl UNPROCESSABLE
       else
         let valid = filter (\<lambda>s. s \<in> set scopes) VALID_SCOPES;
             scopes = (if valid = [] then [''read''] else valid);
             ((plaintext, token_hash, prefix), st) = new_api_token lib st;
             row = \<lparr>tk_id = au_draws st, tk_user_id = ac_id (ca_user c),
                    tk_name = (if strip name = [] then ''token'' else strip name), tk_token_hash = token_hash,
                    tk_prefix = prefix, tk_scopes = scopes, tk_created_at = en_now en, tk_last_used_at = None,
                    tk_revoked = False, tk_use_count = 0\<rparr>
         in Inr ((tk_id row, tk_name row, plaintext, scopes),
                 st\<lparr>au_draws := au_draws st + 1, au_api_tokens := au_api_tokens st @ [row]\<rparr>))"

definition list_tokens ::
  "auth_lib \<Rightarrow> auth_settings \<Rightarrow> env \<Rightarrow> string option \<Rightarrow> auth_state \<Rightarrow> api_error + api_token list \<times> auth_state" where
  "list_tokens lib cfg en token st =
     and_then (get_current_user_jwt lib cfg en token st) (\<lambda>(c, st).
       Inr (sort_desc tk_created_at (filter (\<lambda>r. tk_user_id r = ac_id (ca_user c)) (au_api_tokens st)), st))"

definition revoke_token ::
  "auth_lib \<Rightarrow> auth_settings \<Rightarrow> env \<Rightarrow> string option \<Rightarrow> nat \<Rightarrow> auth_state \<Rightarrow> api_error + nat \<times> auth_state" where
  "revoke_token lib cfg en token token_id st =
     and_then (get_current_user_jwt lib cfg en token st) (\<lambda>(c, st).
       if find (\<lambda>r. tk_id r = token_id \<and> tk_user_id r = ac_id (ca_user c)) (au_api_tokens st) = None
       then Inl NOT_FOUND
       else Inr (token_id, st\<lparr>au_api_tokens := map (\<lambda>r. if tk_id r = token_id then r\<lparr>tk_revoked := True\<rparr> else r)
                                 (au_api_tokens st)\<rparr>))"

subsection \<open>What a signed-in request may do\<close>

lemma enforce_csrf_ok:
  "enforce_csrf rq = Inr () \<longleftrightarrow> rq_method rq \<notin> set MUTATING_METHODS \<or>
    (\<exists>t. t \<noteq> [] \<and> rq_cookies rq CSRF_COOKIE = Some t \<and> rq_headers rq CSRF_HEADER = Some t \<and> is_ascii t)"
  by (cases "rq_cookies rq CSRF_COOKIE"; cases "rq_headers rq CSRF_HEADER")
    (auto simp: enforce_csrf_def and_then_eq_Inr compare_digest_def Let_def split: if_splits)

lemma enforce_demo_ok:
  "enforce_demo_read_only cfg rq a = Inr u \<longleftrightarrow>
    (is_demo cfg a \<longrightarrow> rq_method rq \<in> set MUTATING_METHODS \<longrightarrow> is_demo_allowed_write rq)"
  by (auto simp: enforce_demo_read_only_def)

definition paused_may_write :: "request \<Rightarrow> bool" where
  "paused_may_write rq \<longleftrightarrow> starts_with (rq_path rq) ''/api/v1/billing'' \<or> starts_with (rq_path rq) ''/api/v1/auth/''
     \<or> rq_method rq = ''DELETE'' \<and> without_slash (rq_path rq) = ''/api/v1/account''"

lemma enforce_paused_ok:
  "enforce_paused_read_only cfg rq a now = Inr u \<longleftrightarrow>
    (rq_method rq \<in> set MUTATING_METHODS \<longrightarrow> is_paused (at_billing cfg) a now \<longrightarrow> paused_may_write rq)"
  by (auto simp: enforce_paused_read_only_def paused_may_write_def PAUSED_ALLOWED_PREFIXES_def)

lemma enforce_api_ok:
  "enforce_api_access cfg rq a now = Inr u \<longleftrightarrow>
    (rq_method rq, without_slash (rq_path rq)) \<in> set EXTENSION_ROUTES \<or> pro_features (at_billing cfg) a now"
  by (auto simp: enforce_api_access_def require_pro_def)

lemma user_for_api_token_ok:
  assumes "user_for_api_token lib token rq now st = Inr (Some a, st')"
  shows "\<exists>row \<in> set (au_api_tokens st). tk_token_hash row = hash_api_token lib token \<and> \<not> tk_revoked row
    \<and> (rq_method rq \<in> set MUTATING_METHODS \<longrightarrow> ''write'' \<in> set (tk_scopes row)) \<and> tk_user_id row = ac_id a"
    and "a \<in> set (au_users st)"
  using assms
  by (auto simp: user_for_api_token_def find_user_def find_Some_iff Let_def split: option.splits if_splits
      intro!: bexI [OF _ nth_mem])

lemma token_of_request_ok:
  assumes "token_of_request rq token = Inr (t, via)"
  shows "via = Bearer \<and> token = Some t \<or>
    via = Cookie \<and> rq_cookies rq ACCESS_COOKIE = Some t \<and> enforce_csrf rq = Inr ()"
  using assms by (auto simp: token_of_request_def and_then_eq_Inr split: option.splits if_splits)


text \<open>
  An access token is accepted from the moment it is issued until its last second, and speaks for the account it was
  issued to, provided that the account still exists and the libraries read back the claims and the identifier that they wrote.
\<close>

theorem access_token_lifetime:
  assumes codec: "\<And>c. c = access_claims lib cfg (ac_id a) None t
      \<Longrightarrow> ly_decode lib (access_secret cfg) (ly_encode lib (access_secret cfg) c) = Some c"
    and uuid: "ly_parse_uuid lib (ly_show_uuid lib (ac_id a)) = Some (ac_id a)" "ly_show_uuid lib (ac_id a) \<noteq> []"
    and token: "token = create_access_token lib cfg (ac_id a) None t" "token \<noteq> []" "\<not> starts_with token ''rp_''"
    and user: "find_user (au_users st) (ac_id a) = Some a"
    and request: "rq_method (en_request en) \<notin> set MUTATING_METHODS" "t \<le> en_now en"
  shows "get_current_user lib cfg en (Some token) st =
    (if en_now en < of_int \<lfloor>t + 60 * of_int (at_access_minutes cfg)\<rfloor>
     then Inr (\<lparr>ca_user = a, ca_via = Bearer, ca_session_id = None\<rparr>, st) else Inl UNAUTHORIZED)"
proof -
  let ?c = "access_claims lib cfg (ac_id a) None t"
  have iat: "issued (en_now en) ?c"
  proof -
    have "real_of_int \<lfloor>t\<rfloor> \<le> t" by simp
    from order_trans [OF this request(2)] show ?thesis
      unfolding issued_def access_claims_def timestamp_def by simp
  qed
  have dec: "decode_token lib (access_secret cfg) token (en_now en) =
      (if en_now en < of_int \<lfloor>t + 60 * of_int (at_access_minutes cfg)\<rfloor> then Inr ?c else Inl UNAUTHORIZED)"
    using iat codec unfolding decode_token_def token(1) create_access_token_def
    by (simp add: unexpired_def access_claims_def timestamp_def)
  have type: "cl_type ?c = ''access''" "cl_sub ?c = Some (ly_show_uuid lib (ac_id a))" "cl_sid ?c = None"
    by (simp_all add: access_claims_def)
  have jwt: "jwt_user lib cfg token (en_now en) st =
      (if en_now en < of_int \<lfloor>t + 60 * of_int (at_access_minutes cfg)\<rfloor> then Inr (a, None) else Inl UNAUTHORIZED)"
    using uuid user type by (simp add: jwt_user_def dec)
  have "token_of_request (en_request en) (Some token) = Inr (token, Bearer)"
    using token(2) by (simp add: token_of_request_def)
  moreover have "enforce_demo_read_only cfg (en_request en) a = Inr ()"
    "enforce_paused_read_only cfg (en_request en) a (en_now en) = Inr ()"
    using request(1) by (simp_all add: enforce_demo_ok enforce_paused_ok)
  ultimately show ?thesis using token(3) by (simp add: get_current_user_def jwt)
qed

subsection \<open>An instance\<close>

text \<open>Libraries that write their arguments down; identifiers and draws are runs of letters.\<close>

definition field :: "string option \<Rightarrow> string" where
  "field x = or_default x []"

definition read_field :: "string \<Rightarrow> string option" where
  "read_field s = (if s = [] then None else Some s)"

definition plain_encode :: "string \<Rightarrow> claims \<Rightarrow> string" where
  "plain_encode secret c = join_with '';'' [secret, cl_type c, field (cl_sub c), field (cl_email c), field (cl_jti c),
     field (cl_sid c), show_int (cl_iat c), show_int (cl_exp c)]"

fun plain_decode :: "string \<Rightarrow> string \<Rightarrow> claims option" where
  "plain_decode secret token =
     (case split_char CHR '';'' token of
        [k, t, s, e, j, d, i, x] \<Rightarrow>
          if k = secret then
            Some \<lparr>cl_type = t, cl_sub = read_field s, cl_email = read_field e, cl_jti = read_field j,
                  cl_sid = read_field d, cl_iat = digits_value 10 i, cl_exp = digits_value 10 x\<rparr>
          else None
      | _ \<Rightarrow> None)"

definition plain_lib :: auth_lib where
  "plain_lib =
     \<lparr>ly_encode = plain_encode, ly_decode = plain_decode,
      ly_hash = (\<lambda>salt p. Inr (''h'' @ p)), ly_check = (\<lambda>p h. Inr (h = ''h'' @ p)),
      ly_random = (\<lambda>n. replicate n CHR ''r''), ly_sha256 = (\<lambda>s. ''#'' @ s),
      ly_show_uuid = (\<lambda>n. replicate (n + 1) CHR ''u''), ly_parse_uuid = (\<lambda>s. if s = [] then None else Some (length s - 1)),
      ly_email = Some\<rparr>"

definition home_settings :: auth_settings where
  "home_settings =
     \<lparr>at_secret_key = ''k'', at_refresh_secret_key = [], at_access_minutes = 30, at_refresh_days = 30,
      at_magic_minutes = 20, at_verify_hours = 48, at_demo_mode = False, at_demo_user_email = ''demo@weirling.local'',
      at_terms_version = ''1'', at_email_verification = ''auto'', at_signup_per_domain = 10, at_cookie_secure = ''auto'',
      at_cookie_domain = [], at_rate_limit_enabled = True, at_login_per_minute = 10, at_register_per_minute = 5,
      at_metrics = ''off'', at_registration = \<lparr>rg_mode = [], rg_hosted = False, rg_invite_codes = []\<rparr>,
      at_billing = example_settings\<lparr>bc_hosted := False\<rparr>\<rparr>"

definition blank_account :: "nat \<Rightarrow> string \<Rightarrow> moment \<Rightarrow> account" where
  "blank_account i email now =
     \<lparr>ac_id = i, ac_email = email, ac_email_verified_at = None, ac_tier = ''free'', ac_quota_overrides = (\<lambda>_. None),
      ac_trial_ends_at = None, ac_trial_email_stage = 0, ac_deletion_reminder_sent_at = None,
      ac_plan_expires_at = None, ac_billing_provider = None, ac_billing_customer_id = None,
      ac_billing_subscription_id = None, ac_billing_status = None, ac_billing_portal_url = None,
      ac_billing_event_at = None, ac_created_at = now\<rparr>"

definition empty_auth :: auth_state where
  "empty_auth = \<lparr>au_users = [], au_credentials = (\<lambda>_. None), au_api_tokens = [], au_events = [], au_kv = (\<lambda>_. None),
     au_limits = (\<lambda>_. None), au_outbox = [], au_draws = 1\<rparr>"

definition plain_request :: "string \<Rightarrow> string \<Rightarrow> request" where
  "plain_request m p = \<lparr>rq_method = m, rq_path = p, rq_scheme = ''http'', rq_headers = (\<lambda>_. None),
     rq_cookies = (\<lambda>_. None), rq_client = Some ''10.0.0.7''\<rparr>"

definition env_at :: "moment \<Rightarrow> request \<Rightarrow> env" where
  "env_at now rq = \<lparr>en_now = now, en_redis = Up, en_up = (\<lambda>_. True), en_request = rq\<rparr>"

definition owner :: account where
  "owner = blank_account 0 ''me@home.org'' 0"

definition owned :: auth_state where
  "owned = empty_auth\<lparr>au_users := [owner]\<rparr>"

theorem access_token_lifetime_witness:
  "get_current_user plain_lib home_settings (env_at 1899 (plain_request ''GET'' ''/api/v1/digest/latest''))
     (Some (create_access_token plain_lib home_settings 0 None 100)) owned
   = Inr (\<lparr>ca_user = owner, ca_via = Bearer, ca_session_id = None\<rparr>, owned)"
proof -
  define tok where "tok = create_access_token plain_lib home_settings 0 None 100"
  have id: "ac_id owner = 0" by (simp add: owner_def blank_account_def)
  have digits: "show_int 100 = ''100''" "show_int 1900 = ''1900''" by code_simp+
  have tok: "tok = ''k;access;u;;;;100;1900''"
    unfolding tok_def create_access_token_def access_claims_def plain_lib_def home_settings_def access_secret_def
      plain_encode_def field_def timestamp_def by (simp add: digits)
  have t: "tok = create_access_token plain_lib home_settings (ac_id owner) None 100" by (simp add: tok_def id)
  have "get_current_user plain_lib home_settings (env_at 1899 (plain_request ''GET'' ''/api/v1/digest/latest'')) (Some tok) owned
      = (if en_now (env_at 1899 (plain_request ''GET'' ''/api/v1/digest/latest'')) < of_int \<lfloor>100 + 60 * of_int (at_access_minutes home_settings) :: real\<rfloor>
         then Inr (\<lparr>ca_user = owner, ca_via = Bearer, ca_session_id = None\<rparr>, owned) else Inl UNAUTHORIZED)"
  proof (rule access_token_lifetime [OF _ _ _ t])
    fix c
    assume c: "c = access_claims plain_lib home_settings (ac_id owner) None 100"
    show "ly_decode plain_lib (access_secret home_settings) (ly_encode plain_lib (access_secret home_settings) c) = Some c"
      unfolding c by code_simp
  qed (simp_all add: id tok plain_lib_def owned_def empty_auth_def find_user_def env_at_def plain_request_def
      MUTATING_METHODS_def)
  then show ?thesis by (simp add: tok_def env_at_def home_settings_def)
qed

text \<open>The owner changes something with a bearer token, and then with a session cookie and its CSRF token.\<close>

definition cookie_request :: request where
  "cookie_request = (plain_request ''POST'' ''/api/v1/sources'')\<lparr>
     rq_cookies := [ACCESS_COOKIE \<mapsto> ''k;access;u;;;;100;1900'', CSRF_COOKIE \<mapsto> ''c5''],
     rq_headers := [CSRF_HEADER \<mapsto> ''c5'']\<rparr>"

lemma owner_by_cookie:
  "get_current_user plain_lib home_settings (env_at 200 cookie_request) None owned
    = Inr (\<lparr>ca_user = owner, ca_via = Cookie, ca_session_id = None\<rparr>, owned)"
proof -
  have dec: "plain_decode ''k'' ''k;access;u;;;;100;1900'' =
      Some \<lparr>cl_type = ''access'', cl_sub = Some ''u'', cl_email = None, cl_jti = None, cl_sid = None, cl_iat = 100, cl_exp = 1900\<rparr>"
    by code_simp
  have csrf: "enforce_csrf cookie_request = Inr ()"
    by (simp add: enforce_csrf_ok cookie_request_def CSRF_COOKIE_def ACCESS_COOKIE_def is_ascii_def char_code_def)
  have tok: "token_of_request cookie_request None = Inr (''k;access;u;;;;100;1900'', Cookie)"
    using csrf by (simp add: token_of_request_def) (simp add: cookie_request_def CSRF_COOKIE_def ACCESS_COOKIE_def)
  have jwt: "jwt_user plain_lib home_settings ''k;access;u;;;;100;1900'' 200 owned = Inr (owner, None)"
    by (simp add: jwt_user_def decode_token_def plain_lib_def home_settings_def access_secret_def dec issued_def unexpired_def
        owned_def owner_def empty_auth_def find_user_def blank_account_def del: plain_decode.simps)
  have "is_demo home_settings owner = False" "is_paused (at_billing home_settings) owner 200 = False"
    by (simp_all add: is_demo_def home_settings_def is_paused_def)
  then show ?thesis
    by (simp add: get_current_user_def env_at_def tok jwt enforce_demo_read_only_def enforce_paused_read_only_def)
qed


end
