(* ===== verification/Auth.thy ===== *)
theory Auth
  imports Sessions
begin

text \<open>
  The endpoints of \<open>api/auth.py\<close>: registration, passwords, magic links, the rotation of refresh tokens, sign-out and the
  state of a session. A handler returns its answer, or the error, and the state it leaves: what a failed request wrote to
  Redis stays, what it wrote to the tables does not. Then runs of the endpoints: a refresh token is exchanged once, and a
  closed instance keeps its single account.
\<close>

subsection \<open>Answers\<close>

record token =
  to_access_token :: string
  to_refresh_token :: "string option"
  to_expires_in :: int
  to_csrf_token :: "string option"

type_synonym signed_in = "token \<times> cookie list"

definition issue_tokens ::
  "auth_lib \<Rightarrow> auth_settings \<Rightarrow> env \<Rightarrow> nat \<Rightarrow> string option \<Rightarrow> auth_state \<Rightarrow> token \<times> auth_state" where
  "issue_tokens lib cfg en user session_id st =
     (let (refresh, st') = create_refresh_token lib cfg en user st
      in (\<lparr>to_access_token = create_access_token lib cfg user session_id (en_now en), to_refresh_token = Some refresh,
           to_expires_in = at_access_minutes cfg * 60, to_csrf_token = None\<rparr>, st'))"

definition session_reply ::
  "auth_lib \<Rightarrow> auth_settings \<Rightarrow> env \<Rightarrow> nat \<Rightarrow> string option \<Rightarrow> auth_state \<Rightarrow> signed_in \<times> auth_state" where
  "session_reply lib cfg en user session_id st =
     (let (token, st) = issue_tokens lib cfg en user session_id st
      in if \<not> wants_cookies (en_request en) then ((token, []), st)
         else
           let ((csrf, cookies), st) =
                 set_session_cookies lib cfg (en_request en) (to_access_token token) (to_refresh_token token) st
           in ((\<lparr>to_access_token = [], to_refresh_token = None, to_expires_in = to_expires_in token,
                 to_csrf_token = Some csrf\<rparr>, cookies), st))"

text \<open>The answer of a request without effects before its error.\<close>

definition settle :: "auth_state \<Rightarrow> api_error + 'a \<times> auth_state \<Rightarrow> (api_error + 'a) \<times> auth_state" where
  "settle st r = (case r of Inl e \<Rightarrow> (Inl e, st) | Inr (a, st') \<Rightarrow> (Inr a, st'))"

definition auth_limiter :: "auth_settings \<Rightarrow> string \<Rightarrow> int \<Rightarrow> limiter" where
  "auth_limiter cfg scope n =
     \<lparr>rl_max_requests = n, rl_window_seconds = 60, rl_scope = scope, rl_fail_closed = True\<rparr>"

definition login_rate_limit :: "auth_settings \<Rightarrow> limiter" where
  "login_rate_limit cfg = auth_limiter cfg ''login'' (at_login_per_minute cfg)"

definition register_rate_limit :: "auth_settings \<Rightarrow> limiter" where
  "register_rate_limit cfg = auth_limiter cfg ''register'' (at_register_per_minute cfg)"

definition magic_link_rate_limit :: "auth_settings \<Rightarrow> limiter" where
  "magic_link_rate_limit cfg = auth_limiter cfg ''magic'' (at_register_per_minute cfg)"

definition verify_resend_rate_limit :: "auth_settings \<Rightarrow> limiter" where
  "verify_resend_rate_limit cfg = auth_limiter cfg ''verify_resend'' (at_register_per_minute cfg)"

definition throttled ::
  "limiter \<Rightarrow> auth_settings \<Rightarrow> env \<Rightarrow> (auth_state \<Rightarrow> (api_error + 'a) \<times> auth_state) \<Rightarrow> auth_state
    \<Rightarrow> (api_error + 'a) \<times> auth_state" where
  "throttled rl cfg en f st =
     (let ip = client_ip (rq_headers (en_request en) ''x-forwarded-for'') (rq_client (en_request en));
          (r, limits) = rate_limit (at_rate_limit_enabled cfg) (en_redis en) rl ip (en_now en) (au_limits st);
          st = st\<lparr>au_limits := limits\<rparr>
      in case r of Inl e \<Rightarrow> (Inl e, st) | Inr _ \<Rightarrow> f st)"

definition hosted :: "auth_settings \<Rightarrow> bool" where
  "hosted cfg = bc_hosted (at_billing cfg)"

definition must_verify :: "auth_settings \<Rightarrow> bool" where
  "must_verify cfg = verification_required (at_email_verification cfg) (hosted cfg)"

subsection \<open>Accounts\<close>

record user_create =
  uc_email :: string
  uc_password :: string
  uc_display_name :: "string option"
  uc_invite_code :: "string option"
  uc_accept_terms :: bool

text \<open>A new account takes a draw as its id; its other columns have their defaults.\<close>

definition add_user ::
  "auth_settings \<Rightarrow> env \<Rightarrow> string \<Rightarrow> string \<Rightarrow> string option \<Rightarrow> bool \<Rightarrow> string \<Rightarrow> auth_state \<Rightarrow> account \<times> auth_state" where
  "add_user cfg en email hashed display_name consented via st =
     (let now = en_now en;
          a = start_trial (at_billing cfg) now (blank_account (au_draws st) email now);
          cr = \<lparr>cr_hashed_password = hashed, cr_display_name = display_name,
                cr_terms_accepted_at = (if consented then Some now else None),
                cr_terms_version = (if consented then Some (at_terms_version cfg) else None)\<rparr>
      in (a, st\<lparr>au_draws := au_draws st + 1, au_users := au_users st @ [a],
                au_credentials := (au_credentials st)(ac_id a \<mapsto> cr),
                au_events := track (metrics_enabled (at_metrics cfg) (hosted cfg))
                               ((new_event (ac_id a) ''signup'' None)\<lparr>pe_via := Some via\<rparr>) (au_events st)\<rparr>))"

text \<open>The last steps of a registration.\<close>

definition open_account ::
  "auth_lib \<Rightarrow> auth_settings \<Rightarrow> env \<Rightarrow> user_create \<Rightarrow> string \<Rightarrow> string \<Rightarrow> auth_state \<Rightarrow> signed_in \<times> auth_state" where
  "open_account lib cfg en body email hashed st =
     (let (a, st) = add_user cfg en email hashed (uc_display_name body) (hosted cfg \<or> uc_accept_terms body) ''password'' st;
          st = (if must_verify cfg then send_verification_email lib cfg a (en_now en) st else st)
      in session_reply lib cfg en (ac_id a) None st)"

definition register_account ::
  "auth_lib \<Rightarrow> auth_settings \<Rightarrow> env \<Rightarrow> user_create \<Rightarrow> string \<Rightarrow> auth_state \<Rightarrow> api_error + signed_in \<times> auth_state" where
  "register_account lib cfg en body email st =
     (if at_demo_mode cfg then Inl FORBIDDEN
      else
        and_then (raised (can_register (at_registration cfg) (uc_invite_code body) (au_users st))) (\<lambda>allowed.
        and_then (guard_that allowed FORBIDDEN) (\<lambda>_.
        and_then (guard_that (find_email (au_users st) email = None) CONFLICT) (\<lambda>_.
        and_then (guard_that (domain_signup_allowed (must_verify cfg) (at_signup_per_domain cfg) email (en_now en)
                                (au_users st)) TOO_MANY_REQUESTS) (\<lambda>_.
        and_then (guard_that (\<not> hosted cfg \<or> uc_accept_terms body) UNPROCESSABLE) (\<lambda>_.
        and_then (raised (ly_hash lib (au_draws st) (uc_password body))) (\<lambda>hashed.
          Inr (open_account lib cfg en body email hashed (st\<lparr>au_draws := au_draws st + 1\<rparr>)))))))))"

definition register ::
  "auth_lib \<Rightarrow> auth_settings \<Rightarrow> env \<Rightarrow> user_create \<Rightarrow> auth_state \<Rightarrow> (api_error + signed_in) \<times> auth_state" where
  "register lib cfg en body =
     throttled (register_rate_limit cfg) cfg en (\<lambda>st.
       settle st (case ly_email lib (uc_email body) of
                    None \<Rightarrow> Inl UNPROCESSABLE
                  | Some email \<Rightarrow>
                      if length (uc_password body) < 8 then Inl UNPROCESSABLE
                      else register_account lib cfg en body email st))"

text \<open>The persona that \<open>scripts/seed_demo.py\<close> seeds, without its reading world.\<close>

definition seed_persona :: "auth_lib \<Rightarrow> env \<Rightarrow> string \<Rightarrow> string \<Rightarrow> auth_state \<Rightarrow> py_error + auth_state" where
  "seed_persona lib en email name st =
     (let (password, st) = draw lib st
      in case ly_hash lib (au_draws st) password of
        Inl e \<Rightarrow> Inl e
      | Inr hashed \<Rightarrow>
          let a = (case find_email (au_users st) email of
                     Some a \<Rightarrow> a | None \<Rightarrow> blank_account (au_draws st + 1) email (en_now en));
              a' = mark_verified (en_now en) a;
              old = or_default (au_credentials st (ac_id a)) \<lparr>cr_hashed_password = [], cr_display_name = None,
                      cr_terms_accepted_at = None, cr_terms_version = None\<rparr>
          in Inr (st\<lparr>au_draws := au_draws st + 2,
                     au_users := (if find_email (au_users st) email = None then au_users st @ [a']
                                  else put_user (au_users st) a'),
                     au_credentials := (au_credentials st)(ac_id a \<mapsto> old\<lparr>cr_hashed_password := hashed, cr_display_name := Some name\<rparr>)\<rparr>))"

definition demo_login ::
  "auth_lib \<Rightarrow> auth_settings \<Rightarrow> env \<Rightarrow> string \<times> string \<Rightarrow> auth_state \<Rightarrow> (api_error + signed_in) \<times> auth_state" where
  "demo_login lib cfg en persona =
     throttled (login_rate_limit cfg) cfg en (\<lambda>st.
       if \<not> at_demo_mode cfg then (Inl NOT_FOUND, st)
       else
         let seeded = (if find_email (au_users st) (at_demo_user_email cfg) = None
                       then seed_persona lib en (fst persona) (snd persona) st else Inr st)
         in case seeded of
           Inl e \<Rightarrow> (Inl (Raised e), st)
         | Inr st \<Rightarrow>
             (case find_email (au_users st) (at_demo_user_email cfg) of
                None \<Rightarrow> (Inl (Http 500), st)
              | Some a \<Rightarrow>
                  let (session_id, st) = draw lib st; (reply, st) = session_reply lib cfg en (ac_id a) (Some session_id) st
                  in (Inr reply, st)))"

definition DUMMY_HASH :: "auth_lib \<Rightarrow> string" where
  "DUMMY_HASH lib = (case ly_hash lib 0 ''timing-oracle-mitigation'' of Inl _ \<Rightarrow> [] | Inr h \<Rightarrow> h)"

definition login ::
  "auth_lib \<Rightarrow> auth_settings \<Rightarrow> env \<Rightarrow> string \<Rightarrow> string \<Rightarrow> auth_state \<Rightarrow> (api_error + signed_in) \<times> auth_state" where
  "login lib cfg en email password =
     throttled (login_rate_limit cfg) cfg en (\<lambda>st. settle st (
       if email = [] \<or> 320 < length email \<or> 1024 < length password then Inl UNPROCESSABLE
       else
         let user = find_email (au_users st) email;
             hashed = (case user of
                         None \<Rightarrow> DUMMY_HASH lib
                       | Some a \<Rightarrow> (case au_credentials st (ac_id a) of None \<Rightarrow> [] | Some cr \<Rightarrow> cr_hashed_password cr))
         in and_then (raised (ly_check lib password hashed)) (\<lambda>ok.
              case user of
                None \<Rightarrow> Inl UNAUTHORIZED
              | Some a \<Rightarrow> if \<not> ok then Inl UNAUTHORIZED else Inr (session_reply lib cfg en (ac_id a) None st))))"

subsection \<open>Magic links\<close>

record magic_request =
  mr_email :: string
  mr_display_name :: "string option"
  mr_accept_terms :: bool

text \<open>The account of a magic link: found, created, or neither (the answer does not tell).\<close>

definition magic_account ::
  "auth_lib \<Rightarrow> auth_settings \<Rightarrow> env \<Rightarrow> magic_request \<Rightarrow> string \<Rightarrow> auth_state \<Rightarrow> api_error + bool \<times> auth_state" where
  "magic_account lib cfg en body email st =
     (if find_email (au_users st) email \<noteq> None then Inr (True, st)
      else
        and_then (raised (can_register (at_registration cfg) None (au_users st))) (\<lambda>allowed.
          if \<not> allowed \<or> \<not> domain_signup_allowed (must_verify cfg) (at_signup_per_domain cfg) email (en_now en) (au_users st)
          then Inr (False, st)
          else if hosted cfg \<and> \<not> mr_accept_terms body then Inr (False, st)
          else
            let (password, st) = draw lib st
            in and_then (raised (ly_hash lib (au_draws st) password)) (\<lambda>hashed.
                 Inr (True, snd (add_user cfg en email hashed (mr_display_name body) (hosted cfg \<or> mr_accept_terms body)
                                   ''magic_link'' (st\<lparr>au_draws := au_draws st + 1\<rparr>))))))"

definition magic_link_request ::
  "auth_lib \<Rightarrow> auth_settings \<Rightarrow> env \<Rightarrow> magic_request \<Rightarrow> auth_state \<Rightarrow> (api_error + unit) \<times> auth_state" where
  "magic_link_request lib cfg en body =
     throttled (magic_link_rate_limit cfg) cfg en (\<lambda>st. settle st (
       case ly_email lib (mr_email body) of
         None \<Rightarrow> Inl UNPROCESSABLE
       | Some address \<Rightarrow>
           if at_demo_mode cfg then Inl FORBIDDEN
           else
             let email = lower address
             in and_then (magic_account lib cfg en body email st) (\<lambda>(known, st).
                  if \<not> known then Inr ((), st)
                  else let (token, st) = create_magic_token lib cfg en email st
                       in Inr ((), st\<lparr>au_outbox := au_outbox st @ [Magic_mail email token]\<rparr>))))"

definition magic_link_verify ::
  "auth_lib \<Rightarrow> auth_settings \<Rightarrow> env \<Rightarrow> string \<Rightarrow> auth_state \<Rightarrow> (api_error + signed_in) \<times> auth_state" where
  "magic_link_verify lib cfg en token st =
     (case decode_token lib (magic_secret cfg) token (en_now en) of
        Inl e \<Rightarrow> (Inl e, st)
      | Inr c \<Rightarrow>
          let email = or_default (cl_email c) []; jti = or_default (cl_jti c) []
          in if cl_type c \<noteq> ''magic'' \<or> email = [] \<or> jti = [] then (Inl UNAUTHORIZED, st)
             else if cache_get en (magic_key jti) (au_kv st) \<noteq> Some email then (Inl UNAUTHORIZED, st)
             else
               let (_, kv) = cache_delete en (magic_key jti) (au_kv st); st = st\<lparr>au_kv := kv\<rparr>
               in case find_email (au_users st) email of
                 None \<Rightarrow> (Inl UNAUTHORIZED, st)
               | Some a \<Rightarrow>
                   let (reply, st) = session_reply lib cfg en (ac_id a) None (mark_user_verified (en_now en) a st)
                   in (Inr reply, st))"

subsection \<open>Verifying the address\<close>

definition verify_email ::
  "auth_lib \<Rightarrow> auth_settings \<Rightarrow> env \<Rightarrow> string \<Rightarrow> auth_state \<Rightarrow> (api_error + unit) \<times> auth_state" where
  "verify_email lib cfg en token st =
     (case verify_token lib cfg token (en_now en) st of
        (None, st) \<Rightarrow> (Inl BAD_REQUEST, st)
      | (Some _, st) \<Rightarrow> (Inr (), st))"

definition resend_verification ::
  "auth_lib \<Rightarrow> auth_settings \<Rightarrow> env \<Rightarrow> string option \<Rightarrow> auth_state \<Rightarrow> (api_error + string) \<times> auth_state" where
  "resend_verification lib cfg en bearer =
     throttled (verify_resend_rate_limit cfg) cfg en (\<lambda>st. settle st (
       and_then (get_current_user lib cfg en bearer st) (\<lambda>(c, st).
         if ac_email_verified_at (ca_user c) \<noteq> None then Inr (''already_verified'', st)
         else
           let (fresh, kv) = cache_set_nx en (''verify_resend:'' @ ly_show_uuid lib (ac_id (ca_user c))) ''1'' 300 (au_kv st);
               st = st\<lparr>au_kv := kv\<rparr>
           in Inr (''sent'', if fresh then send_verification_email lib cfg (ca_user c) (en_now en) st else st))))"

subsection \<open>Rotation and sign-out\<close>

definition refresh_token_of :: "env \<Rightarrow> string option \<Rightarrow> string option" where
  "refresh_token_of en body =
     (if body \<noteq> None \<and> body \<noteq> Some [] then body
      else case rq_cookies (en_request en) REFRESH_COOKIE of
        None \<Rightarrow> None | Some t \<Rightarrow> if t = [] then None else Some t)"

text \<open>The checks of a refresh: the token, its kind, its subject and id, and the allowlist.\<close>

definition refresh_checked ::
  "auth_lib \<Rightarrow> auth_settings \<Rightarrow> env \<Rightarrow> string option \<Rightarrow> auth_state \<Rightarrow> api_error + string \<times> string" where
  "refresh_checked lib cfg en body st =
     (case refresh_token_of en body of
        None \<Rightarrow> Inl UNAUTHORIZED
      | Some raw \<Rightarrow>
          and_then (decode_token lib (refresh_secret cfg) raw (en_now en)) (\<lambda>c.
            let user_id = or_default (cl_sub c) []; jti = or_default (cl_jti c) []
            in if cl_type c \<noteq> ''refresh'' then Inl UNAUTHORIZED
               else if user_id = [] \<or> jti = [] then Inl UNAUTHORIZED
               else if cache_get en (refresh_allowlist_key jti) (au_kv st) \<noteq> Some user_id then Inl UNAUTHORIZED
               else Inr (user_id, jti)))"

text \<open>What follows the checks: the id leaves the allowlist and a new session is issued.\<close>

definition rotate ::
  "auth_lib \<Rightarrow> auth_settings \<Rightarrow> env \<Rightarrow> string \<Rightarrow> string \<Rightarrow> auth_state \<Rightarrow> (api_error + signed_in) \<times> auth_state" where
  "rotate lib cfg en user_id jti st =
     (let (_, kv) = cache_delete en (refresh_allowlist_key jti) (au_kv st); st = st\<lparr>au_kv := kv\<rparr>
      in case ly_parse_uuid lib user_id of
        None \<Rightarrow> (Inl (Raised ValueError), st)
      | Some i \<Rightarrow> let (reply, st) = session_reply lib cfg en i None st in (Inr reply, st))"

definition refresh ::
  "auth_lib \<Rightarrow> auth_settings \<Rightarrow> env \<Rightarrow> string option \<Rightarrow> auth_state \<Rightarrow> (api_error + signed_in) \<times> auth_state" where
  "refresh lib cfg en body st =
     (case refresh_checked lib cfg en body st of
        Inl e \<Rightarrow> (Inl e, st)
      | Inr (user_id, jti) \<Rightarrow> rotate lib cfg en user_id jti st)"

text \<open>Signing out decodes the token whatever its expiry.\<close>

definition logout :: "auth_lib \<Rightarrow> auth_settings \<Rightarrow> env \<Rightarrow> string option \<Rightarrow> auth_state \<Rightarrow> cookie list \<times> auth_state" where
  "logout lib cfg en body st =
     (clear_session_cookies cfg,
      case refresh_token_of en body of
        None \<Rightarrow> st
      | Some raw \<Rightarrow>
          (case ly_decode lib (refresh_secret cfg) raw of
             None \<Rightarrow> st
           | Some c \<Rightarrow>
               if \<not> issued (en_now en) c \<or> or_default (cl_jti c) [] = [] then st
               else st\<lparr>au_kv := snd (cache_delete en (refresh_allowlist_key (the (cl_jti c))) (au_kv st))\<rparr>))"

subsection \<open>What the pages ask\<close>

record registration_answer =
  rr_mode :: registration_mode
  rr_open :: bool
  rr_invite_required :: bool
  rr_first_account :: bool
  rr_hosted :: bool
  rr_demo_mode :: bool

definition registration_state :: "auth_settings \<Rightarrow> auth_state \<Rightarrow> api_error + registration_answer" where
  "registration_state cfg st =
     and_then (raised (can_register (at_registration cfg) None (au_users st))) (\<lambda>allowed.
       let mode = effective_mode (at_registration cfg)
       in Inr \<lparr>rr_mode = mode, rr_open = (allowed \<and> \<not> at_demo_mode cfg),
               rr_invite_required = (mode = Invite \<and> \<not> allowed), rr_first_account = (au_users st = []),
               rr_hosted = hosted cfg, rr_demo_mode = at_demo_mode cfg\<rparr>)"

text \<open>Whether a decoded token names an account that exists; an identifier that is no UUID does not.\<close>

definition names_account :: "auth_lib \<Rightarrow> auth_state \<Rightarrow> string option \<Rightarrow> bool" where
  "names_account lib st sub =
     (case sub of
        None \<Rightarrow> False
      | Some s \<Rightarrow> s \<noteq> [] \<and> some_and (ly_parse_uuid lib s) (\<lambda>i. find_user (au_users st) i \<noteq> None))"

definition refresh_user_exists :: "auth_lib \<Rightarrow> auth_settings \<Rightarrow> env \<Rightarrow> auth_state \<Rightarrow> bool" where
  "refresh_user_exists lib cfg en st =
     (case decode_token lib (refresh_secret cfg) (or_default (rq_cookies (en_request en) REFRESH_COOKIE) []) (en_now en) of
        Inl _ \<Rightarrow> False | Inr c \<Rightarrow> names_account lib st (cl_sub c))"

record session_answer =
  sa_authenticated :: bool
  sa_refreshable :: bool
  sa_csrf_token :: "string option"

definition session_state :: "auth_lib \<Rightarrow> auth_settings \<Rightarrow> env \<Rightarrow> auth_state \<Rightarrow> session_answer \<times> cookie list" where
  "session_state lib cfg en st =
     (let cookies = rq_cookies (en_request en);
          access = or_default (cookies ACCESS_COOKIE) [];
          valid = (access \<noteq> [] \<and> (case decode_token lib (access_secret cfg) access (en_now en) of
                     Inl _ \<Rightarrow> False
                   | Inr c \<Rightarrow> cl_type c = ''access'' \<and> names_account lib st (cl_sub c)));
          refreshable = (or_default (cookies REFRESH_COOKIE) [] \<noteq> []);
          dead = (access \<noteq> [] \<and> \<not> valid \<and> refreshable \<and> \<not> refresh_user_exists lib cfg en st);
          bare = (access \<noteq> [] \<and> \<not> valid \<and> \<not> refreshable)
      in (\<lparr>sa_authenticated = valid, sa_refreshable = (refreshable \<and> \<not> dead),
           sa_csrf_token = (if valid then cookies CSRF_COOKIE else None)\<rparr>,
          if dead \<or> bare then clear_session_cookies cfg else []))"

definition me :: "auth_lib \<Rightarrow> auth_settings \<Rightarrow> env \<Rightarrow> string option \<Rightarrow> auth_state \<Rightarrow> (api_error + account) \<times> auth_state" where
  "me lib cfg en bearer st =
     settle st (map_sum id (\<lambda>(c, st). (ca_user c, st)) (get_current_user lib cfg en bearer st))"

subsection \<open>Runs\<close>

datatype auth_call =
    Register user_create
  | Login string string
  | Demo "string \<times> string"
  | Magic_request magic_request
  | Magic_verify string
  | Verify_email string
  | Resend "string option"
  | Refresh "string option"
  | Logout "string option"
  | New_token "string option" string "string list"
  | Revoke_token "string option" nat

fun auth_step :: "auth_lib \<Rightarrow> auth_settings \<Rightarrow> auth_call \<Rightarrow> env \<Rightarrow> auth_state \<Rightarrow> auth_state" where
  "auth_step lib cfg (Register b) en st = snd (register lib cfg en b st)"
| "auth_step lib cfg (Login e p) en st = snd (login lib cfg en e p st)"
| "auth_step lib cfg (Demo persona) en st = snd (demo_login lib cfg en persona st)"
| "auth_step lib cfg (Magic_request b) en st = snd (magic_link_request lib cfg en b st)"
| "auth_step lib cfg (Magic_verify t) en st = snd (magic_link_verify lib cfg en t st)"
| "auth_step lib cfg (Verify_email t) en st = snd (verify_email lib cfg en t st)"
| "auth_step lib cfg (Resend b) en st = snd (resend_verification lib cfg en b st)"
| "auth_step lib cfg (Refresh b) en st = snd (refresh lib cfg en b st)"
| "auth_step lib cfg (Logout b) en st = snd (logout lib cfg en b st)"
| "auth_step lib cfg (New_token b name scopes) en st = snd (settle st (create_token lib cfg en b name scopes st))"
| "auth_step lib cfg (Revoke_token b i) en st = snd (settle st (revoke_token lib cfg en b i st))"

text \<open>The id of the refresh token that a call exchanges for a new session.\<close>

definition exchanged :: "auth_lib \<Rightarrow> auth_settings \<Rightarrow> auth_call \<Rightarrow> env \<Rightarrow> auth_state \<Rightarrow> string list" where
  "exchanged lib cfg call en st =
     (case call of
        Refresh body \<Rightarrow>
          (case (refresh_checked lib cfg en body st, fst (refresh lib cfg en body st)) of
             (Inr (_, jti), Inr _) \<Rightarrow> [jti] | _ \<Rightarrow> [])
      | _ \<Rightarrow> [])"

fun exchanges :: "auth_lib \<Rightarrow> auth_settings \<Rightarrow> (auth_call \<times> env) list \<Rightarrow> auth_state \<Rightarrow> string list" where
  "exchanges lib cfg [] st = []"
| "exchanges lib cfg ((call, en) # calls) st =
     exchanged lib cfg call en st @ exchanges lib cfg calls (auth_step lib cfg call en st)"

fun auth_run :: "auth_lib \<Rightarrow> auth_settings \<Rightarrow> (auth_call \<times> env) list \<Rightarrow> auth_state \<Rightarrow> auth_state" where
  "auth_run lib cfg [] st = st"
| "auth_run lib cfg ((call, en) # calls) st = auth_run lib cfg calls (auth_step lib cfg call en st)"

subsection \<open>What a step does to the allowlist\<close>

text \<open>Only a draw of the step itself enters the allowlist.\<close>

definition allows :: "auth_state \<Rightarrow> string \<Rightarrow> bool" where
  "allows st jti \<longleftrightarrow> au_kv st (refresh_allowlist_key jti) \<noteq> None"

definition grows :: "auth_lib \<Rightarrow> auth_state \<Rightarrow> auth_state \<Rightarrow> bool" where
  "grows lib st st' \<longleftrightarrow> au_draws st \<le> au_draws st'
     \<and> (\<forall>j. allows st' j \<longrightarrow> allows st j \<or> (\<exists>n. au_draws st \<le> n \<and> n < au_draws st' \<and> j = ly_random lib n))"

named_theorems grows_intros \<open>steps that add only their own draws to the allowlist\<close>

lemma auth_grows_refl [simp, intro]: "grows lib st st"
  by (simp add: grows_def)

lemma auth_grows_trans: "grows lib st st' \<Longrightarrow> grows lib st' st'' \<Longrightarrow> grows lib st st''"
  unfolding grows_def by (meson le_trans less_le_trans)

lemma grows_same_kv:
  "au_kv st' = au_kv st \<Longrightarrow> au_draws st \<le> au_draws st' \<Longrightarrow> grows lib st st'"
  by (auto simp: grows_def allows_def)

lemma allowlist_key_inj [simp]: "refresh_allowlist_key i = refresh_allowlist_key j \<longleftrightarrow> i = j"
  by (simp add: refresh_allowlist_key_def)

lemma magic_key_differs [simp]: "magic_key i \<noteq> refresh_allowlist_key j" "refresh_allowlist_key j \<noteq> magic_key i"
  by (simp_all add: refresh_allowlist_key_def magic_key_def)

lemma grows_delete: "au_kv st' = snd (cache_delete en key (au_kv st)) \<Longrightarrow> au_draws st \<le> au_draws st' \<Longrightarrow> grows lib st st'"
  by (auto simp: grows_def allows_def cache_delete_def)

lemma grows_draw: "draw lib st = (x, st') \<Longrightarrow> grows lib st st'"
  by (auto simp: draw_def intro: grows_same_kv)

lemma grows_refresh_token: "create_refresh_token lib cfg en user st = (x, st') \<Longrightarrow> grows lib st st'"
  by (auto simp: create_refresh_token_def draw_def cache_set_def grows_def allows_def Let_def split: if_splits)

lemma grows_magic_token: "create_magic_token lib cfg en email st = (x, st') \<Longrightarrow> grows lib st st'"
  by (auto simp: create_magic_token_def draw_def cache_set_def grows_def allows_def Let_def split: if_splits)

lemma grows_cookies: "set_session_cookies lib cfg rq access r st = (x, st') \<Longrightarrow> grows lib st st'"
  by (auto simp: set_session_cookies_def draw_def Let_def intro: grows_same_kv)

lemma grows_session:
  assumes "session_reply lib cfg en user sid st = (x, st')"
  shows "grows lib st st'"
proof -
  obtain r st1 where c: "create_refresh_token lib cfg en user st = (r, st1)" by (meson surj_pair)
  have "grows lib st1 st'" using assms c
    by (auto simp: session_reply_def issue_tokens_def split: prod.splits if_splits intro: grows_cookies)
  with grows_refresh_token [OF c] show ?thesis by (rule auth_grows_trans)
qed

lemma grows_throttled:
  assumes "\<And>st. grows lib st (snd (f st))"
  shows "grows lib st (snd (throttled rl cfg en f st))"
proof -
  obtain r l where rl: "rate_limit (at_rate_limit_enabled cfg) (en_redis en) rl
      (client_ip (rq_headers (en_request en) ''x-forwarded-for'') (rq_client (en_request en))) (en_now en) (au_limits st) = (r, l)"
    by (meson surj_pair)
  have g: "grows lib st (st\<lparr>au_limits := l\<rparr>)" by (rule grows_same_kv) simp_all
  from g auth_grows_trans [OF g assms] show ?thesis by (simp add: throttled_def rl Let_def split: sum.split)
qed

lemma grows_settle: "(\<And>a st'. r = Inr (a, st') \<Longrightarrow> grows lib st st') \<Longrightarrow> grows lib st (snd (settle st r))"
  by (auto simp: settle_def split: sum.splits)

lemma add_user_frame:
  "add_user cfg en email h d c v st = (a, st') \<Longrightarrow> au_kv st' = au_kv st \<and> au_draws st' = au_draws st + 1"
  by (auto simp: add_user_def Let_def)

lemma user_of_token_frame:
  "user_for_api_token lib token rq now st = Inr (u, st') \<Longrightarrow> au_kv st' = au_kv st \<and> au_draws st' = au_draws st
    \<and> au_users st' = au_users st"
  by (auto simp: user_for_api_token_def Let_def split: option.splits if_splits)

lemma current_user_frame:
  "get_current_user lib cfg en token st = Inr (c, st') \<Longrightarrow> au_kv st' = au_kv st \<and> au_draws st' = au_draws st
    \<and> au_users st' = au_users st"
  by (auto simp: get_current_user_def Let_def and_then_eq_Inr split: if_splits option.splits dest: user_of_token_frame)

lemma session_user_frame:
  "get_current_user_jwt lib cfg en token st = Inr (c, st') \<Longrightarrow> au_kv st' = au_kv st \<and> au_draws st' = au_draws st
    \<and> au_users st' = au_users st"
  by (auto simp: get_current_user_jwt_def and_then_eq_Inr split: if_splits dest: current_user_frame)

lemma verification_frame [simp]:
  "au_kv (send_verification_email lib cfg a now st) = au_kv st"
  "au_draws (send_verification_email lib cfg a now st) = au_draws st"
  "au_users (send_verification_email lib cfg a now st) = au_users st"
  by (simp_all add: send_verification_email_def)

lemma mark_user_frame [simp]:
  "au_kv (mark_user_verified now a st) = au_kv st" "au_draws (mark_user_verified now a st) = au_draws st"
  by (simp_all add: mark_user_verified_def)

lemma grows_open_account:
  assumes "open_account lib cfg en b email h st = (a, st')"
  shows "grows lib st st'"
proof -
  obtain u st1 where add: "add_user cfg en email h (uc_display_name b) (hosted cfg \<or> uc_accept_terms b) ''password'' st = (u, st1)"
    by (meson surj_pair)
  have "grows lib st (if must_verify cfg then send_verification_email lib cfg u (en_now en) st1 else st1)"
    by (rule grows_same_kv) (use add_user_frame [OF add] in auto)
  moreover have "session_reply lib cfg en (ac_id u) None
      (if must_verify cfg then send_verification_email lib cfg u (en_now en) st1 else st1) = (a, st')"
    using assms by (simp add: open_account_def add Let_def)
  ultimately show ?thesis by (blast intro: auth_grows_trans grows_session)
qed

lemma register_account_ok:
  "register_account lib cfg en b email st = Inr (a, st') \<longleftrightarrow>
    \<not> at_demo_mode cfg \<and> can_register (at_registration cfg) (uc_invite_code b) (au_users st) = Inr True
    \<and> find_email (au_users st) email = None
    \<and> domain_signup_allowed (must_verify cfg) (at_signup_per_domain cfg) email (en_now en) (au_users st)
    \<and> (hosted cfg \<longrightarrow> uc_accept_terms b)
    \<and> (\<exists>h. ly_hash lib (au_draws st) (uc_password b) = Inr h
         \<and> open_account lib cfg en b email h (st\<lparr>au_draws := au_draws st + 1\<rparr>) = (a, st'))"
  by (auto simp: register_account_def and_then_eq_Inr)

lemma grows_register: "grows lib st (snd (register lib cfg en b st))"
proof -
  have "grows lib st st'" if r: "register_account lib cfg en b email st = Inr (a, st')" for email a and st st'
  proof -
    have "grows lib st (st\<lparr>au_draws := au_draws st + 1\<rparr>)" by (rule grows_same_kv) simp_all
    with r show ?thesis by (auto simp: register_account_ok intro: auth_grows_trans grows_open_account)
  qed
  then show ?thesis unfolding register_def
    by (intro grows_throttled grows_settle) (auto split: option.splits if_splits)
qed

lemma grows_login: "grows lib st (snd (login lib cfg en e p st))"
  unfolding login_def
  by (intro grows_throttled grows_settle)
    (auto simp: Let_def and_then_eq_Inr split: option.splits if_splits intro: grows_session)

lemma seed_frame: "seed_persona lib en e n st = Inr st' \<Longrightarrow> au_kv st' = au_kv st \<and> au_draws st \<le> au_draws st'"
  by (auto simp: seed_persona_def draw_def Let_def split: sum.splits)

lemma grows_demo: "grows lib st (snd (demo_login lib cfg en persona st))"
proof -
  have "grows lib st1 (snd (let (session_id, st) = draw lib st1;
      (reply, st) = session_reply lib cfg en i (Some session_id) st in (Inr reply :: api_error + signed_in, st)))" for i and st1
    by (auto split: prod.splits intro: auth_grows_trans grows_draw grows_session)
  then have tail: "grows lib st (snd (let (session_id, st) = draw lib st1;
      (reply, st) = session_reply lib cfg en i (Some session_id) st in (Inr reply :: api_error + signed_in, st)))"
    if g: "grows lib st st1" for i and st st1 using g by (blast intro: auth_grows_trans)
  have seeded: "grows lib st st1"
    if s: "(if find_email (au_users st) (at_demo_user_email cfg) = None
          then seed_persona lib en (fst persona) (snd persona) st else Inr st) = Inr st1" for st st1
    using s by (auto split: if_splits dest: seed_frame intro: grows_same_kv)
  show ?thesis unfolding demo_login_def
    by (rule grows_throttled) (use seeded tail in \<open>auto simp: Let_def split: sum.splits option.splits\<close>)
qed

lemma magic_account_frame:
  "magic_account lib cfg en b e st = Inr (k, st') \<Longrightarrow> au_kv st' = au_kv st \<and> au_draws st \<le> au_draws st'"
  by (auto simp: magic_account_def and_then_eq_Inr draw_def add_user_def Let_def split: if_splits)

lemma grows_magic_request: "grows lib st (snd (magic_link_request lib cfg en b st))"
proof -
  have "grows lib st st'" if r: "and_then (magic_account lib cfg en b email st) (\<lambda>(known, st).
                  if \<not> known then Inr ((), st)
                  else let (token, st) = create_magic_token lib cfg en email st
                       in Inr ((), st\<lparr>au_outbox := au_outbox st @ [Magic_mail email token]\<rparr>)) = Inr (a, st')" for email a and st st'
  proof -
    obtain known st1 where m: "magic_account lib cfg en b email st = Inr (known, st1)"
      and r': "(if \<not> known then Inr ((), st1)
                else let (token, st) = create_magic_token lib cfg en email st1
                     in Inr ((), st\<lparr>au_outbox := au_outbox st @ [Magic_mail email token]\<rparr>)) = (Inr (a, st') :: api_error + unit \<times> auth_state)"
      using r by (auto simp: and_then_eq_Inr)
    obtain t st2 where c: "create_magic_token lib cfg en email st1 = (t, st2)" by (meson surj_pair)
    have g1: "grows lib st st1" using magic_account_frame [OF m] by (auto intro: grows_same_kv)
    have "grows lib st2 (st2\<lparr>au_outbox := au_outbox st2 @ [Magic_mail email t]\<rparr>)" by (rule grows_same_kv) simp_all
    with grows_magic_token [OF c] have "grows lib st1 (st2\<lparr>au_outbox := au_outbox st2 @ [Magic_mail email t]\<rparr>)"
      by (rule auth_grows_trans)
    with g1 r' c show ?thesis by (auto split: if_splits intro: auth_grows_trans)
  qed
  then show ?thesis unfolding magic_link_request_def
    by (intro grows_throttled grows_settle) (auto simp: Let_def split: option.splits if_splits)
qed

lemma grows_magic_verify: "grows lib st (snd (magic_link_verify lib cfg en t st))"
proof -
  have del: "grows lib st (st\<lparr>au_kv := snd (cache_delete en key (au_kv st))\<rparr>)" for key
    by (rule grows_delete) simp_all
  have "grows lib st (snd (let (reply, st) = session_reply lib cfg en i None
      (mark_user_verified now a (st\<lparr>au_kv := snd (cache_delete en key (au_kv st))\<rparr>)) in (Inr reply :: api_error + signed_in, st)))" for i now a key
  proof -
    have "grows lib st (mark_user_verified now a (st\<lparr>au_kv := snd (cache_delete en key (au_kv st))\<rparr>))"
      by (rule grows_delete) simp_all
    then show ?thesis by (auto split: prod.splits intro: auth_grows_trans grows_session)
  qed
  with del show ?thesis
    by (auto simp: magic_link_verify_def Let_def split_def split: sum.split option.split)
qed

lemma grows_verify_email: "grows lib st (snd (verify_email lib cfg en t st))"
  by (auto simp: verify_email_def verify_token_def split: sum.split option.split intro: grows_same_kv)

lemma grows_resend: "grows lib st (snd (resend_verification lib cfg en b st))"
proof -
  have nx: "grows lib st st'"
    if "au_kv st' = snd (cache_set_nx en (''verify_resend:'' @ u) v ttl (au_kv st))" "au_draws st' = au_draws st" for u v ttl and st st'
    using that by (auto simp: grows_def allows_def cache_set_nx_def refresh_allowlist_key_def split: option.splits if_splits)
  show ?thesis unfolding resend_verification_def
  proof (intro grows_throttled grows_settle)
    fix st a st'
    assume "and_then (get_current_user lib cfg en b st) (\<lambda>(c, st).
         if ac_email_verified_at (ca_user c) \<noteq> None then Inr (''already_verified'', st)
         else
           let (fresh, kv) = cache_set_nx en (''verify_resend:'' @ ly_show_uuid lib (ac_id (ca_user c))) ''1'' 300 (au_kv st);
               st = st\<lparr>au_kv := kv\<rparr>
           in Inr (''sent'', if fresh then send_verification_email lib cfg (ca_user c) (en_now en) st else st)) = Inr (a, st')"
    then obtain c st1 where u: "get_current_user lib cfg en b st = Inr (c, st1)"
      and k: "st' = st1 \<or> (\<exists>u v ttl. au_kv st' = snd (cache_set_nx en (''verify_resend:'' @ u) v ttl (au_kv st1)) \<and> au_draws st' = au_draws st1)"
      by (auto simp: and_then_eq_Inr Let_def split: if_splits prod.splits) (metis snd_conv)+
    have "grows lib st1 st'" using k by (auto intro: nx)
    moreover have "grows lib st st1" using current_user_frame [OF u] by (auto intro: grows_same_kv)
    ultimately show "grows lib st st'" by (rule auth_grows_trans [rotated])
  qed
qed

lemma rotate_grows:
  "grows lib (st\<lparr>au_kv := snd (cache_delete en (refresh_allowlist_key jti) (au_kv st))\<rparr>)
     (snd (rotate lib cfg en u jti st))"
  by (auto simp: rotate_def Let_def split_def split: option.split intro: grows_session [OF prod.collapse [symmetric]])

lemma grows_refresh: "grows lib st (snd (refresh lib cfg en b st))"
proof -
  have "grows lib st (st\<lparr>au_kv := snd (cache_delete en key (au_kv st))\<rparr>)" for key by (rule grows_delete) simp_all
  from auth_grows_trans [OF this rotate_grows] show ?thesis by (auto simp: refresh_def split: sum.split)
qed

lemma grows_logout: "grows lib st (snd (logout lib cfg en b st))"
  by (auto simp: logout_def split: option.split intro: grows_delete)

lemma grows_new_token: "grows lib st (snd (settle st (create_token lib cfg en b name scopes st)))"
  by (rule grows_settle)
    (auto simp: create_token_def and_then_eq_Inr new_api_token_def draw_def Let_def split: if_splits
      dest!: session_user_frame intro!: grows_same_kv)

lemma grows_revoke: "grows lib st (snd (settle st (revoke_token lib cfg en b i st)))"
  by (rule grows_settle)
    (auto simp: revoke_token_def and_then_eq_Inr split: if_splits dest!: session_user_frame intro!: grows_same_kv)

lemma grows_step: "grows lib st (auth_step lib cfg call en st)"
  by (cases call) (simp_all add: grows_register grows_login grows_demo grows_magic_request grows_magic_verify
    grows_verify_email grows_resend grows_refresh grows_logout grows_new_token grows_revoke)

subsection \<open>Rotation\<close>

definition drawn :: "auth_lib \<Rightarrow> auth_state \<Rightarrow> string \<Rightarrow> bool" where
  "drawn lib st j \<longleftrightarrow> (\<exists>n < au_draws st. j = ly_random lib n)"

definition allowlist_ok :: "auth_lib \<Rightarrow> auth_state \<Rightarrow> bool" where
  "allowlist_ok lib st \<longleftrightarrow> (\<forall>j. allows st j \<longrightarrow> drawn lib st j)"

lemma drawn_mono: "drawn lib st j \<Longrightarrow> grows lib st st' \<Longrightarrow> drawn lib st' j"
  by (auto simp: drawn_def grows_def intro: less_le_trans)

lemma allowlist_ok_step: "allowlist_ok lib st \<Longrightarrow> grows lib st st' \<Longrightarrow> allowlist_ok lib st'"
  unfolding allowlist_ok_def
proof (intro allI impI)
  fix j
  assume ok: "\<forall>j. allows st j \<longrightarrow> drawn lib st j" and g: "grows lib st st'" and a: "allows st' j"
  from g a consider "allows st j" | n where "n < au_draws st'" "j = ly_random lib n" by (auto simp: grows_def)
  then show "drawn lib st' j"
  proof cases
    case 1
    with ok have "drawn lib st j" by simp
    then show ?thesis using g by (rule drawn_mono)
  next
    case 2
    then show ?thesis by (auto simp: drawn_def)
  qed
qed

lemma spent_stays_out:
  assumes "inj (ly_random lib)" "drawn lib st j" "\<not> allows st j" "grows lib st st'"
  shows "\<not> allows st' j"
  using assms unfolding drawn_def grows_def by (metis injD leD)

lemma refresh_checked_allows: "refresh_checked lib cfg en b st = Inr (u, j) \<Longrightarrow> allows st j"
  by (auto simp: refresh_checked_def and_then_eq_Inr Let_def cache_get_def allows_def split: option.splits if_splits)

lemma exchanged_cases:
  assumes "exchanged lib cfg call en st = xs"
  shows "xs = [] \<or> (\<exists>b u j. call = Refresh b \<and> refresh_checked lib cfg en b st = Inr (u, j) \<and> xs = [j])"
  using assms by (auto simp: exchanged_def split: auth_call.splits sum.splits)

lemma exchanged_spends:
  assumes inj: "inj (ly_random lib)" and ok: "allowlist_ok lib st" and up: "en_up en Del"
    and j: "j \<in> set (exchanged lib cfg call en st)"
  shows "drawn lib st j \<and> allows st j \<and> \<not> allows (auth_step lib cfg call en st) j"
proof -
  obtain b u where c: "call = Refresh b" and chk: "refresh_checked lib cfg en b st = Inr (u, j)"
    using exchanged_cases [OF refl, of lib cfg call en st] j by auto
  have a: "allows st j" by (rule refresh_checked_allows [OF chk])
  then have d: "drawn lib st j" using ok by (simp add: allowlist_ok_def)
  let ?st = "st\<lparr>au_kv := snd (cache_delete en (refresh_allowlist_key j) (au_kv st))\<rparr>"
  have "\<not> allows ?st j" using up by (simp add: allows_def cache_delete_def)
  moreover have "drawn lib ?st j" using d by (simp add: drawn_def)
  ultimately have "\<not> allows (snd (rotate lib cfg en u j st)) j" using spent_stays_out [OF inj _ _ rotate_grows] by blast
  then show ?thesis using a d by (simp add: c refresh_def chk)
qed

lemma exchanges_once:
  assumes "inj (ly_random lib)" "allowlist_ok lib st" "\<forall>(call, en) \<in> set calls. en_up en Del"
  shows "distinct (exchanges lib cfg calls st)
    \<and> (\<forall>j \<in> set (exchanges lib cfg calls st). \<not> (drawn lib st j \<and> \<not> allows st j))"
  using assms(2,3)
proof (induction calls arbitrary: st)
  case Nil
  then show ?case by simp
next
  case (Cons q calls)
  obtain call en where q: "q = (call, en)" by (cases q)
  let ?st = "auth_step lib cfg call en st"
  have up: "en_up en Del" using Cons.prems(2) q by simp
  have g: "grows lib st ?st" by (rule grows_step)
  have IH: "distinct (exchanges lib cfg calls ?st)"
    "\<forall>j \<in> set (exchanges lib cfg calls ?st). \<not> (drawn lib ?st j \<and> \<not> allows ?st j)"
    using Cons.IH [of ?st] allowlist_ok_step [OF Cons.prems(1) g] Cons.prems(2) by simp_all
  have later: "j \<notin> set (exchanges lib cfg calls ?st)" if d: "drawn lib st j" and n: "\<not> allows ?st j" for j
    using IH(2) drawn_mono [OF d g] n by blast
  have now: "drawn lib st j \<and> allows st j \<and> \<not> allows ?st j" if j: "j \<in> set (exchanged lib cfg call en st)" for j
    by (rule exchanged_spends [OF assms(1) Cons.prems(1) up j])
  have "distinct (exchanged lib cfg call en st)"
    using exchanged_cases [OF refl, of lib cfg call en st] by auto
  moreover have "set (exchanged lib cfg call en st) \<inter> set (exchanges lib cfg calls ?st) = {}"
    using later now by blast
  moreover have "\<not> (drawn lib st j \<and> \<not> allows st j)" if j: "j \<in> set (exchanges lib cfg calls ?st)" for j
    using later [of j] j spent_stays_out [OF assms(1) _ _ g] by blast
  ultimately show ?case using IH(1) now by (auto simp: q)
qed


lemma session_reply_kv:
  assumes "session_reply lib cfg en user sid st = (x, st')" "j \<noteq> ly_random lib (au_draws st)"
  shows "au_kv st' (refresh_allowlist_key j) = au_kv st (refresh_allowlist_key j)"
  using assms
  by (auto simp: session_reply_def issue_tokens_def set_session_cookies_def create_refresh_token_def draw_def cache_set_def
      Let_def split: if_splits)

lemma session_reply_users: "session_reply lib cfg en user sid st = (x, st') \<Longrightarrow> au_users st' = au_users st"
  by (auto simp: session_reply_def issue_tokens_def set_session_cookies_def create_refresh_token_def draw_def Let_def
      split: if_splits prod.splits)

text \<open>When the deletion fails, its answer is ignored and the same token is accepted again.\<close>

lemma lost_delete_replays:
  assumes "refresh_checked lib cfg en b st = Inr (u, j)" "\<not> en_up en Del"
    and "inj (ly_random lib)" "drawn lib st j"
  shows "refresh_checked lib cfg en b (snd (refresh lib cfg en b st)) = Inr (u, j)"
proof -
  have a: "allows st j" by (rule refresh_checked_allows [OF assms(1)])
  have kv: "au_kv (snd (refresh lib cfg en b st)) (refresh_allowlist_key j) = au_kv st (refresh_allowlist_key j)"
  proof -
    have "j \<noteq> ly_random lib (au_draws st)" using assms(3,4) by (auto simp: drawn_def dest: injD)
    then show ?thesis using assms(1,2)
      by (auto simp: refresh_def rotate_def cache_delete_def Let_def split_def split: option.split
          intro: session_reply_kv [OF prod.collapse [symmetric]])
  qed
  have "cache_get en (refresh_allowlist_key j) (au_kv (snd (refresh lib cfg en b st)))
      = cache_get en (refresh_allowlist_key j) (au_kv st)" by (simp add: cache_get_def kv)
  then show ?thesis using assms(1)
    by (auto simp: refresh_checked_def and_then_eq_Inr Let_def split: option.splits if_splits)
qed

text \<open>Two requests that are both checked before either is answered both succeed.\<close>

lemma concurrent_refreshes:
  assumes "refresh_checked lib cfg en1 b st = Inr (u, j)" "refresh_checked lib cfg en2 b st = Inr (u, j)"
    and "ly_parse_uuid lib u = Some i"
  shows "\<exists>r1 r2 st1 st2. rotate lib cfg en1 u j st = (Inr r1, st1) \<and> rotate lib cfg en2 u j st1 = (Inr r2, st2)"
  using assms(3) by (simp add: rotate_def Let_def split_def)

subsection \<open>Registration\<close>

text \<open>
  The accounts of a closed instance: at most the first. \<open>few\<close> is what every handler keeps.
\<close>

definition few :: "auth_state \<Rightarrow> auth_state \<Rightarrow> bool" where
  "few st st' \<longleftrightarrow> length (au_users st') \<le> max 1 (length (au_users st))"

lemma few_same: "length (au_users st') = length (au_users st) \<Longrightarrow> few st st'"
  by (simp add: few_def)

lemma few_throttled:
  assumes "\<And>st. few st (snd (f st))"
  shows "few st (snd (throttled rl cfg en f st))"
proof -
  obtain r l where rl: "rate_limit (at_rate_limit_enabled cfg) (en_redis en) rl
      (client_ip (rq_headers (en_request en) ''x-forwarded-for'') (rq_client (en_request en))) (en_now en) (au_limits st) = (r, l)"
    by (meson surj_pair)
  show ?thesis using assms [of "st\<lparr>au_limits := l\<rparr>"] by (simp add: throttled_def rl few_def Let_def split: sum.split)
qed

lemma few_settle: "(\<And>a st'. r = Inr (a, st') \<Longrightarrow> few st st') \<Longrightarrow> few st (snd (settle st r))"
  by (auto simp: settle_def few_def split: sum.splits)

lemma put_user_length [simp]: "length (put_user us a) = length us"
  by (simp add: put_user_def)

lemma closed_register:
  assumes "effective_mode (at_registration cfg) = Closed"
  shows "can_register (at_registration cfg) invite users = Inr (users = [])"
  using assms by (simp add: can_register_def)

lemma open_account_users:
  "open_account lib cfg en b email h st = (a, st') \<Longrightarrow> length (au_users st') = Suc (length (au_users st))"
  by (auto simp: open_account_def add_user_def Let_def split: prod.splits dest!: session_reply_users)

lemma few_register:
  assumes "effective_mode (at_registration cfg) = Closed"
  shows "few st (snd (register lib cfg en b st))"
  unfolding register_def
  by (intro few_throttled few_settle)
    (auto simp: register_account_ok closed_register [OF assms] few_def split: option.splits if_splits dest!: open_account_users)

lemma few_login: "few st (snd (login lib cfg en e p st))"
  unfolding login_def
  by (intro few_throttled few_settle)
    (auto simp: Let_def and_then_eq_Inr few_def split: option.splits if_splits dest!: session_reply_users)

lemma few_demo: "\<not> at_demo_mode cfg \<Longrightarrow> few st (snd (demo_login lib cfg en persona st))"
  unfolding demo_login_def by (rule few_throttled) (simp add: few_def)

lemma few_magic_account:
  assumes "effective_mode (at_registration cfg) = Closed" "magic_account lib cfg en b e st = Inr (k, st')"
  shows "few st st'"
  using assms(2)
  by (auto simp: magic_account_def closed_register [OF assms(1)] and_then_eq_Inr raised_def draw_def add_user_def few_def
      Let_def split: if_splits)

lemma magic_token_users: "create_magic_token lib cfg en email st = (t, st') \<Longrightarrow> au_users st' = au_users st"
  by (auto simp: create_magic_token_def draw_def Let_def split: prod.splits)

lemma few_magic_request:
  assumes "effective_mode (at_registration cfg) = Closed"
  shows "few st (snd (magic_link_request lib cfg en b st))"
  unfolding magic_link_request_def
  by (intro few_throttled few_settle)
    (auto simp: Let_def and_then_eq_Inr split: option.splits if_splits prod.splits
      dest!: few_magic_account [OF assms] magic_token_users simp: few_def)

lemma few_magic_verify: "few st (snd (magic_link_verify lib cfg en t st))"
  by (auto simp: magic_link_verify_def mark_user_verified_def few_def Let_def split: sum.split option.split prod.splits
      dest!: session_reply_users)

lemma few_verify_email: "few st (snd (verify_email lib cfg en t st))"
  by (auto simp: verify_email_def verify_token_def mark_user_verified_def few_def split: sum.split option.split)

lemma few_resend: "few st (snd (resend_verification lib cfg en b st))"
  unfolding resend_verification_def
  by (intro few_throttled few_settle)
    (auto simp: Let_def and_then_eq_Inr few_def split: if_splits prod.splits dest!: current_user_frame)

lemma few_refresh: "few st (snd (refresh lib cfg en b st))"
  by (auto simp: refresh_def rotate_def few_def Let_def split: sum.split option.split prod.splits dest!: session_reply_users)

lemma few_tokens:
  "few st (snd (settle st (create_token lib cfg en b name scopes st)))"
  "few st (snd (settle st (revoke_token lib cfg en b i st)))"
  by (intro few_settle; auto simp: create_token_def revoke_token_def new_api_token_def draw_def few_def and_then_eq_Inr Let_def
      split: if_splits dest!: session_user_frame)+

lemma few_step:
  assumes "effective_mode (at_registration cfg) = Closed" "\<not> at_demo_mode cfg"
  shows "few st (auth_step lib cfg call en st)"
proof (cases call)
  case (Logout b)
  then show ?thesis by (simp add: logout_def few_def split: option.split)
qed (use assms in \<open>simp_all add: few_register few_login few_demo few_magic_request few_magic_verify few_verify_email
  few_resend few_refresh few_tokens\<close>)



subsection \<open>Examples\<close>

definition issued_state :: auth_state where
  "issued_state = owned\<lparr>au_kv := [''refresh:r'' \<mapsto> (''u'', 2592100)], au_draws := 2\<rparr>"

definition refresh_at :: "moment \<Rightarrow> auth_call \<times> env" where
  "refresh_at t = (Refresh (Some ''k;refresh;u;;r;;100;2592100''), env_at t (plain_request ''POST'' ''/api/v1/auth/refresh''))"


lemma first_exchange_happens:
  "exchanges plain_lib home_settings [refresh_at 200, refresh_at 201] issued_state = [''r'']"
  by code_simp

text \<open>The refresh by cookie asks for no CSRF token.\<close>

lemma refresh_asks_no_csrf:
  "refresh_checked lib cfg (en\<lparr>en_request := (en_request en)\<lparr>rq_headers := h\<rparr>\<rparr>) b st = refresh_checked lib cfg en b st"
proof -
  let ?en = "en\<lparr>en_request := (en_request en)\<lparr>rq_headers := h\<rparr>\<rparr>"
  have "refresh_token_of ?en b = refresh_token_of en b" by (simp add: refresh_token_of_def)
  moreover have now: "en_now ?en = en_now en" and up: "en_up ?en = en_up en" by simp_all
  moreover have "cache_get ?en = cache_get en" by (intro ext) (simp only: cache_get_def now up)
  ultimately show ?thesis by (simp only: refresh_checked_def)
qed

text \<open>
  Registration keeps the case of the address and the magic link lowers it: the owner of \<open>Ann@x.org\<close> who asks for a
  magic link gets a second account.
\<close>

definition open_settings :: auth_settings where
  "open_settings = home_settings\<lparr>at_registration := \<lparr>rg_mode = ''open'', rg_hosted = False, rg_invite_codes = []\<rparr>\<rparr>"

lemma magic_link_second_account:
  "map ac_email (au_users (auth_run plain_lib open_settings
     [(Register \<lparr>uc_email = ''Ann@x.org'', uc_password = ''12345678'', uc_display_name = None, uc_invite_code = None, uc_accept_terms = False\<rparr>,
       env_at 10 (plain_request ''POST'' ''/api/v1/auth/register'')),
      (Magic_request \<lparr>mr_email = ''Ann@x.org'', mr_display_name = None, mr_accept_terms = True\<rparr>,
       env_at 20 (plain_request ''POST'' ''/api/v1/auth/magic-link/request''))] empty_auth))
   = [''Ann@x.org'', ''ann@x.org'']"
  by code_simp

end
