(* ===== verification/Subscriptions.thy ===== *)
theory Subscriptions
  imports Schedule Throttle Feedback
begin

text \<open>
  Following feeds: the endpoints of \<open>api/sources.py\<close> (except the import of saved articles), the planning of an OPML
  import (\<open>services/ingestion/opml_io.py\<close>), the background import (\<open>workers/tasks/import_jobs.py\<close>), the XML checks
  (\<open>utils/xml_safety.py\<close>) and the shared feeds (\<open>services/ingestion/feeds.py\<close>, \<open>models/feed.py\<close>). The OPML parser,
  defusedxml and the autodiscovery of a feed over the network are parameters. The stored job of an import is a value
  of the cache with its expiry; a column that \<open>feed_row\<close> does not have is added here.
\<close>

subsection \<open>Rows\<close>

record subscription = feed_row +
  so_id :: nat
  so_user_id :: nat
  so_feed_id :: "nat option"
  so_name :: "string option"
  so_source_type :: string
  so_trust_weight :: real
  so_http_etag :: "string option"
  so_http_last_modified :: "string option"
  so_initial_backfill_done :: bool
  so_priority :: string
  so_topics :: "string list"
  so_tags :: "string list"
  so_created_at :: moment

record shared_feed = feed_row +
  sf_id :: nat
  sf_key :: string
  sf_source_type :: string
  sf_http_etag :: "string option"
  sf_http_last_modified :: "string option"
  sf_initial_backfill_done :: bool

record suggestion =
  sg_id :: nat
  sg_user_id :: nat
  sg_url :: string
  sg_name :: string
  sg_reason :: string
  sg_status :: string
  sg_created_at :: moment
  sg_decided_at :: "moment option"

record opml_feed =
  of_url :: string
  of_title :: string
  of_tags :: "string list"

record import_job =
  jb_user_id :: nat
  jb_status :: string
  jb_total :: nat
  jb_done :: nat
  jb_created :: nat

type_synonym 'v store = "string \<Rightarrow> ('v \<times> moment) option"

record sources_state =
  sx_sources :: "subscription list"
  sx_feeds :: "shared_feed list"
  sx_suggestions :: "suggestion list"
  sx_graph :: graph_db
  sx_events :: "product_event list"
  sx_queue :: "nat list"
  sx_jobs :: "import_job store"
  sx_payloads :: "opml_feed list store"
  sx_counters :: ttl_counters
  sx_paused :: "nat \<Rightarrow> moment option"
  sx_next :: nat

text \<open>The configuration, the account that asks, the moment and what Redis does.\<close>

record sources_env =
  se_billing :: billing_settings
  se_abuse :: abuse_settings
  se_user :: account
  se_now :: moment
  se_redis :: redis
  se_cache_up :: bool
  se_metrics :: bool
  se_show_uuid :: "nat \<Rightarrow> string"

definition store_get :: "bool \<Rightarrow> moment \<Rightarrow> string \<Rightarrow> 'v store \<Rightarrow> 'v option" where
  "store_get up now key st =
     (if \<not> up then None else case st key of None \<Rightarrow> None | Some (v, t) \<Rightarrow> if now < t then Some v else None)"

definition store_set :: "bool \<Rightarrow> moment \<Rightarrow> string \<Rightarrow> 'v \<Rightarrow> real \<Rightarrow> 'v store \<Rightarrow> 'v store" where
  "store_set up now key v ttl st = (if up then st(key \<mapsto> (v, now + ttl)) else st)"

definition blank_source :: "nat \<Rightarrow> nat \<Rightarrow> string \<Rightarrow> moment \<Rightarrow> subscription" where
  "blank_source i user url now =
     \<lparr>fr_feed_url = None, fr_url = url, fr_poll_interval_seconds = Some 3600, fr_fetch_error_count = Some 0,
      fr_recent_gap_seconds = Some [], fr_feed_status = Some Healthy, fr_failure_since = None, fr_next_poll_at = None,
      fr_is_active = True, fr_dead_notice_pending = False, fr_last_error = None, fr_last_error_at = None,
      fr_last_fetched_at = None, fr_last_http_status = None, so_id = i, so_user_id = user, so_feed_id = None,
      so_name = None, so_source_type = ''rss'', so_trust_weight = 0.5, so_http_etag = None, so_http_last_modified = None,
      so_initial_backfill_done = True, so_priority = ''normal'', so_topics = [], so_tags = [], so_created_at = now\<rparr>"

definition add_source_row :: "subscription \<Rightarrow> sources_state \<Rightarrow> sources_state" where
  "add_source_row s st = st\<lparr>sx_sources := sx_sources st @ [s], sx_next := sx_next st + 1\<rparr>"

definition sources_of :: "nat \<Rightarrow> sources_state \<Rightarrow> subscription list" where
  "sources_of user st = filter (\<lambda>s. so_user_id s = user) (sx_sources st)"

text \<open>\<open>feed_url or url\<close>\<close>

definition feed_key_of :: "'a feed_row_scheme \<Rightarrow> string" where
  "feed_key_of s = (case fr_feed_url s of Some u \<Rightarrow> if u \<noteq> [] then u else fr_url s | None \<Rightarrow> fr_url s)"

subsection \<open>XML checks\<close>

fun suffixes_of :: "'a list \<Rightarrow> 'a list list" where
  "suffixes_of [] = [[]]"
| "suffixes_of (x # xs) = (x # xs) # suffixes_of xs"

definition is_byte_space :: "char \<Rightarrow> bool" where
  "is_byte_space c \<longleftrightarrow> char_code c \<in> {9, 10, 11, 12, 13, 32}"

definition is_word_char :: "char \<Rightarrow> bool" where
  "is_word_char c \<longleftrightarrow> is_alnum_char c \<or> c = CHR ''_''"

text \<open>The name after \<open><!DOCTYPE\<close>, if the suffix starts with one.\<close>

definition doctype_name :: "string \<Rightarrow> string option" where
  "doctype_name s =
     (if \<not> starts_with (lower s) ''<!doctype'' then None
      else
        let rest = drop 9 s;
            name = takeWhile (\<lambda>c. \<not> is_byte_space c \<and> c \<notin> set ''>[/'') (dropWhile is_byte_space rest)
        in if takeWhile is_byte_space rest = [] \<or> name = [] then None else Some name)"

definition count_outlines :: "string \<Rightarrow> nat" where
  "count_outlines s =
     length (filter (\<lambda>t. starts_with (lower t) ''<outline''
                       \<and> (drop 8 t = [] \<or> \<not> is_word_char (hd (drop 8 t)))) (suffixes_of s))"

definition assert_xml_safe :: "(string \<Rightarrow> bool) \<Rightarrow> int \<Rightarrow> int option \<Rightarrow> string \<Rightarrow> string option" where
  "assert_xml_safe defused max_bytes max_outlines s =
     (if max_bytes < int (length s) then None
      else if list_ex (\<lambda>t. starts_with (lower t) ''<!entity'') (suffixes_of s) then None
      else if list_ex (\<lambda>t. some_and (doctype_name t) (\<lambda>n. lower n \<noteq> ''html'')) (suffixes_of s) then None
      else case max_outlines of
        None \<Rightarrow> Some s
      | Some m \<Rightarrow> if m < int (count_outlines s) then None else if defused s then Some s else None)"

subsection \<open>Limits on adding\<close>

definition enforce_capacity :: "sources_env \<Rightarrow> string list \<Rightarrow> sources_state \<Rightarrow> api_error + unit" where
  "enforce_capacity e urls st =
     (if urls = [] then Inr ()
      else
        let mine = sources_of (ac_id (se_user e)) st
        in and_then (enforce_sources_per_host (se_abuse e) (map feed_key_of mine) urls) (\<lambda>_.
             map_sum (\<lambda>_. PAYMENT_REQUIRED) id
               (enforce_source_limit (se_billing e) (se_user e) (se_now e) (int (length mine)) (int (length urls)))))"

definition added_event :: "sources_env \<Rightarrow> nat \<Rightarrow> string \<Rightarrow> sources_state \<Rightarrow> sources_state" where
  "added_event e n via st =
     st\<lparr>sx_events := track (se_metrics e)
          ((new_event (ac_id (se_user e)) ''source_added'' (Some (int n)))\<lparr>pe_via := Some via\<rparr>) (sx_events st)\<rparr>"

definition fetch_new_sources_soon :: "nat \<Rightarrow> sources_state \<Rightarrow> sources_state" where
  "fetch_new_sources_soon user st = st\<lparr>sx_queue := sx_queue st @ [user]\<rparr>"

text \<open>A budget refused is committed: the pause stays although the request fails.\<close>

definition charged :: "sources_env \<Rightarrow> sources_state \<Rightarrow> (api_error + unit) \<times> sources_state" where
  "charged e st =
     (let (r, counters, paused) = require_fetch_budget (se_abuse e) (se_redis e) (se_show_uuid e) (ac_id (se_user e))
                                    (se_now e) (sx_counters st) (sx_paused st)
      in (r, st\<lparr>sx_counters := counters, sx_paused := paused\<rparr>))"

subsection \<open>Starter packs\<close>

record pack_feed =
  pf_name :: string
  pf_url :: string
  pf_feed_url :: string

record starter_pack =
  pk_id :: string
  pk_title :: string
  pk_feeds :: "pack_feed list"

record pack_row =
  pr_pack :: starter_pack
  pr_feed_count :: nat
  pr_suggested :: bool
  pr_subscribed :: nat

text \<open>\<open>packs_for\<close> is \<open>taxonomy.packs_for_topics\<close>.\<close>

definition list_packs ::
  "(string list \<Rightarrow> string list) \<Rightarrow> starter_pack list \<Rightarrow> string \<Rightarrow> nat \<Rightarrow> sources_state \<Rightarrow> pack_row list" where
  "list_packs packs_for packs topics user st =
     (let wanted = filter (\<lambda>t. t \<noteq> []) (map strip (split_char CHR '','' topics));
          suggested = (if wanted \<noteq> [] then take 4 (packs_for wanted) else []);
          followed = map fr_url (sources_of user st)
      in map (\<lambda>p. \<lparr>pr_pack = p, pr_feed_count = length (pk_feeds p), pr_suggested = (pk_id p \<in> set suggested),
                   pr_subscribed = length (filter (\<lambda>f. pf_url f \<in> set followed) (pk_feeds p))\<rparr>) packs)"

text \<open>A pack's topic becomes a node; \<open>encode\<close> may fail, and then the node has no vector.\<close>

definition seed_pack_interest :: "string \<Rightarrow> (string \<Rightarrow> vec option) \<Rightarrow> nat \<Rightarrow> string \<Rightarrow> graph_db \<Rightarrow> graph_db" where
  "seed_pack_interest model encode user title db =
     (let label = strip title
      in if label = [] then db
         else
           let (node, db) = get_or_create_node model user label (encode label) db
           in db\<lparr>gd_nodes := update_where (node_key user label)
                  (\<lambda>n. n\<lparr>in_weight := max (in_weight n) 0.4,
                        in_topic_embedding := (if in_topic_embedding n = None then encode label else in_topic_embedding n),
                        in_embedding_model := (if in_topic_embedding n = None \<and> encode label \<noteq> None then Some model
                                               else in_embedding_model n)\<rparr>) (gd_nodes db)\<rparr>)"

definition pack_source :: "nat \<Rightarrow> nat \<Rightarrow> pack_feed \<Rightarrow> moment \<Rightarrow> subscription" where
  "pack_source i user f now =
     (blank_source i user (pf_url f) now)\<lparr>so_name := Some (pf_name f), fr_feed_url := Some (pf_feed_url f),
       so_trust_weight := 0.45\<rparr>"

fun subscribe_feeds :: "nat \<Rightarrow> moment \<Rightarrow> pack_feed list \<Rightarrow> string list \<Rightarrow> sources_state \<Rightarrow> nat \<times> sources_state" where
  "subscribe_feeds user now [] existing st = (0, st)"
| "subscribe_feeds user now (f # fs) existing st =
     (if pf_url f \<in> set existing then subscribe_feeds user now fs existing st
      else
        let (n, st) = subscribe_feeds user now fs (existing @ [pf_url f])
                        (add_source_row (pack_source (sx_next st) user f now) st)
        in (n + 1, st))"

definition subscribe_pack ::
  "sources_env \<Rightarrow> string \<Rightarrow> (string \<Rightarrow> vec option) \<Rightarrow> starter_pack list \<Rightarrow> string \<Rightarrow> sources_state
    \<Rightarrow> api_error + (nat \<times> nat) \<times> sources_state" where
  "subscribe_pack e model encode packs pack_id st =
     (case find (\<lambda>p. pk_id p = pack_id) packs of
        None \<Rightarrow> Inl NOT_FOUND
      | Some pack \<Rightarrow>
          let user = ac_id (se_user e);
              existing = map fr_url (sources_of user st);
              new_urls = filter (\<lambda>u. u \<notin> set existing) (remdups (map pf_url (pk_feeds pack)))
          in and_then (enforce_capacity e new_urls st) (\<lambda>_.
               let (created, st) = subscribe_feeds user (se_now e) (pk_feeds pack) existing st;
                   st = st\<lparr>sx_graph := seed_pack_interest model encode user (pk_title pack) (sx_graph st)\<rparr>;
                   st = (if created \<noteq> 0 then fetch_new_sources_soon user (added_event e created ''starter_pack'' st) else st)
               in Inr ((created, length (pk_feeds pack) - created), st)))"

subsection \<open>Suggestions\<close>

definition put_suggestion :: "suggestion \<Rightarrow> sources_state \<Rightarrow> sources_state" where
  "put_suggestion g st = st\<lparr>sx_suggestions := map (\<lambda>h. if sg_id h = sg_id g then g else h) (sx_suggestions st)\<rparr>"

definition find_suggestion :: "nat \<Rightarrow> nat \<Rightarrow> sources_state \<Rightarrow> suggestion option" where
  "find_suggestion i user st = find (\<lambda>g. sg_id g = i \<and> sg_user_id g = user) (sx_suggestions st)"

definition pending_suggestions :: "nat \<Rightarrow> sources_state \<Rightarrow> suggestion list" where
  "pending_suggestions user st =
     take 5 (sort_desc sg_created_at (filter (\<lambda>g. sg_user_id g = user \<and> sg_status g = ''pending'') (sx_suggestions st)))"

definition accept_discover_suggestion ::
  "sources_env \<Rightarrow> nat \<Rightarrow> sources_state \<Rightarrow> api_error + subscription \<times> sources_state" where
  "accept_discover_suggestion e i st =
     (let user = ac_id (se_user e)
      in case find_suggestion i user st of
        None \<Rightarrow> Inl NOT_FOUND
      | Some g \<Rightarrow>
          if sg_status g \<noteq> ''pending'' then Inl NOT_FOUND
          else and_then (enforce_capacity e [sg_url g] st) (\<lambda>_.
            let s = (blank_source (sx_next st) user (sg_url g) (se_now e))\<lparr>so_name := Some (sg_name g),
                      fr_feed_url := Some (sg_url g), so_trust_weight := 0.45\<rparr>
            in Inr (s, put_suggestion (g\<lparr>sg_status := ''accepted'', sg_decided_at := Some (se_now e)\<rparr>)
                        (add_source_row s st))))"

definition dismiss_discover_suggestion :: "sources_env \<Rightarrow> nat \<Rightarrow> sources_state \<Rightarrow> api_error + nat \<times> sources_state" where
  "dismiss_discover_suggestion e i st =
     (case find_suggestion i (ac_id (se_user e)) st of
        None \<Rightarrow> Inl NOT_FOUND
      | Some g \<Rightarrow> Inr (i, put_suggestion (g\<lparr>sg_status := ''dismissed'', sg_decided_at := Some (se_now e)\<rparr>) st))"

subsection \<open>One feed\<close>

record source_create =
  sc_url :: string
  sc_priority :: string
  sc_topics :: "string list"

text \<open>Adding a feed: the answer of the charge may be committed without the rest.\<close>

definition add_source ::
  "sources_env \<Rightarrow> (string \<Rightarrow> string option) \<Rightarrow> source_create \<Rightarrow> sources_state
    \<Rightarrow> (api_error + subscription) \<times> sources_state" where
  "add_source e discover body st =
     (case raised (is_reddit_feed (Some (sc_url body))) of
        Inl x \<Rightarrow> (Inl x, st)
      | Inr True \<Rightarrow> (Inl BAD_REQUEST, st)
      | Inr False \<Rightarrow>
          (case enforce_capacity e [sc_url body] st of
             Inl x \<Rightarrow> (Inl x, st)
           | Inr _ \<Rightarrow>
               let (r, st) = charged e st
               in case r of
                 Inl x \<Rightarrow> (Inl x, st)
               | Inr _ \<Rightarrow>
                   let feed_url = discover (sc_url body); user = ac_id (se_user e);
                       s = (blank_source (sx_next st) user (sc_url body) (se_now e))\<lparr>fr_feed_url := feed_url,
                             so_source_type := (if feed_url \<noteq> None \<and> feed_url \<noteq> Some [] then ''rss'' else ''scraped''),
                             so_priority := sc_priority body, so_topics := sc_topics body,
                             so_initial_backfill_done := False\<rparr>
                   in (Inr s, fetch_new_sources_soon user (added_event e 1 ''manual'' (add_source_row s st)))))"

definition items_per_week ::
  "moment \<Rightarrow> content_item list \<Rightarrow> subscription list \<Rightarrow> sources_state \<Rightarrow> subscription \<Rightarrow> nat" where
  "items_per_week now items mine st s =
     (let same = map so_id (filter (\<lambda>t. or_default (fr_feed_url t) (fr_url t) = feed_key_of s) (sx_sources st))
      in length (filter (\<lambda>c. some_and (ci_source_id c) (\<lambda>i. i \<in> set same) \<and> now - 7 * 86400 \<le> ci_fetched_at c
                           \<and> ci_owner_user_id c = None) items))"

definition list_sources :: "moment \<Rightarrow> content_item list \<Rightarrow> nat \<Rightarrow> sources_state \<Rightarrow> (subscription \<times> nat) list" where
  "list_sources now items user st =
     (let mine = sources_of user st in map (\<lambda>s. (s, items_per_week now items mine st s)) mine)"

record source_update =
  su_priority :: "string option"
  su_trust_weight :: "real option"
  su_is_active :: "bool option"
  su_topics :: "string list option"

definition find_source :: "nat \<Rightarrow> nat \<Rightarrow> sources_state \<Rightarrow> subscription option" where
  "find_source i user st = find (\<lambda>s. so_id s = i \<and> so_user_id s = user) (sx_sources st)"

text \<open>A row written back is the row with its id (and so with its reader).\<close>

definition put_source :: "subscription \<Rightarrow> sources_state \<Rightarrow> sources_state" where
  "put_source s st = st\<lparr>sx_sources :=
     map (\<lambda>t. if so_id t = so_id s \<and> so_user_id t = so_user_id s then s else t) (sx_sources st)\<rparr>"

definition update_source :: "nat \<Rightarrow> nat \<Rightarrow> source_update \<Rightarrow> sources_state \<Rightarrow> api_error + subscription \<times> sources_state" where
  "update_source user i body st =
     (case find_source i user st of
        None \<Rightarrow> Inl NOT_FOUND
      | Some s \<Rightarrow>
          let s = s\<lparr>so_priority := or_default (su_priority body) (so_priority s),
                    so_trust_weight := (case su_trust_weight body of None \<Rightarrow> so_trust_weight s | Some w \<Rightarrow> clamp 0 1 w),
                    fr_is_active := or_default (su_is_active body) (fr_is_active s),
                    so_topics := or_default (su_topics body) (so_topics s)\<rparr>
          in Inr (s, put_source s st))"

definition delete_source :: "nat \<Rightarrow> nat \<Rightarrow> sources_state \<Rightarrow> api_error + unit \<times> sources_state" where
  "delete_source user i st =
     (case find_source i user st of
        None \<Rightarrow> Inl NOT_FOUND
      | Some s \<Rightarrow> Inr ((), put_source (s\<lparr>fr_is_active := False\<rparr>) st))"

subsection \<open>Shared feeds\<close>

definition new_feed :: "nat \<Rightarrow> bool \<Rightarrow> moment \<Rightarrow> subscription \<Rightarrow> shared_feed" where
  "new_feed i reddit now s =
     \<lparr>fr_feed_url = fr_feed_url s, fr_url = fr_url s,
      fr_poll_interval_seconds = Some (nonzero (fr_poll_interval_seconds s) 3600),
      fr_fetch_error_count = Some (or_default (fr_fetch_error_count s) 0),
      fr_recent_gap_seconds = Some (or_default (fr_recent_gap_seconds s) []),
      fr_feed_status = (if reddit then Some Dead else Some (or_default (fr_feed_status s) Healthy)),
      fr_failure_since = None, fr_next_poll_at = (if reddit then None else fr_next_poll_at s),
      fr_is_active = (\<not> reddit), fr_dead_notice_pending = reddit,
      fr_last_error = (if reddit then Some (reddit_notice now) else fr_last_error s),
      fr_last_error_at = (if reddit then Some now else fr_last_error_at s),
      fr_last_fetched_at = fr_last_fetched_at s, fr_last_http_status = None, sf_id = i, sf_key = feed_key_of s,
      sf_source_type = (if so_source_type s \<noteq> [] then so_source_type s else ''rss''), sf_http_etag = so_http_etag s,
      sf_http_last_modified = so_http_last_modified s, sf_initial_backfill_done = so_initial_backfill_done s\<rparr>"

definition fresh_chance :: "shared_feed \<Rightarrow> shared_feed" where
  "fresh_chance f = f\<lparr>fr_is_active := True, fr_feed_status := Some Healthy, fr_next_poll_at := None\<rparr>"

definition attach_source :: "nat \<Rightarrow> bool \<Rightarrow> moment \<Rightarrow> subscription \<Rightarrow> subscription" where
  "attach_source feed_id reddit now s =
     (let s = s\<lparr>so_feed_id := Some feed_id\<rparr>
      in if reddit then s\<lparr>fr_is_active := False, fr_dead_notice_pending := True, fr_feed_status := Some Dead,
                          fr_last_error := Some (reddit_notice now)\<rparr> else s)"

text \<open>One pending source: its shared feed is found, revived or made.\<close>

definition sync_one :: "moment \<Rightarrow> subscription \<Rightarrow> sources_state \<Rightarrow> py_error + sources_state" where
  "sync_one now s st =
     map_sum id (\<lambda>reddit.
       case find (\<lambda>f. sf_key f = feed_key_of s) (sx_feeds st) of
         None \<Rightarrow>
           put_source (attach_source (sx_next st) reddit now s)
             (st\<lparr>sx_feeds := sx_feeds st @ [new_feed (sx_next st) reddit now s], sx_next := sx_next st + 1\<rparr>)
       | Some f \<Rightarrow>
           put_source (attach_source (sf_id f) reddit now s)
             (if \<not> fr_is_active f \<and> \<not> reddit
              then st\<lparr>sx_feeds := map (\<lambda>g. if sf_id g = sf_id f then fresh_chance g else g) (sx_feeds st)\<rparr>
              else st))
       (is_dead_reddit_feed (Some (feed_key_of s)) now)"

fun sync_all :: "moment \<Rightarrow> subscription list \<Rightarrow> sources_state \<Rightarrow> py_error + nat \<times> sources_state" where
  "sync_all now [] st = Inr (0, st)"
| "sync_all now (s # ss) st =
     and_then (sync_one now s st) (\<lambda>st. map_sum id (\<lambda>(n, st). (n + 1, st)) (sync_all now ss st))"

definition pending_source :: "nat option \<Rightarrow> subscription \<Rightarrow> bool" where
  "pending_source user s \<longleftrightarrow> so_feed_id s = None \<and> fr_is_active s \<and> so_source_type s \<noteq> ''newsletter''
     \<and> (case user of None \<Rightarrow> True | Some u \<Rightarrow> so_user_id s = u)"

definition sync_feeds :: "nat option \<Rightarrow> moment \<Rightarrow> sources_state \<Rightarrow> py_error + nat \<times> sources_state" where
  "sync_feeds user now st = sync_all now (filter (pending_source user) (sx_sources st)) st"

definition subscribers :: "nat \<Rightarrow> bool \<Rightarrow> sources_state \<Rightarrow> subscription list" where
  "subscribers feed_id active_only st =
     sort_key so_created_at (sort_key so_id
       (filter (\<lambda>s. so_feed_id s = Some feed_id \<and> (\<not> active_only \<or> fr_is_active s)) (sx_sources st)))"

text \<open>\<open>MIRRORED_FIELDS\<close>, and the pause when the feed has died.\<close>

definition mirror_one :: "shared_feed \<Rightarrow> subscription \<Rightarrow> subscription" where
  "mirror_one f s =
     (let s = s\<lparr>fr_feed_url := fr_feed_url f, fr_last_fetched_at := fr_last_fetched_at f, so_http_etag := sf_http_etag f,
               so_http_last_modified := sf_http_last_modified f,
               fr_poll_interval_seconds := fr_poll_interval_seconds f, fr_next_poll_at := fr_next_poll_at f,
               fr_recent_gap_seconds := fr_recent_gap_seconds f, fr_feed_status := fr_feed_status f,
               fr_failure_since := fr_failure_since f, fr_last_error_at := fr_last_error_at f,
               fr_last_error := fr_last_error f, fr_fetch_error_count := fr_fetch_error_count f,
               so_initial_backfill_done := sf_initial_backfill_done f\<rparr>
      in if \<not> fr_is_active f \<and> fr_is_active s then s\<lparr>fr_is_active := False, fr_dead_notice_pending := True\<rparr> else s)"

definition mirror :: "shared_feed \<Rightarrow> subscription list \<Rightarrow> subscription list" where
  "mirror f ss = map (mirror_one f) ss"

text \<open>Repairing a dead feed: the first page whose autodiscovery gives another feed.\<close>

definition site_root :: "string \<Rightarrow> py_error + string option" where
  "site_root url =
     map_sum id (\<lambda>p. if up_scheme p \<noteq> [] \<and> up_netloc p \<noteq> [] then Some (up_scheme p @ ''://'' @ up_netloc p @ ''/'') else None)
       (urlparse url)"

definition discover_other :: "(string \<Rightarrow> string option) \<Rightarrow> subscription \<Rightarrow> string list \<Rightarrow> string option" where
  "discover_other discover s pages =
     (case filter (\<lambda>f. f \<noteq> None \<and> f \<noteq> Some [] \<and> f \<noteq> fr_feed_url s) (map discover pages) of [] \<Rightarrow> None | f # _ \<Rightarrow> f)"

definition repaired :: "string \<Rightarrow> subscription \<Rightarrow> subscription" where
  "repaired found s =
     s\<lparr>fr_feed_url := Some found, so_source_type := ''rss'', so_feed_id := None, fr_is_active := True,
       fr_feed_status := Some Healthy, fr_fetch_error_count := Some 0, fr_failure_since := None, fr_last_error := None,
       fr_last_error_at := None, fr_dead_notice_pending := False, fr_next_poll_at := None\<rparr>"

definition fix_source ::
  "sources_env \<Rightarrow> (string \<Rightarrow> string option) \<Rightarrow> nat \<Rightarrow> sources_state
    \<Rightarrow> (api_error + string option) \<times> sources_state" where
  "fix_source e discover i st =
     (let user = ac_id (se_user e)
      in case find_source i user st of
        None \<Rightarrow> (Inl NOT_FOUND, st)
      | Some s \<Rightarrow>
          if so_source_type s = ''newsletter'' then (Inl BAD_REQUEST, st)
          else
            let (r, st) = charged e st
            in case and_then r (\<lambda>_. raised (site_root (fr_url s))) of
              Inl x \<Rightarrow> (Inl x, st)
            | Inr site \<Rightarrow>
                let pages = [fr_url s] @ (case site of None \<Rightarrow> [] | Some u \<Rightarrow> if u \<noteq> fr_url s then [u] else [])
                in case discover_other discover s pages of
                  None \<Rightarrow> (Inr None, st)
                | Some found \<Rightarrow>
                    (case raised (sync_feeds (Some user) (se_now e) (put_source (repaired found s) st)) of
                       Inl x \<Rightarrow> (Inl x, st)
                     | Inr (_, st) \<Rightarrow> (Inr (Some found), fetch_new_sources_soon user st)))"

subsection \<open>OPML\<close>

record outline =
  ou_url :: "string option"
  ou_feed :: "string option"
  ou_title :: "string option"
  ou_tags :: "string list"

definition QUEUE_AFTER :: nat where "QUEUE_AFTER = 200"

definition nonempty_or :: "string option \<Rightarrow> string \<Rightarrow> string" where
  "nonempty_or x d = (case x of None \<Rightarrow> d | Some s \<Rightarrow> if s \<noteq> [] then s else d)"

fun parse_outlines :: "outline list \<Rightarrow> string list \<Rightarrow> opml_feed list" where
  "parse_outlines [] seen = []"
| "parse_outlines (o' # os) seen =
     (let url = strip (nonempty_or (ou_url o') [])
      in if url = [] \<or> url \<in> set seen then parse_outlines os seen
         else \<lparr>of_url = url, of_title = strip (nonempty_or (ou_title o') url), of_tags = filter (\<lambda>t. t \<noteq> []) (ou_tags o')\<rparr>
              # parse_outlines os (url # seen))"

definition should_queue :: "nat \<Rightarrow> bool" where
  "should_queue n \<longleftrightarrow> QUEUE_AFTER < n"

text \<open>The feeds not yet followed, and how many are skipped.\<close>

fun plan_feeds :: "opml_feed list \<Rightarrow> string list \<Rightarrow> opml_feed list \<times> nat" where
  "plan_feeds [] existing = ([], 0)"
| "plan_feeds (f # fs) existing =
     (if of_url f \<in> set existing then (let (kept, skipped) = plan_feeds fs existing in (kept, skipped + 1))
      else (let (kept, skipped) = plan_feeds fs (of_url f # existing) in (f # kept, skipped)))"

record import_plan =
  ip_feeds :: "opml_feed list"
  ip_queued :: bool
  ip_skipped :: nat

definition plan_import :: "outline list \<Rightarrow> string list \<Rightarrow> import_plan" where
  "plan_import outlines existing =
     (let feeds = parse_outlines outlines []; (kept, skipped) = plan_feeds feeds existing
      in \<lparr>ip_feeds = kept, ip_queued = should_queue (length feeds), ip_skipped = skipped\<rparr>)"

definition is_http_url :: "string \<Rightarrow> bool" where
  "is_http_url u \<longleftrightarrow> starts_with u ''http://'' \<or> starts_with u ''https://''"

definition opml_source :: "nat \<Rightarrow> nat \<Rightarrow> opml_feed \<Rightarrow> moment \<Rightarrow> subscription" where
  "opml_source i user f now =
     (blank_source i user (of_url f) now)\<lparr>so_name := Some (of_title f), fr_feed_url := Some (of_url f),
       so_tags := of_tags f, so_initial_backfill_done := False\<rparr>"

definition add_opml_feeds :: "nat \<Rightarrow> moment \<Rightarrow> opml_feed list \<Rightarrow> sources_state \<Rightarrow> sources_state" where
  "add_opml_feeds user now feeds st = foldl (\<lambda>st f. add_source_row (opml_source (sx_next st) user f now) st) st feeds"

text \<open>The first importer: a row for every outline with an address, after a check of the distinct addresses.\<close>

definition outline_url :: "outline \<Rightarrow> string" where
  "outline_url o' = nonempty_or (ou_url o') (nonempty_or (ou_feed o') [])"

definition plain_source :: "nat \<Rightarrow> nat \<Rightarrow> outline \<Rightarrow> moment \<Rightarrow> subscription" where
  "plain_source i user o' now =
     (blank_source i user (outline_url o') now)\<lparr>so_name := Some (nonempty_or (ou_title o') (outline_url o')),
       fr_feed_url := Some (outline_url o')\<rparr>"

definition as_bad_request :: "api_error \<Rightarrow> api_error" where
  "as_bad_request x = (case x of Http n \<Rightarrow> Http n | Raised _ \<Rightarrow> BAD_REQUEST)"

definition import_opml :: "sources_env \<Rightarrow> outline list \<Rightarrow> sources_state \<Rightarrow> api_error + nat \<times> sources_state" where
  "import_opml e outlines st =
     (let user = ac_id (se_user e);
          named = filter (\<lambda>o'. outline_url o' \<noteq> []) outlines
      in and_then (map_sum as_bad_request id (enforce_capacity e (remdups (map outline_url named)) st)) (\<lambda>_.
           let st = foldl (\<lambda>st o'. add_source_row (plain_source (sx_next st) user o' (se_now e)) st) st named;
               created = length named;
               st = (if created \<noteq> 0 then fetch_new_sources_soon user (added_event e created ''opml'' st) else st)
           in Inr (created, st)))"

definition job_key :: "string \<Rightarrow> string" where
  "job_key job_id = ''opml-import:'' @ job_id"

definition payload_key :: "string \<Rightarrow> string" where
  "payload_key job_id = ''opml-import:'' @ job_id @ '':feeds''"

definition JOB_TTL_SECONDS :: real where "JOB_TTL_SECONDS = 24 * 3600"
definition BATCH :: nat where "BATCH = 100"

definition create_job :: "sources_env \<Rightarrow> string \<Rightarrow> opml_feed list \<Rightarrow> sources_state \<Rightarrow> sources_state" where
  "create_job e job_id feeds st =
     (let up = se_cache_up e; now = se_now e
      in st\<lparr>sx_payloads := store_set up now (payload_key job_id) feeds JOB_TTL_SECONDS (sx_payloads st),
            sx_jobs := store_set up now (job_key job_id)
              \<lparr>jb_user_id = ac_id (se_user e), jb_status = ''queued'', jb_total = length feeds, jb_done = 0, jb_created = 0\<rparr>
              JOB_TTL_SECONDS (sx_jobs st)\<rparr>)"

record import_answer =
  ia_created :: nat
  ia_skipped :: nat
  ia_queued :: bool
  ia_job_id :: "string option"
  ia_errors :: "string list"

text \<open>The second importer; \<open>job_id\<close> is the drawn id of a background job.\<close>

definition import_opml_tagged ::
  "sources_env \<Rightarrow> string \<Rightarrow> outline list \<Rightarrow> sources_state \<Rightarrow> api_error + import_answer \<times> sources_state" where
  "import_opml_tagged e job_id outlines st =
     (let user = ac_id (se_user e);
          plan = plan_import outlines (map fr_url (sources_of user st));
          errors = map (take 200) (filter (\<lambda>u. \<not> is_http_url u) (map of_url (ip_feeds plan)));
          feeds = filter (\<lambda>f. is_http_url (of_url f)) (ip_feeds plan)
      in and_then (enforce_capacity e (map of_url feeds) st) (\<lambda>_.
           if ip_queued plan then
             Inr (\<lparr>ia_created = 0, ia_skipped = ip_skipped plan, ia_queued = True, ia_job_id = Some job_id, ia_errors = errors\<rparr>,
                  create_job e job_id feeds st)
           else
             let st = add_opml_feeds user (se_now e) feeds st;
                 st = (if feeds \<noteq> [] then fetch_new_sources_soon user (added_event e (length feeds) ''opml'' st) else st)
             in Inr (\<lparr>ia_created = length feeds, ia_skipped = ip_skipped plan, ia_queued = False, ia_job_id = None,
                      ia_errors = errors\<rparr>, st)))"

text \<open>The background job: batches of \<open>BATCH\<close>, each re-reading what is already followed.\<close>

fun add_batch :: "nat \<Rightarrow> moment \<Rightarrow> opml_feed list \<Rightarrow> string list \<Rightarrow> sources_state \<Rightarrow> nat \<times> sources_state" where
  "add_batch user now [] have_urls st = (0, st)"
| "add_batch user now (f # fs) have_urls st =
     (if of_url f \<in> set have_urls then add_batch user now fs have_urls st
      else
        let (n, st) = add_batch user now fs (of_url f # have_urls) (add_source_row (opml_source (sx_next st) user f now) st)
        in (n + 1, st))"

function run_batches :: "nat \<Rightarrow> moment \<Rightarrow> opml_feed list \<Rightarrow> nat \<Rightarrow> sources_state \<Rightarrow> nat \<times> sources_state" where
  "run_batches user now feeds created st =
     (if feeds = [] then (created, st)
      else
        let (n, st) = add_batch user now (take BATCH feeds) (map fr_url (sources_of user st)) st
        in run_batches user now (drop BATCH feeds) (created + n) st)"
  by pat_completeness auto
termination
  by (relation "measure (\<lambda>(_, _, feeds, _, _). length feeds)") (auto simp: BATCH_def)

declare run_batches.simps [simp del]

definition run_opml_import :: "bool \<Rightarrow> moment \<Rightarrow> string \<Rightarrow> sources_state \<Rightarrow> string \<times> nat \<times> sources_state" where
  "run_opml_import up now job_id st =
     (case (store_get up now (job_key job_id) (sx_jobs st), store_get up now (payload_key job_id) (sx_payloads st)) of
        (Some job, Some feeds) \<Rightarrow>
          let (created, st) = run_batches (jb_user_id job) now feeds 0 st;
              job = job\<lparr>jb_status := ''done'', jb_done := length feeds, jb_created := created\<rparr>;
              st = st\<lparr>sx_jobs := store_set up now (job_key job_id) job JOB_TTL_SECONDS (sx_jobs st)\<rparr>;
              st = (if created \<noteq> 0 then fetch_new_sources_soon (jb_user_id job) st else st)
          in (''done'', created, st)
      | _ \<Rightarrow> (''missing'', 0, st))"

definition import_job_status ::
  "bool \<Rightarrow> moment \<Rightarrow> nat \<Rightarrow> string \<Rightarrow> sources_state \<Rightarrow> api_error + import_job \<times> real" where
  "import_job_status up now user job_id st =
     (case store_get up now (job_key job_id) (sx_jobs st) of
        None \<Rightarrow> Inl NOT_FOUND
      | Some job \<Rightarrow>
          if jb_user_id job \<noteq> user then Inl NOT_FOUND
          else Inr (job, min (real (jb_done job) / real (max (jb_total job) 1)) 1))"

text \<open>The export: folders in the order of their first feed, then the feeds without one.\<close>

definition xml_escape :: "string \<Rightarrow> string" where
  "xml_escape s = concat (map (\<lambda>c. if c = CHR ''&'' then ''&amp;'' else if c = CHR ''<'' then ''&lt;''
     else if c = CHR ''>'' then ''&gt;'' else [c]) s)"

definition opml_outline :: "opml_feed \<Rightarrow> string" where
  "opml_outline f = ''<outline type=\"rss\" text=\"'' @ xml_escape (of_title f) @ ''\" title=\"'' @ xml_escape (of_title f)
     @ ''\" xmlUrl=\"'' @ xml_escape (of_url f) @ ''\" htmlUrl=\"'' @ xml_escape (of_url f) @ ''\"/>''"

fun first_seen :: "'a list \<Rightarrow> 'a list \<Rightarrow> 'a list" where
  "first_seen [] seen = []"
| "first_seen (x # xs) seen = (if x \<in> set seen then first_seen xs seen else x # first_seen xs (x # seen))"

definition export_opml :: "string \<Rightarrow> opml_feed list \<Rightarrow> string" where
  "export_opml title feeds =
     (let tagged = filter (\<lambda>f. of_tags f \<noteq> []) feeds;
          folders = first_seen (map (\<lambda>f. hd (of_tags f)) tagged) [];
          loose = filter (\<lambda>f. of_tags f = []) feeds
      in join_with [CHR 0x0A]
           ([''<?xml version=\"1.0\" encoding=\"UTF-8\"?>'', ''<opml version=\"2.0\">'', ''<head>'',
             ''<title>'' @ xml_escape title @ ''</title>'', ''</head>'', ''<body>'']
            @ concat (map (\<lambda>d. [''<outline text=\"'' @ xml_escape d @ ''\" title=\"'' @ xml_escape d @ ''\">'']
                        @ map opml_outline (filter (\<lambda>f. hd (of_tags f) = d) tagged) @ [''</outline>'']) folders)
            @ map opml_outline loose @ [''</body></opml>'']))"

definition export_opml_file :: "nat \<Rightarrow> sources_state \<Rightarrow> string" where
  "export_opml_file user st =
     export_opml ''Weirling''
       (map (\<lambda>s. \<lparr>of_url = feed_key_of s, of_title = nonempty_or (so_name s) (fr_url s), of_tags = so_tags s\<rparr>)
         (sources_of user st))"

subsection \<open>The background import\<close>

definition followed :: "nat \<Rightarrow> sources_state \<Rightarrow> string set" where
  "followed user st = fr_url ` set (sources_of user st)"

lemma followed_add: "so_user_id s = user \<Longrightarrow> followed user (add_source_row s st) = insert (fr_url s) (followed user st)"
  by (simp add: followed_def sources_of_def add_source_row_def)

lemma opml_source_simps [simp]: "so_user_id (opml_source i user f now) = user" "fr_url (opml_source i user f now) = of_url f"
  by (simp_all add: opml_source_def blank_source_def)

lemma add_batch_cong: "set have1 = set have2 \<Longrightarrow> add_batch user now fs have1 st = add_batch user now fs have2 st"
proof (induction fs arbitrary: have1 have2 st)
  case Nil
  then show ?case by simp
next
  case (Cons f fs)
  show ?case using Cons.IH [OF Cons.prems] Cons.IH [of "of_url f # have1" "of_url f # have2"] Cons.prems by simp
qed

lemma add_batch_append:
  assumes "set have_urls = followed user st"
  shows "add_batch user now (fs @ gs) have_urls st =
    (let (n, st1) = add_batch user now fs have_urls st;
         (m, st2) = add_batch user now gs (map fr_url (sources_of user st1)) st1
     in (n + m, st2))"
  using assms
proof (induction fs arbitrary: have_urls st)
  case Nil
  then show ?case
    by (simp add: Let_def split_def) (intro add_batch_cong, simp add: followed_def)
next
  case (Cons f fs)
  show ?case
  proof (cases "of_url f \<in> set have_urls")
    case True
    then show ?thesis using Cons.IH [OF Cons.prems] by simp
  next
    case False
    let ?st = "add_source_row (opml_source (sx_next st) user f now) st"
    have "set (of_url f # have_urls) = followed user ?st" using Cons.prems by (simp add: followed_add)
    from Cons.IH [OF this] False show ?thesis by (simp add: Let_def split_def)
  qed
qed

text \<open>
  C39. The background import does in batches what one pass over the whole file would do: re-reading the followed addresses
  before each batch neither adds a feed twice nor loses one, and it ends for every file.
\<close>

theorem batches_equal_one_pass:
  "run_batches user now feeds created st =
    (let (n, st') = add_batch user now feeds (map fr_url (sources_of user st)) st in (created + n, st'))"
proof (induction user now feeds created st rule: run_batches.induct)
  case (1 user now feeds created st)
  show ?case
  proof (cases "feeds = []")
    case True
    then show ?thesis by (simp add: run_batches.simps)
  next
    case False
    obtain n st1 where b: "add_batch user now (take BATCH feeds) (map fr_url (sources_of user st)) st = (n, st1)"
      by (meson surj_pair)
    have "add_batch user now (take BATCH feeds @ drop BATCH feeds) (map fr_url (sources_of user st)) st =
      (let (m, st2) = add_batch user now (drop BATCH feeds) (map fr_url (sources_of user st1)) st1 in (n + m, st2))"
      by (subst add_batch_append) (simp_all add: b followed_def)
    moreover have "run_batches user now (drop BATCH feeds) (created + n) st1 =
      (let (m, st2) = add_batch user now (drop BATCH feeds) (map fr_url (sources_of user st1)) st1 in (created + n + m, st2))"
      using 1 [OF False b [symmetric] refl] by simp
    ultimately show ?thesis using False by (simp add: run_batches.simps [of user now feeds] b Let_def split_def)
  qed
qed

subsection \<open>The plan's limit\<close>

datatype source_call =
    Add source_create
  | Subscribe string
  | Accept nat
  | Dismiss nat
  | Import_tagged string "outline list"
  | Change nat source_update
  | Remove nat
  | Fix nat

text \<open>One request; a request that fails leaves at most the charge of its fetch.\<close>

fun sources_step ::
  "(string \<Rightarrow> string option) \<Rightarrow> string \<Rightarrow> (string \<Rightarrow> vec option) \<Rightarrow> starter_pack list \<Rightarrow> source_call \<Rightarrow> sources_env
    \<Rightarrow> sources_state \<Rightarrow> sources_state" where
  "sources_step discover model encode packs (Add b) e st = snd (add_source e discover b st)"
| "sources_step discover model encode packs (Subscribe p) e st = commit_or_keep st (subscribe_pack e model encode packs p st)"
| "sources_step discover model encode packs (Accept i) e st = commit_or_keep st (accept_discover_suggestion e i st)"
| "sources_step discover model encode packs (Dismiss i) e st = commit_or_keep st (dismiss_discover_suggestion e i st)"
| "sources_step discover model encode packs (Import_tagged j os) e st = commit_or_keep st (import_opml_tagged e j os st)"
| "sources_step discover model encode packs (Change i b) e st = commit_or_keep st (update_source (ac_id (se_user e)) i b st)"
| "sources_step discover model encode packs (Remove i) e st = commit_or_keep st (delete_source (ac_id (se_user e)) i st)"
| "sources_step discover model encode packs (Fix i) e st = snd (fix_source e discover i st)"

fun sources_run ::
  "(string \<Rightarrow> string option) \<Rightarrow> string \<Rightarrow> (string \<Rightarrow> vec option) \<Rightarrow> starter_pack list \<Rightarrow> (source_call \<times> sources_env) list
    \<Rightarrow> sources_state \<Rightarrow> sources_state" where
  "sources_run discover model encode packs [] st = st"
| "sources_run discover model encode packs ((c, e) # calls) st =
     sources_run discover model encode packs calls (sources_step discover model encode packs c e st)"

definition held :: "nat \<Rightarrow> sources_state \<Rightarrow> nat" where
  "held user st = length (sources_of user st)"

lemma held_add [simp]: "held u (add_source_row s st) = held u st + (if so_user_id s = u then 1 else 0)"
  by (simp add: held_def sources_of_def add_source_row_def)

lemma held_put [simp]: "held u (put_source s st) = held u st"
proof -
  have "length (filter (\<lambda>t. so_user_id t = u) (map (\<lambda>t. if so_id t = so_id s \<and> so_user_id t = so_user_id s then s else t) xs))
    = length (filter (\<lambda>t. so_user_id t = u) xs)" for xs
    by (induction xs) auto
  then show ?thesis by (simp add: held_def sources_of_def put_source_def)
qed

lemma held_cong: "sx_sources st' = sx_sources st \<Longrightarrow> held u st' = held u st"
  by (simp add: held_def sources_of_def)

lemma held_frames [simp]:
  "held u (added_event e n via st) = held u st"
  "held u (fetch_new_sources_soon v st) = held u st"
  "held u (put_suggestion g st) = held u st"
  "held u (create_job e j fs st) = held u st"
  "held u (st\<lparr>sx_graph := db\<rparr>) = held u st"
  "held u (st\<lparr>sx_feeds := ff\<rparr>) = held u st"
  "held u (st\<lparr>sx_feeds := ff, sx_next := m\<rparr>) = held u st"
  by (simp_all add: held_def sources_of_def added_event_def fetch_new_sources_soon_def put_suggestion_def create_job_def Let_def)

lemma held_charged: "charged e st = (r, st') \<Longrightarrow> held u st' = held u st"
  by (auto simp: charged_def Let_def split: prod.splits intro!: held_cong)

lemma blank_source_user [simp]: "so_user_id (blank_source i user url now) = user"
  by (simp add: blank_source_def)

lemma pack_source_user [simp]: "so_user_id (pack_source i user f now) = user"
  by (simp add: pack_source_def)

lemma subscribe_feeds_count:
  "subscribe_feeds user now fs existing st = (n, st') \<Longrightarrow>
    held u st' = held u st + (if user = u then n else 0) \<and> n = card (pf_url ` set fs - set existing)"
proof (induction fs arbitrary: existing st n)
  case Nil
  then show ?case by simp
next
  case (Cons f fs)
  show ?case
  proof (cases "pf_url f \<in> set existing")
    case True
    then have "insert (pf_url f) (pf_url ` set fs) - set existing = pf_url ` set fs - set existing" by auto
    with Cons.IH [of existing st n] Cons.prems True show ?thesis by simp
  next
    case False
    obtain m where m: "subscribe_feeds user now fs (existing @ [pf_url f])
        (add_source_row (pack_source (sx_next st) user f now) st) = (m, st')" and n: "n = m + 1"
      using Cons.prems False by (auto split: prod.splits)
    have "insert (pf_url f) (pf_url ` set fs) - set existing
        = insert (pf_url f) (pf_url ` set fs - set (existing @ [pf_url f]))" using False by auto
    then have "card (insert (pf_url f) (pf_url ` set fs) - set existing) = m + 1"
      using Cons.IH [OF m] by simp
    then show ?thesis using Cons.IH [OF m] n by auto
  qed
qed

lemma new_urls_count: "length (filter (\<lambda>x. x \<notin> set existing) (remdups xs)) = card (set xs - set existing)"
proof -
  have "distinct (filter (\<lambda>x. x \<notin> set existing) (remdups xs))" by simp
  from distinct_card [OF this] show ?thesis by (simp add: set_diff_eq)
qed

lemma held_add_opml: "held u (add_opml_feeds user now fs st) = held u st + (if user = u then length fs else 0)"
  by (induction fs arbitrary: st) (simp_all add: add_opml_feeds_def)

lemma capacity_ok:
  assumes "enforce_capacity e urls st = Inr ()" "limit (se_billing e) (se_user e) (se_now e) Sources = cap" "0 < cap"
    and "urls \<noteq> []"
  shows "int (held (ac_id (se_user e)) st + length urls) \<le> cap"
  using assms by (auto simp: enforce_capacity_def and_then_eq_Inr enforce_source_limit_def held_def Let_def split: if_splits)

lemma held_sync_one: "sync_one now s st = Inr st' \<Longrightarrow> held u st' = held u st"
proof -
  assume "sync_one now s st = Inr st'"
  then show ?thesis
    by (cases "is_dead_reddit_feed (Some (feed_key_of s)) now";
        cases "find (\<lambda>f. sf_key f = feed_key_of s) (sx_feeds st)")
      (auto simp: sync_one_def split: if_splits)
qed

lemma held_sync_all: "sync_all now ss st = Inr (n, st') \<Longrightarrow> held u st' = held u st"
proof (induction ss arbitrary: st n)
  case Nil
  then show ?case by simp
next
  case (Cons s ss)
  then obtain st1 m where "sync_one now s st = Inr st1" "sync_all now ss st1 = Inr (m, st')"
    by (cases "sync_one now s st"; cases "sync_all now ss (projr (sync_one now s st))") auto
  then show ?case using Cons.IH by (simp add: held_sync_one)
qed

lemma held_fix: "held u (snd (fix_source e discover i st)) = held u st"
proof (cases "find_source i (ac_id (se_user e)) st")
  case None
  then show ?thesis by (simp add: fix_source_def)
next
  case (Some s)
  obtain r st1 where c: "charged e st = (r, st1)" by (meson surj_pair)
  have sync: "held u st2 = held u st" if "sync_feeds v now (put_source t st1) = Inr (n, st2)" for v now t n st2
    using held_sync_all [OF that [unfolded sync_feeds_def], of u] held_charged [OF c, of u] by simp
  show ?thesis
    using Some c held_charged [OF c] sync
    by (auto simp: fix_source_def Let_def split: sum.splits option.splits)
qed

lemma held_add_source:
  assumes "ac_id (se_user e) = u \<Longrightarrow> limit (se_billing e) (se_user e) (se_now e) Sources = cap" "0 < cap"
    "int (held u st) \<le> cap"
  shows "int (held u (snd (add_source e discover b st))) \<le> cap"
proof -
  obtain r st1 where c: "charged e st = (r, st1)" by (meson surj_pair)
  show ?thesis
  proof (cases "enforce_capacity e [sc_url b] st")
    case (Inl x)
    then show ?thesis using assms(3) by (simp add: add_source_def split: sum.split bool.split)
  next
    case (Inr v)
    then have "int (held (ac_id (se_user e)) st + 1) \<le> cap" if "ac_id (se_user e) = u"
      using capacity_ok [of e "[sc_url b]" st cap] assms(1,2) that by simp
    then show ?thesis using assms(3) held_charged [OF c, of u] Inr c
      by (auto simp: add_source_def Let_def split: sum.split bool.split)
  qed
qed

lemma held_step:
  assumes "ac_id (se_user e) = u \<Longrightarrow> limit (se_billing e) (se_user e) (se_now e) Sources = cap" "0 < cap"
    "int (held u st) \<le> cap"
  shows "int (held u (sources_step discover model encode packs c e st)) \<le> cap"
proof (cases c)
  case (Add b)
  then show ?thesis using held_add_source [OF assms] by simp
next
  case (Fix i)
  then show ?thesis using assms(3) by (simp add: held_fix)
next
  case (Subscribe pid)
  show ?thesis
  proof (cases "subscribe_pack e model encode packs pid st")
    case (Inl x)
    then show ?thesis using Subscribe assms(3) by (simp add: commit_or_keep_def)
  next
    case (Inr q)
    obtain p where f: "find (\<lambda>p. pk_id p = pid) packs = Some p"
      using Inr by (cases "find (\<lambda>p. pk_id p = pid) packs") (simp_all add: subscribe_pack_def)
    let ?user = "ac_id (se_user e)"
    let ?existing = "map fr_url (sources_of ?user st)"
    let ?new = "filter (\<lambda>u. u \<notin> set ?existing) (remdups (map pf_url (pk_feeds p)))"
    obtain n st1 where s: "subscribe_feeds ?user (se_now e) (pk_feeds p) ?existing st = (n, st1)" by (meson surj_pair)
    have ok: "enforce_capacity e ?new st = Inr ()"
      using Inr f by (auto simp: subscribe_pack_def and_then_eq_Inr Let_def)
    have h: "held u (snd q) = held u st1"
      using Inr f ok s by (auto simp: subscribe_pack_def Let_def)
    have cnt: "held u st1 = held u st + (if ?user = u then n else 0)" "n = card (pf_url ` set (pk_feeds p) - set ?existing)"
      using subscribe_feeds_count [OF s, of u] by auto
    then have "n = length ?new" using new_urls_count [of ?existing "map pf_url (pk_feeds p)"] by simp
    then have "int (held u st1) \<le> cap"
      using cnt(1) assms capacity_ok [OF ok] by (cases "?user = u"; cases "?new = []") auto
    then show ?thesis using Subscribe Inr h by (simp add: commit_or_keep_def split: prod.splits) (metis snd_conv)
  qed
next
  case (Accept i)
  show ?thesis
  proof (cases "accept_discover_suggestion e i st")
    case (Inl x)
    then show ?thesis using Accept assms(3) by (simp add: commit_or_keep_def)
  next
    case (Inr q)
    then obtain g where g: "find_suggestion i (ac_id (se_user e)) st = Some g"
      by (cases "find_suggestion i (ac_id (se_user e)) st") (simp_all add: accept_discover_suggestion_def)
    have ok: "enforce_capacity e [sg_url g] st = Inr ()"
      and h: "held u (snd q) = held u st + (if ac_id (se_user e) = u then 1 else 0)"
      using Inr g by (auto simp: accept_discover_suggestion_def and_then_eq_Inr Let_def split: if_splits)
    then have "int (held u (snd q)) \<le> cap" using assms capacity_ok [OF ok] by auto
    then show ?thesis using Accept Inr by (simp add: commit_or_keep_def split: prod.splits) (metis snd_conv)
  qed
next
  case (Import_tagged j os)
  show ?thesis
  proof (cases "import_opml_tagged e j os st")
    case (Inl x)
    then show ?thesis using Import_tagged assms(3) by (simp add: commit_or_keep_def)
  next
    case (Inr q)
    define fs where "fs = filter (\<lambda>f. is_http_url (of_url f))
      (ip_feeds (plan_import os (map fr_url (sources_of (ac_id (se_user e)) st))))"
    have ok: "enforce_capacity e (map of_url fs) st = Inr ()"
      using Inr by (auto simp: import_opml_tagged_def and_then_eq_Inr Let_def fs_def)
    have h: "held u (snd q) \<le> held u st + (if ac_id (se_user e) = u then length fs else 0)"
      using Inr ok unfolding import_opml_tagged_def
      by (auto simp: Let_def fs_def [symmetric] held_add_opml split: if_splits)
    have room: "int (held u st + length fs) \<le> cap" if me: "ac_id (se_user e) = u"
      using capacity_ok [OF ok, of cap] assms me by (cases "fs = []") simp_all
    have "int (held u (snd q)) \<le> cap"
    proof (cases "ac_id (se_user e) = u")
      case True
      then show ?thesis using h room by simp
    next
      case False
      then show ?thesis using h assms(3) by simp
    qed
    then show ?thesis using Import_tagged Inr by (simp add: commit_or_keep_def split: prod.splits) (metis snd_conv)
  qed
qed (use assms(3) in \<open>auto simp: commit_or_keep_def dismiss_discover_suggestion_def update_source_def delete_source_def Let_def
  split: option.split\<close>)


lemma removed_source_still_counts:
  "delete_source u i st = Inr ((), st') \<Longrightarrow> length (sources_of u st') = length (sources_of u st)"
  using held_put [of u _ st] by (auto simp: delete_source_def held_def split: option.splits)

text \<open>A queued import is checked against the rows there are, not against the imports that wait.\<close>

lemma queued_imports_not_counted: "enforce_capacity e urls (create_job e' j feeds st) = enforce_capacity e urls st"
  by (simp add: enforce_capacity_def create_job_def sources_of_def Let_def)

subsection \<open>Shared feeds\<close>

definition sync_ok :: "sources_state \<Rightarrow> bool" where
  "sync_ok st \<longleftrightarrow> distinct (map so_id (sx_sources st)) \<and> distinct (map sf_key (sx_feeds st))
     \<and> distinct (map sf_id (sx_feeds st)) \<and> (\<forall>f \<in> set (sx_feeds st). sf_id f < sx_next st)"

definition attached :: "sources_state \<Rightarrow> nat \<Rightarrow> string \<Rightarrow> bool" where
  "attached st i key \<longleftrightarrow> (\<exists>t \<in> set (sx_sources st). so_id t = i
     \<and> (\<exists>f \<in> set (sx_feeds st). so_feed_id t = Some (sf_id f) \<and> sf_key f = key))"

definition has_row :: "sources_state \<Rightarrow> subscription \<Rightarrow> bool" where
  "has_row st s \<longleftrightarrow> (\<exists>t \<in> set (sx_sources st). so_id t = so_id s \<and> so_user_id t = so_user_id s)"

lemma put_source_rows:
  "map so_id (sx_sources (put_source s st)) = map so_id (sx_sources st)"
  "map so_user_id (sx_sources (put_source s st)) = map so_user_id (sx_sources st)"
  "sx_feeds (put_source s st) = sx_feeds st" "sx_next (put_source s st) = sx_next st"
  by (simp_all add: put_source_def)

lemma has_row_put [simp]: "has_row (put_source s st) t = has_row st t"
proof
  assume "has_row (put_source s st) t"
  then show "has_row st t" by (auto simp: has_row_def put_source_def split: if_splits)
next
  assume "has_row st t"
  then obtain r where r: "r \<in> set (sx_sources st)" "so_id r = so_id t" "so_user_id r = so_user_id t" by (auto simp: has_row_def)
  let ?r = "if so_id r = so_id s \<and> so_user_id r = so_user_id s then s else r"
  have "?r \<in> set (sx_sources (put_source s st))" using r(1) by (auto simp: put_source_def)
  moreover have "so_id ?r = so_id t" "so_user_id ?r = so_user_id t" using r by simp_all
  ultimately show "has_row (put_source s st) t" unfolding has_row_def by blast
qed

lemma attach_source_simps [simp]:
  "so_id (attach_source i b now s) = so_id s" "so_user_id (attach_source i b now s) = so_user_id s"
  "so_feed_id (attach_source i b now s) = Some i"
  by (simp_all add: attach_source_def Let_def)

lemma fresh_chance_simps [simp]: "sf_id (fresh_chance f) = sf_id f" "sf_key (fresh_chance f) = sf_key f"
  by (simp_all add: fresh_chance_def)

lemma new_feed_simps [simp]: "sf_id (new_feed i b now s) = i" "sf_key (new_feed i b now s) = feed_key_of s"
  by (simp_all add: new_feed_def)

text \<open>The step: the feeds of before with one more or one revived, and one row rewritten.\<close>

lemma sync_one_shape:
  assumes "sync_one now s st = Inr st'"
  shows "\<exists>i b st1. st' = put_source (attach_source i b now s) st1 \<and> sx_sources st1 = sx_sources st
    \<and> (\<exists>f \<in> set (sx_feeds st1). sf_id f = i \<and> sf_key f = feed_key_of s)
    \<and> (map (\<lambda>f. (sf_id f, sf_key f)) (sx_feeds st1) = map (\<lambda>f. (sf_id f, sf_key f)) (sx_feeds st) \<and> sx_next st1 = sx_next st
       \<or> map (\<lambda>f. (sf_id f, sf_key f)) (sx_feeds st1) = map (\<lambda>f. (sf_id f, sf_key f)) (sx_feeds st) @ [(sx_next st, feed_key_of s)]
         \<and> feed_key_of s \<notin> sf_key ` set (sx_feeds st) \<and> sx_next st1 = sx_next st + 1)"
proof -
  obtain b where b: "is_dead_reddit_feed (Some (feed_key_of s)) now = Inr b"
    using assms by (cases "is_dead_reddit_feed (Some (feed_key_of s)) now") (simp_all add: sync_one_def)
  show ?thesis
  proof (cases "find (\<lambda>f. sf_key f = feed_key_of s) (sx_feeds st)")
    case None
    let ?st1 = "st\<lparr>sx_feeds := sx_feeds st @ [new_feed (sx_next st) b now s], sx_next := sx_next st + 1\<rparr>"
    have "st' = put_source (attach_source (sx_next st) b now s) ?st1" using assms b None by (simp add: sync_one_def)
    moreover have "feed_key_of s \<notin> sf_key ` set (sx_feeds st)" using None by (auto simp: find_None_iff)
    ultimately show ?thesis
      by (intro exI [of _ "sx_next st"] exI [of _ b] exI [of _ ?st1]) simp
  next
    case (Some f)
    then have f: "f \<in> set (sx_feeds st)" "sf_key f = feed_key_of s" by (auto simp: find_Some_iff)
    let ?st1 = "if \<not> fr_is_active f \<and> \<not> b
              then st\<lparr>sx_feeds := map (\<lambda>g. if sf_id g = sf_id f then fresh_chance g else g) (sx_feeds st)\<rparr> else st"
    have "st' = put_source (attach_source (sf_id f) b now s) ?st1" using assms b Some by (simp add: sync_one_def)
    moreover have "\<exists>g \<in> set (sx_feeds ?st1). sf_id g = sf_id f \<and> sf_key g = feed_key_of s"
    proof (cases "\<not> fr_is_active f \<and> \<not> b")
      case True
      then have "fresh_chance f \<in> set (sx_feeds ?st1)" using f(1) by (auto intro!: image_eqI [of _ _ f])
      then show ?thesis using f(2) by (intro bexI [of _ "fresh_chance f"]) simp_all
    next
      case False
      then show ?thesis using f by auto
    qed
    moreover have "map (\<lambda>f. (sf_id f, sf_key f)) (sx_feeds ?st1) = map (\<lambda>f. (sf_id f, sf_key f)) (sx_feeds st)" by simp
    moreover have "sx_next ?st1 = sx_next st" "sx_sources ?st1 = sx_sources st" by simp_all
    ultimately show ?thesis by blast
  qed
qed

lemma feed_pairs:
  assumes "map (\<lambda>f. (sf_id f, sf_key f)) fs' = map (\<lambda>f. (sf_id f, sf_key f)) fs @ extra"
  shows "map sf_id fs' = map sf_id fs @ map fst extra" "map sf_key fs' = map sf_key fs @ map snd extra"
proof -
  have "map fst (map (\<lambda>f. (sf_id f, sf_key f)) fs') = map fst (map (\<lambda>f. (sf_id f, sf_key f)) fs @ extra)"
    and "map snd (map (\<lambda>f. (sf_id f, sf_key f)) fs') = map snd (map (\<lambda>f. (sf_id f, sf_key f)) fs @ extra)"
    by (simp_all only: assms)
  then show "map sf_id fs' = map sf_id fs @ map fst extra" "map sf_key fs' = map sf_key fs @ map snd extra"
    by (simp_all add: comp_def)
qed

lemma sync_one_ok:
  assumes "sync_ok st" "has_row st s" "sync_one now s st = Inr st'"
  shows "sync_ok st'" "attached st' (so_id s) (feed_key_of s)"
    and "i \<noteq> so_id s \<Longrightarrow> attached st i k \<Longrightarrow> attached st' i k"
    and "has_row st' t = has_row st t"
proof -
  obtain i b st1 where shape: "st' = put_source (attach_source i b now s) st1" "sx_sources st1 = sx_sources st"
    and f: "\<exists>f \<in> set (sx_feeds st1). sf_id f = i \<and> sf_key f = feed_key_of s"
    and pairs: "map (\<lambda>f. (sf_id f, sf_key f)) (sx_feeds st1) = map (\<lambda>f. (sf_id f, sf_key f)) (sx_feeds st) \<and> sx_next st1 = sx_next st
       \<or> map (\<lambda>f. (sf_id f, sf_key f)) (sx_feeds st1) = map (\<lambda>f. (sf_id f, sf_key f)) (sx_feeds st) @ [(sx_next st, feed_key_of s)]
         \<and> feed_key_of s \<notin> sf_key ` set (sx_feeds st) \<and> sx_next st1 = sx_next st + 1"
    using sync_one_shape [OF assms(3)] by blast
  have feeds': "sx_feeds st' = sx_feeds st1" "sx_next st' = sx_next st1"
    using shape by (simp_all add: put_source_rows)
  have ids: "map so_id (sx_sources st') = map so_id (sx_sources st)"
    using shape by (simp add: put_source_rows)
  have ext: "\<exists>extra. map (\<lambda>f. (sf_id f, sf_key f)) (sx_feeds st1) = map (\<lambda>f. (sf_id f, sf_key f)) (sx_feeds st) @ extra"
    using pairs by auto
  show "sync_ok st'"
    using pairs
  proof
    assume same: "map (\<lambda>f. (sf_id f, sf_key f)) (sx_feeds st1) = map (\<lambda>f. (sf_id f, sf_key f)) (sx_feeds st) \<and> sx_next st1 = sx_next st"
    then have "map sf_id (sx_feeds st1) = map sf_id (sx_feeds st)" "map sf_key (sx_feeds st1) = map sf_key (sx_feeds st)"
      using feed_pairs [of "sx_feeds st1" "sx_feeds st" "[]"] by simp_all
    moreover have "sf_id ` set (sx_feeds st1) = sf_id ` set (sx_feeds st)"
      using arg_cong [OF calculation(1), of set] by simp
    moreover have "\<forall>x \<in> sf_id ` set (sx_feeds st). x < sx_next st" using assms(1) by (simp add: sync_ok_def)
    ultimately have "\<forall>x \<in> sf_id ` set (sx_feeds st1). x < sx_next st1" using same by simp
    then show ?thesis using assms(1) ids feeds' \<open>map sf_id (sx_feeds st1) = _\<close> \<open>map sf_key (sx_feeds st1) = _\<close>
      by (simp add: sync_ok_def)
  next
    assume new: "map (\<lambda>f. (sf_id f, sf_key f)) (sx_feeds st1) = map (\<lambda>f. (sf_id f, sf_key f)) (sx_feeds st) @ [(sx_next st, feed_key_of s)]
         \<and> feed_key_of s \<notin> sf_key ` set (sx_feeds st) \<and> sx_next st1 = sx_next st + 1"
    then have m: "map sf_id (sx_feeds st1) = map sf_id (sx_feeds st) @ [sx_next st]"
      "map sf_key (sx_feeds st1) = map sf_key (sx_feeds st) @ [feed_key_of s]"
      using feed_pairs [of "sx_feeds st1" "sx_feeds st" "[(sx_next st, feed_key_of s)]"] by simp_all
    have s: "sf_id ` set (sx_feeds st1) = insert (sx_next st) (sf_id ` set (sx_feeds st))"
      using arg_cong [OF m(1), of set] by simp
    have lt: "\<forall>x \<in> sf_id ` set (sx_feeds st). x < sx_next st" using assms(1) by (simp add: sync_ok_def)
    then have "\<forall>x \<in> sf_id ` set (sx_feeds st1). x < sx_next st1" unfolding s using new by auto
    moreover have "sx_next st \<notin> sf_id ` set (sx_feeds st)" using lt by blast
    moreover have "distinct (map sf_key (sx_feeds st1))" using assms(1) new by (simp add: m sync_ok_def)
    ultimately show ?thesis using assms(1) m(1) ids feeds' by (simp add: sync_ok_def)
  qed
  have keep: "\<exists>f \<in> set (sx_feeds st'). sf_id f = j \<and> sf_key f = k" if g: "g \<in> set (sx_feeds st)" "sf_id g = j" "sf_key g = k" for g j k
  proof -
    have "(j, k) \<in> set (map (\<lambda>f. (sf_id f, sf_key f)) (sx_feeds st))" using g by (auto intro!: image_eqI [of _ _ g])
    moreover obtain extra where "set (map (\<lambda>f. (sf_id f, sf_key f)) (sx_feeds st1))
        = set (map (\<lambda>f. (sf_id f, sf_key f)) (sx_feeds st) @ extra)" using ext by metis
    ultimately have "(j, k) \<in> set (map (\<lambda>f. (sf_id f, sf_key f)) (sx_feeds st1))"
      by (simp only: set_append Un_iff) simp
    then show ?thesis using feeds' by auto
  qed
  show "attached st' (so_id s) (feed_key_of s)"
  proof -
    obtain r where r: "r \<in> set (sx_sources st)" "so_id r = so_id s" "so_user_id r = so_user_id s"
      using assms(2) by (auto simp: has_row_def)
    then have "attach_source i b now s \<in> set (sx_sources st')"
      unfolding shape(1) by (auto simp: put_source_def shape(2) intro!: image_eqI [of _ _ r])
    then show ?thesis using f feeds' unfolding attached_def
      by (intro bexI [of _ "attach_source i b now s"]) auto
  qed
  show "attached st' i k" if i: "i \<noteq> so_id s" and a: "attached st i k" for i k
  proof -
    obtain t f where t: "t \<in> set (sx_sources st)" "so_id t = i" "so_feed_id t = Some (sf_id f)" and g: "f \<in> set (sx_feeds st)" "sf_key f = k"
      using a by (auto simp: attached_def)
    have "t \<in> set (sx_sources st')"
      using t i unfolding shape(1) by (auto simp: put_source_def shape(2) intro!: image_eqI [of _ _ t])
    moreover obtain f' where "f' \<in> set (sx_feeds st')" "sf_id f' = sf_id f" "sf_key f' = k" using keep [OF g(1) refl g(2)] by auto
    ultimately show ?thesis using t(2,3) unfolding attached_def by (intro bexI [of _ t] conjI bexI [of _ f']) simp_all
  qed
  show "has_row st' t = has_row st t"
    by (simp only: shape(1) has_row_put) (simp add: has_row_def shape(2))
qed

lemma sync_all_ok:
  assumes "sync_all now ss st = Inr (n, st')" "sync_ok st" "\<forall>s \<in> set ss. has_row st s" "distinct (map so_id ss)"
  shows "sync_ok st' \<and> n = length ss \<and> (\<forall>s \<in> set ss. attached st' (so_id s) (feed_key_of s))
    \<and> (\<forall>i k. attached st i k \<longrightarrow> i \<notin> so_id ` set ss \<longrightarrow> attached st' i k)"
  using assms
proof (induction ss arbitrary: st n)
  case Nil
  then show ?case by simp
next
  case (Cons s ss)
  obtain st1 m where one: "sync_one now s st = Inr st1" and all: "sync_all now ss st1 = Inr (m, st')" and n: "n = m + 1"
    using Cons.prems(1) by (cases "sync_one now s st"; cases "sync_all now ss (projr (sync_one now s st))") auto
  have row: "has_row st s" using Cons.prems(3) by simp
  note step = sync_one_ok [OF Cons.prems(2) row one]
  have IH: "sync_ok st' \<and> m = length ss \<and> (\<forall>s \<in> set ss. attached st' (so_id s) (feed_key_of s))
    \<and> (\<forall>i k. attached st1 i k \<longrightarrow> i \<notin> so_id ` set ss \<longrightarrow> attached st' i k)"
    by (rule Cons.IH [OF all step(1)]) (use Cons.prems(3,4) step(4) in simp_all)
  have "attached st' (so_id s) (feed_key_of s)" using IH step(2) Cons.prems(4) by auto
  moreover have "attached st' i k" if "attached st i k" "i \<notin> so_id ` set (s # ss)" for i k
    using IH step(3) that by auto
  ultimately show ?case using IH n by auto
qed

text \<open>
  Attaching subscriptions to shared feeds keeps one feed per address: every active source without a feed gets the
  feed with its address, found or made, and no two feeds ever have the same address or id.
\<close>

theorem sync_shares_feeds:
  assumes "sync_ok st" "sync_feeds user now st = Inr (n, st')"
  shows "sync_ok st'
    \<and> (\<forall>s \<in> set (sx_sources st). pending_source user s \<longrightarrow> attached st' (so_id s) (feed_key_of s))"
proof -
  have "\<forall>s \<in> set (filter (pending_source user) (sx_sources st)). has_row st s" by (auto simp: has_row_def)
  moreover have "distinct (map so_id (filter (pending_source user) (sx_sources st)))"
    using assms(1) by (simp add: sync_ok_def distinct_map_filter)
  ultimately have "sync_ok st' \<and> n = length (filter (pending_source user) (sx_sources st))
    \<and> (\<forall>s \<in> set (filter (pending_source user) (sx_sources st)). attached st' (so_id s) (feed_key_of s))
    \<and> (\<forall>i k. attached st i k \<longrightarrow> i \<notin> so_id ` set (filter (pending_source user) (sx_sources st)) \<longrightarrow> attached st' i k)"
    using sync_all_ok [OF _ assms(1)] assms(2) unfolding sync_feeds_def by blast
  then show ?thesis by auto
qed

subsection \<open>Examples\<close>

definition empty_sources :: sources_state where
  "empty_sources = \<lparr>sx_sources = [], sx_feeds = [], sx_suggestions = [],
     sx_graph = \<lparr>gd_nodes = [], gd_edges = [], gd_sources = [], gd_trusts = [], gd_platforms = [], gd_cache = (\<lambda>_. None),
                 gd_next_id = 0\<rparr>,
     sx_events = [], sx_queue = [], sx_jobs = (\<lambda>_. None), sx_payloads = (\<lambda>_. None), sx_counters = (\<lambda>_. None),
     sx_paused = (\<lambda>_. None), sx_next = 0\<rparr>"

definition two_readers :: sources_state where
  "two_readers = empty_sources\<lparr>sx_sources := [blank_source 0 7 ''https://a.org/feed'' 0, blank_source 1 8 ''https://a.org/feed'' 0],
     sx_next := 2\<rparr>"

lemma two_readers_sync: "\<exists>n st'. sync_feeds None 5 two_readers = Inr (n, st') \<and> length (sx_feeds st') = 1"
proof -
  have r: "is_dead_reddit_feed (Some ''https://a.org/feed'') 5 = Inr False" by code_simp
  show ?thesis
    by (simp add: sync_feeds_def two_readers_def empty_sources_def pending_source_def blank_source_def sync_one_def
        feed_key_of_def r put_source_def attach_source_def new_feed_def)
qed

theorem sync_shares_feeds_witness:
  "\<exists>n st'. sync_feeds None 5 two_readers = Inr (n, st') \<and> attached st' 0 ''https://a.org/feed'' \<and> attached st' 1 ''https://a.org/feed''"
proof -
  obtain n st' where s: "sync_feeds None 5 two_readers = Inr (n, st')" using two_readers_sync by blast
  have ok: "sync_ok two_readers" by (simp add: sync_ok_def two_readers_def empty_sources_def blank_source_def)
  have "attached st' (so_id x) (feed_key_of x)" if "x \<in> set (sx_sources two_readers)" "pending_source None x" for x
    using sync_shares_feeds [OF ok s] that by blast
  from this [of "blank_source 0 7 ''https://a.org/feed'' 0"] this [of "blank_source 1 8 ''https://a.org/feed'' 0"]
  have "attached st' 0 ''https://a.org/feed'' \<and> attached st' 1 ''https://a.org/feed''"
    by (simp add: two_readers_def pending_source_def blank_source_def feed_key_of_def)
  with s show ?thesis by blast
qed

text \<open>A hosted account that may have two sources.\<close>

definition small_account :: account where
  "small_account = example_account\<lparr>ac_quota_overrides := [''sources'' \<mapsto> 2], ac_trial_ends_at := Some 1000\<rparr>"

definition small_env :: sources_env where
  "small_env = \<lparr>se_billing = example_settings, se_abuse = \<lparr>ab_hosted = True, ab_fetch_budget_per_hour = 0,
     ab_host_polls_per_hour = 0, ab_max_sources_per_host = 0, ab_inbound_max_message_bytes = 0, ab_inbound_per_day = 0,
     ab_inbound_mb_per_day = 0\<rparr>, se_user = small_account, se_now = 50, se_redis = Up, se_cache_up = True,
     se_metrics = False, se_show_uuid = (\<lambda>_. ''u'')\<rparr>"

lemma small_limit: "limit (se_billing small_env) (se_user small_env) (se_now small_env) Sources = 2"
  by (simp add: limit_def small_env_def small_account_def)


text \<open>
  The first importer checks the distinct addresses of the file but stores a row for every outline: a file that names one
  feed three times takes the account to three sources, past its limit of two.
\<close>

definition one_outline :: outline where
  "one_outline = \<lparr>ou_url = Some ''https://a.org/feed'', ou_feed = None, ou_title = None, ou_tags = []\<rparr>"

lemma import_passes_the_limit:
  "\<exists>st'. import_opml small_env [one_outline, one_outline, one_outline] empty_sources = Inr (3, st')
     \<and> length (sources_of 1 st') = 3"
proof -
  have u: "outline_url one_outline = ''https://a.org/feed''"
    by (simp add: outline_url_def one_outline_def nonempty_or_def)
  have c: "enforce_capacity small_env [''https://a.org/feed''] empty_sources = Inr ()"
    using small_limit by (simp add: enforce_capacity_def enforce_sources_per_host_def enforce_source_limit_def sources_of_def
        empty_sources_def is_paused_def Let_def) (simp add: small_env_def small_account_def example_account_def
        effective_plan_def PAID_TIERS_def later_def some_and_def)
  show ?thesis
    by (simp add: import_opml_def u c) (simp add: plain_source_def blank_source_def add_source_row_def empty_sources_def
        sources_of_def added_event_def fetch_new_sources_soon_def small_env_def small_account_def example_account_def u)
qed

end
