(* ===== verification/Suggestions.thy ===== *)
theory Suggestions
  imports Subscriptions
begin

text \<open>
  The pool of suggested sources, \<open>services/cold_start/discover_sources.py\<close>: candidates from finished discovery items
  and from the starter packs of a reader's strongest topics. A suggestion is pending until the reader accepts or
  dismisses it; an address that has a row is never suggested again. \<open>later\<close> relates the states that the refresh and the
  reader's decisions connect.
\<close>

definition MAX_PENDING :: int where "MAX_PENDING = 5"

type_synonym candidate_source = "string \<times> string \<times> string"

text \<open>The sources of others whose discovery items the reader has finished, with the title of such an item.\<close>

definition finished_discovery :: "nat \<Rightarrow> interaction list \<Rightarrow> content_item \<Rightarrow> bool" where
  "finished_discovery user ixs c \<longleftrightarrow> ci_origin c = FromDiscovery
     \<and> list_ex (\<lambda>ix. ix_content_item_id ix = ci_id c \<and> ix_user_id ix = user
                     \<and> some_and (ix_read_completion_pct ix) (\<lambda>p. 0.85 \<le> p)) ixs"

definition discovery_sources ::
  "nat \<Rightarrow> content_item list \<Rightarrow> interaction list \<Rightarrow> subscription list \<Rightarrow> (subscription \<times> string) list" where
  "discovery_sources user items ixs sources =
     take 10 (concat (map (\<lambda>s.
       case filter (\<lambda>c. ci_source_id c = Some (so_id s) \<and> finished_discovery user ixs c) items of
         [] \<Rightarrow> [] | c # _ \<Rightarrow> [(s, ci_title c)])
       (filter (\<lambda>s. so_user_id s \<noteq> user) sources)))"

fun read_candidates :: "(subscription \<times> string) list \<Rightarrow> string list \<Rightarrow> candidate_source list \<times> string list" where
  "read_candidates [] known = ([], known)"
| "read_candidates ((s, title) # rows) known =
     (let url = feed_key_of s
      in if url \<in> set known \<or> fr_url s \<in> set known then read_candidates rows known
         else
           let (cs, known) = read_candidates rows (url # known)
           in ((url, nonempty_or (so_name s) url, ''You fully read '' @ take 60 title) # cs, known))"

text \<open>\<open>text.split()\<close>\<close>

definition words_of :: "string \<Rightarrow> string list" where
  "words_of s = filter (\<lambda>w. w \<noteq> []) (split_char CHR '' '' (map (\<lambda>c. if is_space_char c then CHR '' '' else c) s))"

definition top_topics :: "nat \<Rightarrow> graph_db \<Rightarrow> string list" where
  "top_topics user db =
     map (\<lambda>n. lower (in_topic_label n)) (take 5 (sort_desc in_weight (filter (\<lambda>n. in_user_id n = user) (gd_nodes db))))"

definition pack_matches :: "string list \<Rightarrow> starter_pack \<Rightarrow> bool" where
  "pack_matches topics p \<longleftrightarrow>
     (let pack_words = words_of (lower (map (\<lambda>c. if c = CHR ''-'' then CHR '' '' else c) (pk_id p)))
      in topics = [] \<or> list_ex (\<lambda>t. list_ex (\<lambda>w. w \<in> set pack_words) (words_of t)) topics)"

fun pack_feed_candidates ::
  "string \<Rightarrow> pack_feed list \<Rightarrow> candidate_source list \<times> string list \<Rightarrow> candidate_source list \<times> string list" where
  "pack_feed_candidates title [] st = st"
| "pack_feed_candidates title (f # fs) (cs, known) =
     (if pf_url f \<notin> set known \<and> length cs < 30
      then pack_feed_candidates title fs (cs @ [(pf_url f, pf_name f, ''Matches your '' @ title @ '' interests'')], pf_url f # known)
      else pack_feed_candidates title fs (cs, known))"

fun pack_candidates ::
  "string list \<Rightarrow> starter_pack list \<Rightarrow> candidate_source list \<times> string list \<Rightarrow> candidate_source list \<times> string list" where
  "pack_candidates topics [] st = st"
| "pack_candidates topics (p # ps) st =
     (if \<not> pack_matches topics p then pack_candidates topics ps st
      else
        let st = pack_feed_candidates (pk_title p) (pk_feeds p) st
        in if 30 \<le> length (fst st) then st else pack_candidates topics ps st)"

definition pending_of :: "nat \<Rightarrow> sources_state \<Rightarrow> suggestion list" where
  "pending_of user st = filter (\<lambda>g. sg_user_id g = user \<and> sg_status g = ''pending'') (sx_suggestions st)"

text \<open>\<open>INSERT ... ON CONFLICT DO NOTHING\<close> on reader and address.\<close>

definition insert_suggestion :: "nat \<Rightarrow> moment \<Rightarrow> candidate_source \<Rightarrow> nat \<times> sources_state \<Rightarrow> nat \<times> sources_state" where
  "insert_suggestion user now c r =
     (let (url, name, reason) = c; (n, st) = r
      in if list_ex (\<lambda>g. sg_user_id g = user \<and> sg_url g = url) (sx_suggestions st) then (n, st)
         else (n + 1, st\<lparr>sx_suggestions := sx_suggestions st @ [\<lparr>sg_id = sx_next st, sg_user_id = user, sg_url = url,
                  sg_name = take 200 name, sg_reason = take 200 reason, sg_status = ''pending'', sg_created_at = now,
                  sg_decided_at = None\<rparr>], sx_next := sx_next st + 1\<rparr>))"

definition candidates_of ::
  "nat \<Rightarrow> starter_pack list \<Rightarrow> content_item list \<Rightarrow> interaction list \<Rightarrow> sources_state \<Rightarrow> candidate_source list" where
  "candidates_of user packs items ixs st =
     (let known = map sg_url (filter (\<lambda>g. sg_user_id g = user) (sx_suggestions st)) @ map fr_url (sources_of user st);
          read = read_candidates (discovery_sources user items ixs (sx_sources st)) known
      in fst (pack_candidates (top_topics user (sx_graph st)) packs read))"

definition refresh_suggestions ::
  "nat \<Rightarrow> moment \<Rightarrow> starter_pack list \<Rightarrow> content_item list \<Rightarrow> interaction list \<Rightarrow> sources_state \<Rightarrow> nat \<times> sources_state" where
  "refresh_suggestions user now packs items ixs st =
     (let room = max 0 (MAX_PENDING - int (length (pending_of user st)))
      in foldl (\<lambda>r c. insert_suggestion user now c r) (0, st)
           (take (nat room) (candidates_of user packs items ixs st)))"

definition get_discover_suggestions ::
  "nat \<Rightarrow> moment \<Rightarrow> starter_pack list \<Rightarrow> content_item list \<Rightarrow> interaction list \<Rightarrow> sources_state
    \<Rightarrow> suggestion list \<times> sources_state" where
  "get_discover_suggestions user now packs items ixs st =
     (let (_, st) = refresh_suggestions user now packs items ixs st in (pending_suggestions user st, st))"

subsection \<open>Decisions\<close>

inductive later :: "sources_state \<Rightarrow> sources_state \<Rightarrow> bool" where
  start: "later st st"
| refresh: "later st st1 \<Longrightarrow> refresh_suggestions user now packs items ixs st1 = (n, st2) \<Longrightarrow> later st st2"
| accept: "later st st1 \<Longrightarrow> accept_discover_suggestion e i st1 = Inr (s, st2) \<Longrightarrow> later st st2"
| dismiss: "later st st1 \<Longrightarrow> dismiss_discover_suggestion e i st1 = Inr (j, st2) \<Longrightarrow> later st st2"

definition suggestion_key :: "suggestion \<Rightarrow> nat \<times> string" where
  "suggestion_key g = (sg_user_id g, sg_url g)"

definition pool_ok :: "sources_state \<Rightarrow> bool" where
  "pool_ok st \<longleftrightarrow> distinct (map suggestion_key (sx_suggestions st)) \<and> distinct (map sg_id (sx_suggestions st))
     \<and> (\<forall>g \<in> set (sx_suggestions st). sg_id g < sx_next st) \<and> (\<forall>u. length (pending_of u st) \<le> 5)"

definition dismissed :: "sources_state \<Rightarrow> nat \<Rightarrow> nat \<Rightarrow> string \<Rightarrow> bool" where
  "dismissed st i user url \<longleftrightarrow>
     (\<exists>g \<in> set (sx_suggestions st). sg_id g = i \<and> suggestion_key g = (user, url) \<and> sg_status g = ''dismissed'')"

lemma insert_suggestion_ok:
  assumes "pool_ok st" "length (pending_of user st) < 5" "insert_suggestion user now c (n, st) = (m, st')"
  shows "pool_ok st'" "length (pending_of user st') \<le> length (pending_of user st) + 1"
    and "set (sx_suggestions st) \<subseteq> set (sx_suggestions st')"
proof -
  obtain url name reason where c: "c = (url, name, reason)" by (cases c)
  show "pool_ok st'" "length (pending_of user st') \<le> length (pending_of user st) + 1"
    "set (sx_suggestions st) \<subseteq> set (sx_suggestions st')"
    using assms
    by (auto simp: c insert_suggestion_def pool_ok_def pending_of_def suggestion_key_def list_ex_iff split: if_splits)
      (metis less_irrefl, metis less_SucI)
qed

lemma insert_all_ok:
  assumes "pool_ok st" "length cs + length (pending_of user st) \<le> 5"
    and "foldl (\<lambda>r c. insert_suggestion user now c r) (n, st) cs = (m, st')"
  shows "pool_ok st' \<and> set (sx_suggestions st) \<subseteq> set (sx_suggestions st')"
  using assms
proof (induction cs arbitrary: n st)
  case Nil
  then show ?case by simp
next
  case (Cons c cs)
  obtain n1 st1 where one: "insert_suggestion user now c (n, st) = (n1, st1)" by (meson surj_pair)
  have lt: "length (pending_of user st) < 5" using Cons.prems(2) by simp
  note step = insert_suggestion_ok [OF Cons.prems(1) lt one]
  have "pool_ok st' \<and> set (sx_suggestions st1) \<subseteq> set (sx_suggestions st')"
    by (rule Cons.IH [OF step(1)]) (use step(2) Cons.prems one in auto)
  then show ?case using step(3) by blast
qed

lemma refresh_ok:
  assumes "pool_ok st" "refresh_suggestions user now packs items ixs st = (n, st')"
  shows "pool_ok st' \<and> set (sx_suggestions st) \<subseteq> set (sx_suggestions st')"
proof -
  let ?cs = "take (nat (max 0 (MAX_PENDING - int (length (pending_of user st))))) (candidates_of user packs items ixs st)"
  have five: "length (pending_of user st) \<le> 5" using assms(1) by (simp add: pool_ok_def)
  have "length ?cs + length (pending_of user st) \<le> 5" using five by (simp add: MAX_PENDING_def)
  moreover have "foldl (\<lambda>r c. insert_suggestion user now c r) (0, st) ?cs = (n, st')"
    using assms(2) by (simp add: refresh_suggestions_def)
  ultimately show ?thesis by (rule insert_all_ok [OF assms(1)])
qed

text \<open>A decision rewrites one row, which keeps its key and is no longer pending.\<close>

definition decided :: "suggestion \<Rightarrow> string \<Rightarrow> sources_state \<Rightarrow> sources_state \<Rightarrow> bool" where
  "decided g status st st' \<longleftrightarrow> g \<in> set (sx_suggestions st) \<and> sx_next st \<le> sx_next st'
     \<and> (\<exists>t. sx_suggestions st' = map (\<lambda>h. if sg_id h = sg_id g then g\<lparr>sg_status := status, sg_decided_at := Some t\<rparr> else h)
                                   (sx_suggestions st))"

lemma decided_ok:
  assumes ok: "pool_ok st" and d: "decided g status st st'" and s: "status \<noteq> ''pending''"
  shows "pool_ok st'"
proof -
  obtain t where t: "sx_suggestions st' = map (\<lambda>h. if sg_id h = sg_id g then g\<lparr>sg_status := status, sg_decided_at := Some t\<rparr> else h)
      (sx_suggestions st)" using d by (auto simp: decided_def)
  have g: "g \<in> set (sx_suggestions st)" and nxt: "sx_next st \<le> sx_next st'" using d by (auto simp: decided_def)
  have inj: "h = g" if "h \<in> set (sx_suggestions st)" "sg_id h = sg_id g" for h
    using ok that g by (auto simp: pool_ok_def distinct_map inj_on_def)
  have key: "map suggestion_key (sx_suggestions st') = map suggestion_key (sx_suggestions st)"
    unfolding t by (auto simp: suggestion_key_def dest: inj)
  have ids: "map sg_id (sx_suggestions st') = map sg_id (sx_suggestions st)"
    unfolding t by auto
  have lt: "\<forall>x \<in> sg_id ` set (sx_suggestions st'). x < sx_next st'"
  proof -
    have "sg_id ` set (sx_suggestions st') = sg_id ` set (sx_suggestions st)" using arg_cong [OF ids, of set] by simp
    moreover have "\<forall>x \<in> sg_id ` set (sx_suggestions st). x < sx_next st" using ok by (simp add: pool_ok_def)
    ultimately show ?thesis using nxt by (auto intro: less_le_trans)
  qed
  have "length (filter P (map (\<lambda>h. if sg_id h = sg_id g then g\<lparr>sg_status := status, sg_decided_at := Some t\<rparr> else h) hs))
      \<le> length (filter P hs)" if "P = (\<lambda>g. sg_user_id g = u \<and> sg_status g = ''pending'')" for P u hs
    using that s by (induction hs) auto
  then have "length (pending_of u st') \<le> length (pending_of u st)" for u
    by (simp add: pending_of_def t)
  then have "\<forall>u. length (pending_of u st') \<le> 5" using ok unfolding pool_ok_def by (meson le_trans)
  then show ?thesis using ok key ids lt by (simp add: pool_ok_def)
qed

lemma decided_dismissed:
  assumes "dismissed st i u url" "decided g status st st'" "pool_ok st"
    and "sg_status g = ''dismissed'' \<Longrightarrow> status = ''dismissed''"
  shows "dismissed st' i u url"
proof -
  obtain h where h: "h \<in> set (sx_suggestions st)" "sg_id h = i" "suggestion_key h = (u, url)" "sg_status h = ''dismissed''"
    using assms(1) by (auto simp: dismissed_def)
  obtain t where t: "sx_suggestions st' = map (\<lambda>h. if sg_id h = sg_id g then g\<lparr>sg_status := status, sg_decided_at := Some t\<rparr> else h)
      (sx_suggestions st)" and g: "g \<in> set (sx_suggestions st)" using assms(2) by (auto simp: decided_def)
  show ?thesis
  proof (cases "sg_id h = sg_id g")
    case True
    then have "h = g" using assms(3) h(1) g by (auto simp: pool_ok_def distinct_map inj_on_def)
    then have "g\<lparr>sg_status := status, sg_decided_at := Some t\<rparr> \<in> set (sx_suggestions st')" using t h(1) by force
    then show ?thesis using h assms(4) \<open>h = g\<close> unfolding dismissed_def
      by (intro bexI [of _ "g\<lparr>sg_status := status, sg_decided_at := Some t\<rparr>"]) (auto simp: suggestion_key_def)
  next
    case False
    then have "h \<in> set (sx_suggestions st')" using t h(1) by force
    then show ?thesis using h unfolding dismissed_def by blast
  qed
qed

lemma accept_decides:
  assumes "accept_discover_suggestion e i st = Inr (s, st')"
  shows "\<exists>g. sg_status g = ''pending'' \<and> decided g ''accepted'' st st'"
proof -
  obtain g where g: "find_suggestion i (ac_id (se_user e)) st = Some g"
    using assms by (cases "find_suggestion i (ac_id (se_user e)) st") (simp_all add: accept_discover_suggestion_def)
  have "g \<in> set (sx_suggestions st)" using g by (auto simp: find_suggestion_def find_Some_iff)
  then show ?thesis using assms g
    by (intro exI [of _ g])
      (auto simp: accept_discover_suggestion_def and_then_eq_Inr Let_def decided_def put_suggestion_def add_source_row_def
        split: if_splits)
qed

lemma dismiss_decides:
  assumes "dismiss_discover_suggestion e i st = Inr (j, st')"
  shows "\<exists>g. decided g ''dismissed'' st st'"
proof -
  obtain g where g: "find_suggestion i (ac_id (se_user e)) st = Some g"
    using assms by (cases "find_suggestion i (ac_id (se_user e)) st") (simp_all add: dismiss_discover_suggestion_def)
  have "g \<in> set (sx_suggestions st)" using g by (auto simp: find_suggestion_def find_Some_iff)
  then show ?thesis using assms g
    by (intro exI [of _ g]) (auto simp: dismiss_discover_suggestion_def decided_def put_suggestion_def)
qed

lemma later_ok:
  "later st st' \<Longrightarrow> pool_ok st \<Longrightarrow> pool_ok st' \<and> (dismissed st i u url \<longrightarrow> dismissed st' i u url)"
proof (induction rule: later.induct)
  case (start st)
  then show ?case by simp
next
  case (refresh st st1 user now packs items ixs n st2)
  then have "pool_ok st1" and keep: "dismissed st i u url \<longrightarrow> dismissed st1 i u url" by simp_all
  from refresh_ok [OF this(1) refresh.hyps(2)] keep show ?case unfolding dismissed_def by blast
next
  case (accept st st1 e i' s st2)
  then have ok: "pool_ok st1" and keep: "dismissed st i u url \<longrightarrow> dismissed st1 i u url" by simp_all
  obtain g where g: "sg_status g = ''pending''" "decided g ''accepted'' st1 st2"
    using accept_decides [OF accept.hyps(2)] by blast
  have "pool_ok st2" by (rule decided_ok [OF ok g(2)]) simp
  moreover have "dismissed st1 i u url \<Longrightarrow> dismissed st2 i u url"
    by (erule decided_dismissed [OF _ g(2) ok]) (simp add: g(1))
  ultimately show ?case using keep by blast
next
  case (dismiss st st1 e i' j st2)
  then have ok: "pool_ok st1" and keep: "dismissed st i u url \<longrightarrow> dismissed st1 i u url" by simp_all
  obtain g where g: "decided g ''dismissed'' st1 st2" using dismiss_decides [OF dismiss.hyps(2)] by blast
  have "pool_ok st2" by (rule decided_ok [OF ok g]) simp
  moreover have "dismissed st1 i u url \<Longrightarrow> dismissed st2 i u url"
    by (erule decided_dismissed [OF _ g ok]) simp
  ultimately show ?case using keep by blast
qed

text \<open>
  C25. A dismissal is permanent: once a reader has dismissed an address, no refresh and no decision ever makes a
  suggestion of that address pending again, and a reader never has more than five pending suggestions.
\<close>

theorem dismissals_are_permanent:
  assumes "later st st'" "pool_ok st" "dismissed st i u url"
  shows "(\<forall>g \<in> set (sx_suggestions st'). suggestion_key g = (u, url) \<longrightarrow> sg_status g = ''dismissed'')
    \<and> length (pending_of v st') \<le> 5"
proof -
  have ok: "pool_ok st'" and d: "dismissed st' i u url" using later_ok [OF assms(1,2), of i u url] assms(3) by simp_all
  obtain h where h: "h \<in> set (sx_suggestions st')" "suggestion_key h = (u, url)" "sg_status h = ''dismissed''"
    using d by (auto simp: dismissed_def)
  have same: "g = h" if "g \<in> set (sx_suggestions st')" "suggestion_key g = (u, url)" for g
  proof -
    have "inj_on suggestion_key (set (sx_suggestions st'))" using ok by (simp add: pool_ok_def distinct_map)
    then show ?thesis by (rule inj_onD) (use that h in simp_all)
  qed
  show ?thesis
  proof (intro conjI ballI impI)
    fix g
    assume "g \<in> set (sx_suggestions st')" "suggestion_key g = (u, url)"
    from same [OF this] h(3) show "sg_status g = ''dismissed''" by simp
  next
    show "length (pending_of v st') \<le> 5" using ok unfolding pool_ok_def by blast
  qed
qed

subsection \<open>Examples\<close>

definition one_pack :: starter_pack where
  "one_pack = \<lparr>pk_id = ''ai'', pk_title = ''AI'', pk_feeds = [\<lparr>pf_name = ''A'', pf_url = ''https://a.org/feed'',
     pf_feed_url = ''https://a.org/feed''\<rparr>]\<rparr>"

definition dismissed_pool :: sources_state where
  "dismissed_pool = empty_sources\<lparr>sx_suggestions := [\<lparr>sg_id = 0, sg_user_id = 1, sg_url = ''https://a.org/feed'',
     sg_name = ''A'', sg_reason = ''r'', sg_status = ''dismissed'', sg_created_at = 0, sg_decided_at = Some 1\<rparr>], sx_next := 1\<rparr>"

theorem dismissals_are_permanent_witness:
  "filter (\<lambda>g. suggestion_key g = (1, ''https://a.org/feed'') \<and> sg_status g \<noteq> ''dismissed'')
     (sx_suggestions (snd (refresh_suggestions 1 9 [one_pack] [] [] dismissed_pool))) = []"
proof -
  have ok: "pool_ok dismissed_pool" "dismissed dismissed_pool 0 1 ''https://a.org/feed''"
    by (simp_all add: pool_ok_def dismissed_pool_def pending_of_def dismissed_def suggestion_key_def)
  have "later dismissed_pool (snd (refresh_suggestions 1 9 [one_pack] [] [] dismissed_pool))"
    by (rule later.refresh [OF later.start, of 1 9 "[one_pack]" "[]" "[]" dismissed_pool
          "fst (refresh_suggestions 1 9 [one_pack] [] [] dismissed_pool)"]) simp
  from dismissals_are_permanent [OF this ok] show ?thesis unfolding filter_empty_conv by blast
qed

text \<open>
  The addresses taken as followed are those of the pages, not of the feeds: a reader who follows a feed through its
  page is offered the same feed again when it comes from somebody's other page.
\<close>

definition followed_by_page :: sources_state where
  "followed_by_page = empty_sources\<lparr>sx_sources :=
     [(blank_source 0 1 ''https://x.org'' 0)\<lparr>fr_feed_url := Some ''https://x.org/feed''\<rparr>,
      (blank_source 1 2 ''https://x.org/blog'' 0)\<lparr>fr_feed_url := Some ''https://x.org/feed''\<rparr>], sx_next := 2\<rparr>"

lemma suggests_a_followed_feed:
  "read_candidates [(sx_sources followed_by_page ! 1, ''T'')] (map fr_url (sources_of 1 followed_by_page))
    = ([(''https://x.org/feed'', ''https://x.org/feed'', ''You fully read T'')],
       [''https://x.org/feed'', ''https://x.org''])"
  by (simp add: followed_by_page_def sources_of_def blank_source_def feed_key_of_def nonempty_or_def Let_def)

end
