(* ===== verification/Evaluation.thy ===== *)
theory Evaluation
  imports Builder
begin

text \<open>
  Does the score predict what is read? \<open>services/ranking/evaluation.py\<close>: the area under the ROC curve from average
  ranks, Spearman's correlation, and the evaluation of a reader's digests. The ranks of the code (sort, then one loop over
  the groups of ties) are related to counts of smaller and equal scores, which gives the pairwise reading of the area.
\<close>

subsection \<open>The code\<close>

text \<open>The last position of the ties that start at \<open>i\<close>.\<close>

function group_end :: "real list \<Rightarrow> nat list \<Rightarrow> nat \<Rightarrow> nat \<Rightarrow> nat" where
  "group_end vs order i j =
     (if j + 1 < length order \<and> vs ! (order ! (j + 1)) = vs ! (order ! i)
      then group_end vs order i (j + 1) else j)"
  by pat_completeness auto
termination by (relation "measure (\<lambda>(_, order, _, j). length order - j)") auto

declare group_end.simps [simp del]

definition set_ranks :: "nat list \<Rightarrow> real \<Rightarrow> nat \<Rightarrow> nat \<Rightarrow> real list \<Rightarrow> real list" where
  "set_ranks order avg i j ranks = foldl (\<lambda>ranks k. ranks[order ! k := avg]) ranks [i ..< j + 1]"

lemma group_end_ge: "j \<le> group_end vs order i j"
proof (induction vs order i j rule: group_end.induct)
  case (1 vs order i j)
  then show ?case by (subst group_end.simps) auto
qed

function rank_loop :: "real list \<Rightarrow> nat list \<Rightarrow> nat \<Rightarrow> real list \<Rightarrow> real list" where
  "rank_loop vs order i ranks =
     (if i < length order then
        let j = group_end vs order i i;
            avg = real (i + j) / 2 + 1
        in rank_loop vs order (j + 1) (set_ranks order avg i j ranks)
      else ranks)"
  by pat_completeness auto
termination
  by (relation "measure (\<lambda>(_, order, i, _). length order - i)") (use group_end_ge in \<open>auto simp: less_Suc_eq_le diff_less_mono2 le_imp_less_Suc\<close>)

declare rank_loop.simps [simp del]

definition average_ranks :: "real list \<Rightarrow> real list" where
  "average_ranks vs =
     rank_loop vs (sort_key (\<lambda>i. vs ! i) [0 ..< length vs]) 0 (replicate (length vs) 0)"

text \<open>\<open>zip(..., strict=True)\<close> of lists of different lengths raises.\<close>

definition read_prediction_auc :: "real list \<Rightarrow> bool list \<Rightarrow> py_error + real option" where
  "read_prediction_auc scores labels =
     (if length scores \<noteq> length labels then Inl ValueError
      else
        let pos = map fst (filter snd (zip scores labels));
            neg = map fst (filter (\<lambda>p. \<not> snd p) (zip scores labels))
        in if pos = [] \<or> neg = [] then Inr None
           else
             let ranks = average_ranks scores;
                 pos_rank_sum = sum_list (map fst (filter snd (zip ranks labels)));
                 n_pos = real (length pos); n_neg = real (length neg);
                 u = pos_rank_sum - n_pos * (n_pos + 1) / 2
             in Inr (Some (u / (n_pos * n_neg))))"

definition mean_of :: "real list \<Rightarrow> real" where
  "mean_of a = sum_list a / real (length a)"

definition pearson :: "real list \<Rightarrow> real list \<Rightarrow> real option" where
  "pearson a b =
     (let ma = mean_of a; mb = mean_of b;
          cov = sum_list (map2 (\<lambda>x y. (x - ma) * (y - mb)) a b);
          va = sum_list (map (\<lambda>x. (x - ma)\<^sup>2) a); vb = sum_list (map (\<lambda>y. (y - mb)\<^sup>2) b)
      in if va = 0 \<or> vb = 0 then None else Some (cov / (sqrt va * sqrt vb)))"

definition spearman :: "real list \<Rightarrow> real list \<Rightarrow> real option" where
  "spearman x y = (if length x < 2 then None else pearson (average_ranks x) (average_ranks y))"

record ranking_eval =
  re_n :: nat
  re_read_prediction_auc :: "real option"
  re_spearman_completion :: "real option"
  re_positives :: nat
  re_no_learning_auc :: "real option"
  re_oracle_auc :: "real option"
  re_chance_auc :: "real option"

definition no_learning_score :: "breakdown \<Rightarrow> real" where
  "no_learning_score b =
     (let vals = concat (map (\<lambda>s. case bd_features b s of None \<Rightarrow> [] | Some v \<Rightarrow> [v]) SIGNALS)
      in if vals \<noteq> [] then mean_of vals else 0.5)"

text \<open>The rows of the join: the items of the reader's digests since a moment, with what became of them.\<close>

definition evaluated_rows :: "moment \<Rightarrow> nat \<Rightarrow> digest list \<Rightarrow> digest_item list \<Rightarrow> interaction list \<Rightarrow> (digest_item \<times> interaction) list" where
  "evaluated_rows since user digests items ixs =
     concat (map (\<lambda>d. concat (map (\<lambda>i. map (\<lambda>ix. (i, ix))
         (filter (\<lambda>ix. ix_content_item_id ix = di_content_item_id i \<and> ix_user_id ix = dg_user_id d) ixs))
       (filter (\<lambda>i. di_digest_id i = dg_id d) items)))
     (filter (\<lambda>d. dg_user_id d = user \<and> since \<le> dg_generated_at d) digests))"

definition known_auc :: "py_error + real option \<Rightarrow> real option" where
  "known_auc r = (case r of Inl _ \<Rightarrow> None | Inr x \<Rightarrow> x)"

definition evaluate_user_ranking ::
  "moment \<Rightarrow> int \<Rightarrow> nat \<Rightarrow> digest list \<Rightarrow> digest_item list \<Rightarrow> interaction list \<Rightarrow> ranking_eval" where
  "evaluate_user_ranking now window user digests items ixs =
     (let rows = evaluated_rows (now - 86400 * of_int window) user digests items ixs;
          scores = map (\<lambda>(i, _). di_prs_score i) rows;
          opened = map (\<lambda>(_, ix). ix_opened_at ix \<noteq> None) rows;
          completed = filter (\<lambda>(_, ix). ix_read_completion_pct ix \<noteq> None) rows;
          auc = known_auc (read_prediction_auc scores opened)
      in \<lparr>re_n = length rows, re_read_prediction_auc = auc,
          re_spearman_completion = spearman (map (\<lambda>(i, _). di_prs_score i) completed)
                                            (map (\<lambda>(_, ix). or_default (ix_read_completion_pct ix) 0) completed),
          re_positives = length (filter id opened),
          re_no_learning_auc = (if auc \<noteq> None
            then known_auc (read_prediction_auc (map (\<lambda>(i, _). no_learning_score (di_breakdown i)) rows) opened) else None),
          re_oracle_auc = (if auc \<noteq> None then Some 1 else None), re_chance_auc = (if auc \<noteq> None then Some 0.5 else None)\<rparr>)"

subsection \<open>Ranks are counts\<close>

definition below :: "real list \<Rightarrow> real \<Rightarrow> nat" where
  "below xs v = length (filter (\<lambda>x. x < v) xs)"

definition up_to :: "real list \<Rightarrow> real \<Rightarrow> nat" where
  "up_to xs v = length (filter (\<lambda>x. x \<le> v) xs)"

definition rank_of :: "real list \<Rightarrow> real \<Rightarrow> real" where
  "rank_of xs v = (real (below xs v) + real (up_to xs v) + 1) / 2"

lemma below_mset: "mset xs = mset ys \<Longrightarrow> below xs v = below ys v"
  unfolding below_def by (metis mset_filter size_mset)

lemma up_to_mset: "mset xs = mset ys \<Longrightarrow> up_to xs v = up_to ys v"
  unfolding up_to_def by (metis mset_filter size_mset)

text \<open>In a sorted list, a group of ties is a range of positions.\<close>

lemma below_sorted:
  assumes "\<forall>k < i. w ! k < v" "\<forall>k. i \<le> k \<longrightarrow> k < length w \<longrightarrow> v \<le> w ! k" "i \<le> length w"
  shows "below w v = i"
proof -
  have "{k. k < length w \<and> w ! k < v} = {..<i}" using assms by (auto simp: not_less [symmetric])
  then show ?thesis by (simp add: below_def length_filter_conv_card)
qed

lemma up_to_sorted:
  assumes "\<forall>k < i. w ! k \<le> v" "\<forall>k. i \<le> k \<longrightarrow> k < length w \<longrightarrow> v < w ! k" "i \<le> length w"
  shows "up_to w v = i"
proof -
  have "{k. k < length w \<and> w ! k \<le> v} = {..<i}" using assms by (auto simp: not_le [symmetric])
  then show ?thesis by (simp add: up_to_def length_filter_conv_card)
qed

lemma group_end_props:
  assumes "j < length ord" "\<forall>k. i \<le> k \<longrightarrow> k \<le> j \<longrightarrow> vs ! (ord ! k) = vs ! (ord ! i)"
  shows "group_end vs ord i j < length ord
    \<and> (\<forall>k. i \<le> k \<longrightarrow> k \<le> group_end vs ord i j \<longrightarrow> vs ! (ord ! k) = vs ! (ord ! i))
    \<and> (group_end vs ord i j + 1 < length ord \<longrightarrow> vs ! (ord ! (group_end vs ord i j + 1)) \<noteq> vs ! (ord ! i))"
  using assms
proof (induction vs ord i j rule: group_end.induct)
  case (1 vs ord i j)
  show ?case
  proof (cases "j + 1 < length ord \<and> vs ! (ord ! (j + 1)) = vs ! (ord ! i)")
    case True
    have more: "\<forall>k. i \<le> k \<longrightarrow> k \<le> j + 1 \<longrightarrow> vs ! (ord ! k) = vs ! (ord ! i)"
    proof (intro allI impI)
      fix k
      assume k: "i \<le> k" "k \<le> j + 1"
      show "vs ! (ord ! k) = vs ! (ord ! i)"
      proof (cases "k = j + 1")
        case False
        then have "k \<le> j" using k by simp
        with k(1) "1.prems"(2) show ?thesis by blast
      qed (use True in blast)
    qed
    have eq: "group_end vs ord i j = group_end vs ord i (j + 1)" using True by (subst group_end.simps) (rule if_P)
    show ?thesis unfolding eq by (rule "1.IH" [OF True conjunct1 [OF True] more])
  next
    case False
    then have eq: "group_end vs ord i j = j" by (subst group_end.simps) (rule if_not_P)
    show ?thesis unfolding eq
    proof (intro conjI)
      show "j < length ord" "\<forall>k. i \<le> k \<longrightarrow> k \<le> j \<longrightarrow> vs ! (ord ! k) = vs ! (ord ! i)" by (rule "1.prems")+
      show "j + 1 < length ord \<longrightarrow> vs ! (ord ! (j + 1)) \<noteq> vs ! (ord ! i)" using False by iprover
    qed
  qed
qed

lemma set_ranks_props:
  assumes "distinct ord" "j < length ord" "\<forall>x \<in> set ord. x < length ranks"
  shows "length (set_ranks ord avg i j ranks) = length ranks"
    and "k < length ord \<Longrightarrow> set_ranks ord avg i j ranks ! (ord ! k) = (if i \<le> k \<and> k \<le> j then avg else ranks ! (ord ! k))"
proof -
  have gen: "length (foldl (\<lambda>ranks k. ranks[ord ! k := avg]) ranks ks) = length ranks
      \<and> (k < length ord \<longrightarrow> foldl (\<lambda>ranks k. ranks[ord ! k := avg]) ranks ks ! (ord ! k)
           = (if k \<in> set ks then avg else ranks ! (ord ! k)))"
    if "\<forall>x \<in> set ord. x < length ranks" "\<forall>m \<in> set ks. m < length ord" for ks ranks k
    using that
  proof (induction ks arbitrary: ranks)
    case Nil
    then show ?case by simp
  next
    case (Cons m ks)
    have "\<forall>x \<in> set ord. x < length (ranks[ord ! m := avg])" using Cons.prems(1) by simp
    from Cons.IH [OF this] Cons.prems assms(1) show ?case
      by (auto simp: nth_list_update nth_eq_iff_index_eq)
  qed
  from gen [OF assms(3), of "[i ..< j + 1]"] assms(2)
  show "length (set_ranks ord avg i j ranks) = length ranks"
    and "k < length ord \<Longrightarrow> set_ranks ord avg i j ranks ! (ord ! k) = (if i \<le> k \<and> k \<le> j then avg else ranks ! (ord ! k))"
    by (auto simp: set_ranks_def less_Suc_eq_le)
qed

text \<open>A position before which everything is smaller.\<close>

definition boundary :: "real list \<Rightarrow> nat \<Rightarrow> bool" where
  "boundary w i \<longleftrightarrow> i \<le> length w \<and> (\<forall>k < i. \<forall>m. i \<le> m \<longrightarrow> m < length w \<longrightarrow> w ! k < w ! m)"

lemma tie_group:
  assumes "sorted w" "boundary w i" "i \<le> j" "j < length w"
    and ties: "\<forall>k. i \<le> k \<longrightarrow> k \<le> j \<longrightarrow> w ! k = w ! i"
    and stop: "j + 1 < length w \<longrightarrow> w ! (j + 1) \<noteq> w ! i"
  shows "rank_of w (w ! i) = real (i + j) / 2 + 1" "boundary w (j + 1)"
proof -
  have less: "w ! k < w ! m" if k: "k < i" "i \<le> m" "m < length w" for k m
    using assms(2) k unfolding boundary_def by blast
  have i: "i < length w" using assms(3,4) by simp
  have up: "w ! i < w ! m" if m: "j + 1 \<le> m" "m < length w" for m
  proof -
    have "w ! i \<le> w ! (j + 1)" "w ! (j + 1) \<le> w ! m"
      using assms(1,3) m by (auto intro!: sorted_nth_mono)
    moreover have "w ! (j + 1) \<noteq> w ! i" using stop m by simp
    ultimately show ?thesis by linarith
  qed
  have low: "w ! k \<le> w ! i" if k: "k < j + 1" for k
  proof (cases "k < i")
    case True
    from less [OF this le_refl i] show ?thesis by simp
  next
    case False
    then have "i \<le> k" "k \<le> j" using k by simp_all
    with ties have "w ! k = w ! i" by blast
    then show ?thesis by (rule eq_refl)
  qed
  have "below w (w ! i) = i"
  proof (rule below_sorted)
    show "\<forall>k < i. w ! k < w ! i" using less [OF _ le_refl i] by blast
    show "\<forall>k. i \<le> k \<longrightarrow> k < length w \<longrightarrow> w ! i \<le> w ! k" using sorted_nth_mono [OF assms(1)] by blast
    show "i \<le> length w" using assms(3,4) by simp
  qed
  moreover have "up_to w (w ! i) = j + 1"
  proof (rule up_to_sorted)
    show "\<forall>k < j + 1. w ! k \<le> w ! i" using low by blast
    show "\<forall>k. j + 1 \<le> k \<longrightarrow> k < length w \<longrightarrow> w ! i < w ! k" using up by blast
    show "j + 1 \<le> length w" using assms(4) by simp
  qed
  ultimately show "rank_of w (w ! i) = real (i + j) / 2 + 1" by (simp add: rank_of_def)
  have "w ! k < w ! m" if "k < j + 1" "j + 1 \<le> m" "m < length w" for k m
    using low [OF that(1)] up [OF that(2,3)] by linarith
  then show "boundary w (j + 1)" using assms(4) by (simp add: boundary_def)
qed

lemma rank_loop_ok:
  assumes "distinct ord" "\<forall>x \<in> set ord. x < length ranks" "sorted (map (\<lambda>k. vs ! k) ord)"
    and "boundary (map (\<lambda>k. vs ! k) ord) i"
    and "\<forall>k < i. ranks ! (ord ! k) = rank_of (map (\<lambda>k. vs ! k) ord) (vs ! (ord ! k))"
  shows "length (rank_loop vs ord i ranks) = length ranks
    \<and> (\<forall>k < length ord. rank_loop vs ord i ranks ! (ord ! k) = rank_of (map (\<lambda>k. vs ! k) ord) (vs ! (ord ! k)))"
  using assms
proof (induction vs ord i ranks rule: rank_loop.induct)
  case (1 vs ord i ranks)
  let ?w = "map (\<lambda>k. vs ! k) ord"
  show ?case
  proof (cases "i < length ord")
    case False
    then have "i = length ord" using "1.prems"(4) by (simp add: boundary_def)
    then show ?thesis using "1.prems"(5) by (simp add: rank_loop.simps)
  next
    case True
    define j where "j = group_end vs ord i i"
    define avg where "avg = real (i + j) / 2 + 1"
    define ranks' where "ranks' = set_ranks ord avg i j ranks"
    have base: "\<forall>k. i \<le> k \<longrightarrow> k \<le> i \<longrightarrow> vs ! (ord ! k) = vs ! (ord ! i)" by (metis le_antisym)
    have g: "j < length ord" "\<forall>k. i \<le> k \<longrightarrow> k \<le> j \<longrightarrow> vs ! (ord ! k) = vs ! (ord ! i)"
      "j + 1 < length ord \<longrightarrow> vs ! (ord ! (j + 1)) \<noteq> vs ! (ord ! i)"
      unfolding j_def using group_end_props [OF True base] by blast+
    have ij: "i \<le> j" using group_end_ge by (simp add: j_def)
    have at_w: "?w ! k = vs ! (ord ! k)" if k: "k < length ord" for k using k by simp
    have "\<forall>k. i \<le> k \<longrightarrow> k \<le> j \<longrightarrow> ?w ! k = ?w ! i"
    proof (intro allI impI)
      fix k
      assume k: "i \<le> k" "k \<le> j"
      then have "vs ! (ord ! k) = vs ! (ord ! i)" using g(2) by blast
      then show "?w ! k = ?w ! i" using k(2) g(1) True at_w [of k] at_w [of i] by simp
    qed
    moreover have "j + 1 < length ?w \<longrightarrow> ?w ! (j + 1) \<noteq> ?w ! i" using g(3) True by simp
    moreover have "j < length ?w" using g(1) by simp
    ultimately have rank: "rank_of ?w (?w ! i) = avg" and bnd: "boundary ?w (j + 1)"
      using tie_group [OF "1.prems"(3,4) ij] unfolding avg_def by blast+
    have lens: "length ranks' = length ranks"
      and at_k: "k < length ord \<Longrightarrow> ranks' ! (ord ! k) = (if i \<le> k \<and> k \<le> j then avg else ranks ! (ord ! k))" for k
      using set_ranks_props [OF "1.prems"(1) g(1) "1.prems"(2)] by (simp_all add: ranks'_def)
    have filled: "\<forall>k < j + 1. ranks' ! (ord ! k) = rank_of ?w (vs ! (ord ! k))"
    proof (intro allI impI)
      fix k
      assume k: "k < j + 1"
      show "ranks' ! (ord ! k) = rank_of ?w (vs ! (ord ! k))"
      proof (cases "i \<le> k")
        case True
        have kj: "k \<le> j" using k by simp
        with True g(2) have "vs ! (ord ! k) = vs ! (ord ! i)" by blast
        then show ?thesis using at_k [of k] True kj g(1) rank at_w [OF \<open>i < length ord\<close>] by simp
      next
        case False
        then show ?thesis using at_k [of k] "1.prems"(5) k g(1) by simp
      qed
    qed
    have "\<forall>x \<in> set ord. x < length ranks'" using "1.prems"(2) lens by simp
    from "1.IH" [OF True j_def avg_def "1.prems"(1), folded ranks'_def, OF this "1.prems"(3) bnd filled]
    show ?thesis using True lens
      by (simp only: rank_loop.simps [of vs ord i] Let_def j_def [symmetric] avg_def [symmetric] ranks'_def [symmetric] if_True) simp
  qed
qed

lemma average_ranks_eq: "average_ranks vs = map (rank_of vs) vs"
proof -
  let ?n = "length vs"
  let ?ord = "sort_key (\<lambda>i. vs ! i) [0 ..< ?n]"
  let ?w = "map (\<lambda>k. vs ! k) ?ord"
  have "mset ?w = mset (map (\<lambda>k. vs ! k) [0 ..< ?n])" by simp
  then have m: "mset ?w = mset vs" by (simp add: map_nth)
  have r: "rank_of ?w v = rank_of vs v" for v
    unfolding rank_of_def using below_mset [OF m] up_to_mset [OF m] by simp
  have "length (rank_loop vs ?ord 0 (replicate ?n 0)) = length (replicate ?n (0 :: real))
    \<and> (\<forall>k < length ?ord. rank_loop vs ?ord 0 (replicate ?n 0) ! (?ord ! k) = rank_of ?w (vs ! (?ord ! k)))"
    by (rule rank_loop_ok) (auto simp: sorted_sort_key boundary_def)
  then have ok: "length (average_ranks vs) = ?n"
    "\<forall>k < length ?ord. average_ranks vs ! (?ord ! k) = rank_of ?w (vs ! (?ord ! k))"
    by (simp_all add: average_ranks_def)
  show ?thesis
  proof (rule nth_equalityI)
    show "length (average_ranks vs) = length (map (rank_of vs) vs)" using ok by simp
    fix i
    assume "i < length (average_ranks vs)"
    then have "i \<in> set ?ord" using ok by simp
    then obtain k where k: "k < length ?ord" "?ord ! k = i" unfolding in_set_conv_nth by blast
    then have "average_ranks vs ! i = rank_of ?w (vs ! i)" using ok(2) by blast
    then show "average_ranks vs ! i = map (rank_of vs) vs ! i"
      using k ok \<open>i < _\<close> by (simp add: r)
  qed
qed

subsection \<open>The area is the share of ordered pairs\<close>

text \<open>A read item beats an unread one, or ties with it.\<close>

definition wins :: "real \<Rightarrow> real \<Rightarrow> real" where
  "wins p q = (if q < p then 1 else if q = p then 1 / 2 else 0)"

definition pairwise_auc :: "real list \<Rightarrow> real list \<Rightarrow> real" where
  "pairwise_auc pos neg =
     sum_list (map (\<lambda>p. sum_list (map (wins p) neg)) pos) / (real (length pos) * real (length neg))"

definition chosen :: "bool \<Rightarrow> real list \<Rightarrow> bool list \<Rightarrow> real list" where
  "chosen b scores labels = map fst (filter (\<lambda>p. snd p = b) (zip scores labels))"

lemma chosen_map: "chosen b (map f scores) labels = map f (chosen b scores labels)"
  unfolding chosen_def by (induction scores labels rule: list_induct2') auto

lemma chosen_mset: "length scores = length labels \<Longrightarrow> mset scores = mset (chosen True scores labels @ chosen False scores labels)"
  unfolding chosen_def by (induction scores labels rule: list_induct2) auto

lemma below_append [simp]: "below (xs @ ys) v = below xs v + below ys v"
  by (simp add: below_def)

lemma up_to_append [simp]: "up_to (xs @ ys) v = up_to xs v + up_to ys v"
  by (simp add: up_to_def)

lemma below_sum: "real (below xs v) = sum_list (map (\<lambda>x. if x < v then 1 else 0) xs)"
  by (induction xs) (auto simp: below_def)

lemma up_to_sum: "real (up_to xs v) = sum_list (map (\<lambda>x. if x \<le> v then 1 else 0) xs)"
  by (induction xs) (auto simp: up_to_def)

lemma sum_list_swap:
  "sum_list (map (\<lambda>x. sum_list (map (\<lambda>y. f x y) ys)) xs) = (sum_list (map (\<lambda>y. sum_list (map (\<lambda>x. f x y) xs)) ys) :: real)"
  by (induction xs) (simp_all add: sum_list_addf)

text \<open>Among themselves, the \<open>n\<close> read items account for \<open>n (n + 1) / 2\<close> of their ranks.\<close>

lemma own_ranks:
  "sum_list (map (\<lambda>p. real (below xs p) + real (up_to xs p)) xs) = real (length xs) * real (length xs)"
proof -
  have "sum_list (map (\<lambda>p. real (below xs p)) xs) = sum_list (map (\<lambda>p. sum_list (map (\<lambda>q. if p < q then 1 else 0) xs)) xs)"
    unfolding below_sum by (rule sum_list_swap)
  then have "sum_list (map (\<lambda>p. real (below xs p) + real (up_to xs p)) xs)
    = sum_list (map (\<lambda>p. sum_list (map (\<lambda>q. (if p < q then 1 else 0) + (if q \<le> p then 1 else 0)) xs)) xs)"
    by (simp add: sum_list_addf up_to_sum)
  also have "\<dots> = sum_list (map (\<lambda>p. sum_list (map (\<lambda>q. 1) xs)) xs)"
    by (rule arg_cong [where f = sum_list], rule map_cong [OF refl], rule arg_cong [where f = sum_list], rule map_cong [OF refl]) auto
  finally show ?thesis by (simp add: sum_list_triv)
qed

lemma wins_sum: "sum_list (map (wins p) neg) = (real (below neg p) + real (up_to neg p)) / 2"
  by (induction neg) (auto simp: wins_def below_def up_to_def)

lemma positive_rank_sum:
  assumes "mset scores = mset (pos @ neg)"
  shows "sum_list (map (rank_of scores) pos) - real (length pos) * (real (length pos) + 1) / 2
    = sum_list (map (\<lambda>p. sum_list (map (wins p) neg)) pos)"
proof -
  have r: "rank_of scores p = (real (below pos p) + real (up_to pos p)) / 2 + 1 / 2 + sum_list (map (wins p) neg)" for p
    using below_mset [OF assms, of p] up_to_mset [OF assms, of p]
    by (simp add: rank_of_def wins_sum add_divide_distrib)
  have "sum_list (map (rank_of scores) pos)
    = sum_list (map (\<lambda>p. (real (below pos p) + real (up_to pos p)) / 2 + 1 / 2 + sum_list (map (wins p) neg)) pos)"
    by (rule arg_cong [where f = sum_list], rule map_cong [OF refl r])
  also have "\<dots> = sum_list (map (\<lambda>p. real (below pos p) + real (up_to pos p)) pos) / 2
      + real (length pos) / 2 + sum_list (map (\<lambda>p. sum_list (map (wins p) neg)) pos)"
  proof -
    have half: "sum_list (map (\<lambda>p. f p / 2) ps) = sum_list (map f ps) / 2" for f :: "real \<Rightarrow> real" and ps
      by (induction ps) (simp_all add: add_divide_distrib)
    show ?thesis by (simp add: sum_list_addf sum_list_triv half)
  qed
  finally show ?thesis by (simp add: own_ranks algebra_simps)
qed

text \<open>
  C24. The area under the ROC curve, which the code computes from average ranks, is the share of the pairs of a read and
  an unread item in which the read one has the higher score, ties counting one half; it exists exactly when there are
  both kinds of items, and lies between 0 and 1.
\<close>

theorem auc_is_pairwise:
  assumes "length scores = length labels" "True \<in> set labels" "False \<in> set labels"
  shows "\<exists>auc. read_prediction_auc scores labels = Inr (Some auc)
    \<and> auc = pairwise_auc (chosen True scores labels) (chosen False scores labels) \<and> 0 \<le> auc \<and> auc \<le> 1"
proof -
  let ?pos = "chosen True scores labels" and ?neg = "chosen False scores labels"
  have ex: "chosen b scores labels \<noteq> []" if b: "b \<in> set labels" for b
    using assms(1) b unfolding chosen_def by (induction scores labels rule: list_induct2) auto
  have ne: "?pos \<noteq> []" "?neg \<noteq> []" using ex assms by auto
  have "read_prediction_auc scores labels
    = Inr (Some ((sum_list (chosen True (average_ranks scores) labels) - real (length ?pos) * (real (length ?pos) + 1) / 2)
        / (real (length ?pos) * real (length ?neg))))"
    using assms(1) ne by (simp add: read_prediction_auc_def chosen_def Let_def)
  moreover have "sum_list (chosen True (average_ranks scores) labels) = sum_list (map (rank_of scores) ?pos)"
    by (simp add: average_ranks_eq chosen_map)
  ultimately have eq: "read_prediction_auc scores labels = Inr (Some (pairwise_auc ?pos ?neg))"
    using positive_rank_sum [OF chosen_mset [OF assms(1)]] by (simp add: pairwise_auc_def)
  have w: "0 \<le> wins p q \<and> wins p q \<le> 1" for p q by (simp add: wins_def)
  have inner: "0 \<le> sum_list (map (wins p) qs) \<and> sum_list (map (wins p) qs) \<le> real (length qs)" for p qs
  proof (induction qs)
    case (Cons q qs)
    then show ?case using w [of p q] by simp
  qed simp
  have outer: "0 \<le> sum_list (map (\<lambda>p. sum_list (map (wins p) qs)) ps)
      \<and> sum_list (map (\<lambda>p. sum_list (map (wins p) qs)) ps) \<le> real (length ps) * real (length qs)" for ps qs
  proof (induction ps)
    case (Cons p ps)
    then show ?case using inner [of p qs] by (simp add: algebra_simps)
  qed simp
  have "0 < real (length ?pos) * real (length ?neg)" using ne by simp
  then have "0 \<le> pairwise_auc ?pos ?neg \<and> pairwise_auc ?pos ?neg \<le> 1"
    using outer [of ?neg ?pos] unfolding pairwise_auc_def by (simp add: divide_le_eq_1)
  with eq show ?thesis by blast
qed

theorem auc_is_pairwise_witness:
  "\<exists>auc. read_prediction_auc [0.9, 0.4, 0.4] [True, False, True] = Inr (Some auc) \<and> auc = 3 / 4"
proof -
  have "\<exists>auc. read_prediction_auc [0.9, 0.4, 0.4] [True, False, True] = Inr (Some auc)
    \<and> auc = pairwise_auc (chosen True [0.9, 0.4, 0.4] [True, False, True]) (chosen False [0.9, 0.4, 0.4] [True, False, True])
    \<and> 0 \<le> auc \<and> auc \<le> 1"
    by (rule auc_is_pairwise) simp_all
  moreover have "pairwise_auc (chosen True [0.9, 0.4, 0.4] [True, False, True]) (chosen False [0.9, 0.4, 0.4] [True, False, True]) = 3 / 4"
    by (simp add: pairwise_auc_def chosen_def wins_def)
  ultimately show ?thesis by metis
qed

subsection \<open>Spearman's correlation is a correlation\<close>

lemma Cauchy_Schwarz_vec:
  assumes "length u = length v"
  shows "(vdot u v)\<^sup>2 \<le> vdot u u * vdot v v"
proof (cases "vdot u u = 0")
  case True
  have zero: "vdot u v = 0"
  proof -
    have "\<forall>x \<in> set u. x = 0" using True
    proof (induction u)
      case (Cons x u)
      have "0 \<le> x * x" "0 \<le> vdot u u" by simp_all
      moreover have "x * x + vdot u u = 0" using Cons.prems by simp
      ultimately have "x * x = 0" "vdot u u = 0" by linarith+
      then show ?case using Cons.IH by simp
    qed simp
    moreover have "\<forall>x \<in> set u. x = 0 \<Longrightarrow> vdot u w = 0" for u w :: vec
    proof (induction u arbitrary: w)
      case (Cons x u)
      then show ?case by (cases w) simp_all
    qed simp
    ultimately show ?thesis by blast
  qed
  then show ?thesis using True by simp
next
  case False
  then have pos: "0 < vdot u u" using vdot_self_nonneg [of u] by linarith
  define t where "t = vdot u v / vdot u u"
  have "0 \<le> vdot (vsub (vscale t u) v) (vsub (vscale t u) v)" by simp
  also have "\<dots> = t * t * vdot u u - 2 * t * vdot u v + vdot v v"
  proof -
    let ?d = "vsub (vscale t u) v"
    have len: "length (vscale t u) = length v" using assms by simp
    have 1: "vdot u ?d = t * vdot u u - vdot u v"
      unfolding vdot_commute [of u ?d] vdot_sub_left [OF len] vdot_scale_left vdot_commute [of v u] ..
    have 2: "vdot v ?d = t * vdot u v - vdot v v"
      unfolding vdot_commute [of v ?d] vdot_sub_left [OF len] vdot_scale_left ..
    have 3: "vdot ?d ?d = t * vdot u ?d - vdot v ?d"
      unfolding vdot_sub_left [OF len, of ?d] vdot_scale_left ..
    show ?thesis unfolding 3 1 2 by (simp add: algebra_simps)
  qed
  also have "\<dots> = vdot v v - (vdot u v)\<^sup>2 / vdot u u"
    using pos by (simp add: t_def power2_eq_square field_simps)
  finally show ?thesis using pos by (simp add: field_simps)
qed

lemma vdot_map2: "sum_list (map2 (\<lambda>x y. f x * g y) a b) = vdot (map f a) (map g b)"
  by (induction a b rule: list_induct2') simp_all

lemma vdot_square: "sum_list (map (\<lambda>x. (f x)\<^sup>2) a) = vdot (map f a) (map f a)"
  by (induction a) (simp_all add: power2_eq_square)

lemma pearson_bounds:
  assumes "length a = length b" "pearson a b = Some r"
  shows "- 1 \<le> r \<and> r \<le> 1"
proof -
  let ?u = "map (\<lambda>x. x - mean_of a) a" and ?v = "map (\<lambda>y. y - mean_of b) b"
  have r: "vdot ?u ?u \<noteq> 0" "vdot ?v ?v \<noteq> 0" "r = vdot ?u ?v / (sqrt (vdot ?u ?u) * sqrt (vdot ?v ?v))"
    using assms(2) by (auto simp: pearson_def Let_def vdot_map2 vdot_square split: if_splits)
  have nn: "0 \<le> vdot ?u ?u" "0 \<le> vdot ?v ?v" by (rule vdot_self_nonneg)+
  then have "0 < vdot ?u ?u" "0 < vdot ?v ?v" using r(1,2) by (simp_all only: less_le) simp_all
  then have pos: "0 < sqrt (vdot ?u ?u) * sqrt (vdot ?v ?v)" by simp
  have "(vdot ?u ?v)\<^sup>2 \<le> vdot ?u ?u * vdot ?v ?v" by (rule Cauchy_Schwarz_vec) (simp add: assms(1))
  then have "sqrt ((vdot ?u ?v)\<^sup>2) \<le> sqrt (vdot ?u ?u * vdot ?v ?v)" by (rule real_sqrt_le_mono)
  then have "\<bar>vdot ?u ?v\<bar> \<le> sqrt (vdot ?u ?u) * sqrt (vdot ?v ?v)" by (simp only: real_sqrt_abs real_sqrt_mult)
  then show ?thesis using pos unfolding r(3) by (simp add: divide_le_eq le_divide_eq abs_le_iff)
qed

lemma spearman_bounds: "length x = length y \<Longrightarrow> spearman x y = Some r \<Longrightarrow> - 1 \<le> r \<and> r \<le> 1"
  by (rule pearson_bounds [of "average_ranks x" "average_ranks y"]) (auto simp: spearman_def average_ranks_eq split: if_splits)

end
