(* ===== verification/Delivery.thy ===== *)
theory Delivery
  imports Lifecycle Feedback Contract
begin

text \<open>
  When digests are built and sent, \<open>workers/tasks/build_digest.py\<close>, \<open>deliver_digest.py\<close> and the first digest of
  \<open>services/cold_start/first_digest_flow.py\<close>: the send window around a local time, learned send times, the lock and the
  dedupe window of a build, the email of a digest, and the polling for a first digest. The tasks of one reader are
  interleaved in steps: a build takes the lock and looks for a recent digest (\<open>Begin\<close>), makes its digest
  (\<open>Generate\<close>), commits it (\<open>Commit\<close>) and deletes the lock (\<open>Release\<close>); a delivery reads the digest (\<open>Read\<close>) and sends
  the email (\<open>Send\<close>). Web push and the rendering of the email are not part of this theory.
\<close>

subsection \<open>Local times\<close>

record digest_user =
  du_account :: account
  du_onboarding_complete :: bool
  du_digest_frequency :: string
  du_digest_time_morning :: int
  du_timezone :: string
  du_send_time_locked :: bool

text \<open>
  The time of the morning digest is in minutes since midnight. A known time zone gives its offset from UTC in seconds, at a
  moment; an unknown one counts as UTC.
\<close>

type_synonym zones = "string \<Rightarrow> (moment \<Rightarrow> int) option"

definition zone_of :: "zones \<Rightarrow> digest_user \<Rightarrow> moment \<Rightarrow> int" where
  "zone_of zones u = or_default (zones (if du_timezone u = [] then ''UTC'' else du_timezone u)) (\<lambda>_. 0)"

definition minute_of_day :: "zones \<Rightarrow> digest_user \<Rightarrow> moment \<Rightarrow> int" where
  "minute_of_day zones u now = \<lfloor>(now + of_int (zone_of zones u now)) / 60\<rfloor> mod 1440"

definition hour_of_day :: "zones \<Rightarrow> digest_user \<Rightarrow> moment \<Rightarrow> int" where
  "hour_of_day zones u now = \<lfloor>(now + of_int (zone_of zones u now)) / 3600\<rfloor> mod 24"

subsection \<open>Which readers are due\<close>

definition SEND_WINDOW_MINUTES :: int where "SEND_WINDOW_MINUTES = 15"

definition preferred_slots :: "billing_settings \<Rightarrow> digest_user \<Rightarrow> moment \<Rightarrow> int list" where
  "preferred_slots bc u now =
     (let slots = [du_digest_time_morning u]
      in if du_digest_frequency u = ''twice_daily'' \<and> pro_features bc (du_account u) now
         then slots @ [(du_digest_time_morning u + 720) mod 1440] else slots)"

definition in_send_window :: "int \<Rightarrow> int \<Rightarrow> bool" where
  "in_send_window now_minutes preferred =
     (let diff = \<bar>now_minutes - preferred\<bar> in min diff (1440 - diff) \<le> SEND_WINDOW_MINUTES)"

definition is_digest_time_for_user :: "billing_settings \<Rightarrow> zones \<Rightarrow> digest_user \<Rightarrow> moment \<Rightarrow> bool" where
  "is_digest_time_for_user bc zones u now =
     list_ex (in_send_window (minute_of_day zones u now)) (preferred_slots bc u now)"

definition digest_is_due :: "billing_settings \<Rightarrow> zones \<Rightarrow> digest_user \<Rightarrow> moment \<Rightarrow> bool" where
  "digest_is_due bc zones u now \<longleftrightarrow>
     du_onboarding_complete u \<and> \<not> is_paused bc (du_account u) now \<and> is_digest_time_for_user bc zones u now"

definition schedule_digests :: "billing_settings \<Rightarrow> zones \<Rightarrow> moment \<Rightarrow> digest_user list \<Rightarrow> nat list" where
  "schedule_digests bc zones now users = map (\<lambda>u. ac_id (du_account u)) (filter (\<lambda>u. digest_is_due bc zones u now) users)"

subsection \<open>Learned send times\<close>

definition LEARN_MIN_OPENS :: nat where "LEARN_MIN_OPENS = 30"

definition LEARN_LOOKBACK_DAYS :: real where "LEARN_LOOKBACK_DAYS = 90"

definition learn_send_time :: "zones \<Rightarrow> moment \<Rightarrow> moment list \<Rightarrow> digest_user \<Rightarrow> digest_user" where
  "learn_send_time zones now opened_at u =
     (let opens = filter (\<lambda>t. now - LEARN_LOOKBACK_DAYS * 86400 \<le> t) opened_at
      in if length opens < LEARN_MIN_OPENS then u
         else
           let learned = int (preferred_hour (map (hour_of_day zones u) opens) (nat (du_digest_time_morning u div 60)))
           in if learned \<noteq> du_digest_time_morning u div 60 then u\<lparr>du_digest_time_morning := learned * 60\<rparr> else u)"

definition learn_send_times ::
  "zones \<Rightarrow> moment \<Rightarrow> (nat \<Rightarrow> moment list) \<Rightarrow> digest_user list \<Rightarrow> (nat \<times> nat) \<times> digest_user list" where
  "learn_send_times zones now opens users =
     (let asked = (\<lambda>u. du_onboarding_complete u \<and> \<not> du_send_time_locked u);
          moved = (\<lambda>u. if asked u then learn_send_time zones now (opens (ac_id (du_account u))) u else u)
      in ((length (filter asked users), length (filter (\<lambda>u. moved u \<noteq> u) users)), map moved users))"

subsection \<open>Builds\<close>

record built_digest =
  bd_id :: nat
  bd_generated_at :: moment
  bd_delivered_at :: "moment option"
  bd_total_items :: nat

datatype build_phase = Building | Built moment nat | Committed

record build_task =
  rb_id :: nat
  rb_begin :: moment
  rb_user :: digest_user
  rb_phase :: build_phase

text \<open>
  The digests of one reader, in the order of their commits, the moment until which the lock is held, the tasks that run, the
  delivery tasks in the queue, the deliveries that are about to send, and the emails that were sent.
\<close>

record build_world =
  bw_lock :: "moment option"
  bw_digests :: "built_digest list"
  bw_running :: "build_task list"
  bw_enqueued :: "nat list"
  bw_reading :: "(nat \<times> nat) list"
  bw_sent :: "nat list"
  bw_next :: nat

record delivery_settings =
  dl_billing :: billing_settings
  dl_min_items :: int
  dl_verification :: bool

definition dedupe_window :: "string \<Rightarrow> real" where
  "dedupe_window frequency =
     (if frequency = ''weekly'' then 84 * 3600 else if frequency = ''twice_daily'' then 6 * 3600 else 12 * 3600)"

definition should_deliver_email :: "delivery_settings \<Rightarrow> digest_user \<Rightarrow> built_digest \<Rightarrow> bool" where
  "should_deliver_email cfg u d \<longleftrightarrow>
     du_digest_frequency u \<noteq> ''in_app_only'' \<and> dl_min_items cfg \<le> int (bd_total_items d)"

text \<open>\<open>cache_set_nx\<close> succeeds when Redis is down, \<open>cache_delete\<close> then does nothing.\<close>

definition LOCK_SECONDS :: real where "LOCK_SECONDS = 600"

definition take_lock :: "bool \<Rightarrow> moment \<Rightarrow> build_world \<Rightarrow> bool \<times> build_world" where
  "take_lock up now w =
     (if \<not> up then (True, w)
      else if some_and (bw_lock w) (\<lambda>t. now < t) then (False, w)
      else (True, w\<lparr>bw_lock := Some (now + LOCK_SECONDS)\<rparr>))"

definition drop_lock :: "bool \<Rightarrow> build_world \<Rightarrow> build_world" where
  "drop_lock up w = (if up then w\<lparr>bw_lock := None\<rparr> else w)"

definition recent_digest :: "real \<Rightarrow> moment \<Rightarrow> built_digest list \<Rightarrow> built_digest option" where
  "recent_digest window now ds =
     (case sort_desc bd_generated_at (filter (\<lambda>d. now - window \<le> bd_generated_at d) ds) of [] \<Rightarrow> None | d # _ \<Rightarrow> Some d)"

datatype build_status = In_progress | User_not_found | Account_paused | Duplicate nat | Started

definition begin_build ::
  "delivery_settings \<Rightarrow> bool \<Rightarrow> moment \<Rightarrow> nat \<Rightarrow> digest_user option \<Rightarrow> build_world \<Rightarrow> build_status \<times> build_world" where
  "begin_build cfg up now task user w =
     (let (got, w) = take_lock up now w
      in if \<not> got then (In_progress, w)
         else case user of
           None \<Rightarrow> (User_not_found, drop_lock up w)
         | Some u \<Rightarrow>
             if is_paused (dl_billing cfg) (du_account u) now then (Account_paused, drop_lock up w)
             else (case recent_digest (dedupe_window (du_digest_frequency u)) now (bw_digests w) of
                 Some d \<Rightarrow>
                   (Duplicate (bd_id d), drop_lock up
                     (if bd_delivered_at d = None \<and> should_deliver_email cfg u d
                      then w\<lparr>bw_enqueued := bw_enqueued w @ [bd_id d]\<rparr> else w))
               | None \<Rightarrow>
                   (Started, w\<lparr>bw_running := bw_running w @ [\<lparr>rb_id = task, rb_begin = now, rb_user = u, rb_phase = Building\<rparr>]\<rparr>)))"

definition set_phase :: "nat \<Rightarrow> (build_task \<Rightarrow> build_phase) \<Rightarrow> build_world \<Rightarrow> build_world" where
  "set_phase task f w = w\<lparr>bw_running := map (\<lambda>t. if rb_id t = task then t\<lparr>rb_phase := f t\<rparr> else t) (bw_running w)\<rparr>"

definition the_task :: "nat \<Rightarrow> build_world \<Rightarrow> build_task option" where
  "the_task task w = find (\<lambda>t. rb_id t = task) (bw_running w)"

definition generate_digest :: "moment \<Rightarrow> nat \<Rightarrow> nat \<Rightarrow> build_world \<Rightarrow> build_world" where
  "generate_digest now task n w = set_phase task (\<lambda>t. if rb_phase t = Building then Built now n else rb_phase t) w"

definition commit_digest :: "delivery_settings \<Rightarrow> nat \<Rightarrow> build_world \<Rightarrow> build_world" where
  "commit_digest cfg task w =
     (case the_task task w of
        None \<Rightarrow> w
      | Some t \<Rightarrow>
          (case rb_phase t of
             Built at_time n \<Rightarrow>
               let d = \<lparr>bd_id = bw_next w, bd_generated_at = at_time, bd_delivered_at = None, bd_total_items = n\<rparr>;
                   w = (set_phase task (\<lambda>_. Committed) w)\<lparr>bw_digests := bw_digests w @ [d], bw_next := bw_next w + 1\<rparr>
               in if should_deliver_email cfg (rb_user t) d then w\<lparr>bw_enqueued := bw_enqueued w @ [bd_id d]\<rparr> else w
           | _ \<Rightarrow> w))"

definition end_task :: "nat \<Rightarrow> build_world \<Rightarrow> build_world" where
  "end_task task w = w\<lparr>bw_running := filter (\<lambda>t. rb_id t \<noteq> task) (bw_running w)\<rparr>"

text \<open>The \<open>finally\<close> of a build that was started: it deletes the lock, whoever holds it.\<close>

definition release_build :: "bool \<Rightarrow> nat \<Rightarrow> build_world \<Rightarrow> build_world" where
  "release_build up task w = (if the_task task w = None then w else drop_lock up (end_task task w))"

subsection \<open>Delivery\<close>

text \<open>\<open>deliver_digest\<close>: delivered digests and unconfirmed addresses get no email.\<close>

definition read_delivery :: "delivery_settings \<Rightarrow> nat \<Rightarrow> nat \<Rightarrow> digest_user \<Rightarrow> build_world \<Rightarrow> build_world" where
  "read_delivery cfg task i u w =
     (case find (\<lambda>d. bd_id d = i) (bw_digests w) of
        None \<Rightarrow> w
      | Some d \<Rightarrow>
          if bd_delivered_at d \<noteq> None \<or> \<not> may_email (dl_verification cfg) (du_account u) then w
          else w\<lparr>bw_reading := bw_reading w @ [(task, i)]\<rparr>)"

definition send_delivery :: "moment \<Rightarrow> nat \<Rightarrow> bool \<Rightarrow> build_world \<Rightarrow> build_world" where
  "send_delivery now task ok w =
     (case map_of (bw_reading w) task of
        None \<Rightarrow> w
      | Some i \<Rightarrow>
          let w = w\<lparr>bw_reading := filter (\<lambda>(k, _). k \<noteq> task) (bw_reading w)\<rparr>
          in if \<not> ok then w
             else w\<lparr>bw_sent := bw_sent w @ [i],
                    bw_digests := map (\<lambda>d. if bd_id d = i then d\<lparr>bd_delivered_at := Some now\<rparr> else d) (bw_digests w)\<rparr>)"

datatype build_event = Begin nat "digest_user option" | Generate nat nat | Commit nat | Release nat | Crash nat
  | Read nat nat digest_user | Send nat bool

text \<open>An event, when it happens and whether Redis answers then. A task id names one run.\<close>

type_synonym timed_event = "moment \<times> bool \<times> build_event"

fun build_step :: "delivery_settings \<Rightarrow> build_world \<Rightarrow> timed_event \<Rightarrow> build_world" where
  "build_step cfg w (now, up, Begin task user) =
     (if the_task task w = None then snd (begin_build cfg up now task user w) else w)"
| "build_step cfg w (now, up, Generate task n) = generate_digest now task n w"
| "build_step cfg w (now, up, Commit task) = commit_digest cfg task w"
| "build_step cfg w (now, up, Release task) = release_build up task w"
| "build_step cfg w (now, up, Crash task) = end_task task w"
| "build_step cfg w (now, up, Read task i u) = read_delivery cfg task i u w"
| "build_step cfg w (now, up, Send task ok) = send_delivery now task ok w"

subsection \<open>One digest per window\<close>

text \<open>Redis answers, and no build is still running ten minutes after it began.\<close>

fun timely :: "delivery_settings \<Rightarrow> build_world \<Rightarrow> timed_event list \<Rightarrow> bool" where
  "timely cfg w [] \<longleftrightarrow> True"
| "timely cfg w ((now, up, ev) # es) \<longleftrightarrow>
     up \<and> list_all (\<lambda>t. now < rb_begin t + LOCK_SECONDS) (bw_running w) \<and> timely cfg (build_step cfg w (now, up, ev)) es"

fun of_frequency :: "string \<Rightarrow> timed_event \<Rightarrow> bool" where
  "of_frequency f (_, _, Begin _ (Some u)) \<longleftrightarrow> du_digest_frequency u = f"
| "of_frequency f _ \<longleftrightarrow> True"

definition spaced :: "real \<Rightarrow> built_digest list \<Rightarrow> bool" where
  "spaced window ds \<longleftrightarrow> sorted_wrt (\<lambda>a b. bd_generated_at a + window \<le> bd_generated_at b) ds"

definition before :: "real \<Rightarrow> built_digest list \<Rightarrow> moment \<Rightarrow> bool" where
  "before window ds t \<longleftrightarrow> (\<forall>d \<in> set ds. bd_generated_at d + window < t)"

definition task_ok :: "string \<Rightarrow> moment \<Rightarrow> build_world \<Rightarrow> build_task \<Rightarrow> bool" where
  "task_ok f now w t \<longleftrightarrow> bw_lock w = Some (rb_begin t + LOCK_SECONDS) \<and> rb_begin t \<le> now
     \<and> (case rb_phase t of
          Building \<Rightarrow> before (dedupe_window f) (bw_digests w) (rb_begin t)
        | Built at_time n \<Rightarrow> before (dedupe_window f) (bw_digests w) (rb_begin t) \<and> rb_begin t \<le> at_time
        | Committed \<Rightarrow> True)"

definition builds_ok :: "string \<Rightarrow> moment \<Rightarrow> build_world \<Rightarrow> bool" where
  "builds_ok f now w \<longleftrightarrow> spaced (dedupe_window f) (bw_digests w)
     \<and> (case bw_running w of [] \<Rightarrow> True | [t] \<Rightarrow> task_ok f now w t | _ \<Rightarrow> False)"

lemma before_nil: "recent_digest window now ds = None \<Longrightarrow> before window ds now"
proof -
  assume "recent_digest window now ds = None"
  then have "sort_desc bd_generated_at (filter (\<lambda>d. now - window \<le> bd_generated_at d) ds) = []"
    by (simp add: recent_digest_def split: list.splits)
  from arg_cong [OF this, of length] have "filter (\<lambda>d. now - window \<le> bd_generated_at d) ds = []"
    by (simp add: sort_desc_def)
  then show ?thesis by (auto simp: before_def filter_empty_conv)
qed

lemma task_ok_later: "task_ok f now w t \<Longrightarrow> now \<le> now' \<Longrightarrow> task_ok f now' w t"
  by (auto simp: task_ok_def split: build_phase.splits)

lemma builds_ok_later: "builds_ok f now w \<Longrightarrow> now \<le> now' \<Longrightarrow> builds_ok f now' w"
  by (auto simp: builds_ok_def task_ok_later split: list.splits)

text \<open>What the invariant reads: the lock, the running builds, and the digests up to their delivery.\<close>

lemma task_ok_cong:
  assumes "bw_lock w' = bw_lock w" "map bd_generated_at (bw_digests w') = map bd_generated_at (bw_digests w)"
  shows "task_ok f now w' t = task_ok f now w t"
proof -
  have "bd_generated_at ` set (bw_digests w') = bd_generated_at ` set (bw_digests w)"
    using arg_cong [OF assms(2), of set] by simp
  then have "before window (bw_digests w') m = before window (bw_digests w) m" for window m
    unfolding before_def by (metis (no_types, opaque_lifting) imageE imageI)
  then show ?thesis by (simp add: task_ok_def assms(1) split: build_phase.split)
qed

lemma spaced_map: "spaced window ds = sorted_wrt (\<lambda>a b. a + window \<le> b) (map bd_generated_at ds)"
  by (simp add: spaced_def sorted_wrt_map)

lemma builds_ok_cong:
  assumes "bw_lock w' = bw_lock w" "map bd_generated_at (bw_digests w') = map bd_generated_at (bw_digests w)"
    "bw_running w' = bw_running w"
  shows "builds_ok f now w' = builds_ok f now w"
  using assms by (simp add: builds_ok_def spaced_map task_ok_cong [OF assms(1,2)] split: list.split)

lemma begin_ok:
  assumes "builds_ok f now w" "list_all (\<lambda>t. now < rb_begin t + LOCK_SECONDS) (bw_running w)"
    "case user of None \<Rightarrow> True | Some u \<Rightarrow> du_digest_frequency u = f"
  shows "builds_ok f now (snd (begin_build cfg True now task user w))"
proof (cases "fst (take_lock True now w)")
  case False
  then have "take_lock True now w = (False, w)" by (simp add: take_lock_def split: if_splits)
  then show ?thesis using assms(1) by (simp add: begin_build_def)
next
  case True
  then have w1: "take_lock True now w = (True, w\<lparr>bw_lock := Some (now + LOCK_SECONDS)\<rparr>)"
    by (auto simp: take_lock_def split: if_splits)
  have idle: "bw_running w = []"
  proof (cases "bw_running w")
    case (Cons t ts)
    then have "bw_lock w = Some (rb_begin t + LOCK_SECONDS)" "now < rb_begin t + LOCK_SECONDS"
      using assms(1,2) by (auto simp: builds_ok_def task_ok_def split: list.splits)
    then show ?thesis using w1 by (simp add: take_lock_def)
  qed
  have sp: "spaced (dedupe_window f) (bw_digests w)" using assms(1) by (simp add: builds_ok_def)
  show ?thesis
  proof (cases user)
    case None
    then show ?thesis using w1 idle sp by (simp add: begin_build_def drop_lock_def builds_ok_def)
  next
    case (Some u)
    show ?thesis
    proof (cases "is_paused (dl_billing cfg) (du_account u) now")
      case True
      then show ?thesis using Some w1 idle sp by (simp add: begin_build_def drop_lock_def builds_ok_def)
    next
      case paused: False
      show ?thesis
      proof (cases "recent_digest (dedupe_window (du_digest_frequency u)) now (bw_digests w)")
        case None
        then have "before (dedupe_window f) (bw_digests w) now" using before_nil assms(3) Some by auto
        then show ?thesis using None Some paused w1 idle sp
          by (simp add: begin_build_def builds_ok_def task_ok_def)
      next
        case (Some d)
        then show ?thesis using \<open>user = Some u\<close> paused w1 idle sp
          by (simp add: begin_build_def drop_lock_def builds_ok_def)
      qed
    qed
  qed
qed

lemma one_task:
  assumes "builds_ok f now w" "the_task task w = Some t"
  shows "bw_running w = [t] \<and> rb_id t = task \<and> task_ok f now w t"
proof (cases "bw_running w")
  case Nil
  then show ?thesis using assms(2) by (simp add: the_task_def)
next
  case (Cons s ts)
  then have "ts = []" "task_ok f now w s" using assms(1) by (auto simp: builds_ok_def split: list.splits)
  then show ?thesis using Cons assms(2) by (auto simp: the_task_def split: if_splits)
qed

lemma generate_ok:
  assumes "builds_ok f now w"
  shows "builds_ok f now (generate_digest now task n w)"
proof (cases "bw_running w")
  case (Cons t ts)
  then have t: "ts = []" "task_ok f now w t" using assms by (auto simp: builds_ok_def split: list.splits)
  then show ?thesis using assms Cons
    by (auto simp: generate_digest_def set_phase_def builds_ok_def task_ok_def split: build_phase.splits)
qed (use assms in \<open>simp add: generate_digest_def set_phase_def builds_ok_def\<close>)

lemma commit_ok:
  assumes "builds_ok f now w"
  shows "builds_ok f now (commit_digest cfg task w)"
proof (cases "the_task task w")
  case None
  then show ?thesis using assms by (simp add: commit_digest_def)
next
  case (Some t)
  note one = one_task [OF assms Some]
  show ?thesis
  proof (cases "rb_phase t")
    case (Built at_time n)
    then have "before (dedupe_window f) (bw_digests w) (rb_begin t)" "rb_begin t \<le> at_time"
      using one by (simp_all add: task_ok_def)
    then have "spaced (dedupe_window f) (bw_digests w @
        [\<lparr>bd_id = bw_next w, bd_generated_at = at_time, bd_delivered_at = None, bd_total_items = n\<rparr>])"
      using assms by (force simp: builds_ok_def spaced_def before_def sorted_wrt_append)
    then show ?thesis using Some Built one
      by (simp add: commit_digest_def set_phase_def builds_ok_def task_ok_def Let_def)
  qed (use assms Some in \<open>simp_all add: commit_digest_def\<close>)
qed

lemma end_ok:
  assumes "builds_ok f now w"
  shows "builds_ok f now (end_task task w)" "builds_ok f now (release_build True task w)"
proof -
  show e: "builds_ok f now (end_task task w)"
  proof (cases "bw_running w")
    case (Cons t ts)
    then have t: "ts = []" "task_ok f now w t" using assms by (auto simp: builds_ok_def split: list.splits)
    have "task_ok f now (w\<lparr>bw_running := rs\<rparr>) t = task_ok f now w t" for rs by (rule task_ok_cong) simp_all
    then show ?thesis using assms t Cons by (simp add: builds_ok_def end_task_def)
  qed (use assms in \<open>simp add: builds_ok_def end_task_def\<close>)
  show "builds_ok f now (release_build True task w)"
  proof (cases "the_task task w")
    case (Some t)
    then have "bw_running (end_task task w) = []" using one_task [OF assms Some] by (simp add: end_task_def)
    then show ?thesis using e Some by (simp add: release_build_def drop_lock_def builds_ok_def)
  qed (use assms in \<open>simp add: release_build_def\<close>)
qed

lemma delivery_ok:
  "builds_ok f now w \<Longrightarrow> builds_ok f now (read_delivery cfg task i u w)"
  "builds_ok f now w \<Longrightarrow> builds_ok f now (send_delivery m task ok w)"
proof -
  assume w: "builds_ok f now w"
  show "builds_ok f now (read_delivery cfg task i u w)"
    using w builds_ok_cong [of "w\<lparr>bw_reading := bw_reading w @ [(task, i)]\<rparr>" w]
    by (simp add: read_delivery_def split: option.split)
  have g: "map bd_generated_at (map (\<lambda>d. if bd_id d = j then d\<lparr>bd_delivered_at := Some m\<rparr> else d) ds) = map bd_generated_at ds"
    for j ds by simp
  show "builds_ok f now (send_delivery m task ok w)"
  proof (cases "map_of (bw_reading w) task")
    case None
    then show ?thesis using w by (simp add: send_delivery_def)
  next
    case (Some j)
    then show ?thesis using w by (subst builds_ok_cong [of _ w]) (simp_all add: send_delivery_def Let_def)
  qed
qed

lemma build_step_ok:
  assumes "builds_ok f now w" "now \<le> m" "list_all (\<lambda>t. m < rb_begin t + LOCK_SECONDS) (bw_running w)" "of_frequency f (m, True, ev)"
  shows "builds_ok f m (build_step cfg w (m, True, ev))"
proof -
  note later = builds_ok_later [OF assms(1,2)]
  show ?thesis
  proof (cases ev)
    case (Begin task user)
    then have "case user of None \<Rightarrow> True | Some u \<Rightarrow> du_digest_frequency u = f" using assms(4) by (cases user) simp_all
    then show ?thesis using begin_ok [OF later assms(3)] later Begin by simp
  qed (simp_all add: generate_ok commit_ok end_ok delivery_ok later)
qed

text \<open>
  C6. As long as Redis answers and no build takes ten minutes, two digests of a reader are at least the dedupe window apart,
  however builds, retries, crashes and deliveries interleave.
\<close>

theorem digests_are_spaced:
  assumes "sorted (map fst es)" "timely cfg w es" "list_all (of_frequency f) es"
    and "bw_running w = []" "spaced (dedupe_window f) (bw_digests w)"
  shows "spaced (dedupe_window f) (bw_digests (foldl (build_step cfg) w es))"
proof -
  have run: "builds_ok f (last (now # map fst es)) (foldl (build_step cfg) w es)"
    if "sorted (map fst es)" "timely cfg w es" "list_all (of_frequency f) es" "builds_ok f now w"
      "\<And>m. m \<in> fst ` set es \<Longrightarrow> now \<le> m" for now w es
    using that
  proof (induction es arbitrary: now w)
    case Nil
    then show ?case by simp
  next
    case (Cons e es)
    obtain m up ev where e: "e = (m, up, ev)" by (cases e)
    have "builds_ok f m (build_step cfg w (m, True, ev))"
      by (rule build_step_ok [OF Cons.prems(4)]) (use Cons.prems e in auto)
    then have "builds_ok f (last (m # map fst es)) (foldl (build_step cfg) (build_step cfg w (m, True, ev)) es)"
      by (intro Cons.IH) (use Cons.prems e in auto)
    then show ?case using Cons.prems(2) e by simp
  qed
  from run [OF assms(1-3), of "Min (insert 0 (fst ` set es))"] assms(4,5)
  have "builds_ok f (last (Min (insert 0 (fst ` set es)) # map fst es)) (foldl (build_step cfg) w es)"
    by (simp add: builds_ok_def)
  then show ?thesis by (simp add: builds_ok_def)
qed

subsection \<open>One email per digest\<close>

text \<open>No delivery reads a digest while another one is about to send.\<close>

fun deliveries_alone :: "delivery_settings \<Rightarrow> build_world \<Rightarrow> timed_event list \<Rightarrow> bool" where
  "deliveries_alone cfg w [] \<longleftrightarrow> True"
| "deliveries_alone cfg w (e # es) \<longleftrightarrow>
     (case e of (_, _, Read _ _ _) \<Rightarrow> bw_reading w = [] | _ \<Rightarrow> True) \<and> deliveries_alone cfg (build_step cfg w e) es"

definition digest_ids :: "build_world \<Rightarrow> nat set" where
  "digest_ids w = bd_id ` set (bw_digests w)"

definition mails_ok :: "build_world \<Rightarrow> bool" where
  "mails_ok w \<longleftrightarrow> distinct (map bd_id (bw_digests w)) \<and> (\<forall>i \<in> digest_ids w. i < bw_next w)
     \<and> distinct (bw_sent w) \<and> set (bw_sent w) \<subseteq> bd_id ` {d \<in> set (bw_digests w). bd_delivered_at d \<noteq> None}
     \<and> length (bw_reading w) \<le> 1
     \<and> (\<forall>(k, i) \<in> set (bw_reading w). i \<in> digest_ids w \<and> (\<forall>d \<in> set (bw_digests w). bd_id d = i \<longrightarrow> bd_delivered_at d = None))"

lemma mails_okD:
  assumes "mails_ok w"
  shows "distinct (map bd_id (bw_digests w))" "i \<in> digest_ids w \<Longrightarrow> i < bw_next w" "distinct (bw_sent w)"
    "j \<in> set (bw_sent w) \<Longrightarrow> \<exists>d \<in> set (bw_digests w). bd_id d = j \<and> bd_delivered_at d \<noteq> None"
    "length (bw_reading w) \<le> 1" "(k, l) \<in> set (bw_reading w) \<Longrightarrow> l \<in> digest_ids w"
    "(k, l) \<in> set (bw_reading w) \<Longrightarrow> d \<in> set (bw_digests w) \<Longrightarrow> bd_id d = l \<Longrightarrow> bd_delivered_at d = None"
  using assms unfolding mails_ok_def by blast+

lemma mails_ok_frames [simp]:
  "mails_ok (w\<lparr>bw_lock := l\<rparr>) = mails_ok w" "mails_ok (w\<lparr>bw_enqueued := q\<rparr>) = mails_ok w"
  "mails_ok (w\<lparr>bw_running := rs\<rparr>) = mails_ok w"
  by (simp_all add: mails_ok_def digest_ids_def)

lemma build_mails:
  "mails_ok w \<Longrightarrow> mails_ok (snd (begin_build cfg up now task user w))" "mails_ok w \<Longrightarrow> mails_ok (generate_digest now task n w)"
  "mails_ok w \<Longrightarrow> mails_ok (end_task task w)" "mails_ok w \<Longrightarrow> mails_ok (release_build up task w)"
  by (simp_all add: begin_build_def take_lock_def drop_lock_def generate_digest_def set_phase_def end_task_def release_build_def
      split: option.split)

lemma commit_mails: "mails_ok w \<Longrightarrow> mails_ok (commit_digest cfg task w)"
proof -
  assume w: "mails_ok w"
  have add: "mails_ok (w\<lparr>bw_running := rs, bw_digests := bw_digests w @ [d], bw_next := bw_next w + 1\<rparr>)"
    if "bd_id d = bw_next w" "bd_delivered_at d = None" for rs d
    using w that by (auto simp: mails_ok_def digest_ids_def)
  show ?thesis using w add
    by (auto simp: commit_digest_def set_phase_def Let_def split: option.split build_phase.split)
qed

lemma read_mails:
  assumes "mails_ok w" "bw_reading w = []"
  shows "mails_ok (read_delivery cfg task i u w)"
proof (cases "find (\<lambda>d. bd_id d = i) (bw_digests w)")
  case None
  then show ?thesis using assms by (simp add: read_delivery_def)
next
  case (Some d)
  then have d: "d \<in> set (bw_digests w)" "bd_id d = i" by (auto simp: find_Some_iff)
  show ?thesis
  proof (cases "bd_delivered_at d \<noteq> None \<or> \<not> may_email (dl_verification cfg) (du_account u)")
    case True
    then show ?thesis using assms(1) Some by (simp add: read_delivery_def)
  next
    case False
    have same: "d' = d" if "d' \<in> set (bw_digests w)" "bd_id d' = i" for d'
      using mails_okD(1) [OF assms(1)] d that by (metis distinct_map inj_onD)
    have "i \<in> digest_ids w" using d unfolding digest_ids_def by blast
    moreover have "\<forall>d' \<in> set (bw_digests w). bd_id d' = i \<longrightarrow> bd_delivered_at d' = None" using same False by blast
    moreover have "read_delivery cfg task i u w = w\<lparr>bw_reading := [(task, i)]\<rparr>"
      using Some False assms(2) by (simp add: read_delivery_def)
    ultimately show ?thesis using assms(1) by (simp add: mails_ok_def digest_ids_def)
  qed
qed

lemma send_mails:
  assumes "mails_ok w"
  shows "mails_ok (send_delivery now task ok w)"
proof (cases "map_of (bw_reading w) task")
  case None
  then show ?thesis using assms by (simp add: send_delivery_def)
next
  case (Some i)
  then have mem: "(task, i) \<in> set (bw_reading w)" by (rule map_of_SomeD)
  then have r: "bw_reading w = [(task, i)]"
    using mails_okD(5) [OF assms] by (cases "bw_reading w"; simp)
  note i = mails_okD(6,7) [OF assms mem]
  have fresh: "i \<notin> set (bw_sent w)" 
  proof
    assume "i \<in> set (bw_sent w)"
    from mails_okD(4) [OF assms this] obtain d where "d \<in> set (bw_digests w)" "bd_id d = i" "bd_delivered_at d \<noteq> None" by blast
    then show False using i(2) by simp
  qed
  show ?thesis
  proof (cases ok)
    case False
    then show ?thesis using assms Some r by (simp add: send_delivery_def mails_ok_def digest_ids_def)
  next
    case True
    let ?ds = "map (\<lambda>d. if bd_id d = i then d\<lparr>bd_delivered_at := Some now\<rparr> else d) (bw_digests w)"
    have ids: "map bd_id ?ds = map bd_id (bw_digests w)" by simp
    have sent: "set (bw_sent w @ [i]) \<subseteq> bd_id ` {d \<in> set ?ds. bd_delivered_at d \<noteq> None}"
    proof
      fix j
      assume "j \<in> set (bw_sent w @ [i])"
      then consider "j = i" | "j \<noteq> i" "j \<in> set (bw_sent w)" by auto
      then obtain d where d: "d \<in> set (bw_digests w)" "bd_id d = j" "j = i \<or> bd_delivered_at d \<noteq> None"
      proof cases
        case 1
        then show ?thesis using that i(1) unfolding digest_ids_def by blast
      next
        case 2
        then show ?thesis using that mails_okD(4) [OF assms] by blast
      qed
      let ?d = "if bd_id d = i then d\<lparr>bd_delivered_at := Some now\<rparr> else d"
      have "?d \<in> set ?ds" using d(1) by simp
      moreover have "bd_delivered_at ?d \<noteq> None" "bd_id ?d = j" using d by auto
      ultimately show "j \<in> bd_id ` {d \<in> set ?ds. bd_delivered_at d \<noteq> None}" by blast
    qed
    define v where "v = w\<lparr>bw_reading := [], bw_sent := bw_sent w @ [i], bw_digests := ?ds\<rparr>"
    have v: "bw_digests v = ?ds" "bw_sent v = bw_sent w @ [i]" "bw_reading v = []" "bw_next v = bw_next w"
      by (simp_all add: v_def)
    have "digest_ids v = digest_ids w" unfolding digest_ids_def v set_map [symmetric] ids by (rule refl)
    then have "\<forall>j \<in> digest_ids v. j < bw_next v" using mails_okD(2) [OF assms] v(4) by simp
    moreover have "distinct (map bd_id (bw_digests v))" unfolding v ids by (rule mails_okD(1) [OF assms])
    moreover have "distinct (bw_sent v)" using mails_okD(3) [OF assms] fresh unfolding v by simp
    moreover have "length (bw_reading v) \<le> 1" "bw_reading v = []" by (simp_all add: v)
    ultimately have "mails_ok v" using sent unfolding mails_ok_def v by simp
    then show ?thesis unfolding send_delivery_def v_def Some option.case Let_def r using True by simp
  qed
qed


subsection \<open>Every slot is reached\<close>

lemma in_send_window_iff:
  assumes "0 \<le> m" "m < 1440" "0 \<le> p" "p < 1440"
  shows "in_send_window m p \<longleftrightarrow> (p - m) mod 1440 \<le> 15 \<or> (m - p) mod 1440 \<le> 15"
proof -
  have m: "(x :: int) mod 1440 = (if 0 \<le> x then x else x + 1440)" if "-1440 < x" "x < 1440" for x
  proof (cases "0 \<le> x")
    case False
    have "x mod 1440 = (x + 1440) mod 1440" by simp
    also have "\<dots> = x + 1440" by (rule mod_pos_pos_trivial) (use that False in simp_all)
    finally show ?thesis using False by simp
  qed (use that in simp)
  show ?thesis using assms m [of "p - m"] m [of "m - p"]
    by (auto simp: in_send_window_def SEND_WINDOW_MINUTES_def Let_def min_def abs_if)
qed

lemma some_tick_hits:
  fixes a p :: int
  assumes "0 \<le> p" "p < 1440"
  shows "\<exists>k. 0 \<le> k \<and> k < 48 \<and> in_send_window ((a + 30 * k) mod 1440) p"
proof -
  define r where "r = (p + 15 - a) mod 1440"
  define k where "k = r div 30"
  have r: "0 \<le> r" "r < 1440" by (simp_all add: r_def)
  then have k: "0 \<le> k" "k < 48" by (simp_all add: k_def)
  have s: "0 \<le> r - 30 * k" "r - 30 * k < 30" using r by (simp_all add: k_def minus_div_mult_eq_mod [symmetric] mult.commute)
  define m where "m = (a + 30 * k) mod 1440"
  have "(m - p) mod 1440 = (15 - (r - 30 * k)) mod 1440"
    unfolding m_def r_def by (simp add: mod_simps algebra_simps)
  moreover have "(p - m) mod 1440 = (r - 30 * k - 15) mod 1440"
    unfolding m_def r_def by (simp add: mod_simps algebra_simps)
  ultimately have "in_send_window m p"
    using in_send_window_iff [of m p] assms s by (cases "r - 30 * k \<le> 15") (auto simp: m_def)
  with k show ?thesis by (auto simp: m_def)
qed

text \<open>
  C30. The scheduler reaches every slot: of 48 runs, half an hour apart, at least one falls into the send window of each of the
  slots of a reader, whatever the phase of the runs, as long as the offset of the time zone does not change.
\<close>

theorem every_slot_is_reached:
  assumes "p \<in> set (preferred_slots bc u t)" "0 \<le> du_digest_time_morning u" "du_digest_time_morning u < 1440"
    and "\<And>k. k < 48 \<Longrightarrow> zone_of zones u (t + 1800 * real k) = offset"
  shows "\<exists>k < 48. in_send_window (minute_of_day zones u (t + 1800 * real k)) p"
proof -
  have p: "0 \<le> p" "p < 1440" using assms(1-3) by (auto simp: preferred_slots_def Let_def split: if_splits)
  obtain k where k: "0 \<le> k" "k < 48" "in_send_window ((\<lfloor>(t + of_int offset) / 60\<rfloor> + 30 * k) mod 1440) p"
    using some_tick_hits [OF p] by blast
  have "(t + 1800 * real (nat k) + of_int offset) / 60 = (t + of_int offset) / 60 + of_int (30 * k)"
    using k(1) by (simp add: field_simps)
  then have "\<lfloor>(t + 1800 * real (nat k) + of_int offset) / 60\<rfloor> = \<lfloor>(t + of_int offset) / 60\<rfloor> + 30 * k"
    by (simp only: floor_add_int [symmetric])
  moreover have "zone_of zones u (t + 1800 * real (nat k)) = offset" by (rule assms(4)) (use k in simp)
  ultimately have "in_send_window (minute_of_day zones u (t + 1800 * real (nat k))) p"
    using k(3) by (simp only: minute_of_day_def)
  moreover have "nat k < 48" using k by simp
  ultimately show ?thesis by blast
qed

text \<open>
  Where a zone skips an hour, a slot in the middle of that hour is not reached on that day: the clock goes from 1:59 to 3:00,
  and 2:30 is half an hour away from both.
\<close>

definition skipping_zone :: zones where
  "skipping_zone name = Some (\<lambda>t. if t < 7200 then 0 else 3600)"

lemma skipped_hour_has_no_digest:
  assumes "0 \<le> t" "t < 82800" "du_digest_time_morning u = 150" "du_digest_frequency u = ''daily''"
  shows "\<not> is_digest_time_for_user bc skipping_zone u t"
proof -
  have z: "zone_of skipping_zone u t = (if t < 7200 then 0 else 3600)" by (simp add: zone_of_def skipping_zone_def)
  define m where "m = \<lfloor>(t + of_int (zone_of skipping_zone u t)) / 60\<rfloor>"
  have "0 \<le> m \<and> m < 120 \<or> 180 \<le> m \<and> m < 1440"
  proof (cases "t < 7200")
    case True
    then have "0 \<le> m" "m < 120" using assms(1) unfolding m_def z by (simp_all add: floor_less_iff le_floor_iff)
    then show ?thesis by simp
  next
    case False
    then have "180 \<le> m" "m < 1440" using assms(2) unfolding m_def z by (simp_all add: floor_less_iff le_floor_iff)
    then show ?thesis by simp
  qed
  then have "\<not> in_send_window (m mod 1440) 150"
    by (auto simp: in_send_window_def SEND_WINDOW_MINUTES_def Let_def)
  then show ?thesis using assms(3,4)
    by (simp add: is_digest_time_for_user_def preferred_slots_def minute_of_day_def m_def)
qed

subsection \<open>The first digest\<close>

text \<open>What \<open>first_digest_status\<close> counts: the newest digest, and the items of the last day with those that have a vector.\<close>

record first_status =
  fs_digest_id :: "nat option"
  fs_items :: nat
  fs_embedded :: nat

definition READY_ITEMS :: nat where "READY_ITEMS = 5"

definition READY_EMBEDDED_SHARE :: real where "READY_EMBEDDED_SHARE = 0.8"

definition FIRST_DIGEST_DEADLINE :: real where "FIRST_DIGEST_DEADLINE = 180"

definition POLL_SECONDS :: real where "POLL_SECONDS = 10"

definition is_ready :: "nat \<Rightarrow> nat \<Rightarrow> bool" where
  "is_ready items embedded \<longleftrightarrow> READY_ITEMS \<le> items \<and> real (min items READY_ITEMS) * READY_EMBEDDED_SHARE \<le> real embedded"

datatype first_outcome = Already_built nat | Waiting | Build_now

definition prepare_first_digest :: "first_status \<Rightarrow> moment \<Rightarrow> moment \<Rightarrow> first_outcome" where
  "prepare_first_digest status deadline now =
     (case fs_digest_id status of
        Some d \<Rightarrow> Already_built d
      | None \<Rightarrow> if \<not> is_ready (fs_items status) (fs_embedded status) \<and> now < deadline then Waiting else Build_now)"

text \<open>
  The task puts itself into the queue again, ten seconds later and then when a worker is free: \<open>late now\<close> is the time that
  the run which is queued at \<open>now\<close> waits beyond that. The result is when the polling ended and how.
\<close>

function first_digest_polls ::
  "(moment \<Rightarrow> first_status) \<Rightarrow> (moment \<Rightarrow> real) \<Rightarrow> moment \<Rightarrow> moment \<Rightarrow> moment \<times> first_outcome" where
  "first_digest_polls status late deadline now =
     (if prepare_first_digest (status now) deadline now = Waiting
      then first_digest_polls status late deadline (now + POLL_SECONDS + max 0 (late now))
      else (now, prepare_first_digest (status now) deadline now))"
  by pat_completeness auto

termination
proof (relation "measure (\<lambda>(_, _, deadline, now). nat \<lceil>deadline - now\<rceil>)")
  fix status :: "moment \<Rightarrow> first_status" and late deadline and now :: moment
  assume "prepare_first_digest (status now) deadline now = Waiting"
  then have "now < deadline" by (auto simp: prepare_first_digest_def split: option.splits if_splits)
  moreover have "\<lceil>deadline - (now + POLL_SECONDS + max 0 (late now))\<rceil> \<le> \<lceil>deadline - now - of_int 10\<rceil>"
    by (rule ceiling_mono) (simp add: POLL_SECONDS_def)
  moreover have "\<lceil>deadline - now - of_int 10\<rceil> = \<lceil>deadline - now\<rceil> - 10" by (rule ceiling_diff_of_int)
  ultimately show "((status, late, deadline, now + POLL_SECONDS + max 0 (late now)), status, late, deadline, now)
      \<in> measure (\<lambda>(_, _, deadline, now). nat \<lceil>deadline - now\<rceil>)"
    by simp
qed simp

declare first_digest_polls.simps [simp del]

text \<open>
  C31. The polling for a first digest ends: with a build, or because there is a digest, never later than one poll and one delay
  after the deadline.
\<close>

theorem first_digest_comes:
  assumes "\<And>t. late t \<le> delay" "0 \<le> delay"
  shows "snd (first_digest_polls status late deadline now) \<noteq> Waiting
    \<and> fst (first_digest_polls status late deadline now) \<le> max now (deadline + POLL_SECONDS + delay)"
proof (induction "nat \<lceil>deadline - now\<rceil>" arbitrary: now rule: less_induct)
  case less
  show ?case
  proof (cases "prepare_first_digest (status now) deadline now = Waiting")
    case True
    define next_poll where "next_poll = now + POLL_SECONDS + max 0 (late now)"
    have now: "now < deadline" using True by (auto simp: prepare_first_digest_def split: option.splits if_splits)
    have "\<lceil>deadline - next_poll\<rceil> \<le> \<lceil>deadline - now - of_int 10\<rceil>"
      by (rule ceiling_mono) (simp add: next_poll_def POLL_SECONDS_def)
    also have "\<dots> = \<lceil>deadline - now\<rceil> - 10" by (rule ceiling_diff_of_int)
    finally have "nat \<lceil>deadline - next_poll\<rceil> < nat \<lceil>deadline - now\<rceil>" using now by simp
    note ih = less [OF this]
    have "next_poll \<le> deadline + POLL_SECONDS + delay"
      using assms(1) [of now] assms(2) now by (simp add: next_poll_def)
    then show ?thesis using ih True by (subst (1 2) first_digest_polls.simps) (simp add: next_poll_def [symmetric] le_max_iff_disj)
  next
    case False
    then show ?thesis by (subst (1 2) first_digest_polls.simps) simp
  qed
qed

text \<open>\<open>start_first_digest\<close>: once an hour, if Redis answers; the tasks that it queues.\<close>

datatype first_task = Ingest_user_sources | Refresh_discovery | Prepare_first_digest moment moment

definition start_first_digest ::
  "bool \<Rightarrow> moment \<Rightarrow> moment option \<times> first_task list \<Rightarrow> bool \<times> moment option \<times> first_task list" where
  "start_first_digest up now st =
     (let (started_until, queue) = st
      in if up \<and> some_and started_until (\<lambda>t. now < t) then (False, st)
         else (True, if up then Some (now + 3600) else started_until,
               queue @ [Ingest_user_sources, Refresh_discovery, Prepare_first_digest (now + FIRST_DIGEST_DEADLINE) (now + POLL_SECONDS)]))"

subsection \<open>Examples and limits\<close>

definition example_delivery :: delivery_settings where
  "example_delivery = \<lparr>dl_billing = example_settings\<lparr>bc_hosted := False\<rparr>, dl_min_items = 3, dl_verification = False\<rparr>"

definition example_reader :: "string \<Rightarrow> digest_user" where
  "example_reader f = \<lparr>du_account = example_account, du_onboarding_complete = True, du_digest_frequency = f,
     du_digest_time_morning = 420, du_timezone = ''UTC'', du_send_time_locked = False\<rparr>"

definition idle_world :: build_world where
  "idle_world = \<lparr>bw_lock = None, bw_digests = [], bw_running = [], bw_enqueued = [], bw_reading = [], bw_sent = [], bw_next = 0\<rparr>"

text \<open>A build, a second one that finds the lock, its retry that finds the digest, and the build of the next day.\<close>

definition two_days :: "timed_event list" where
  "two_days = (let u = Some (example_reader ''daily'')
     in [(0, True, Begin 0 u), (30, True, Begin 1 u), (40, True, Generate 0 5), (50, True, Commit 0), (60, True, Release 0),
         (90, True, Begin 1 u), (86400, True, Begin 2 u), (86401, True, Generate 2 4), (86402, True, Commit 2), (86403, True, Release 2)])"

theorem digests_are_spaced_witness:
  "spaced (dedupe_window ''daily'') (bw_digests (foldl (build_step example_delivery) idle_world two_days))
    \<and> map bd_generated_at (bw_digests (foldl (build_step example_delivery) idle_world two_days)) = [40, 86401]"
proof
  have "sorted (map fst two_days)" "timely example_delivery idle_world two_days" "list_all (of_frequency ''daily'') two_days"
    by code_simp+
  then show "spaced (dedupe_window ''daily'') (bw_digests (foldl (build_step example_delivery) idle_world two_days))"
    by (rule digests_are_spaced) (simp_all add: idle_world_def spaced_def)
  show "map bd_generated_at (bw_digests (foldl (build_step example_delivery) idle_world two_days)) = [40, 86401]"
    by code_simp
qed

definition mailed_twice :: "timed_event list" where
  "mailed_twice = two_days @ [(86410, True, Read 7 0 (example_reader ''daily'')), (86411, True, Send 7 True),
     (86412, True, Read 8 0 (example_reader ''daily'')), (86413, True, Send 8 True)]"


theorem every_slot_is_reached_witness:
  "\<exists>k < 48. in_send_window (minute_of_day (\<lambda>_. None) (example_reader ''daily'') (5 + 1800 * real k)) 420"
  by (rule every_slot_is_reached [of _ example_settings _ _ _ 0])
    (simp_all add: preferred_slots_def example_reader_def zone_of_def)

theorem first_digest_comes_witness:
  "snd (first_digest_polls (\<lambda>_. \<lparr>fs_digest_id = None, fs_items = 2, fs_embedded = 0\<rparr>) (\<lambda>_. 3) 180 10) \<noteq> Waiting
    \<and> fst (first_digest_polls (\<lambda>_. \<lparr>fs_digest_id = None, fs_items = 2, fs_embedded = 0\<rparr>) (\<lambda>_. 3) 180 10) \<le> 193"
  using first_digest_comes [of "\<lambda>_. 3" 3 "\<lambda>_. \<lparr>fs_digest_id = None, fs_items = 2, fs_embedded = 0\<rparr>" 180 10]
  by (simp add: POLL_SECONDS_def)

text \<open>
  A build that takes longer than the lock: the second one takes the lock, sees no digest yet, and both store one. When the
  first ends it deletes the lock of the second.
\<close>

lemma slow_build_second_digest:
  "(let u = Some (example_reader ''daily'');
        w = foldl (build_step example_delivery) idle_world
              [(0, True, Begin 0 u), (601, True, Begin 1 u), (602, True, Generate 0 5), (603, True, Generate 1 5),
               (604, True, Commit 0), (605, True, Release 0)]
    in bw_lock w = None \<and> length (bw_running w) = 1
       \<and> map bd_generated_at (bw_digests (build_step example_delivery w (606, True, Commit 1))) = [602, 603])"
  by code_simp

text \<open>While Redis is down the lock is granted to everybody: two builds at a time store two digests.\<close>

lemma two_digests_without_redis:
  "(let u = Some (example_reader ''daily'')
    in map bd_generated_at (bw_digests (foldl (build_step example_delivery) idle_world
         [(0, False, Begin 0 u), (1, False, Begin 1 u), (2, False, Generate 0 5), (3, False, Generate 1 5),
          (4, False, Commit 0), (5, False, Commit 1)])) = [2, 3])"
  by code_simp

text \<open>Two deliveries of one digest that both read it before either has sent it: two emails.\<close>

lemma overlapping_deliveries_send_twice:
  "bw_sent (foldl (build_step example_delivery) idle_world (two_days @
     [(86410, True, Read 7 0 (example_reader ''daily'')), (86411, True, Read 8 0 (example_reader ''daily'')),
      (86412, True, Send 7 True), (86413, True, Send 8 True)])) = [0, 0]"
  by code_simp

text \<open>
  The scheduler does not ask for the day of the week and the window of a weekly digest is three and a half days: a weekly reader
  gets a digest every four days.
\<close>

definition daily_run :: "digest_user \<Rightarrow> build_world \<Rightarrow> moment \<Rightarrow> build_world" where
  "daily_run u w t =
     (if digest_is_due (dl_billing example_delivery) (\<lambda>_. None) u t
      then foldl (build_step example_delivery) w
             [(t, True, Begin 0 (Some u)), (t, True, Generate 0 5), (t, True, Commit 0), (t, True, Release 0)]
      else w)"

lemma weekly_digest_every_four_days:
  "map bd_generated_at (bw_digests (foldl (daily_run (example_reader ''weekly'')) idle_world
     (map (\<lambda>day. 25200 + 86400 * day) [0, 1, 2, 3, 4, 5, 6, 7, 8])))
   = map (\<lambda>day. 25200 + 86400 * day) [0, 4, 8]"
  by code_simp

end
