(* ===== verification/Fetching.thy ===== *)
theory Fetching
  imports Subscriptions
begin

text \<open>
  From a feed to its new items: the fetch of a feed (\<open>services/ingestion/rss_parser.py\<close>), the fingerprint of an item
  (\<open>simhash.py\<close>), its quality (\<open>from_feed_text\<close> of \<open>extract.py\<close>), the first batch (\<open>backfill.py\<close>), permanent moves
  (\<open>identity.py\<close>) and the choice of what is new (\<open>dispatcher.py\<close>). Parameters are the network, feedparser,
  HTML sanitising, the scraper, BLAKE2 and the canonical form of a URL. A token is made of ASCII letters and digits,
  like all text of this library.
\<close>

subsection \<open>Fingerprints\<close>

text \<open>The maximal runs of characters with a property: tokens of a text, and the words of \<open>str.split()\<close>.\<close>

fun runs :: "(char \<Rightarrow> bool) \<Rightarrow> string \<Rightarrow> string \<Rightarrow> string list" where
  "runs P cur [] = (if cur = [] then [] else [cur])"
| "runs P cur (c # s) =
     (if P c then runs P (cur @ [c]) s
      else if cur \<noteq> [] then cur # runs P [] s else runs P [] s)"

definition tokens :: "string \<Rightarrow> string list" where
  "tokens text = (let found = runs is_alnum_char [] (lower text) in if found = [] then [''empty''] else found)"

definition count_words :: "string \<Rightarrow> int" where
  "count_words text = int (length (runs (\<lambda>c. \<not> is_space_char c) [] text))"

type_synonym hash64 = "string \<Rightarrow> 64 word"

definition token_weight :: "hash64 \<Rightarrow> string list \<Rightarrow> nat \<Rightarrow> int" where
  "token_weight h toks i = sum_list (map (\<lambda>t. if bit (h t) i then 1 else -1) toks)"

definition packed :: "(nat \<Rightarrow> int) \<Rightarrow> 64 word" where
  "packed w = foldl (\<lambda>acc i. if 0 < w i then acc OR push_bit i 1 else acc) 0 [0..<64]"

definition hex16 :: "64 word \<Rightarrow> string" where
  "hex16 v = map (\<lambda>k. digit_char (uint (drop_bit (4 * k) v) mod 16)) (rev [0..<16])"

definition simhash_text :: "hash64 \<Rightarrow> string \<Rightarrow> string" where
  "simhash_text h text = hex16 (packed (token_weight h (tokens text)))"

text \<open>\<open>int(s, 16)\<close>: white space around, a sign, \<open>0x\<close>, and single underscores between digits.\<close>

definition hex_digits :: "string \<Rightarrow> int option" where
  "hex_digits s =
     (if list_all (\<lambda>g. g \<noteq> [] \<and> list_all is_hex_char g) (split_char CHR ''_'' s)
      then Some (digits_value 16 (concat (split_char CHR ''_'' s))) else None)"

definition unprefixed :: "string \<Rightarrow> string" where
  "unprefixed s =
     (if starts_with (lower s) ''0x'' then (if starts_with (drop 2 s) ''_'' then drop 3 s else drop 2 s) else s)"

definition int_of_hex :: "string \<Rightarrow> int option" where
  "int_of_hex s =
     (case strip s of
        [] \<Rightarrow> None
      | c # t \<Rightarrow> if c = CHR ''-'' then map_option uminus (hex_digits (unprefixed t))
                 else if c = CHR ''+'' then hex_digits (unprefixed t)
                 else hex_digits (unprefixed (c # t)))"

fun popcount :: "nat \<Rightarrow> nat" where
  "popcount n = (if n = 0 then 0 else n mod 2 + popcount (n div 2))"

declare popcount.simps [simp del]

definition hamming :: "string \<Rightarrow> string \<Rightarrow> nat" where
  "hamming l r =
     (case (int_of_hex l, int_of_hex r) of
        (Some a, Some b) \<Rightarrow> popcount (nat \<bar>a XOR b\<bar>) | _ \<Rightarrow> 64)"

definition NEAR_DUP_BITS :: nat where "NEAR_DUP_BITS = 3"

definition is_near_duplicate :: "string option \<Rightarrow> string option \<Rightarrow> bool" where
  "is_near_duplicate l r =
     (if or_default l [] = [] \<or> or_default r [] = [] then False
      else hamming (or_default l []) (or_default r []) \<le> NEAR_DUP_BITS)"

subsection \<open>Items of a feed\<close>

record raw_item =
  ri_url :: string
  ri_title :: string
  ri_author :: "string option"
  ri_published_at :: "moment option"
  ri_full_text :: "string option"
  ri_word_count :: "int option"
  ri_creator_platform_id :: "nat option"
  ri_transcript_url :: "string option"
  ri_guid :: "string option"
  ri_simhash :: "string option"
  ri_extraction_method :: "string option"
  ri_extraction_confidence :: "real option"
  ri_page_type :: "string option"
  ri_language :: "string option"
  ri_lead_image_url :: "string option"
  ri_paywalled :: bool
  ri_rankable :: bool
  ri_origin :: origin
  ri_reading_time_minutes :: "int option"

definition raw_content_item :: "string \<Rightarrow> string \<Rightarrow> raw_item" where
  "raw_content_item url title = \<lparr>ri_url = url, ri_title = title, ri_author = None, ri_published_at = None,
     ri_full_text = None, ri_word_count = None, ri_creator_platform_id = None, ri_transcript_url = None, ri_guid = None,
     ri_simhash = None, ri_extraction_method = None, ri_extraction_confidence = None, ri_page_type = None,
     ri_language = None, ri_lead_image_url = None, ri_paywalled = False, ri_rankable = True, ri_origin = Followed,
     ri_reading_time_minutes = None\<rparr>"

text \<open>
  An entry as feedparser gives it; \<open>en_dates\<close> are the published, updated and created dates, \<open>en_transcript\<close> is what
  \<open>_transcript_url\<close> finds in the entry.
\<close>

record feed_entry =
  en_link :: "string option"
  en_title :: "string option"
  en_author :: "string option"
  en_dates :: "moment option list"
  en_content :: "string option"
  en_summary :: "string option"
  en_id :: "string option"
  en_guid :: "string option"
  en_transcript :: "string option"

record feed_response =
  hr_status :: int
  hr_etag :: "string option"
  hr_last_modified :: "string option"
  hr_permanent_url :: "string option"
  hr_content :: string

text \<open>
  \<open>fl_get\<close> is \<open>safe_fetch\<close> with conditional headers (\<open>None\<close>: it raised), \<open>fl_parse\<close> is feedparser (\<open>None\<close>: it raised),
  \<open>fl_discover\<close> is autodiscovery, \<open>fl_transcripts\<close> finds the transcript links of the items in the XML.
\<close>

record feed_lib =
  fl_public :: "string \<Rightarrow> bool"
  fl_get :: "string \<Rightarrow> string option \<Rightarrow> string option \<Rightarrow> feed_response option"
  fl_parse :: "string \<Rightarrow> feed_entry list option"
  fl_discover :: "string \<Rightarrow> string option"
  fl_transcripts :: "string \<Rightarrow> string option list"
  fl_sanitize :: "string \<Rightarrow> string"
  fl_scrape :: "string \<Rightarrow> raw_item option"
  fl_canonical :: "string \<Rightarrow> string option"
  fl_hash :: hash64

definition FEED_MAX_BYTES :: int where "FEED_MAX_BYTES = 2000000"

definition extract_text :: "feed_lib \<Rightarrow> feed_entry \<Rightarrow> string" where
  "extract_text lib e =
     (case en_content e of Some v \<Rightarrow> fl_sanitize lib v
      | None \<Rightarrow> (case en_summary e of Some v \<Rightarrow> fl_sanitize lib v | None \<Rightarrow> []))"

definition parse_date :: "feed_entry \<Rightarrow> moment option" where
  "parse_date e = (case filter (\<lambda>d. d \<noteq> None) (en_dates e) of [] \<Rightarrow> None | d # _ \<Rightarrow> d)"

text \<open>\<open>a or b\<close> for optional texts: the empty text is falsy.\<close>

definition text_or :: "string option \<Rightarrow> string option \<Rightarrow> string option" where
  "text_or a b = (if or_default a [] \<noteq> [] then a else b)"

definition some_text :: "string option \<Rightarrow> string option" where
  "some_text a = text_or a None"

definition item_from_entry :: "feed_lib \<Rightarrow> string option list \<Rightarrow> nat \<Rightarrow> feed_entry \<Rightarrow> raw_item option" where
  "item_from_entry lib from_xml index e =
     (case some_text (en_link e) of
        None \<Rightarrow> None
      | Some link \<Rightarrow>
          let text = extract_text lib e
          in Some ((raw_content_item link (or_default (en_title e) ''Untitled''))\<lparr>
               ri_author := en_author e, ri_published_at := parse_date e,
               ri_full_text := (if text = [] then None else Some text),
               ri_word_count := (if text = [] then None else Some (count_words text)),
               ri_transcript_url := (if index < length from_xml then from_xml ! index else en_transcript e),
               ri_guid := some_text (text_or (en_id e) (en_guid e))\<rparr>))"

definition items_from_feed :: "feed_lib \<Rightarrow> feed_entry list \<Rightarrow> string option \<Rightarrow> raw_item list" where
  "items_from_feed lib entries raw_xml =
     (let from_xml = (case some_text raw_xml of None \<Rightarrow> [] | Some x \<Rightarrow> fl_transcripts lib x)
      in List.map_filter (\<lambda>(i, e). item_from_entry lib from_xml i e) (enumerate 0 entries))"

subsection \<open>One conditional fetch\<close>

record http_feed =
  hf_status :: int
  hf_body :: "string option"
  hf_etag :: "string option"
  hf_last_modified :: "string option"
  hf_permanent_url :: "string option"

record fetch_result =
  fx_items :: "raw_item list"
  fx_not_modified :: bool
  fx_etag :: "string option"
  fx_last_modified :: "string option"
  fx_status_code :: "int option"
  fx_permanent_url :: "string option"

definition no_result :: fetch_result where
  "no_result = \<lparr>fx_items = [], fx_not_modified = False, fx_etag = None, fx_last_modified = None,
     fx_status_code = None, fx_permanent_url = None\<rparr>"

definition validators_from :: "feed_response \<Rightarrow> string option \<times> string option" where
  "validators_from r = (map_option strip (some_text (hr_etag r)), map_option strip (some_text (hr_last_modified r)))"

definition load_feed_bytes ::
  "feed_lib \<Rightarrow> string \<Rightarrow> string option \<Rightarrow> string option \<Rightarrow> http_feed option" where
  "load_feed_bytes lib url etag last_modified =
     (if \<not> fl_public lib url then None
      else case fl_get lib url etag last_modified of
        None \<Rightarrow> None
      | Some r \<Rightarrow>
          let (e, m) = validators_from r
          in if hr_status r = 304
             then Some \<lparr>hf_status = 304, hf_body = None, hf_etag = text_or e etag,
                        hf_last_modified = text_or m last_modified, hf_permanent_url = None\<rparr>
             else if 400 \<le> hr_status r
             then Some \<lparr>hf_status = hr_status r, hf_body = None, hf_etag = e, hf_last_modified = m, hf_permanent_url = None\<rparr>
             else case assert_xml_safe (\<lambda>_. True) FEED_MAX_BYTES None (hr_content r) of
                    None \<Rightarrow> None
                  | Some body \<Rightarrow> Some \<lparr>hf_status = hr_status r, hf_body = Some body, hf_etag = e, hf_last_modified = m,
                                       hf_permanent_url = hr_permanent_url r\<rparr>)"

text \<open>Statuses that the caller is told of: gone, too many requests, and server errors.\<close>

definition reported_status :: "int \<Rightarrow> bool" where
  "reported_status s \<longleftrightarrow> s \<in> {410, 429} \<or> 500 \<le> s"

text \<open>The other feed that the site advertises, when the address gave no entries: \<open>None\<close> if there is none to use.\<close>

definition secondary_feed :: "feed_lib \<Rightarrow> string \<Rightarrow> fetch_result option option" where
  "secondary_feed lib url =
     (case some_text (fl_discover lib url) of
        None \<Rightarrow> Some None
      | Some found \<Rightarrow>
          if found = url then Some None
          else case load_feed_bytes lib found None None of
            None \<Rightarrow> Some None
          | Some hf \<Rightarrow>
              if hf_status hf = 304
              then Some (Some (no_result\<lparr>fx_not_modified := True, fx_etag := hf_etag hf, fx_last_modified := hf_last_modified hf\<rparr>))
              else case some_text (hf_body hf) of
                     None \<Rightarrow> Some None
                   | Some body \<Rightarrow> map_option (\<lambda>entries. Some (no_result\<lparr>fx_items := items_from_feed lib entries (Some body),
                                      fx_etag := hf_etag hf, fx_last_modified := hf_last_modified hf\<rparr>)) (fl_parse lib body))"

definition parsed_feed :: "feed_lib \<Rightarrow> http_feed option \<Rightarrow> feed_entry list option option" where
  "parsed_feed lib primary =
     (case Option.bind primary (\<lambda>hf. some_text (hf_body hf)) of
        None \<Rightarrow> Some None | Some body \<Rightarrow> map_option Some (fl_parse lib body))"

text \<open>\<open>None\<close>: an exception, which the caller turns into no items.\<close>

definition fetch_checked :: "feed_lib \<Rightarrow> string \<Rightarrow> string option \<Rightarrow> string option \<Rightarrow> fetch_result option" where
  "fetch_checked lib url etag last_modified =
     (let primary = load_feed_bytes lib url etag last_modified;
          told = (\<lambda>hf. no_result\<lparr>fx_etag := hf_etag hf, fx_last_modified := hf_last_modified hf,
                                  fx_permanent_url := hf_permanent_url hf\<rparr>)
      in case primary of
           Some hf \<Rightarrow>
             if hf_status hf = 304 then Some ((told hf)\<lparr>fx_not_modified := True, fx_status_code := Some 304\<rparr>)
             else if reported_status (hf_status hf) then Some ((told hf)\<lparr>fx_status_code := Some (hf_status hf)\<rparr>)
             else Option.bind (parsed_feed lib primary) (\<lambda>feed.
               Option.bind (if or_default feed [] = [] then secondary_feed lib url else Some None) (\<lambda>other.
                 case other of
                   Some r \<Rightarrow> Some r
                 | None \<Rightarrow> (case feed of
                       None \<Rightarrow> Some (no_result\<lparr>fx_etag := hf_etag hf\<rparr>)
                     | Some entries \<Rightarrow> Some ((told hf)\<lparr>fx_items := items_from_feed lib entries (hf_body hf)\<rparr>))))
         | None \<Rightarrow> map_option (\<lambda>other. or_default other no_result) (secondary_feed lib url))"

definition fetch_feed :: "feed_lib \<Rightarrow> string \<Rightarrow> string option \<Rightarrow> string option \<Rightarrow> fetch_result" where
  "fetch_feed lib url etag last_modified = or_default (fetch_checked lib url etag last_modified) no_result"

subsection \<open>What a poll works on\<close>

text \<open>
  A source or a shared feed: the columns that a poll reads and writes. \<open>pl_owner\<close> is the reader of a source; a shared
  feed has none. \<open>last_http_status\<close> is no column, so it is absent when the row is loaded.
\<close>

record polled = feed_row +
  pl_id :: nat
  pl_owner :: "nat option"
  pl_source_type :: string
  pl_etag :: "string option"
  pl_last_modified :: "string option"
  pl_backfilled :: bool

definition remember_validators :: "fetch_result \<Rightarrow> polled \<Rightarrow> polled" where
  "remember_validators fx p = p\<lparr>pl_etag := text_or (fx_etag fx) (pl_etag p),
     pl_last_modified := text_or (fx_last_modified fx) (pl_last_modified p)\<rparr>"

definition no_slash :: "string \<Rightarrow> string" where
  "no_slash = rstrip_chars (\<lambda>c. c = CHR ''/'')"

definition apply_permanent_redirect ::
  "(string \<Rightarrow> string option) \<Rightarrow> string \<Rightarrow> string option \<Rightarrow> polled \<Rightarrow> polled" where
  "apply_permanent_redirect canon fetched_url permanent p =
     (case some_text permanent of
        None \<Rightarrow> p
      | Some u \<Rightarrow>
          let target = or_default (some_text (canon u)) u; fetched = no_slash fetched_url;
              feed = no_slash (or_default (fr_feed_url p) [])
          in if feed \<noteq> [] \<and> feed = fetched then p\<lparr>fr_feed_url := Some target\<rparr>
             else if no_slash (fr_url p) = fetched then p\<lparr>fr_url := target\<rparr>
             else p)"

text \<open>\<open>feed_url\<close> is used when it is not empty.\<close>

definition fetch_rss :: "feed_lib \<Rightarrow> polled \<Rightarrow> raw_item list \<times> polled" where
  "fetch_rss lib p =
     (let feed_url = feed_key_of p;
          fx = fetch_feed lib feed_url (pl_etag p) (pl_last_modified p);
          p = (apply_permanent_redirect (fl_canonical lib) feed_url (fx_permanent_url fx) (remember_validators fx p))
                \<lparr>fr_last_http_status := fx_status_code fx\<rparr>;
          items = (if fx_not_modified fx then [] else fx_items fx)
      in if items = [] \<and> \<not> fx_not_modified fx \<and> fr_feed_url p = None
         then case some_text (fl_discover lib (fr_url p)) of
                None \<Rightarrow> ([], p)
              | Some found \<Rightarrow>
                  let fx = fetch_feed lib found None None; p = remember_validators fx p
                  in (fx_items fx, if fx_items fx \<noteq> [] then p\<lparr>fr_feed_url := Some found\<rparr> else p)
         else (items, p))"

text \<open>A stored newsletter: its message id, subject, sender and body.\<close>

record stored_mail =
  ml_id :: string
  ml_subject :: "string option"
  ml_sender :: "string option"
  ml_body :: "string option"

definition newsletter_item :: "(nat \<Rightarrow> string) \<Rightarrow> nat \<Rightarrow> stored_mail \<Rightarrow> raw_item" where
  "newsletter_item show_uuid user m =
     (raw_content_item (''newsletter://'' @ show_uuid user @ ''/'' @ ml_id m) (or_default (ml_subject m) ''Newsletter''))
       \<lparr>ri_author := ml_sender m, ri_full_text := ml_body m,
        ri_word_count := map_option count_words (some_text (ml_body m))\<rparr>"

definition fetch_items ::
  "feed_lib \<Rightarrow> (nat \<Rightarrow> string) \<Rightarrow> (nat \<Rightarrow> stored_mail list) \<Rightarrow> polled \<Rightarrow> raw_item list \<times> polled" where
  "fetch_items lib show_uuid mails p =
     (if pl_source_type p = ''newsletter''
      then (case pl_owner p of None \<Rightarrow> [] | Some u \<Rightarrow> map (newsletter_item show_uuid u) (mails u), p)
      else if or_default (fr_feed_url p) [] \<noteq> [] \<or> pl_source_type p = ''rss'' then fetch_rss lib p
      else if pl_source_type p = ''scraped''
      then (case fl_scrape lib (fr_url p) of None \<Rightarrow> [] | Some i \<Rightarrow> [i], p)
      else ([], p))"

subsection \<open>The first batch\<close>

text \<open>
  \<open>sorted(items, key=published_at or datetime.min)\<close>: the dates of feeds are aware and \<open>datetime.min\<close> is naive, so a list
  that has both an item with a date and one without cannot be sorted.
\<close>

definition newest_n :: "raw_item list \<Rightarrow> int \<Rightarrow> py_error + raw_item list" where
  "newest_n items n =
     (if n \<le> 0 \<or> int (length items) \<le> n then Inr items
      else if list_all (\<lambda>i. ri_published_at i = None) items then Inr (take (nat n) items)
      else if list_ex (\<lambda>i. ri_published_at i = None) items then Inl TypeError
      else Inr (take (nat n) (sort_desc (\<lambda>i. or_default (ri_published_at i) 0) items)))"

definition first_batch :: "int \<Rightarrow> raw_item list \<times> polled \<Rightarrow> py_error + raw_item list \<times> polled" where
  "first_batch n r =
     (let (items, p) = r
      in if items \<noteq> [] \<and> \<not> pl_backfilled p
         then map_sum id (\<lambda>items. (items, p\<lparr>pl_backfilled := True\<rparr>)) (newest_n items n)
         else Inr (items, p))"

subsection \<open>What is new\<close>

definition MIN_FEED_WORDS :: int where "MIN_FEED_WORDS = 80"

text \<open>\<open>from_feed_text\<close>: method, confidence, kind of page and whether it can be ranked.\<close>

definition from_feed_text :: "string option \<Rightarrow> string \<times> real \<times> string \<times> bool" where
  "from_feed_text text =
     (let words = count_words (strip (or_default text []))
      in if MIN_FEED_WORDS \<le> words then (''feed'', 0.9, ''article'', True)
         else if 0 < words then (''feed'', 0.4, ''article'', True)
         else (''failed'', 0, ''unknown'', False))"

definition annotate_item :: "hash64 \<Rightarrow> raw_item \<Rightarrow> raw_item" where
  "annotate_item h i =
     (let i = i\<lparr>ri_simhash := Some (simhash_text h (ri_title i @ [char_of (10::nat)] @ or_default (ri_full_text i) []))\<rparr>
      in if some_text (ri_extraction_method i) \<noteq> None then i
         else
           let (method, confidence, page, rankable) = from_feed_text (ri_full_text i)
           in i\<lparr>ri_extraction_method := Some method, ri_extraction_confidence := Some confidence,
                ri_page_type := text_or (ri_page_type i) (Some page), ri_rankable := rankable\<rparr>)"

text \<open>Within one batch: one item per canonical address and per guid.\<close>

fun collapse :: "feed_lib \<Rightarrow> string set \<Rightarrow> string set \<Rightarrow> raw_item list \<Rightarrow> raw_item list" where
  "collapse lib urls guids [] = []"
| "collapse lib urls guids (raw # items) =
     (let i = annotate_item (fl_hash lib) raw
      in case fl_canonical lib (ri_url i) of
           None \<Rightarrow> collapse lib urls guids items
         | Some u \<Rightarrow>
             if u \<in> urls \<or> some_and (some_text (ri_guid i)) (\<lambda>g. g \<in> guids) then collapse lib urls guids items
             else i\<lparr>ri_url := u\<rparr> # collapse lib (insert u urls)
                    (case some_text (ri_guid i) of None \<Rightarrow> guids | Some g \<Rightarrow> insert g guids) items)"

text \<open>The stored rows of the feed or source: address, guid and fingerprint.\<close>

type_synonym stored_key = "string \<times> string option \<times> string option"

definition known_urls :: "feed_lib \<Rightarrow> stored_key list \<Rightarrow> string set" where
  "known_urls lib stored = set (List.map_filter (\<lambda>(u, _, _). some_text (fl_canonical lib u)) stored)"

definition known_guids :: "stored_key list \<Rightarrow> string set" where
  "known_guids stored = set (List.map_filter (\<lambda>(_, g, _). some_text g) stored)"

definition known_hashes :: "stored_key list \<Rightarrow> string list" where
  "known_hashes stored = List.map_filter (\<lambda>(_, _, d). some_text d) stored"

fun pick_new :: "string set \<Rightarrow> string set \<Rightarrow> string list \<Rightarrow> raw_item list \<Rightarrow> raw_item list" where
  "pick_new urls guids hashes [] = []"
| "pick_new urls guids hashes (i # items) =
     (if ri_url i \<in> urls \<or> some_and (some_text (ri_guid i)) (\<lambda>g. g \<in> guids)
         \<or> list_ex (\<lambda>d. is_near_duplicate (ri_simhash i) (Some d)) hashes
      then pick_new urls guids hashes items
      else i # pick_new urls guids (case some_text (ri_simhash i) of None \<Rightarrow> hashes | Some d \<Rightarrow> hashes @ [d]) items)"

definition new_items_of :: "feed_lib \<Rightarrow> stored_key list \<Rightarrow> raw_item list \<Rightarrow> raw_item list" where
  "new_items_of lib stored items =
     pick_new (known_urls lib stored) (known_guids stored) (known_hashes stored) (collapse lib {} {} items)"

definition dispatch_source ::
  "feed_lib \<Rightarrow> (nat \<Rightarrow> string) \<Rightarrow> (nat \<Rightarrow> stored_mail list) \<Rightarrow> int \<Rightarrow> stored_key list \<Rightarrow> polled
    \<Rightarrow> py_error + raw_item list \<times> polled" where
  "dispatch_source lib show_uuid mails n stored p =
     map_sum id (\<lambda>(items, p). (new_items_of lib stored items, p)) (first_batch n (fetch_items lib show_uuid mails p))"

subsection \<open>The fingerprint as a set of bits\<close>

lemma bit_pushed_one: "bit (push_bit i (1 :: 64 word)) j \<longleftrightarrow> j < 64 \<and> j = i"
  by (auto simp: bit_exp_iff)

lemma bit_packed_loop:
  "bit (foldl (\<lambda>acc i. if 0 < w i then acc OR push_bit i 1 else acc) (v :: 64 word) ns) j
    \<longleftrightarrow> bit v j \<or> (j < 64 \<and> j \<in> set ns \<and> 0 < w j)"
proof (induction ns arbitrary: v)
  case Nil
  then show ?case by simp
next
  case (Cons i ns)
  show ?case
  proof (cases "0 < w i")
    case True
    have "bit (foldl (\<lambda>acc i. if 0 < w i then acc OR push_bit i 1 else acc) (v OR push_bit i 1) ns) j
      \<longleftrightarrow> (bit v j \<or> j < 64 \<and> j = i) \<or> (j < 64 \<and> j \<in> set ns \<and> 0 < w j)"
      unfolding Cons.IH bit_or_iff bit_pushed_one by blast
    then show ?thesis using True by auto
  next
    case False
    then show ?thesis using Cons.IH [of v] by auto
  qed
qed

lemma bit_packed: "bit (packed w) j \<longleftrightarrow> j < 64 \<and> 0 < w j"
  by (simp add: packed_def bit_packed_loop)

lemma digit_char_all:
  "list_all (\<lambda>d. digit_value (digit_char d) = d \<and> digit_char d \<noteq> CHR ''_'' \<and> digit_char d \<noteq> CHR ''-''
    \<and> digit_char d \<noteq> CHR ''+'' \<and> lower_char (digit_char d) \<noteq> CHR ''x'' \<and> \<not> is_space_char (digit_char d)) [0..15]"
  by code_simp

lemma digit_char_hex:
  assumes "0 \<le> d" "d < 16"
  shows "digit_value (digit_char d) = d" "digit_char d \<noteq> CHR ''_''" "digit_char d \<noteq> CHR ''-''" "digit_char d \<noteq> CHR ''+''"
    "lower_char (digit_char d) \<noteq> CHR ''x''" "\<not> is_space_char (digit_char d)"
proof -
  have "d \<in> set [0..15]" using assms by simp
  with digit_char_all show "digit_value (digit_char d) = d" "digit_char d \<noteq> CHR ''_''" "digit_char d \<noteq> CHR ''-''"
    "digit_char d \<noteq> CHR ''+''" "lower_char (digit_char d) \<noteq> CHR ''x''" "\<not> is_space_char (digit_char d)"
    unfolding list_all_iff by blast+
qed

definition nibble :: "64 word \<Rightarrow> nat \<Rightarrow> int" where
  "nibble v k = uint (drop_bit (4 * k) v) mod 16"

lemma nibble_bounds [simp]: "0 \<le> nibble v k" "nibble v k < 16"
  by (simp_all add: nibble_def)

lemma hex16_nibbles: "hex16 v = map (\<lambda>k. digit_char (nibble v k)) (rev [0..<16])"
  by (simp add: hex16_def nibble_def)

lemma nibble_div: "nibble v k = (uint v div 16 ^ k) mod 16"
proof -
  have "uint (drop_bit (4 * k) v) = uint v div 2 ^ (4 * k)" by (rule uint_drop_bit_div)
  also have "(2 :: int) ^ (4 * k) = 16 ^ k" by (simp add: power_mult)
  finally show ?thesis by (simp add: nibble_def)
qed

lemma hex_value:
  "foldl (\<lambda>acc c. acc * 16 + digit_value c) a (map (\<lambda>k. digit_char (nibble v k)) (rev [0..<n]))
    = a * 16 ^ n + uint v mod 16 ^ n"
proof (induction n arbitrary: a)
  case 0
  then show ?case by simp
next
  case (Suc n)
  have "uint v mod 16 ^ Suc n = nibble v n * 16 ^ n + uint v mod 16 ^ n"
    using zmod_zmult2_eq [of 16 "uint v" "16 ^ n"] by (simp add: nibble_div mult.commute [of _ "16 ^ n"])
  then show ?case using Suc.IH [of "a * 16 + nibble v n"] by (simp add: digit_char_hex algebra_simps)
qed

lemma split_no_char: "c \<notin> set s \<Longrightarrow> split_char c s = [s]"
  by (induction s) auto

lemma strip_no_space: "(\<And>c. c \<in> set s \<Longrightarrow> \<not> is_space_char c) \<Longrightarrow> strip s = s"
proof -
  assume n: "\<And>c. c \<in> set s \<Longrightarrow> \<not> is_space_char c"
  have "dropWhile is_space_char t = t" if "set t \<subseteq> set s" for t
    using that n by (cases t) auto
  from this [of s] this [of "rev s"] show ?thesis by (simp add: strip_def lstrip_chars_def rstrip_chars_def)
qed

lemma int_of_hex16: "int_of_hex (hex16 v) = Some (uint v)"
proof -
  have chars: "\<exists>d. 0 \<le> d \<and> d < 16 \<and> c = digit_char d" if "c \<in> set (hex16 v)" for c
  proof -
    from that obtain k where "c = digit_char (nibble v k)" by (auto simp: hex16_nibbles)
    then show ?thesis using nibble_bounds by blast
  qed
  have us: "CHR ''_'' \<notin> set (hex16 v)" using chars digit_char_hex(2) by fastforce
  have hexs: "list_all is_hex_char (hex16 v)" using chars digit_char_hex(1) by (fastforce simp: list_all_iff is_hex_char_def)
  have st: "strip (hex16 v) = hex16 v" using chars digit_char_hex(6) by (intro strip_no_space) fastforce
  obtain a b t where abt: "hex16 v = a # b # t" by (simp add: hex16_def upt_rec)
  then have mem: "a \<in> set (hex16 v)" "b \<in> set (hex16 v)" by simp_all
  have a: "a \<noteq> CHR ''-''" "a \<noteq> CHR ''+''" using chars [OF mem(1)] digit_char_hex by auto
  have b: "lower_char b \<noteq> CHR ''x''" using chars [OF mem(2)] digit_char_hex by auto
  have up: "unprefixed (hex16 v) = hex16 v" using abt b by (simp add: unprefixed_def lower_def)
  have "uint v < 16 ^ 16" using uint_lt2p [of v] by simp
  then have val: "digits_value 16 (hex16 v) = uint v"
    using hex_value [of 0 v 16] by (simp add: digits_value_def hex16_nibbles)
  have "hex_digits (hex16 v) = Some (uint v)"
    using hexs abt unfolding hex_digits_def split_no_char [OF us] by (simp add: val [unfolded abt])
  then show ?thesis using st up a by (simp add: int_of_hex_def abt)
qed

lemma popcount_card: "popcount n = card {i. bit n i} \<and> finite {i. bit n i}"
proof (induction n rule: popcount.induct)
  case (1 n)
  show ?case
  proof (cases "n = 0")
    case True
    then show ?thesis by (simp add: popcount.simps)
  next
    case False
    have "{i. bit n i} = {i. i = 0 \<and> odd n} \<union> Suc ` {i. bit (n div 2) i}" (is "_ = ?z \<union> ?s")
    proof (rule set_eqI)
      fix i
      show "i \<in> {i. bit n i} \<longleftrightarrow> i \<in> ?z \<union> ?s" by (cases i) (auto simp: bit_0 bit_Suc)
    qed
    moreover have "?z \<inter> ?s = {}" by auto
    moreover have f: "finite {i. bit (n div 2) i}" "popcount (n div 2) = card {i. bit (n div 2) i}" using 1 False by simp_all
    moreover have "card ?s = card {i. bit (n div 2) i}" by (rule card_image) simp
    moreover have "card ?z = n mod 2" by (cases "odd n") (simp_all add: odd_iff_mod_2_eq_one)
    ultimately show ?thesis using False by (simp add: popcount.simps [of n] card_Un_disjoint)
  qed
qed

lemma hamming_hex16: "hamming (hex16 v) (hex16 w) = card {i. i < 64 \<and> bit v i \<noteq> bit w i}"
proof -
  have "uint v XOR uint w = uint (v XOR w)" by (simp add: unsigned_xor_eq)
  then have "hamming (hex16 v) (hex16 w) = popcount (unat (v XOR w))"
    by (simp add: hamming_def int_of_hex16)
  also have "\<dots> = card {i. bit (unat (v XOR w)) i}" using popcount_card by blast
  also have "{i. bit (unat (v XOR w)) i} = {i. i < 64 \<and> bit v i \<noteq> bit w i}"
  proof -
    have "bit (unat (v XOR w)) i \<longleftrightarrow> i < 64 \<and> bit v i \<noteq> bit w i" for i
      using bit_imp_le_length [of v i] bit_imp_le_length [of w i] by (auto simp: bit_unsigned_iff bit_xor_iff)
    then show ?thesis by blast
  qed
  finally show ?thesis .
qed

text \<open>
  C33. Two texts are near duplicates exactly when their token votes differ in at most three of the 64 bits: storing a
  fingerprint as sixteen hexadecimal digits and reading it back loses nothing.
\<close>

theorem near_duplicate_iff_votes:
  "is_near_duplicate (Some (simhash_text h a)) (Some (simhash_text h b)) \<longleftrightarrow>
     card {i. i < 64 \<and> (0 < token_weight h (tokens a) i) \<noteq> (0 < token_weight h (tokens b) i)} \<le> 3"
proof -
  have "simhash_text h x \<noteq> []" for x by (simp add: simhash_text_def hex16_def)
  moreover have "{i. i < 64 \<and> bit (packed v) i \<noteq> bit (packed w) i} = {i. i < 64 \<and> (0 < v i) \<noteq> (0 < w i)}" for v w
    by (auto simp: bit_packed)
  ultimately show ?thesis
    by (simp add: is_near_duplicate_def NEAR_DUP_BITS_def simhash_text_def hamming_hex16)
qed

subsection \<open>What is new, and why the rest is not\<close>

lemma hamming_commute: "hamming a b = hamming b a"
  by (auto simp: hamming_def xor.commute split: option.split)

lemma near_commute: "is_near_duplicate a b = is_near_duplicate b a"
  by (auto simp: is_near_duplicate_def hamming_commute)

definition guid_of :: "raw_item \<Rightarrow> string option" where
  "guid_of i = some_text (ri_guid i)"

definition apart :: "raw_item \<Rightarrow> raw_item \<Rightarrow> bool" where
  "apart a b \<longleftrightarrow> ri_url a \<noteq> ri_url b \<and> (guid_of a = None \<or> guid_of a \<noteq> guid_of b)"

lemma annotate_fields [simp]:
  "ri_url (annotate_item h i) = ri_url i" "ri_guid (annotate_item h i) = ri_guid i"
  "ri_simhash (annotate_item h i) = Some (simhash_text h (ri_title i @ [char_of (10::nat)] @ or_default (ri_full_text i) []))"
  by (simp_all add: annotate_item_def Let_def split: prod.split)

lemma simhash_nonempty: "simhash_text h t \<noteq> []"
  by (simp add: simhash_text_def hex16_def)

lemma some_text_simps [simp]: "some_text None = None" "some_text (Some s) = (if s = [] then None else Some s)"
  by (simp_all add: some_text_def text_or_def)

lemma collapse_mem:
  "c \<in> set (collapse lib urls guids items) \<Longrightarrow>
     ri_url c \<notin> urls \<and> (guid_of c = None \<or> the (guid_of c) \<notin> guids)
     \<and> (\<exists>raw \<in> set items. fl_canonical lib (ri_url raw) = Some (ri_url c) \<and> guid_of c = guid_of raw)
     \<and> some_text (ri_simhash c) = ri_simhash c \<and> ri_simhash c \<noteq> None"
proof (induction lib urls guids items rule: collapse.induct)
  case (1 lib urls guids)
  then show ?case by simp
next
  case (2 lib urls guids raw items)
  let ?i = "annotate_item (fl_hash lib) raw"
  show ?case
  proof (cases "fl_canonical lib (ri_url raw)")
    case None
    then show ?thesis using 2 by simp
  next
    case (Some u)
    show ?thesis
    proof (cases "u \<in> urls \<or> some_and (guid_of ?i) (\<lambda>g. g \<in> guids)")
      case True
      then have "collapse lib urls guids (raw # items) = collapse lib urls guids items"
        using Some by (auto simp: Let_def guid_of_def)
      then show ?thesis using 2 Some True by (auto simp: guid_of_def)
    next
      case False
      let ?g = "case guid_of ?i of None \<Rightarrow> guids | Some g \<Rightarrow> insert g guids"
      have eq: "collapse lib urls guids (raw # items) = ?i\<lparr>ri_url := u\<rparr> # collapse lib (insert u urls) ?g items"
        using Some False by (auto simp: Let_def guid_of_def)
      from 2(4) eq consider "c = ?i\<lparr>ri_url := u\<rparr>" | "c \<in> set (collapse lib (insert u urls) ?g items)" by auto
      then show ?thesis
      proof cases
        case 1
        then show ?thesis using False Some by (auto simp: guid_of_def simhash_nonempty split: option.splits)
      next
        case c: 2
        have f: "\<not> (u \<in> urls \<or> some_and (some_text (ri_guid ?i)) (\<lambda>g. g \<in> guids))" using False by (simp add: guid_of_def)
        have "ri_url c \<notin> insert u urls \<and> (guid_of c = None \<or> the (guid_of c) \<notin> ?g)
          \<and> (\<exists>raw \<in> set items. fl_canonical lib (ri_url raw) = Some (ri_url c) \<and> guid_of c = guid_of raw)
          \<and> some_text (ri_simhash c) = ri_simhash c \<and> ri_simhash c \<noteq> None"
          using 2(3) [OF refl _ f] Some c by (simp add: guid_of_def)
        moreover have "guids \<subseteq> ?g" by (auto split: option.splits)
        ultimately show ?thesis by auto
      qed
    qed
  qed
qed

lemma collapse_apart: "sorted_wrt apart (collapse lib urls guids items)"
proof (induction lib urls guids items rule: collapse.induct)
  case (1 lib urls guids)
  then show ?case by simp
next
  case (2 lib urls guids raw items)
  let ?i = "annotate_item (fl_hash lib) raw"
  show ?case
  proof (cases "fl_canonical lib (ri_url raw)")
    case None
    then show ?thesis using 2 by simp
  next
    case (Some u)
    show ?thesis
    proof (cases "u \<in> urls \<or> some_and (some_text (ri_guid ?i)) (\<lambda>g. g \<in> guids)")
      case True
      then show ?thesis using 2(2) [OF refl _ True] Some by (auto simp: Let_def)
    next
      case False
      let ?g = "case some_text (ri_guid ?i) of None \<Rightarrow> guids | Some g \<Rightarrow> insert g guids"
      have eq: "collapse lib urls guids (raw # items) = ?i\<lparr>ri_url := u\<rparr> # collapse lib (insert u urls) ?g items"
        using Some False by (auto simp: Let_def)
      have ih: "sorted_wrt apart (collapse lib (insert u urls) ?g items)" using 2(3) [OF refl _ False] Some by simp
      have "apart (?i\<lparr>ri_url := u\<rparr>) c" if "c \<in> set (collapse lib (insert u urls) ?g items)" for c
      proof (cases "guid_of raw")
        case None
        then show ?thesis using collapse_mem [OF that] by (auto simp: apart_def guid_of_def)
      next
        case (Some g)
        then have g: "g \<in> ?g" by (simp add: guid_of_def)
        have "guid_of c = None \<or> the (guid_of c) \<notin> ?g" using collapse_mem [OF that] by blast
        then have "guid_of c \<noteq> Some g" using g by auto
        then show ?thesis using collapse_mem [OF that] Some by (auto simp: apart_def guid_of_def)
      qed
      then show ?thesis using eq ih by simp
    qed
  qed
qed

lemma pick_new_mem:
  "k \<in> set (pick_new U G H cs) \<Longrightarrow> k \<in> set cs \<and> ri_url k \<notin> U \<and> (guid_of k = None \<or> the (guid_of k) \<notin> G)
     \<and> (\<forall>d \<in> set H. \<not> is_near_duplicate (ri_simhash k) (Some d))"
proof (induction U G H cs rule: pick_new.induct)
  case (1 U G H)
  then show ?case by simp
next
  case (2 U G H i items)
  show ?case
  proof (cases "ri_url i \<in> U \<or> some_and (some_text (ri_guid i)) (\<lambda>g. g \<in> G)
         \<or> list_ex (\<lambda>d. is_near_duplicate (ri_simhash i) (Some d)) H")
    case True
    then show ?thesis using 2 by simp
  next
    case False
    let ?H = "case some_text (ri_simhash i) of None \<Rightarrow> H | Some d \<Rightarrow> H @ [d]"
    have eq: "pick_new U G H (i # items) = i # pick_new U G ?H items" using False by simp
    from 2(3) eq consider "k = i" | "k \<in> set (pick_new U G ?H items)" by auto
    then show ?thesis
    proof cases
      case 1
      then show ?thesis using False by (auto simp: guid_of_def list_ex_iff split: option.splits)
    next
      case k: 2
      show ?thesis using 2(2) [OF False k] by (auto split: option.splits)
    qed
  qed
qed

lemma pick_new_far:
  "sorted_wrt (\<lambda>a b. \<not> is_near_duplicate (ri_simhash b) (ri_simhash a)) (pick_new U G H cs)"
proof (induction U G H cs rule: pick_new.induct)
  case (1 U G H)
  then show ?case by simp
next
  case (2 U G H i items)
  show ?case
  proof (cases "ri_url i \<in> U \<or> some_and (some_text (ri_guid i)) (\<lambda>g. g \<in> G)
         \<or> list_ex (\<lambda>d. is_near_duplicate (ri_simhash i) (Some d)) H")
    case True
    then show ?thesis using 2(1) by simp
  next
    case False
    let ?H = "case some_text (ri_simhash i) of None \<Rightarrow> H | Some d \<Rightarrow> H @ [d]"
    have far: "\<not> is_near_duplicate (ri_simhash k) (ri_simhash i)" if k: "k \<in> set (pick_new U G ?H items)" for k
    proof (cases "some_text (ri_simhash i)")
      case None
      then have "or_default (ri_simhash i) [] = []" by (cases "ri_simhash i") (auto split: if_splits)
      then show ?thesis by (simp add: is_near_duplicate_def)
    next
      case (Some d)
      then have "ri_simhash i = Some d" by (cases "ri_simhash i") (auto split: if_splits)
      then show ?thesis using pick_new_mem [OF k] Some by simp
    qed
    show ?thesis using 2(2) [OF False] far False by simp
  qed
qed

lemma pick_new_complete:
  "c \<in> set cs \<Longrightarrow> c \<in> set (pick_new U G H cs) \<or> ri_url c \<in> U \<or> (\<exists>g \<in> G. guid_of c = Some g)
     \<or> (\<exists>d \<in> set H. is_near_duplicate (ri_simhash c) (Some d))
     \<or> (\<exists>k \<in> set (pick_new U G H cs). is_near_duplicate (ri_simhash c) (ri_simhash k))"
proof (induction U G H cs rule: pick_new.induct)
  case (1 U G H)
  then show ?case by simp
next
  case (2 U G H i items)
  show ?case
  proof (cases "ri_url i \<in> U \<or> some_and (some_text (ri_guid i)) (\<lambda>g. g \<in> G)
         \<or> list_ex (\<lambda>d. is_near_duplicate (ri_simhash i) (Some d)) H")
    case True
    then have "pick_new U G H (i # items) = pick_new U G H items" by simp
    moreover have "ri_url i \<in> U \<or> (\<exists>g \<in> G. guid_of i = Some g) \<or> (\<exists>d \<in> set H. is_near_duplicate (ri_simhash i) (Some d))"
      using True by (auto simp: guid_of_def list_ex_iff some_and_def split: option.splits)
    ultimately show ?thesis using 2(1) [OF True] 2(3) by (cases "c = i") auto
  next
    case False
    let ?H = "case some_text (ri_simhash i) of None \<Rightarrow> H | Some d \<Rightarrow> H @ [d]"
    have eq: "pick_new U G H (i # items) = i # pick_new U G ?H items" using False by simp
    show ?thesis
    proof (cases "c = i")
      case True
      then show ?thesis using eq by simp
    next
      case c: False
      then have ih: "c \<in> set (pick_new U G ?H items) \<or> ri_url c \<in> U \<or> (\<exists>g \<in> G. guid_of c = Some g)
         \<or> (\<exists>d \<in> set ?H. is_near_duplicate (ri_simhash c) (Some d))
         \<or> (\<exists>k \<in> set (pick_new U G ?H items). is_near_duplicate (ri_simhash c) (ri_simhash k))"
        using 2(2) [OF False] 2(3) by simp
      have "is_near_duplicate (ri_simhash c) (ri_simhash i)" if "some_text (ri_simhash i) = Some d"
        "is_near_duplicate (ri_simhash c) (Some d)" for d
        using that by (cases "ri_simhash i") (auto split: if_splits)
      then show ?thesis using ih unfolding eq by (cases "some_text (ri_simhash i)") auto
    qed
  qed
qed

lemma sorted_wrt_pick: "sorted_wrt R cs \<Longrightarrow> sorted_wrt R (pick_new U G H cs)"
proof (induction U G H cs rule: pick_new.induct)
  case (1 U G H)
  then show ?case by simp
next
  case (2 U G H i items)
  then show ?case using pick_new_mem [of _ U G _ items] by (auto split: option.splits)
qed

lemma sorted_wrt_far:
  assumes "sorted_wrt (\<lambda>a b. \<not> is_near_duplicate (ri_simhash b) (ri_simhash a)) ks" "c \<in> set ks" "k \<in> set ks" "k \<noteq> c"
  shows "\<not> is_near_duplicate (ri_simhash c) (ri_simhash k)"
  using assms by (induction ks) (auto simp: near_commute)

lemma new_items_apart:
  "sorted_wrt apart (new_items_of lib stored items)"
  "sorted_wrt (\<lambda>a b. \<not> is_near_duplicate (ri_simhash b) (ri_simhash a)) (new_items_of lib stored items)"
  unfolding new_items_of_def by (rule sorted_wrt_pick [OF collapse_apart], rule pick_new_far)

text \<open>
  What a poll takes as new: no two new items share an address or a guid or are near duplicates, none is stored
  already, and every other item of the collapsed batch has its reason.
\<close>

theorem new_items_exact:
  "sorted_wrt (\<lambda>a b. apart a b \<and> \<not> is_near_duplicate (ri_simhash b) (ri_simhash a)) (new_items_of lib stored items)
    \<and> set (new_items_of lib stored items) =
        {c \<in> set (collapse lib {} {} items). ri_url c \<notin> known_urls lib stored
           \<and> (\<forall>g \<in> known_guids stored. guid_of c \<noteq> Some g)
           \<and> (\<forall>d \<in> set (known_hashes stored). \<not> is_near_duplicate (ri_simhash c) (Some d))
           \<and> \<not> (\<exists>k \<in> set (new_items_of lib stored items). k \<noteq> c \<and> is_near_duplicate (ri_simhash c) (ri_simhash k))}"
proof
  let ?N = "new_items_of lib stored items" and ?C = "collapse lib {} {} items"
  have mem: "k \<in> set ?C \<and> ri_url k \<notin> known_urls lib stored \<and> (guid_of k = None \<or> the (guid_of k) \<notin> known_guids stored)
     \<and> (\<forall>d \<in> set (known_hashes stored). \<not> is_near_duplicate (ri_simhash k) (Some d))" if "k \<in> set ?N" for k
    using that unfolding new_items_of_def by (rule pick_new_mem)
  note far = new_items_apart(2) [of lib stored items]
  from new_items_apart(1) far show "sorted_wrt (\<lambda>a b. apart a b \<and> \<not> is_near_duplicate (ri_simhash b) (ri_simhash a)) ?N"
    by (simp add: sorted_wrt_iff_nth_less)
  have alone: "\<not> is_near_duplicate (ri_simhash c) (ri_simhash k)" if "c \<in> set ?N" "k \<in> set ?N" "k \<noteq> c" for c k
    by (rule sorted_wrt_far [OF far that])
  show "set ?N = {c \<in> set ?C. ri_url c \<notin> known_urls lib stored
           \<and> (\<forall>g \<in> known_guids stored. guid_of c \<noteq> Some g)
           \<and> (\<forall>d \<in> set (known_hashes stored). \<not> is_near_duplicate (ri_simhash c) (Some d))
           \<and> \<not> (\<exists>k \<in> set ?N. k \<noteq> c \<and> is_near_duplicate (ri_simhash c) (ri_simhash k))}" (is "_ = ?R")
  proof (intro equalityI subsetI)
    fix c
    assume "c \<in> set ?N"
    then show "c \<in> ?R" using mem [of c] alone [of c] by auto
  next
    fix c
    assume c: "c \<in> ?R"
    then have "c \<in> set ?N \<or> (\<exists>k \<in> set ?N. is_near_duplicate (ri_simhash c) (ri_simhash k))"
      using pick_new_complete [of c ?C "known_urls lib stored" "known_guids stored" "known_hashes stored"]
      unfolding new_items_of_def by (cases "guid_of c") auto
    then show "c \<in> set ?N"
    proof
      assume "\<exists>k \<in> set ?N. is_near_duplicate (ri_simhash c) (ri_simhash k)"
      then obtain k where k: "k \<in> set ?N" "is_near_duplicate (ri_simhash c) (ri_simhash k)" by blast
      then have "k = c" using c by blast
      then show ?thesis using k(1) by simp
    qed
  qed
qed

subsection \<open>Polling the same batch again\<close>

text \<open>
  \<open>kept\<close> are the new items of which a part (\<open>ins\<close>) was stored meanwhile: choosing again from the same batch gives the
  part that was not stored.
\<close>

definition known_item :: "string set \<Rightarrow> string set \<Rightarrow> string list \<Rightarrow> raw_item \<Rightarrow> bool" where
  "known_item U G H i \<longleftrightarrow> ri_url i \<in> U \<or> (\<exists>g \<in> G. guid_of i = Some g)
     \<or> (\<exists>d \<in> set H. is_near_duplicate (ri_simhash i) (Some d))"

definition with_hash :: "string list \<Rightarrow> raw_item \<Rightarrow> string list" where
  "with_hash H i = (case some_text (ri_simhash i) of None \<Rightarrow> H | Some d \<Rightarrow> H @ [d])"

lemma pick_new_step:
  "pick_new U G H (i # items) =
     (if known_item U G H i then pick_new U G H items else i # pick_new U G (with_hash H i) items)"
  by (auto simp: known_item_def with_hash_def guid_of_def some_and_def list_ex_iff split: option.split)

lemma set_with_hash: "set (with_hash H i) = set H \<union> {d. some_text (ri_simhash i) = Some d}"
  by (auto simp: with_hash_def split: option.split)

lemma pick_new_known: "k \<in> set (pick_new U G H cs) \<Longrightarrow> \<not> known_item U G H k"
  using pick_new_mem [of k U G H cs] by (auto simp: known_item_def)

lemma known_item_mono:
  "known_item U G H i \<Longrightarrow> U \<subseteq> U2 \<Longrightarrow> G \<subseteq> G2 \<Longrightarrow> set H \<subseteq> set H2 \<Longrightarrow> known_item U2 G2 H2 i"
  unfolding known_item_def by blast

lemma pick_again:
  assumes "U \<subseteq> U2" "G \<subseteq> G2" "set H \<subseteq> set H2"
    and "\<forall>k \<in> set (pick_new U G H cs). ins k \<longrightarrow> ri_url k \<in> U2 \<and> set (with_hash [] k) \<subseteq> set H2"
    and "\<forall>k \<in> set (pick_new U G H cs). \<not> ins k \<longrightarrow> \<not> known_item U2 G2 H2 k"
  shows "pick_new U2 G2 H2 cs = filter (\<lambda>k. \<not> ins k) (pick_new U G H cs)"
  using assms(3-)
proof (induction cs arbitrary: H H2)
  case Nil
  then show ?case by simp
next
  case (Cons i items)
  note known = known_item_mono [OF _ assms(1,2) Cons.prems(1)]
  show ?case
  proof (cases "known_item U G H i")
    case True
    have eq: "pick_new U G H (i # items) = pick_new U G H items" unfolding pick_new_step using True by simp
    have "pick_new U2 G2 H2 (i # items) = pick_new U2 G2 H2 items" unfolding pick_new_step using known [OF True] by simp
    then show ?thesis using Cons.IH [OF Cons.prems(1)] Cons.prems(2,3) unfolding eq by simp
  next
    case False
    have eq: "pick_new U G H (i # items) = i # pick_new U G (with_hash H i) items"
      unfolding pick_new_step using False by simp
    note prems = Cons.prems [unfolded eq]
    show ?thesis
    proof (cases "ins i")
      case True
      have "set (with_hash H i) \<subseteq> set H2" using prems(1,2) True by (simp add: set_with_hash)
      then have ih: "pick_new U2 G2 H2 items = filter (\<lambda>k. \<not> ins k) (pick_new U G (with_hash H i) items)"
        by (rule Cons.IH) (use prems(2,3) in simp_all)
      have "known_item U2 G2 H2 i" using prems(2) True by (simp add: known_item_def)
      then have "pick_new U2 G2 H2 (i # items) = pick_new U2 G2 H2 items" unfolding pick_new_step by simp
      then show ?thesis unfolding eq using True ih by simp
    next
      case i: False
      have new: "\<not> known_item U2 G2 H2 i" using prems(3) i by simp
      have "set (with_hash H i) \<subseteq> set (with_hash H2 i)" using prems(1) by (auto simp: set_with_hash)
      moreover have "\<forall>k \<in> set (pick_new U G (with_hash H i) items). ins k
          \<longrightarrow> ri_url k \<in> U2 \<and> set (with_hash [] k) \<subseteq> set (with_hash H2 i)"
        using prems(2) unfolding set_with_hash by fastforce
      moreover have "\<not> known_item U2 G2 (with_hash H2 i) k"
        if k: "k \<in> set (pick_new U G (with_hash H i) items)" "\<not> ins k" for k
        using pick_new_known [OF k(1)] prems(3) k unfolding known_item_def set_with_hash by auto
      ultimately have ih: "pick_new U2 G2 (with_hash H2 i) items
          = filter (\<lambda>k. \<not> ins k) (pick_new U G (with_hash H i) items)"
        by (intro Cons.IH) blast+
      have "pick_new U2 G2 H2 (i # items) = i # pick_new U2 G2 (with_hash H2 i) items" unfolding pick_new_step using new by simp
      then show ?thesis unfolding eq using i ih by simp
    qed
  qed
qed

subsection \<open>Two limits of the first batch\<close>

text \<open>A batch that is over the limit and has an item without a date stops the poll.\<close>

lemma undated_item_stops_first_batch:
  assumes "0 < n" "n < int (length items)" "\<not> pl_backfilled p"
    and "a \<in> set items" "ri_published_at a \<noteq> None" "b \<in> set items" "ri_published_at b = None"
  shows "first_batch n (items, p) = Inl TypeError"
  using assms by (auto simp: first_batch_def newest_n_def list_all_iff list_ex_iff)

text \<open>
  The limit on the first batch lasts for one poll: the second poll is not limited, so the items that the first one left
  out come in.
\<close>

definition dated_item :: "nat \<Rightarrow> raw_item" where
  "dated_item k = (raw_content_item (''https://x.org/'' @ show_int (int k)) (show_int (int k)))\<lparr>ri_published_at := Some (real k)\<rparr>"

lemma backfill_limit_is_undone:
  assumes "p' = p\<lparr>pl_backfilled := True\<rparr>" "\<not> pl_backfilled p"
  shows "first_batch 2 ([dated_item 1, dated_item 2, dated_item 3], p) = Inr ([dated_item 3, dated_item 2], p')
    \<and> first_batch 2 ([dated_item 1, dated_item 2, dated_item 3], p') = Inr ([dated_item 1, dated_item 2, dated_item 3], p')"
  using assms by (simp add: first_batch_def newest_n_def dated_item_def sort_desc_def)

end
