(* ===== verification/Ingest.thy ===== *)
theory Ingest
  imports Fetching Takedown
begin

text \<open>
  A run of the ingest, \<open>workers/tasks/ingest_feeds.py\<close>: which feeds and newsletters are due, the budgets of hosted
  accounts, one poll with its insertions, the copy of the poll state to the subscribers, and what is recorded when a
  poll raises. Every target has a transaction of its own: a poll that raises is rolled back, except for the counters in
  Redis. A run takes place at one moment, \<open>ie_now\<close>. The unique indexes of \<open>content_items\<close> are those of
  \<open>models/content.py\<close>.
\<close>

subsection \<open>Rows and state\<close>

record content_row = content_item +
  cr_guid :: "string option"
  cr_simhash :: "string option"
  cr_author :: "string option"
  cr_full_text :: "string option"
  cr_transcript_url :: "string option"
  cr_extraction_method :: "string option"
  cr_extraction_confidence :: "real option"
  cr_page_type :: "string option"
  cr_lead_image_url :: "string option"
  cr_paywalled :: bool

record ingest_state =
  ig_sources :: sources_state
  ig_items :: "content_row list"
  ig_takedowns :: takedowns
  ig_accounts :: "account list"
  ig_embeddings :: "nat list"
  ig_next :: nat

record ingest_env =
  ie_lib :: feed_lib
  ie_show_uuid :: "nat \<Rightarrow> string"
  ie_mails :: "nat \<Rightarrow> stored_mail list"
  ie_transcript :: "string \<Rightarrow> string option"
  ie_billing :: billing_settings
  ie_abuse :: abuse_settings
  ie_redis :: redis
  ie_now :: moment
  ie_factor :: "nat \<Rightarrow> real"
  ie_backfill_limit :: int
  ie_dead_after_days :: real
  ie_pro_max_poll_minutes :: int
  ie_message :: "py_error \<Rightarrow> string"
  ie_broker :: "nat \<Rightarrow> bool"

definition the_feed :: "nat \<Rightarrow> ingest_state \<Rightarrow> shared_feed option" where
  "the_feed i st = find (\<lambda>f. sf_id f = i) (sx_feeds (ig_sources st))"

definition the_source :: "nat \<Rightarrow> ingest_state \<Rightarrow> subscription option" where
  "the_source i st = find (\<lambda>s. so_id s = i) (sx_sources (ig_sources st))"

definition put_feed :: "shared_feed \<Rightarrow> ingest_state \<Rightarrow> ingest_state" where
  "put_feed f st = st\<lparr>ig_sources := (ig_sources st)\<lparr>sx_feeds :=
     map (\<lambda>g. if sf_id g = sf_id f then f else g) (sx_feeds (ig_sources st))\<rparr>\<rparr>"

definition put_subscriptions :: "subscription list \<Rightarrow> ingest_state \<Rightarrow> ingest_state" where
  "put_subscriptions ss st = st\<lparr>ig_sources := foldl (\<lambda>sx s. put_source s sx) (ig_sources st) ss\<rparr>"

definition subscribers_of :: "nat \<Rightarrow> ingest_state \<Rightarrow> subscription list" where
  "subscribers_of i st = subscribers i True (ig_sources st)"

definition mirrored :: "shared_feed \<Rightarrow> subscription list \<Rightarrow> ingest_state \<Rightarrow> ingest_state" where
  "mirrored f ss st = put_subscriptions (mirror f ss) st"

definition counters_of :: "ingest_state \<Rightarrow> ttl_counters" where
  "counters_of st = sx_counters (ig_sources st)"

definition with_counters :: "ttl_counters \<Rightarrow> ingest_state \<Rightarrow> ingest_state" where
  "with_counters cs st = st\<lparr>ig_sources := (ig_sources st)\<lparr>sx_counters := cs\<rparr>\<rparr>"

subsection \<open>Insertion\<close>

text \<open>
  A row conflicts with a stored one when both have the same owner (or none) and the same address, or the same source and
  the same guid; a \<open>NULL\<close> source or guid conflicts with nothing.
\<close>

definition conflicts :: "content_row \<Rightarrow> content_row \<Rightarrow> bool" where
  "conflicts a b \<longleftrightarrow> (ci_owner_user_id a = ci_owner_user_id b \<and> ci_url a = ci_url b)
     \<or> (ci_source_id a \<noteq> None \<and> cr_guid a \<noteq> None \<and> ci_source_id a = ci_source_id b \<and> cr_guid a = cr_guid b)"

definition insert_row :: "content_row \<Rightarrow> ingest_state \<Rightarrow> nat option \<times> ingest_state" where
  "insert_row r st =
     (if list_ex (conflicts r) (ig_items st) then (None, st)
      else (Some (ig_next st), st\<lparr>ig_items := ig_items st @ [r\<lparr>ci_id := ig_next st\<rparr>], ig_next := ig_next st + 1\<rparr>))"

fun insert_items :: "ingest_env \<Rightarrow> content_row list \<Rightarrow> ingest_state \<Rightarrow> py_error + nat list \<times> ingest_state" where
  "insert_items e [] st = Inr ([], st)"
| "insert_items e (r # rows) st =
     and_then (is_url_blocked (fl_canonical (ie_lib e)) (ig_takedowns st) (ci_url r)) (\<lambda>blocked.
       if blocked then insert_items e rows st
       else
         let (i, st) = insert_row r st
         in map_sum id (\<lambda>(fresh, st). (case i of None \<Rightarrow> fresh | Some i \<Rightarrow> i # fresh, st)) (insert_items e rows st))"

text \<open>A podcast is stored with its transcript before the text of the feed, up to 100,000 characters.\<close>

definition with_transcript :: "string option \<Rightarrow> content_row \<Rightarrow> content_row" where
  "with_transcript transcript r =
     (case some_text transcript of
        None \<Rightarrow> r
      | Some t \<Rightarrow>
          let combined = (case some_text (cr_full_text r) of None \<Rightarrow> t | Some x \<Rightarrow> t @ [CHR 0x0A, CHR 0x0A] @ x);
              stored = take 100000 combined; words = count_words stored
          in r\<lparr>cr_full_text := Some stored, ci_word_count := Some words,
               ci_reading_time_minutes := Some (max 1 (py_round (of_int words / 200)))\<rparr>)"

definition content_row_of ::
  "ingest_env \<Rightarrow> nat \<Rightarrow> nat option \<Rightarrow> nat option \<Rightarrow> raw_item \<Rightarrow> content_row" where
  "content_row_of e source_id feed_id owner raw =
     with_transcript (case some_text (ri_transcript_url raw) of None \<Rightarrow> None | Some u \<Rightarrow> ie_transcript e u)
       (content_item.extend ((blank_item 0)\<lparr>ci_source_id := Some source_id, ci_feed_id := feed_id, ci_owner_user_id := owner,
            ci_url := ri_url raw, ci_title := ri_title raw, ci_published_at := ri_published_at raw,
            ci_fetched_at := ie_now e, ci_word_count := ri_word_count raw, ci_language := ri_language raw,
            ci_rankable := ri_rankable raw, ci_origin := ri_origin raw,
            ci_reading_time_minutes := ri_reading_time_minutes raw\<rparr>)
          (content_row.fields (ri_guid raw) (ri_simhash raw) (ri_author raw) (ri_full_text raw) (ri_transcript_url raw)
             (ri_extraction_method raw) (ri_extraction_confidence raw) (ri_page_type raw) (ri_lead_image_url raw)
             (ri_paywalled raw)))"

subsection \<open>One poll\<close>

definition polled_feed :: "shared_feed \<Rightarrow> polled" where
  "polled_feed f = feed_row.extend ((feed_row.truncate f)\<lparr>fr_last_http_status := None\<rparr>)
     (polled.fields (sf_id f) None (sf_source_type f) (sf_http_etag f) (sf_http_last_modified f) (sf_initial_backfill_done f))"

definition feed_after :: "polled \<Rightarrow> shared_feed \<Rightarrow> shared_feed" where
  "feed_after p f = (feed_row.extend ((feed_row.truncate p)\<lparr>fr_last_http_status := None\<rparr>) (feed_row.more f))
     \<lparr>sf_http_etag := pl_etag p, sf_http_last_modified := pl_last_modified p, sf_initial_backfill_done := pl_backfilled p\<rparr>"

definition polled_source :: "subscription \<Rightarrow> polled" where
  "polled_source s = feed_row.extend ((feed_row.truncate s)\<lparr>fr_last_http_status := None\<rparr>)
     (polled.fields (so_id s) (Some (so_user_id s)) (so_source_type s) (so_http_etag s) (so_http_last_modified s)
        (so_initial_backfill_done s))"

definition source_after :: "polled \<Rightarrow> subscription \<Rightarrow> subscription" where
  "source_after p s = (feed_row.extend ((feed_row.truncate p)\<lparr>fr_last_http_status := None\<rparr>) (feed_row.more s))
     \<lparr>so_http_etag := pl_etag p, so_http_last_modified := pl_last_modified p, so_initial_backfill_done := pl_backfilled p\<rparr>"

definition on_columns :: "(feed_row \<Rightarrow> 'e + feed_row) \<Rightarrow> polled \<Rightarrow> 'e + polled" where
  "on_columns f p = map_sum id (\<lambda>r. feed_row.extend r (feed_row.more p)) (f (feed_row.truncate p))"

text \<open>What is stored already: for the feed, or, for a newsletter, under its source.\<close>

definition key_of_row :: "content_row \<Rightarrow> stored_key" where
  "key_of_row r = (ci_url r, cr_guid r, cr_simhash r)"

definition stored_keys :: "polled \<Rightarrow> content_row list \<Rightarrow> stored_key list" where
  "stored_keys p rows = map key_of_row (filter (\<lambda>r.
     if pl_owner p = None then ci_feed_id r = Some (pl_id p) else ci_source_id r = Some (pl_id p)) rows)"

definition ingest_source ::
  "ingest_env \<Rightarrow> nat \<Rightarrow> nat option \<Rightarrow> polled \<Rightarrow> ingest_state \<Rightarrow> py_error + nat list \<times> polled \<times> ingest_state" where
  "ingest_source e source_id feed_id p st =
     and_then (is_dead_reddit_feed (Some (feed_key_of p)) (ie_now e)) (\<lambda>dead.
       if dead then map_sum id (\<lambda>p. ([], p, st)) (on_columns (\<lambda>r. Inr (mark_reddit_feed_dead (ie_now e) r)) p)
       else
         and_then (dispatch_source (ie_lib e) (ie_show_uuid e) (ie_mails e) (ie_backfill_limit e)
                     (stored_keys p (ig_items st)) p) (\<lambda>(raws, p).
           let owner = (if pl_source_type p = ''newsletter'' then pl_owner p else None)
           in and_then (insert_items e (map (content_row_of e source_id feed_id owner) raws) st) (\<lambda>(fresh, st).
                map_sum id (\<lambda>p. (fresh, p, st))
                  (on_columns (finish_ingest (ie_dead_after_days e) (fresh \<noteq> []) (ie_now e) (ie_factor e (pl_id p))) p))))"

subsection \<open>Budgets\<close>

definition unpaused :: "ingest_env \<Rightarrow> account list \<Rightarrow> nat list \<Rightarrow> nat list" where
  "unpaused e accounts users =
     (if \<not> bc_hosted (ie_billing e) \<or> users = [] then users
      else filter (\<lambda>u. \<not> list_ex (\<lambda>a. ac_id a = u \<and> is_paused (ie_billing e) a (ie_now e)) accounts) users)"

fun charge_all :: "ingest_env \<Rightarrow> nat list \<Rightarrow> ttl_counters \<Rightarrow> nat list \<times> ttl_counters" where
  "charge_all e [] cs = ([], cs)"
| "charge_all e (u # us) cs =
     (let (ok, cs) = charge_fetch (ie_abuse e) (ie_redis e) (ie_show_uuid e u) 1 (ie_now e) cs;
          (granted, cs) = charge_all e us cs
      in (if ok then u # granted else granted, cs))"

datatype budget = Poll | Wait moment "nat list"

text \<open>Whether the feed may be polled now, or else when next and for which accounts the pause is recorded.\<close>

definition within_budgets ::
  "ingest_env \<Rightarrow> account list \<Rightarrow> shared_feed \<Rightarrow> subscription list \<Rightarrow> ttl_counters \<Rightarrow> (py_error + budget) \<times> ttl_counters" where
  "within_budgets e accounts f subs cs =
     (let now = ie_now e; users = unpaused e accounts (first_seen (map so_user_id subs) [])
      in if users = [] then (Inr (Wait (now + 12 * 3600) []), cs)
         else
           let (granted, cs) = charge_all e users cs
           in if granted = [] then (Inr (Wait (next_hour now) users), cs)
              else case charge_host_poll (ie_abuse e) (ie_redis e) (feed_key_of f) now cs of
                     Inl x \<Rightarrow> (Inl x, cs)
                   | Inr (ok, cs) \<Rightarrow> (Inr (if ok then Poll else Wait (next_hour now) []), cs))"

definition paused_for :: "nat list \<Rightarrow> moment \<Rightarrow> ingest_state \<Rightarrow> ingest_state" where
  "paused_for users now st =
     (if users = [] then st
      else st\<lparr>ig_sources := (ig_sources st)\<lparr>sx_paused := snd (pause_fetches users now (sx_paused (ig_sources st)))\<rparr>\<rparr>)"

definition apply_pro_priority :: "ingest_env \<Rightarrow> account list \<Rightarrow> subscription list \<Rightarrow> shared_feed \<Rightarrow> shared_feed" where
  "apply_pro_priority e accounts subs f =
     (let cap = ie_pro_max_poll_minutes e; soonest = ie_now e + of_int cap * 60
      in if \<not> bc_hosted (ie_billing e) \<or> cap \<le> 0 \<or> or_default (fr_fetch_error_count f) 0 \<noteq> 0 then f
         else if some_and (fr_next_poll_at f) (\<lambda>t. t \<le> soonest) then f
         else if list_ex (\<lambda>a. ac_id a \<in> set (map so_user_id subs) \<and> pro_features (ie_billing e) a (ie_now e)) accounts
         then f\<lparr>fr_next_poll_at := Some soonest\<rparr>
         else f)"

subsection \<open>One feed, one newsletter\<close>

definition ingest_feed ::
  "ingest_env \<Rightarrow> shared_feed \<Rightarrow> ingest_state \<Rightarrow> (py_error + nat list \<times> ingest_state) \<times> ttl_counters" where
  "ingest_feed e f st =
     (let subs = subscribers_of (sf_id f) st
      in case subs of
           [] \<Rightarrow> (Inr ([], st), counters_of st)
         | s # _ \<Rightarrow>
             let (verdict, cs) = within_budgets e (ig_accounts st) f subs (counters_of st)
             in (and_then verdict (\<lambda>b. case b of
                   Wait t users \<Rightarrow>
                     let f = f\<lparr>fr_next_poll_at := Some t\<rparr>
                     in Inr ([], mirrored f subs (put_feed f (paused_for users (ie_now e) (with_counters cs st))))
                 | Poll \<Rightarrow>
                     map_sum id (\<lambda>(fresh, p, st).
                         let f = apply_pro_priority e (ig_accounts st) subs (feed_after p f)
                         in (fresh, mirrored f subs (put_feed f st)))
                       (ingest_source e (so_id s) (Some (sf_id f)) (polled_feed f) (with_counters cs st))), cs))"

definition ingest_newsletter :: "ingest_env \<Rightarrow> subscription \<Rightarrow> ingest_state \<Rightarrow> py_error + nat list \<times> ingest_state" where
  "ingest_newsletter e s st =
     map_sum id (\<lambda>(fresh, p, st). (fresh, put_subscriptions [source_after p s] st))
       (ingest_source e (so_id s) None (polled_source s) st)"

text \<open>After a poll that raised: backoff in a transaction of its own, which may raise as well.\<close>

definition feed_failure :: "ingest_env \<Rightarrow> py_error \<Rightarrow> nat \<Rightarrow> ingest_state \<Rightarrow> ingest_state" where
  "feed_failure e x i st =
     (case the_feed i st of
        None \<Rightarrow> st
      | Some f \<Rightarrow>
          (case on_columns (record_source_failure (ie_dead_after_days e) (ie_message e x) (ie_now e) (ie_factor e i))
                  (polled_feed f) of
             Inl _ \<Rightarrow> st
           | Inr p \<Rightarrow> let f = feed_after p f in mirrored f (subscribers_of i st) (put_feed f st)))"

definition source_failure :: "ingest_env \<Rightarrow> py_error \<Rightarrow> nat \<Rightarrow> ingest_state \<Rightarrow> ingest_state" where
  "source_failure e x i st =
     (case the_source i st of
        None \<Rightarrow> st
      | Some s \<Rightarrow>
          (case on_columns (record_source_failure (ie_dead_after_days e) (ie_message e x) (ie_now e) (ie_factor e i))
                  (polled_source s) of
             Inl _ \<Rightarrow> st
           | Inr p \<Rightarrow> put_subscriptions [source_after p s] st))"

definition enqueue_embeddings :: "ingest_env \<Rightarrow> nat list \<Rightarrow> ingest_state \<Rightarrow> ingest_state" where
  "enqueue_embeddings e fresh st = st\<lparr>ig_embeddings := ig_embeddings st @ filter (ie_broker e) fresh\<rparr>"

definition feed_turn :: "ingest_env \<Rightarrow> nat \<times> ingest_state \<Rightarrow> nat \<Rightarrow> nat \<times> ingest_state" where
  "feed_turn e r i =
     (let (total, st) = r
      in case the_feed i st of
           None \<Rightarrow> (total, st)
         | Some f \<Rightarrow>
             (case ingest_feed e f st of
                (Inl x, cs) \<Rightarrow> (total, feed_failure e x i (with_counters cs st))
              | (Inr (fresh, st), cs) \<Rightarrow> (total + length fresh, enqueue_embeddings e fresh st)))"

definition source_turn :: "ingest_env \<Rightarrow> nat \<times> ingest_state \<Rightarrow> nat \<Rightarrow> nat \<times> ingest_state" where
  "source_turn e r i =
     (let (total, st) = r
      in case the_source i st of
           None \<Rightarrow> (total, st)
         | Some s \<Rightarrow>
             (case ingest_newsletter e s st of
                Inl x \<Rightarrow> (total, source_failure e x i st)
              | Inr (fresh, st) \<Rightarrow> (total + length fresh, enqueue_embeddings e fresh st)))"

subsection \<open>A run\<close>

definition due_at :: "moment \<Rightarrow> moment option \<Rightarrow> bool" where
  "due_at now t \<longleftrightarrow> (case t of None \<Rightarrow> True | Some t \<Rightarrow> t \<le> now)"

text \<open>\<open>ORDER BY next_poll_at ASC NULLS FIRST\<close>\<close>

definition soonest_first :: "'a feed_row_scheme list \<Rightarrow> 'a feed_row_scheme list" where
  "soonest_first fs = filter (\<lambda>f. fr_next_poll_at f = None) fs
     @ sort_key (\<lambda>f. or_default (fr_next_poll_at f) 0) (filter (\<lambda>f. fr_next_poll_at f \<noteq> None) fs)"

definition plan_active :: "account \<Rightarrow> moment \<Rightarrow> bool" where
  "plan_active a now \<longleftrightarrow> ac_plan_expires_at a = None \<or> later (ac_plan_expires_at a) now"

text \<open>The condition that \<open>_pro_followed\<close> puts on the account of a subscriber.\<close>

definition pro_account :: "account \<Rightarrow> moment \<Rightarrow> bool" where
  "pro_account a now \<longleftrightarrow>
     (ac_tier a \<in> set (filter (\<lambda>t. t \<in> set PRO_PLANS) PAID_TIERS) \<and> plan_active a now)
     \<or> (later (ac_trial_ends_at a) now \<and> \<not> (ac_tier a \<in> set PAID_TIERS \<and> plan_active a now))"

definition pro_followed :: "moment \<Rightarrow> ingest_state \<Rightarrow> shared_feed \<Rightarrow> bool" where
  "pro_followed now st f \<longleftrightarrow> list_ex (\<lambda>s. so_feed_id s = Some (sf_id f) \<and> fr_is_active s
     \<and> list_ex (\<lambda>a. ac_id a = so_user_id s \<and> pro_account a now) (ig_accounts st)) (sx_sources (ig_sources st))"

definition followed_by :: "nat option \<Rightarrow> ingest_state \<Rightarrow> shared_feed \<Rightarrow> bool" where
  "followed_by user st f \<longleftrightarrow> list_ex (\<lambda>s. so_feed_id s = Some (sf_id f) \<and> fr_is_active s
     \<and> (case user of None \<Rightarrow> True | Some u \<Rightarrow> so_user_id s = u)) (sx_sources (ig_sources st))"

definition feeds_to_poll :: "ingest_env \<Rightarrow> nat option \<Rightarrow> ingest_state \<Rightarrow> nat list" where
  "feeds_to_poll e user st =
     (let fs = filter (\<lambda>f. fr_is_active f \<and> followed_by user st f) (sx_feeds (ig_sources st));
          due = soonest_first (filter (\<lambda>f. due_at (ie_now e) (fr_next_poll_at f)) fs);
          pro = pro_followed (ie_now e) st
      in map sf_id (if user \<noteq> None then fs
                    else if bc_hosted (ie_billing e) then filter pro due @ filter (\<lambda>f. \<not> pro f) due else due))"

definition newsletters_to_poll :: "ingest_env \<Rightarrow> nat option \<Rightarrow> ingest_state \<Rightarrow> nat list" where
  "newsletters_to_poll e user st =
     map so_id (filter (\<lambda>s. fr_is_active s \<and> so_source_type s = ''newsletter''
       \<and> (case user of None \<Rightarrow> due_at (ie_now e) (fr_next_poll_at s) | Some u \<Rightarrow> so_user_id s = u)) (sx_sources (ig_sources st)))"

record ingest_report =
  ir_new_items :: nat
  ir_feeds_processed :: nat
  ir_sources_processed :: nat

definition ingest_all_feeds :: "ingest_env \<Rightarrow> nat option \<Rightarrow> ingest_state \<Rightarrow> py_error + ingest_report \<times> ingest_state" where
  "ingest_all_feeds e user st =
     map_sum id (\<lambda>(_, sx).
       let st = st\<lparr>ig_sources := sx\<rparr>; feeds = feeds_to_poll e user st; letters = newsletters_to_poll e user st;
           (total, st) = foldl (source_turn e) (foldl (feed_turn e) (0, st) feeds) letters
       in (\<lparr>ir_new_items = total, ir_feeds_processed = length feeds,
            ir_sources_processed = length feeds + length letters\<rparr>, st))
     (sync_feeds user (ie_now e) (ig_sources st))"

subsection \<open>Creators\<close>

record creator_platform =
  cp_id :: nat
  cp_feed_url :: "string option"
  cp_platform_url :: "string option"

fun fresh_by_url :: "string set \<Rightarrow> raw_item list \<Rightarrow> raw_item list" where
  "fresh_by_url seen [] = []"
| "fresh_by_url seen (i # items) =
     (if ri_url i \<in> seen then fresh_by_url seen items else i # fresh_by_url (insert (ri_url i) seen) items)"

definition platform_items :: "feed_lib \<Rightarrow> creator_platform \<Rightarrow> raw_item list" where
  "platform_items lib p =
     map (\<lambda>i. i\<lparr>ri_creator_platform_id := Some (cp_id p)\<rparr>)
       (case some_text (cp_feed_url p) of
          Some u \<Rightarrow> fx_items (fetch_feed lib u None None)
        | None \<Rightarrow> (case some_text (cp_platform_url p) of
            None \<Rightarrow> [] | Some u \<Rightarrow> (case fl_scrape lib u of None \<Rightarrow> [] | Some i \<Rightarrow> [i])))"

definition fetch_creator_content :: "feed_lib \<Rightarrow> creator_platform list \<Rightarrow> raw_item list" where
  "fetch_creator_content lib ps = fresh_by_url {} (concat (map (platform_items lib) ps))"

definition creator_row :: "ingest_env \<Rightarrow> raw_item \<Rightarrow> content_row" where
  "creator_row e raw =
     content_item.extend ((blank_item 0)\<lparr>ci_creator_platform_id := ri_creator_platform_id raw, ci_url := ri_url raw,
          ci_title := ri_title raw, ci_published_at := ri_published_at raw, ci_fetched_at := ie_now e,
          ci_word_count := ri_word_count raw\<rparr>)
       (content_row.fields None None (ri_author raw) (ri_full_text raw) None None None None None False)"

definition creator_turn :: "ingest_env \<Rightarrow> nat \<times> ingest_state \<Rightarrow> creator_platform list \<Rightarrow> nat \<times> ingest_state" where
  "creator_turn e r ps =
     (let (total, st) = r
      in case insert_items e (map (creator_row e) (fetch_creator_content (ie_lib e) ps)) st of
           Inl x \<Rightarrow> (total, st)
         | Inr (fresh, st) \<Rightarrow> (total + length fresh, enqueue_embeddings e fresh st))"

definition ingest_creator_feeds :: "ingest_env \<Rightarrow> creator_platform list list \<Rightarrow> ingest_state \<Rightarrow> (nat \<times> nat) \<times> ingest_state" where
  "ingest_creator_feeds e creators st =
     (let (total, st) = foldl (creator_turn e) (0, st) creators in ((total, length creators), st))"

subsection \<open>The table only grows, and stays unique\<close>

lemma conflicts_commute: "conflicts a b = conflicts b a"
  by (auto simp: conflicts_def)

lemma conflicts_refl: "conflicts a a"
  by (simp add: conflicts_def)

lemma conflicts_id [simp]: "conflicts (a\<lparr>ci_id := i\<rparr>) b = conflicts a b" "conflicts b (a\<lparr>ci_id := i\<rparr>) = conflicts b a"
  by (simp_all add: conflicts_def)

text \<open>No two rows conflict, and the identifiers are below the next one and differ.\<close>

definition table_ok :: "ingest_state \<Rightarrow> bool" where
  "table_ok st \<longleftrightarrow> sorted_wrt (\<lambda>a b. \<not> conflicts a b) (ig_items st) \<and> distinct (map ci_id (ig_items st))
     \<and> (\<forall>r \<in> set (ig_items st). ci_id r < ig_next st)"

definition open_url :: "ingest_env \<Rightarrow> ingest_state \<Rightarrow> string \<Rightarrow> bool" where
  "open_url e st url \<longleftrightarrow> is_url_blocked (fl_canonical (ie_lib e)) (ig_takedowns st) url = Inr False"

definition grown :: "ingest_env \<Rightarrow> ingest_state \<Rightarrow> nat list \<Rightarrow> ingest_state \<Rightarrow> bool" where
  "grown e st fresh st' \<longleftrightarrow> ig_takedowns st' = ig_takedowns st \<and> (table_ok st \<longrightarrow> table_ok st')
     \<and> (\<exists>added. ig_items st' = ig_items st @ added \<and> map ci_id added = fresh \<and> list_all (\<lambda>r. open_url e st (ci_url r)) added)"

lemma grown_refl: "grown e st [] st"
  by (simp add: grown_def)

lemma grown_trans:
  assumes "grown e st a st1" "grown e st1 b st2"
  shows "grown e st (a @ b) st2"
proof -
  have "open_url e st1 = open_url e st" using assms(1) by (simp add: grown_def open_url_def fun_eq_iff)
  then show ?thesis using assms unfolding grown_def by fastforce
qed

text \<open>Steps that leave the table alone.\<close>

definition same_table :: "ingest_state \<Rightarrow> ingest_state \<Rightarrow> bool" where
  "same_table st st' \<longleftrightarrow> ig_items st' = ig_items st \<and> ig_takedowns st' = ig_takedowns st \<and> ig_next st' = ig_next st"

lemma grown_same: "same_table st st' \<Longrightarrow> grown e st [] st'"
  by (simp add: same_table_def grown_def table_ok_def)

lemma same_table_frames [simp]:
  "same_table st (put_feed f st') = same_table st st'" "same_table st (put_subscriptions ss st') = same_table st st'"
  "same_table st (mirrored f ss st') = same_table st st'" "same_table st (with_counters cs st') = same_table st st'"
  "same_table st (paused_for users now st') = same_table st st'" "same_table st (enqueue_embeddings e fresh st') = same_table st st'"
  "same_table st st"
  by (simp_all add: same_table_def put_feed_def put_subscriptions_def mirrored_def with_counters_def paused_for_def
      enqueue_embeddings_def)

lemma grown_frames [simp]:
  "grown e st a (put_feed f st') = grown e st a st'" "grown e st a (put_subscriptions ss st') = grown e st a st'"
  "grown e st a (mirrored f ss st') = grown e st a st'" "grown e st a (with_counters cs st') = grown e st a st'"
  "grown e st a (enqueue_embeddings e' fresh st') = grown e st a st'"
  by (simp_all add: grown_def table_ok_def put_feed_def put_subscriptions_def mirrored_def with_counters_def
      enqueue_embeddings_def)

lemma grown_from_counters [simp]: "grown e (with_counters cs st) a st' = grown e st a st'"
  by (simp add: grown_def table_ok_def open_url_def with_counters_def)

lemma embeddings_frames [simp]:
  "ig_embeddings (put_feed f st) = ig_embeddings st" "ig_embeddings (put_subscriptions ss st) = ig_embeddings st"
  "ig_embeddings (mirrored f ss st) = ig_embeddings st" "ig_embeddings (with_counters cs st) = ig_embeddings st"
  "ig_embeddings (paused_for users now st) = ig_embeddings st"
  "ig_embeddings (enqueue_embeddings e fresh st) = ig_embeddings st @ filter (ie_broker e) fresh"
  by (simp_all add: put_feed_def put_subscriptions_def mirrored_def with_counters_def paused_for_def enqueue_embeddings_def)

lemma insert_row_grown:
  assumes "insert_row r st = (i, st')" "open_url e st (ci_url r)"
  shows "grown e st (case i of None \<Rightarrow> [] | Some i \<Rightarrow> [i]) st' \<and> ig_embeddings st' = ig_embeddings st
    \<and> (\<exists>b \<in> set (ig_items st'). conflicts r b)"
proof (cases "list_ex (conflicts r) (ig_items st)")
  case True
  then show ?thesis using assms by (auto simp: insert_row_def grown_refl list_ex_iff)
next
  case False
  then have st': "i = Some (ig_next st)" "st' = st\<lparr>ig_items := ig_items st @ [r\<lparr>ci_id := ig_next st\<rparr>], ig_next := ig_next st + 1\<rparr>"
    using assms(1) by (simp_all add: insert_row_def)
  have "table_ok st'" if "table_ok st"
    using that False by (auto simp: st' table_ok_def sorted_wrt_append list_ex_iff conflicts_commute [of _ r] less_Suc_eq)
  then show ?thesis using assms(2) by (auto simp: st' grown_def conflicts_refl)
qed

lemma insert_items_grown:
  assumes "insert_items e rows st = Inr (fresh, st')"
  shows "grown e st fresh st' \<and> ig_embeddings st' = ig_embeddings st
    \<and> (\<forall>r \<in> set rows. open_url e st (ci_url r) \<longrightarrow> (\<exists>b \<in> set (ig_items st'). conflicts r b))"
  using assms
proof (induction rows arbitrary: st fresh)
  case Nil
  then show ?case by (simp add: grown_refl)
next
  case (Cons r rows)
  obtain blocked where b: "is_url_blocked (fl_canonical (ie_lib e)) (ig_takedowns st) (ci_url r) = Inr blocked"
    using Cons.prems by (cases "is_url_blocked (fl_canonical (ie_lib e)) (ig_takedowns st) (ci_url r)") simp_all
  show ?case
  proof (cases blocked)
    case True
    then have "insert_items e rows st = Inr (fresh, st')" using Cons.prems b by simp
    from Cons.IH [OF this] show ?thesis using b True by (simp add: open_url_def)
  next
    case False
    obtain i st1 where i: "insert_row r st = (i, st1)" by (cases "insert_row r st")
    obtain rest where rest: "insert_items e rows st1 = Inr (rest, st')" "fresh = (case i of None \<Rightarrow> rest | Some i \<Rightarrow> i # rest)"
      using Cons.prems b False i by (cases "insert_items e rows st1") auto
    have o: "open_url e st (ci_url r)" using b False by (simp add: open_url_def)
    note one = insert_row_grown [OF i o] and more = Cons.IH [OF rest(1)]
    have "fresh = (case i of None \<Rightarrow> [] | Some i \<Rightarrow> [i]) @ rest" using rest(2) by (cases i) simp_all
    then have g: "grown e st fresh st'" using grown_trans one more by blast
    have sub: "set (ig_items st1) \<subseteq> set (ig_items st')" using more by (auto simp: grown_def)
    have same: "open_url e st1 = open_url e st" using one by (simp add: grown_def open_url_def fun_eq_iff)
    show ?thesis using g one more sub unfolding same by auto
  qed
qed

lemma ingest_source_grown:
  assumes "ingest_source e s f p st = Inr (fresh, p', st')"
  shows "grown e st fresh st' \<and> ig_embeddings st' = ig_embeddings st"
proof -
  obtain dead where d: "is_dead_reddit_feed (Some (feed_key_of p)) (ie_now e) = Inr dead"
    using assms by (auto simp: ingest_source_def and_then_eq_Inr)
  show ?thesis
  proof (cases dead)
    case True
    then have "fresh = []" "st' = st" using assms d by (auto simp: ingest_source_def on_columns_def)
    then show ?thesis by (simp add: grown_refl)
  next
    case False
    then obtain raws owner p1 where "insert_items e (map (content_row_of e s f owner) raws) st = Inr (fresh, st')"
      using assms d by (auto simp: ingest_source_def and_then_eq_Inr Let_def map_sum_Inr)
    from insert_items_grown [OF this] show ?thesis by blast
  qed
qed

lemma ingest_feed_grown:
  assumes "ingest_feed e f st = (Inr (fresh, st'), cs)"
  shows "grown e st fresh st' \<and> ig_embeddings st' = ig_embeddings st"
proof (cases "subscribers_of (sf_id f) st")
  case Nil
  then show ?thesis using assms by (simp add: ingest_feed_def grown_refl)
next
  case (Cons s subs)
  obtain verdict cs1 where v: "within_budgets e (ig_accounts st) f (s # subs) (counters_of st) = (verdict, cs1)"
    by (cases "within_budgets e (ig_accounts st) f (s # subs) (counters_of st)")
  from assms Cons v obtain b where b: "verdict = Inr b" by (cases verdict) (auto simp: ingest_feed_def)
  show ?thesis
  proof (cases b)
    case Poll
    then obtain p st1 g where i: "ingest_source e (so_id s) (Some (sf_id f)) (polled_feed f) (with_counters cs1 st) = Inr (fresh, p, st1)"
      and st': "st' = mirrored g (s # subs) (put_feed g st1)"
      using assms Cons v b by (auto simp: ingest_feed_def Let_def map_sum_Inr)
    from ingest_source_grown [OF i] show ?thesis by (simp add: st')
  next
    case (Wait t users)
    then have "fresh = []" "st' = mirrored (f\<lparr>fr_next_poll_at := Some t\<rparr>) (s # subs)
        (put_feed (f\<lparr>fr_next_poll_at := Some t\<rparr>) (paused_for users (ie_now e) (with_counters cs1 st)))"
      using assms Cons v b by (auto simp: ingest_feed_def Let_def)
    then show ?thesis by (simp add: grown_same del: grown_frames)
  qed
qed

text \<open>What a turn, and with it a run, adds: the fresh items are stored, counted and queued for embedding once each.\<close>

definition added_by :: "ingest_env \<Rightarrow> nat \<times> ingest_state \<Rightarrow> nat \<times> ingest_state \<Rightarrow> bool" where
  "added_by e r r' \<longleftrightarrow> (\<exists>fresh. fst r' = fst r + length fresh \<and> grown e (snd r) fresh (snd r')
     \<and> ig_embeddings (snd r') = ig_embeddings (snd r) @ filter (ie_broker e) fresh)"

lemma added_by_refl: "added_by e r r"
  unfolding added_by_def by (rule exI [of _ "[]"]) (simp add: grown_refl)

lemma added_by_trans: "added_by e r r1 \<Longrightarrow> added_by e r1 r2 \<Longrightarrow> added_by e r r2"
  unfolding added_by_def
proof (elim exE conjE)
  fix a b
  assume a: "fst r1 = fst r + length a" "grown e (snd r) a (snd r1)"
    "ig_embeddings (snd r1) = ig_embeddings (snd r) @ filter (ie_broker e) a"
    and b: "fst r2 = fst r1 + length b" "grown e (snd r1) b (snd r2)"
    "ig_embeddings (snd r2) = ig_embeddings (snd r1) @ filter (ie_broker e) b"
  show "\<exists>fresh. fst r2 = fst r + length fresh \<and> grown e (snd r) fresh (snd r2)
      \<and> ig_embeddings (snd r2) = ig_embeddings (snd r) @ filter (ie_broker e) fresh"
    using grown_trans [OF a(2) b(2)] a(1,3) b(1,3) by (intro exI [of _ "a @ b"]) simp
qed

lemma failure_same_table:
  "same_table st (feed_failure e x i st)" "same_table st (source_failure e x i st)"
  "ig_embeddings (feed_failure e x i st) = ig_embeddings st" "ig_embeddings (source_failure e x i st) = ig_embeddings st"
  by (simp_all add: feed_failure_def source_failure_def Let_def split: option.split sum.split)

lemma same_table_counters: "same_table (with_counters cs st) st' = same_table st st'"
  by (simp add: same_table_def with_counters_def)

lemma feed_turn_adds: "added_by e r (feed_turn e r i)"
proof -
  obtain n st where r: "r = (n, st)" by (cases r)
  show ?thesis
  proof (cases "the_feed i st")
    case None
    then show ?thesis by (simp add: r feed_turn_def added_by_refl)
  next
    case (Some f)
    obtain out cs where o: "ingest_feed e f st = (out, cs)" by (cases "ingest_feed e f st")
    show ?thesis
    proof (cases out)
      case (Inl x)
      have "grown e st [] (feed_failure e x i (with_counters cs st))"
        using failure_same_table(1) [of "with_counters cs st" e x i] unfolding same_table_counters by (rule grown_same)
      then show ?thesis unfolding added_by_def using Some o Inl r
        by (intro exI [of _ "[]"]) (simp add: feed_turn_def failure_same_table)
    next
      case (Inr v)
      then obtain fresh st1 where v: "out = Inr (fresh, st1)" by (cases v) simp
      from ingest_feed_grown [OF o [unfolded v]] show ?thesis unfolding added_by_def using Some o v r
        by (intro exI [of _ fresh]) (simp add: feed_turn_def)
    qed
  qed
qed

lemma source_turn_adds: "added_by e r (source_turn e r i)"
proof -
  obtain n st where r: "r = (n, st)" by (cases r)
  show ?thesis
  proof (cases "the_source i st")
    case None
    then show ?thesis by (simp add: r source_turn_def added_by_refl)
  next
    case (Some s)
    show ?thesis
    proof (cases "ingest_newsletter e s st")
      case (Inl x)
      have "grown e st [] (source_failure e x i st)" using failure_same_table(2) by (rule grown_same)
      then show ?thesis unfolding added_by_def using Some Inl r
        by (intro exI [of _ "[]"]) (simp add: source_turn_def failure_same_table)
    next
      case (Inr v)
      then obtain fresh p st1 where i: "ingest_source e (so_id s) None (polled_source s) st = Inr (fresh, p, st1)"
        and v: "v = (fresh, put_subscriptions [source_after p s] st1)"
        by (auto simp: ingest_newsletter_def map_sum_Inr)
      from ingest_source_grown [OF i] show ?thesis unfolding added_by_def using Some Inr v r
        by (intro exI [of _ fresh]) (simp add: source_turn_def)
    qed
  qed
qed

lemma turns_add: "(\<And>r i. added_by e r (turn r i)) \<Longrightarrow> added_by e r (foldl turn r xs)"
proof (induction xs arbitrary: r)
  case (Cons x xs)
  show ?case using added_by_trans [OF Cons.prems Cons.IH [OF Cons.prems]] by simp
qed (simp add: added_by_refl)

text \<open>
  C3. A run of the ingest stores each new item once: rows are only appended, no row has the address and owner, or the source and
  guid, of another, no taken-down address is stored, and what was added is what the run counts and what it queues for
  embedding, however many polls raise and are rolled back in between.
\<close>

theorem ingest_stores_once:
  assumes "ingest_all_feeds e user st = Inr (report, st')" "table_ok st"
  shows "table_ok st' \<and> (\<exists>added. ig_items st' = ig_items st @ added \<and> length added = ir_new_items report
    \<and> list_all (\<lambda>r. is_url_blocked (fl_canonical (ie_lib e)) (ig_takedowns st) (ci_url r) = Inr False) added
    \<and> ig_embeddings st' = ig_embeddings st @ filter (ie_broker e) (map ci_id added))"
proof -
  obtain n sx where s: "sync_feeds user (ie_now e) (ig_sources st) = Inr (n, sx)"
    using assms(1) by (auto simp: ingest_all_feeds_def map_sum_Inr)
  define st0 where "st0 = st\<lparr>ig_sources := sx\<rparr>"
  define r where "r = foldl (source_turn e) (foldl (feed_turn e) (0, st0) (feeds_to_poll e user st0)) (newsletters_to_poll e user st0)"
  have r: "ir_new_items report = fst r" "st' = snd r"
    using assms(1) by (auto simp: ingest_all_feeds_def s r_def st0_def Let_def split: prod.splits)
  have "added_by e (0, st0) r"
    unfolding r_def by (rule added_by_trans [OF turns_add turns_add]) (rule feed_turn_adds, rule source_turn_adds)
  then obtain fresh where f: "fst r = length fresh" "grown e st0 fresh (snd r)"
    "ig_embeddings (snd r) = ig_embeddings st0 @ filter (ie_broker e) fresh" by (auto simp: added_by_def)
  have "table_ok st0" "ig_items st0 = ig_items st" "ig_takedowns st0 = ig_takedowns st" "ig_embeddings st0 = ig_embeddings st"
    using assms(2) by (simp_all add: st0_def table_ok_def)
  then show ?thesis using f unfolding grown_def r open_url_def by auto
qed

subsection \<open>A polled feed waits\<close>

definition waits :: "moment \<Rightarrow> 'a feed_row_scheme \<Rightarrow> bool" where
  "waits now f \<longleftrightarrow> \<not> (fr_is_active f \<and> due_at now (fr_next_poll_at f))"

lemma apply_poll_waits:
  assumes "apply_poll_result dd po row = Inr row'" "schedule_ok (schedule_of row)"
    "0.9 \<le> po_factor po" "po_factor po \<le> 1.1" "po_retry_after po = None"
  shows "waits (po_now po) row'"
proof -
  have "po_now po < snd (next_schedule dd youtube (schedule_of row) po)" for youtube
    using next_poll_bounds [OF assms(2-5), of dd youtube] by simp
  then have "waits (po_now po) (write_schedule (next_schedule dd youtube (schedule_of row) po) row)" for youtube
    by (simp add: write_schedule_def waits_def due_at_def not_le)
  moreover have "waits (po_now po) (mark_reddit_feed_dead (po_now po) row)"
    by (simp add: mark_reddit_feed_dead_def waits_def)
  ultimately show ?thesis using assms(1)
    by (auto simp: apply_poll_result_def split: sum.splits bool.splits)
qed

lemma finish_ingest_waits:
  assumes "finish_ingest dd new now factor row = Inr row'" "schedule_ok (schedule_of row)" "0.9 \<le> factor" "factor \<le> 1.1"
  shows "waits now row'"
proof -
  define bad where "bad \<longleftrightarrow> poll_failed (fr_last_http_status row) \<or> fr_last_http_status row = Some 410"
  define row0 where "row0 = (if bad then row\<lparr>fr_last_error_at := Some now, fr_last_error := Some (show_status (fr_last_http_status row))\<rparr> else row)"
  define po where "po = poll_of_status (fr_last_http_status row) new now factor (fr_last_fetched_at row0)"
  obtain row1 where r: "apply_poll_result dd po row0 = Inr row1"
    and row': "row' = (if bad then row1 else row1\<lparr>fr_last_fetched_at := Some now, fr_last_error := None, fr_last_error_at := None\<rparr>)"
    using assms(1) unfolding finish_ingest_def Let_def bad_def [symmetric] row0_def [symmetric] po_def [symmetric]
    by (auto split: sum.splits)
  have "schedule_of row0 = schedule_of row" by (simp add: row0_def schedule_of_def)
  then have "waits now row1"
    using apply_poll_waits [OF r] assms(2-4) by (simp add: po_def poll_of_status_def Let_def)
  then show ?thesis by (simp add: row' waits_def)
qed

lemma waits_columns [simp]:
  "waits now (feed_row.extend r m) = waits now r"
  "waits now (feed_row.truncate p) = waits now p"
  "waits now (f\<lparr>sf_http_etag := a, sf_http_last_modified := b, sf_initial_backfill_done := c\<rparr>) = waits now f"
  by (simp_all add: waits_def feed_row.defs)

lemma waits_after: "waits now p \<Longrightarrow> waits now (feed_after p f)"
  by (simp add: feed_after_def waits_def feed_row.defs)

lemma schedule_of_polled: "schedule_of (feed_row.truncate (polled_feed f)) = schedule_of (feed_row.truncate f)"
  by (simp add: polled_feed_def schedule_of_def feed_row.defs)

definition schedule_columns :: "polled \<Rightarrow> schedule_state" where
  "schedule_columns p = schedule_of (feed_row.truncate p)"

lemma dispatch_keeps_schedule:
  assumes "dispatch_source lib show_uuid mails n stored p = Inr (raws, p')"
  shows "schedule_columns p' = schedule_columns p"
proof -
  have a: "schedule_columns (apply_permanent_redirect canon u t q) = schedule_columns q" for canon u t q
    by (simp add: apply_permanent_redirect_def schedule_columns_def schedule_of_def feed_row.defs Let_def split: option.split)
  have v: "schedule_columns (remember_validators fx q) = schedule_columns q"
    "schedule_columns (q\<lparr>fr_last_http_status := c\<rparr>) = schedule_columns q"
    "schedule_columns (q\<lparr>fr_feed_url := u\<rparr>) = schedule_columns q"
    "schedule_columns (q\<lparr>pl_backfilled := b\<rparr>) = schedule_columns q" for fx q c u b
    by (simp_all add: remember_validators_def schedule_columns_def schedule_of_def feed_row.defs)
  have "schedule_columns (snd (fetch_rss lib p)) = schedule_columns p"
    by (simp add: fetch_rss_def Let_def a v split: option.split)
  then have f: "schedule_columns (snd (fetch_items lib show_uuid mails p)) = schedule_columns p"
    by (simp add: fetch_items_def)
  have "schedule_columns (snd r') = schedule_columns (snd r)" if "first_batch n r = Inr r'" for r r'
    using that by (auto simp: first_batch_def map_sum_Inr v split: prod.splits if_splits)
  from this [of "fetch_items lib show_uuid mails p"] f show ?thesis using assms
    by (auto simp: dispatch_source_def map_sum_Inr)
qed

lemma ingest_source_waits:
  assumes "ingest_source e s f p st = Inr (fresh, p', st')" "schedule_ok (schedule_columns p)"
    "\<And>j. 0.9 \<le> ie_factor e j \<and> ie_factor e j \<le> 1.1"
  shows "waits (ie_now e) p'"
proof -
  obtain dead where d: "is_dead_reddit_feed (Some (feed_key_of p)) (ie_now e) = Inr dead"
    using assms by (auto simp: ingest_source_def and_then_eq_Inr)
  show ?thesis
  proof (cases dead)
    case True
    then have "p' = feed_row.extend (mark_reddit_feed_dead (ie_now e) (feed_row.truncate p)) (feed_row.more p)"
      using assms d by (auto simp: ingest_source_def on_columns_def)
    then show ?thesis by (simp add: mark_reddit_feed_dead_def waits_def feed_row.defs)
  next
    case False
    then obtain raws p1 row where p1: "dispatch_source (ie_lib e) (ie_show_uuid e) (ie_mails e) (ie_backfill_limit e)
          (stored_keys p (ig_items st)) p = Inr (raws, p1)"
      and row: "finish_ingest (ie_dead_after_days e) (fresh \<noteq> []) (ie_now e) (ie_factor e (pl_id p1)) (feed_row.truncate p1) = Inr row"
      and p': "p' = feed_row.extend row (feed_row.more p1)"
      using assms d by (auto simp: ingest_source_def and_then_eq_Inr Let_def map_sum_Inr on_columns_def)
    have "schedule_ok (schedule_of (feed_row.truncate p1))"
      using dispatch_keeps_schedule [OF p1] assms(2) by (simp add: schedule_columns_def)
    then show ?thesis using finish_ingest_waits [OF row] assms(3) by (simp add: p')
  qed
qed

lemma urlparse_known:
  "urlparse u = Inr parts \<Longrightarrow> \<exists>b. is_dead_reddit_feed (Some u) now = Inr b"
  "urlparse u = Inr parts \<Longrightarrow> \<exists>b. is_youtube_feed (Some u) = Inr b"
  by (auto simp: is_dead_reddit_feed_def is_reddit_feed_def is_youtube_feed_def Let_def)

lemma the_feed_frames [simp]:
  "the_feed i (put_subscriptions ss st) = the_feed i st" "the_feed i (with_counters cs st) = the_feed i st"
  "the_feed i (mirrored f ss st) = the_feed i st" "the_feed i (enqueue_embeddings e fresh st) = the_feed i st"
  "the_feed i (paused_for users now st) = the_feed i st"
proof -
  have "sx_feeds (foldl (\<lambda>sx s. put_source s sx) sx ts) = sx_feeds sx" for sx ts
    by (induction ts arbitrary: sx) (simp_all add: put_source_def)
  then show "the_feed i (put_subscriptions ss st) = the_feed i st" "the_feed i (mirrored f ss st) = the_feed i st"
    by (simp_all add: the_feed_def put_subscriptions_def mirrored_def)
qed (simp_all add: the_feed_def with_counters_def enqueue_embeddings_def paused_for_def)

lemma the_feed_put: "the_feed i st = Some f \<Longrightarrow> sf_id g = i \<Longrightarrow> the_feed i (put_feed g st) = Some g"
proof -
  have "find (\<lambda>h. sf_id h = i) (map (\<lambda>h. if sf_id h = sf_id g then g else h) hs) = Some g"
    if "find (\<lambda>h. sf_id h = i) hs = Some f" "sf_id g = i" for hs
    using that by (induction hs) (auto split: if_splits)
  then show "the_feed i st = Some f \<Longrightarrow> sf_id g = i \<Longrightarrow> ?thesis" by (simp add: the_feed_def put_feed_def)
qed

lemma the_feed_id: "the_feed i st = Some f \<Longrightarrow> sf_id f = i"
  by (auto simp: the_feed_def find_Some_iff)

lemma feed_after_id [simp]: "sf_id (feed_after p f) = sf_id f"
  by (cases f) (simp add: feed_after_def feed_row.defs)

lemma pro_priority_waits:
  assumes "waits (ie_now e) f"
  shows "waits (ie_now e) (apply_pro_priority e accounts subs f)" "sf_id (apply_pro_priority e accounts subs f) = sf_id f"
  using assms by (auto simp: apply_pro_priority_def Let_def waits_def due_at_def)

lemma failure_waits:
  assumes "the_feed i st = Some f" "schedule_ok (schedule_of (feed_row.truncate f))" "urlparse (feed_key_of f) = Inr parts"
    "\<And>j. 0.9 \<le> ie_factor e j \<and> ie_factor e j \<le> 1.1"
  shows "\<exists>g. the_feed i (feed_failure e x i st) = Some g \<and> waits (ie_now e) g"
proof -
  define po where "po = \<lparr>po_now = ie_now e, po_factor = ie_factor e i, po_new_items = False, po_error = True, po_gone = False,
        po_retry_after = None, po_gap_seconds = 0\<rparr>"
  define row where "row = (feed_row.truncate (polled_feed f))\<lparr>fr_last_error_at := Some (ie_now e),
        fr_last_error := Some (take 500 (ie_message e x))\<rparr>"
  have u: "poll_url row = Some (feed_key_of f)"
    by (auto simp: poll_url_def row_def polled_feed_def feed_key_of_def feed_row.defs split: option.split)
  have ok: "schedule_ok (schedule_of row)"
    using assms(2) by (simp add: row_def polled_feed_def schedule_of_def feed_row.defs)
  obtain dead youtube where "is_dead_reddit_feed (Some (feed_key_of f)) (ie_now e) = Inr dead"
    "is_youtube_feed (Some (feed_key_of f)) = Inr youtube"
    using urlparse_known [OF assms(3)] by blast
  then obtain row' where row': "apply_poll_result (ie_dead_after_days e) po row = Inr row'"
    unfolding apply_poll_result_def u by (cases dead) (simp_all add: po_def)
  have w: "waits (ie_now e) row'"
    using apply_poll_waits [OF row' ok] assms(4) by (simp add: po_def)
  let ?p = "feed_row.extend row' (feed_row.more (polled_feed f))"
  have "on_columns (record_source_failure (ie_dead_after_days e) (ie_message e x) (ie_now e) (ie_factor e i)) (polled_feed f) = Inr ?p"
    using row' by (simp add: on_columns_def record_source_failure_def po_def row_def)
  then have "feed_failure e x i st = mirrored (feed_after ?p f) (subscribers_of i st) (put_feed (feed_after ?p f) st)"
    using assms(1) by (simp add: feed_failure_def Let_def)
  moreover have "waits (ie_now e) (feed_after ?p f)" using w by (intro waits_after) simp
  ultimately show ?thesis using the_feed_put [OF assms(1), of "feed_after ?p f"] the_feed_id [OF assms(1)] by simp
qed

lemma within_budgets_later:
  assumes "within_budgets e accounts f subs cs = (Inr (Wait t users), cs')"
  shows "ie_now e < t"
proof -
  define c :: real where "c = of_int \<lfloor>ie_now e / 3600\<rfloor>"
  have "ie_now e / 3600 < c + 1" unfolding c_def by (rule real_of_int_floor_add_one_gt)
  then have "ie_now e < c * 3600 + 3600" by linarith
  then have "ie_now e < next_hour (ie_now e)" by (simp add: next_hour_def hour_of_def c_def)
  then show ?thesis using assms
    by (auto simp: within_budgets_def Let_def split: if_splits prod.splits sum.splits)
qed

lemma ingest_source_feeds:
  assumes "ingest_source e s f p st = Inr (fresh, p', st')"
  shows "ig_sources st' = ig_sources st"
proof -
  have "ig_sources (snd (insert_row r st)) = ig_sources st" for r st by (simp add: insert_row_def)
  then have ins: "ig_sources st' = ig_sources st" if "insert_items e rows st = Inr (fresh, st')" for rows fresh st st'
    using that
  proof (induction rows arbitrary: st fresh)
    case (Cons r rows)
    then show ?case by (auto simp: and_then_eq_Inr map_sum_Inr split: if_splits prod.splits) (metis snd_conv)
  qed simp
  obtain dead where d: "is_dead_reddit_feed (Some (feed_key_of p)) (ie_now e) = Inr dead"
    using assms by (auto simp: ingest_source_def and_then_eq_Inr)
  show ?thesis
  proof (cases dead)
    case True
    then show ?thesis using assms d by (auto simp: ingest_source_def on_columns_def)
  next
    case False
    then obtain raws owner where "insert_items e (map (content_row_of e s f owner) raws) st = Inr (fresh, st')"
      using assms d by (auto simp: ingest_source_def and_then_eq_Inr Let_def map_sum_Inr)
    then show ?thesis by (rule ins)
  qed
qed

lemma ingest_feed_waits:
  assumes "ingest_feed e f st = (Inr (fresh, st'), cs)" "the_feed (sf_id f) st = Some f" "subscribers_of (sf_id f) st \<noteq> []"
    and "schedule_ok (schedule_of (feed_row.truncate f))" "\<And>j. 0.9 \<le> ie_factor e j \<and> ie_factor e j \<le> 1.1"
  shows "\<exists>g. the_feed (sf_id f) st' = Some g \<and> waits (ie_now e) g"
proof -
  obtain s subs where subs: "subscribers_of (sf_id f) st = s # subs" using assms(3) by (cases "subscribers_of (sf_id f) st") simp_all
  obtain verdict cs1 where v: "within_budgets e (ig_accounts st) f (s # subs) (counters_of st) = (verdict, cs1)"
    by (cases "within_budgets e (ig_accounts st) f (s # subs) (counters_of st)")
  from assms(1) subs v obtain b where b: "verdict = Inr b" by (cases verdict) (auto simp: ingest_feed_def)
  show ?thesis
  proof (cases b)
    case Poll
    then obtain p st1 where i: "ingest_source e (so_id s) (Some (sf_id f)) (polled_feed f) (with_counters cs1 st) = Inr (fresh, p, st1)"
      and st': "st' = mirrored (apply_pro_priority e (ig_accounts st1) (s # subs) (feed_after p f)) (s # subs)
        (put_feed (apply_pro_priority e (ig_accounts st1) (s # subs) (feed_after p f)) st1)"
      using assms(1) subs v b by (auto simp: ingest_feed_def Let_def map_sum_Inr)
    have "waits (ie_now e) p"
      by (rule ingest_source_waits [OF i _ assms(5)]) (simp add: schedule_columns_def schedule_of_polled assms(4))
    from pro_priority_waits [OF waits_after [OF this]]
    have g: "waits (ie_now e) (apply_pro_priority e (ig_accounts st1) (s # subs) (feed_after p f))"
      "sf_id (apply_pro_priority e (ig_accounts st1) (s # subs) (feed_after p f)) = sf_id f" by simp_all
    have "the_feed (sf_id f) st1 = Some f"
      using ingest_source_feeds [OF i] assms(2) by (simp add: the_feed_def with_counters_def)
    then show ?thesis using the_feed_put [OF _ g(2)] g(1) by (simp add: st')
  next
    case (Wait t users)
    then have "st' = mirrored (f\<lparr>fr_next_poll_at := Some t\<rparr>) (s # subs)
        (put_feed (f\<lparr>fr_next_poll_at := Some t\<rparr>) (paused_for users (ie_now e) (with_counters cs1 st)))"
      using assms(1) subs v b by (auto simp: ingest_feed_def Let_def)
    moreover have "ie_now e < t" using within_budgets_later v b Wait by blast
    ultimately show ?thesis using the_feed_put [of "sf_id f" _ f] assms(2) by (auto simp: waits_def due_at_def)
  qed
qed

text \<open>
  C29. No feed is polled in a tight loop: after its turn a feed whose address can be parsed is inactive or due later, whether
  it was polled, put off by a budget, or its poll raised. Budgets, the priority of Pro readers and dead feeds are included.
\<close>

theorem polled_feed_waits:
  assumes "the_feed i st = Some f" "subscribers_of i st \<noteq> []" "urlparse (feed_key_of f) = Inr parts"
    and "schedule_ok (schedule_of (feed_row.truncate f))" "\<And>j. 0.9 \<le> ie_factor e j \<and> ie_factor e j \<le> 1.1"
  shows "\<exists>g. the_feed i (snd (feed_turn e (n, st) i)) = Some g
    \<and> \<not> (fr_is_active g \<and> due_at (ie_now e) (fr_next_poll_at g))"
proof -
  obtain out cs where o: "ingest_feed e f st = (out, cs)" by (cases "ingest_feed e f st")
  have i: "sf_id f = i" by (rule the_feed_id [OF assms(1)])
  have "\<exists>g. the_feed i (snd (feed_turn e (n, st) i)) = Some g \<and> waits (ie_now e) g"
  proof (cases out)
    case (Inl x)
    then show ?thesis
      using failure_waits [OF _ assms(4,3,5), of i "with_counters cs st"] assms(1) o by (simp add: feed_turn_def)
  next
    case (Inr v)
    obtain fresh st1 where v: "v = (fresh, st1)" by (cases v)
    have "\<exists>g. the_feed i st1 = Some g \<and> waits (ie_now e) g" using ingest_feed_waits [OF o [unfolded Inr v]] assms i by blast
    then show ?thesis using assms(1) o Inr v by (simp add: feed_turn_def)
  qed
  then show ?thesis by (simp add: waits_def)
qed

subsection \<open>Examples and limits\<close>

text \<open>A public feed with one article; the network answers \<open>status\<close>, or not at all.\<close>

definition one_entry :: feed_entry where
  "one_entry = \<lparr>en_link = Some ''https://a.org/1'', en_title = Some ''One'', en_author = None, en_dates = [Some 1],
     en_content = Some ''Hello there'', en_summary = None, en_id = None, en_guid = Some ''g1'', en_transcript = None\<rparr>"

definition example_lib :: "int option \<Rightarrow> feed_lib" where
  "example_lib status = \<lparr>fl_public = (\<lambda>_. True),
     fl_get = (\<lambda>_ _ _. map_option (\<lambda>s. \<lparr>hr_status = s, hr_etag = None, hr_last_modified = None, hr_permanent_url = None,
                                         hr_content = ''<rss/>''\<rparr>) status),
     fl_parse = (\<lambda>_. Some [one_entry]), fl_discover = (\<lambda>_. None), fl_transcripts = (\<lambda>_. []), fl_sanitize = id,
     fl_scrape = (\<lambda>_. None), fl_canonical = Some, fl_hash = (\<lambda>_. 5)\<rparr>"

definition example_env :: "int option \<Rightarrow> moment \<Rightarrow> ingest_env" where
  "example_env status now = \<lparr>ie_lib = example_lib status, ie_show_uuid = (\<lambda>_. ''u''), ie_mails = (\<lambda>_. []), ie_transcript = (\<lambda>_. None),
     ie_billing = example_settings\<lparr>bc_hosted := False\<rparr>, ie_abuse = (se_abuse small_env)\<lparr>ab_hosted := False\<rparr>, ie_redis = Up,
     ie_now = now, ie_factor = (\<lambda>_. 1), ie_backfill_limit = 30, ie_dead_after_days = 7, ie_pro_max_poll_minutes = 60,
     ie_message = (\<lambda>_. ''failed''), ie_broker = (\<lambda>_. True)\<rparr>"

definition example_state :: "string \<Rightarrow> ingest_state" where
  "example_state url = \<lparr>ig_sources = empty_sources\<lparr>sx_sources := [blank_source 0 7 url 0], sx_next := 1\<rparr>,
     ig_items = [], ig_takedowns = [], ig_accounts = [], ig_embeddings = [], ig_next = 0\<rparr>"

lemma example_url: "isl (urlparse ''https://a.org/feed'') = False"
  by code_simp

lemma example_run:
  "(case ingest_all_feeds (example_env (Some 200) 5) None (example_state ''https://a.org/feed'') of
      Inl _ \<Rightarrow> False
    | Inr (r, st) \<Rightarrow> ir_new_items r = 1 \<and> map ci_url (ig_items st) = [''https://a.org/1''])"
  by code_simp

theorem ingest_stores_once_witness:
  "case ingest_all_feeds (example_env (Some 200) 5) None (example_state ''https://a.org/feed'') of
      Inl _ \<Rightarrow> False
    | Inr (r, st) \<Rightarrow> ir_new_items r = 1 \<and> map ci_url (ig_items st) = [''https://a.org/1''] \<and> table_ok st
        \<and> ig_embeddings st = map ci_id (ig_items st)"
proof -
  obtain r st where run: "ingest_all_feeds (example_env (Some 200) 5) None (example_state ''https://a.org/feed'') = Inr (r, st)"
    using example_run by (auto split: sum.splits)
  have "table_ok (example_state ''https://a.org/feed'')" by (simp add: table_ok_def example_state_def)
  from ingest_stores_once [OF run this] have "table_ok st" "ig_embeddings st = map ci_id (ig_items st)"
    by (auto simp: example_state_def example_env_def)
  then show ?thesis using example_run run by simp
qed

text \<open>The feed of the example after it was attached, and its turn.\<close>

definition attached_state :: ingest_state where
  "attached_state = (case sync_feeds None 5 (ig_sources (example_state ''https://a.org/feed'')) of
     Inl _ \<Rightarrow> example_state [] | Inr (_, sx) \<Rightarrow> (example_state [])\<lparr>ig_sources := sx\<rparr>)"

theorem polled_feed_waits_witness:
  "\<exists>g. the_feed 1 (snd (feed_turn (example_env (Some 200) 5) (0, attached_state) 1)) = Some g
    \<and> \<not> (fr_is_active g \<and> due_at 5 (fr_next_poll_at g))"
proof -
  have f: "map_option feed_key_of (the_feed 1 attached_state) = Some ''https://a.org/feed''
      \<and> subscribers_of 1 attached_state \<noteq> []
      \<and> map_option (\<lambda>f. schedule_of (feed_row.truncate f)) (the_feed 1 attached_state) = Some fresh_schedule" by code_simp
  then obtain f where "the_feed 1 attached_state = Some f" "feed_key_of f = ''https://a.org/feed''"
    "schedule_of (feed_row.truncate f) = fresh_schedule" by auto
  moreover obtain parts where "urlparse ''https://a.org/feed'' = Inr parts"
    by (cases "urlparse ''https://a.org/feed''") (use example_url in auto)
  ultimately show ?thesis
    using polled_feed_waits [of 1 attached_state f parts "example_env (Some 200) 5" 0] f fresh_schedule_ok
    by (simp add: example_env_def)
qed

text \<open>
  A feed that does not answer, answers 404 or 403, is not told apart from one without news: it stays healthy, without an error,
  and never dies.
\<close>

lemma unreachable_feed_stays_healthy:
  "list_all (\<lambda>status. case ingest_all_feeds (example_env status 5) None (example_state ''https://a.org/feed'') of
      Inl _ \<Rightarrow> False
    | Inr (r, st) \<Rightarrow> map (\<lambda>f. (fr_fetch_error_count f, fr_feed_status f, fr_last_error f, fr_is_active f, fr_last_fetched_at f))
        (sx_feeds (ig_sources st)) = [(Some 0, Some Healthy, None, True, Some 5)]) [None, Some 404, Some 403]"
  by code_simp

text \<open>One active subscription whose address cannot be parsed stops the run of everybody, on every tick.\<close>

lemma one_bad_address_stops_polling:
  assumes "s \<in> set (sx_sources (ig_sources st))" "pending_source None s" "urlparse (feed_key_of s) = Inl x" "feed_key_of s \<noteq> []"
  shows "\<exists>y. ingest_all_feeds e None st = Inl y"
proof -
  have one: "sync_one now s sx = Inl x" for now sx
    using assms(3,4) by (simp add: sync_one_def is_dead_reddit_feed_def is_reddit_feed_def)
  have "\<exists>y. sync_all now ss sx = Inl y" if "s \<in> set ss" for now ss sx
    using that
  proof (induction ss arbitrary: sx)
    case (Cons t ss)
    show ?case
    proof (cases "sync_one now t sx")
      case (Inr sx1)
      then have "s \<in> set ss" using Cons.prems one by auto
      then show ?thesis using Cons.IH [of sx1] Inr by auto
    qed simp
  qed simp
  then have "\<exists>y. sync_feeds None (ie_now e) (ig_sources st) = Inl y"
    using assms(1,2) by (simp add: sync_feeds_def)
  then show ?thesis by (auto simp: ingest_all_feeds_def)
qed

lemma bad_address: "urlparse ''http://['' = Inl ValueError"
  by code_simp

text \<open>
  Two feeds that link one article: the row belongs to the first that was polled, and the readers of the second feed have no row
  of that article.
\<close>

lemma aggregator_takes_item:
  "(case ingest_all_feeds (example_env (Some 200) 5) None ((example_state [])\<lparr>ig_sources := empty_sources\<lparr>
        sx_sources := [blank_source 0 7 ''https://links.org/feed'' 0, blank_source 1 8 ''https://a.org/feed'' 0], sx_next := 2\<rparr>\<rparr>) of
      Inl _ \<Rightarrow> False
    | Inr (r, st) \<Rightarrow> map (\<lambda>f. (sf_id f, sf_key f)) (sx_feeds (ig_sources st)) = [(2, ''https://links.org/feed''), (3, ''https://a.org/feed'')]
        \<and> map (\<lambda>c. (ci_url c, ci_feed_id c)) (ig_items st) = [(''https://a.org/1'', Some 2)])"
  by code_simp

end
