(* ===== verification/Newsletter.thy ===== *)
theory Newsletter
  imports Ingest SignedLinks
begin

text \<open>
  Newsletters by email: the webhooks of \<open>api/newsletter.py\<close> (Mailgun, and Postmark, Resend and Cloudflare), the signature
  checks and parsing of \<open>services/ingestion/newsletter.py\<close> and \<open>newsletter_parse.py\<close>, and the personal address of
  \<open>newsletter_address.py\<close>. HMAC-SHA256, SHA-256, the parsing of UUIDs, JSON and HTML and random draws are parameters. The
  values that the code reads from a payload as texts are texts. The strict replay guard fails with \<open>me_guard_up\<close>, the
  other uses of Redis with \<open>me_up\<close>; a webhook that raises after the guard leaves the guard set.
\<close>

subsection \<open>Parsing\<close>

text \<open>A JSON payload or a form: its texts, nested objects, the list of a field, and pairs of headers.\<close>

record payload =
  pa_json :: bool
  pa_texts :: "(string \<times> string) list"
  pa_objects :: "(string \<times> (string \<times> string) list) list"
  pa_lists :: "(string \<times> string list) list"
  pa_headers :: "(string \<times> string) list option"

definition text_at :: "(string \<times> string) list \<Rightarrow> string \<Rightarrow> string" where
  "text_at ps key = or_default (map_of ps key) []"

text \<open>\<open>get(a) or get(b, '')\<close>\<close>

definition text_at_or :: "(string \<times> string) list \<Rightarrow> string \<Rightarrow> string \<Rightarrow> string" where
  "text_at_or ps a b = (if text_at ps a \<noteq> [] then text_at ps a else text_at ps b)"

definition recipient_token :: "string \<Rightarrow> string option" where
  "recipient_token address =
     (let local_part = lower (hd (split_char CHR ''@'' address))
      in if starts_with local_part ''u.'' \<and> 2 < length local_part then Some (drop 2 local_part)
         else case dropWhile (\<lambda>c. c \<noteq> CHR ''+'') local_part of [] \<Rightarrow> None | _ # t \<Rightarrow> (if t = [] then None else Some t))"

record mail_lib =
  mb_hmac :: mac
  mb_digest :: "string \<Rightarrow> string"
  mb_clean_html :: "string \<Rightarrow> string \<times> string option"
  mb_html_to_text :: "string \<Rightarrow> string"

record parsed_newsletter =
  pn_sender :: string
  pn_recipient :: string
  pn_subject :: string
  pn_message_id :: string
  pn_text :: string
  pn_html :: string
  pn_list_unsubscribe :: "string option"
  pn_view_in_browser :: "string option"
  pn_is_confirmation :: bool
  pn_dedupe_key :: string
  pn_header_to :: string

definition is_confirmation :: "string \<Rightarrow> string \<Rightarrow> bool" where
  "is_confirmation subject body =
     (let blob = lower (subject @ '' '' @ body)
      in contains blob ''confirm'' \<and> (contains blob ''subscription'' \<or> contains blob ''subscribe''))"

definition strip_angles :: "string \<Rightarrow> string" where
  "strip_angles s = rstrip_chars (\<lambda>c. c \<in> set ''<>'') (lstrip_chars (\<lambda>c. c \<in> set ''<>'') s)"

definition parse_html_body ::
  "mail_lib \<Rightarrow> string \<Rightarrow> string \<Rightarrow> string \<Rightarrow> string \<Rightarrow> string \<Rightarrow> string \<Rightarrow> string option \<Rightarrow> string option \<Rightarrow> parsed_newsletter" where
  "parse_html_body lib sender recipient subject message_id html text list_unsubscribe header_to =
     (let (cleaned, view) = (if html = [] then ([], None) else mb_clean_html lib html);
          plain = strip (if text \<noteq> [] then text else if cleaned = [] then [] else mb_html_to_text lib cleaned);
          stripped = strip_angles (strip message_id);
          key = (if stripped \<noteq> [] then stripped else mb_digest lib (sender @ ''|'' @ subject @ ''|'' @ take 200 plain))
      in \<lparr>pn_sender = strip sender, pn_recipient = strip recipient,
          pn_subject = (if strip subject \<noteq> [] then strip subject else ''Newsletter''), pn_message_id = key, pn_text = plain,
          pn_html = cleaned, pn_list_unsubscribe = list_unsubscribe, pn_view_in_browser = view,
          pn_is_confirmation = is_confirmation subject plain, pn_dedupe_key = key,
          pn_header_to = strip (or_default header_to recipient)\<rparr>)"

definition subject_or_default :: "string \<Rightarrow> string" where
  "subject_or_default s = (if s \<noteq> [] then s else ''Newsletter'')"

definition parse_postmark :: "mail_lib \<Rightarrow> payload \<Rightarrow> parsed_newsletter" where
  "parse_postmark lib p =
     (let f = pa_texts p
      in parse_html_body lib (text_at f ''From'') (text_at_or f ''OriginalRecipient'' ''To'')
           (subject_or_default (text_at f ''Subject'')) (text_at f ''MessageID'') (text_at f ''HtmlBody'') (text_at f ''TextBody'')
           (map_of (rev (or_default (pa_headers p) [])) ''List-Unsubscribe'') (Some (text_at f ''To'')))"

definition parse_resend :: "mail_lib \<Rightarrow> payload \<Rightarrow> parsed_newsletter" where
  "parse_resend lib p =
     (let f = or_default (map_of (pa_objects p) ''data'') (pa_texts p);
          recipient = (case map_of (pa_lists p) ''to'' of None \<Rightarrow> text_at f ''to'' | Some [] \<Rightarrow> [] | Some (r # _) \<Rightarrow> r)
      in parse_html_body lib (text_at f ''from'') recipient (subject_or_default (text_at f ''subject''))
           (text_at_or f ''email_id'' ''message_id'') (text_at f ''html'') (text_at f ''text'') None None)"

definition parse_cloudflare :: "mail_lib \<Rightarrow> payload \<Rightarrow> parsed_newsletter" where
  "parse_cloudflare lib p =
     (let f = pa_texts p; headers = or_default (map_of (pa_objects p) ''headers'') [];
          header_to = (if text_at_or headers ''to'' ''To'' \<noteq> [] then text_at_or headers ''to'' ''To'' else text_at f ''to'')
      in parse_html_body lib (text_at f ''from'') (text_at f ''to'') (subject_or_default (text_at f ''subject''))
           (text_at_or f ''message_id'' ''messageId'') (text_at_or f ''html'' ''raw'') (text_at f ''text'')
           (text_or (map_of headers ''list-unsubscribe'') (map_of headers ''List-Unsubscribe'')) (Some header_to))"

subsection \<open>Signatures\<close>

definition verify_mailgun_signature ::
  "mac \<Rightarrow> string \<Rightarrow> string \<Rightarrow> string \<Rightarrow> string \<Rightarrow> int \<Rightarrow> moment \<Rightarrow> py_error + bool" where
  "verify_mailgun_signature hmac token timestamp signature signing_key max_age now =
     (if token = [] \<or> timestamp = [] \<or> signature = [] \<or> signing_key = [] then Inr False
      else case int_of_text timestamp of
        None \<Rightarrow> Inr False
      | Some t \<Rightarrow>
          let age = now - of_int t
          in if of_int max_age < age \<or> age < - of_int max_age then Inr False
             else compare_digest (hmac signing_key (timestamp @ token)) signature)"

definition verify_body_hmac :: "mac \<Rightarrow> string \<Rightarrow> string \<Rightarrow> string \<Rightarrow> py_error + bool" where
  "verify_body_hmac hmac secret body signature =
     (if secret = [] \<or> signature = [] then Inr False
      else
        let presented = strip signature;
            presented = (if starts_with (lower presented) ''sha256='' then drop 7 presented else presented)
        in compare_digest (hmac secret body) presented)"

text \<open>\<open>_extract_signature_fields\<close>: nested in the newer JSON payloads, at the top level else.\<close>

definition extract_signature_fields :: "payload \<Rightarrow> string \<times> string \<times> string" where
  "extract_signature_fields p =
     (let f = (case map_of (pa_objects p) ''signature'' of Some s \<Rightarrow> if pa_json p then s else pa_texts p | None \<Rightarrow> pa_texts p)
      in (text_at f ''token'', text_at f ''timestamp'', text_at f ''signature''))"

definition mailgun_header :: "payload \<Rightarrow> string \<Rightarrow> string option" where
  "mailgun_header p name =
     (case filter (\<lambda>(n, _). lower n = lower name) (or_default (pa_headers p) []) of [] \<Rightarrow> None | (_, v) # _ \<Rightarrow> Some v)"

subsection \<open>State\<close>

record mail_user =
  mu_account :: account
  mu_newsletter_token :: "string option"

datatype delivery = Direct | Forwarded

record newsletter_source =
  ns_id :: nat
  ns_user_id :: nat
  ns_name :: string
  ns_url :: string
  ns_list_unsubscribe :: "string option"
  ns_delivery :: "delivery option"

record address_test =
  ad_nonce :: string
  ad_sent_at :: moment
  ad_received_at :: "moment option"

record mail_state =
  ms_seen :: "string \<Rightarrow> moment option"
  ms_mails :: "string \<Rightarrow> (stored_mail \<times> moment) option"
  ms_sources :: "newsletter_source list"
  ms_tests :: "string \<Rightarrow> (address_test \<times> moment) option"
  ms_users :: "mail_user list"
  ms_inbound :: ttl_counters
  ms_quota :: counters
  ms_next :: nat

record mail_env =
  me_lib :: mail_lib
  me_development :: bool
  me_signing_key :: string
  me_secret :: "string \<Rightarrow> string"
  me_max_age :: int
  me_domain :: string
  me_billing :: billing_settings
  me_abuse :: abuse_settings
  me_verification :: bool
  me_guard_up :: bool
  me_up :: bool
  me_now :: moment
  me_draw :: string
  me_read_uuid :: "string \<Rightarrow> nat option"
  me_show_uuid :: "nat \<Rightarrow> string"

definition mail_user_of :: "nat \<Rightarrow> mail_state \<Rightarrow> mail_user option" where
  "mail_user_of i st = find (\<lambda>u. ac_id (mu_account u) = i) (ms_users st)"

definition owner_of_token :: "string \<Rightarrow> mail_state \<Rightarrow> nat option" where
  "owner_of_token token st =
     map_option (\<lambda>u. ac_id (mu_account u)) (find (\<lambda>u. mu_newsletter_token u = Some token) (ms_users st))"

text \<open>\<open>_first_seen\<close>: the strict \<open>SET NX EX\<close>, 503 when Redis is down.\<close>

definition webhook_first_seen :: "mail_env \<Rightarrow> string \<Rightarrow> mail_state \<Rightarrow> (api_error + bool) \<times> mail_state" where
  "webhook_first_seen e key st =
     (if \<not> me_guard_up e then (Inl UNAVAILABLE, st)
      else if some_and (ms_seen st key) (\<lambda>t. me_now e < t) then (Inr False, st)
      else (Inr True, st\<lparr>ms_seen := (ms_seen st)(key \<mapsto> me_now e + of_int (me_max_age e))\<rparr>))"

definition may_receive_newsletters :: "mail_env \<Rightarrow> string option \<Rightarrow> mail_state \<Rightarrow> bool" where
  "may_receive_newsletters e user st =
     (case user of
        None \<Rightarrow> True
      | Some text \<Rightarrow>
          \<not> me_verification e
          \<or> some_and (me_read_uuid e text) (\<lambda>i. some_and (mail_user_of i st) (\<lambda>u. may_email True (mu_account u))))"

text \<open>\<open>_plan_allows_newsletter\<close> parses the id of the recipient again, and that may raise.\<close>

definition plan_allows_newsletter :: "mail_env \<Rightarrow> string \<Rightarrow> int \<Rightarrow> mail_state \<Rightarrow> py_error + bool \<times> mail_state" where
  "plan_allows_newsletter e user n st =
     (if \<not> bc_hosted (me_billing e) then Inr (True, st)
      else case me_read_uuid e user of
        None \<Rightarrow> Inl ValueError
      | Some i \<Rightarrow> Inr (case mail_user_of i st of
            None \<Rightarrow> (True, st)
          | Some u \<Rightarrow>
              let (ok, q) = newsletter_allowed (me_billing e) (\<lambda>_. me_up e) (mu_account u) (me_now e) n (ms_quota st)
              in (ok, st\<lparr>ms_quota := q\<rparr>)))"

definition TEST_SUBJECT_PREFIX :: string where "TEST_SUBJECT_PREFIX = ''Weirling address test ''"
definition TEST_TTL_SECONDS :: real where "TEST_TTL_SECONDS = 900"

definition test_of :: "mail_env \<Rightarrow> string \<Rightarrow> mail_state \<Rightarrow> address_test option" where
  "test_of e user st = (if me_up e then case ms_tests st user of None \<Rightarrow> None
     | Some (t, until) \<Rightarrow> if me_now e < until then Some t else None else None)"

definition put_test :: "mail_env \<Rightarrow> string \<Rightarrow> address_test \<Rightarrow> mail_state \<Rightarrow> mail_state" where
  "put_test e user t st = (if me_up e then st\<lparr>ms_tests := (ms_tests st)(user \<mapsto> (t, me_now e + TEST_TTL_SECONDS))\<rparr> else st)"

definition record_if_test :: "mail_env \<Rightarrow> string option \<Rightarrow> string \<Rightarrow> mail_state \<Rightarrow> bool \<times> mail_state" where
  "record_if_test e user subject st =
     (case user of
        None \<Rightarrow> (False, st)
      | Some u \<Rightarrow>
          if \<not> contains subject TEST_SUBJECT_PREFIX then (False, st)
          else case test_of e u st of
            None \<Rightarrow> (False, st)
          | Some t \<Rightarrow> if \<not> contains subject (ad_nonce t) then (False, st)
                      else (True, put_test e u (t\<lparr>ad_received_at := Some (me_now e)\<rparr>) st))"

definition mail_key :: "string \<Rightarrow> string \<Rightarrow> string" where
  "mail_key uid msg = ''newsletter:'' @ uid @ '':'' @ msg"

definition process_inbound_email ::
  "mail_env \<Rightarrow> string \<Rightarrow> string \<Rightarrow> string \<Rightarrow> string \<Rightarrow> string option \<Rightarrow> mail_state \<Rightarrow> mail_state" where
  "process_inbound_email e sender subject body message_id user st =
     (let uid = or_default user ''unknown''; uid = (if uid = [] then ''unknown'' else uid);
          msg = (if message_id \<noteq> [] then strip_angles message_id else me_draw e);
          m = \<lparr>ml_id = msg, ml_subject = Some subject, ml_sender = Some sender, ml_body = Some body\<rparr>
      in if me_up e then st\<lparr>ms_mails := (ms_mails st)(mail_key uid msg \<mapsto> (m, me_now e + 48 * 3600))\<rparr> else st)"

definition delivery_of :: "string \<Rightarrow> delivery" where
  "delivery_of header_to =
     (let to = strip header_to; local_part = (if CHR ''@'' \<in> set to then lower (hd (split_char CHR ''@'' to)) else [])
      in if recipient_token to \<noteq> None \<or> starts_with local_part ''user-'' then Direct else Forwarded)"

text \<open>One source per sender.\<close>

definition ensure_newsletter_source ::
  "mail_env \<Rightarrow> nat \<Rightarrow> string \<Rightarrow> string option \<Rightarrow> string option \<Rightarrow> mail_state \<Rightarrow> mail_state" where
  "ensure_newsletter_source e user sender list_unsubscribe header_to st =
     (let name = (if strip sender \<noteq> [] then strip sender else ''Newsletter'');
          unsubscribe = map_option (take 2000) (some_text list_unsubscribe);
          how = map_option delivery_of (some_text header_to)
      in if list_ex (\<lambda>s. ns_user_id s = user \<and> ns_name s = name) (ms_sources st)
         then st\<lparr>ms_sources := map (\<lambda>s. if ns_user_id s = user \<and> ns_name s = name
                 then s\<lparr>ns_list_unsubscribe := (if unsubscribe = None then ns_list_unsubscribe s else unsubscribe),
                        ns_delivery := (if how = None then ns_delivery s else how)\<rparr> else s) (ms_sources st)\<rparr>
         else st\<lparr>ms_sources := ms_sources st @ [\<lparr>ns_id = ms_next st, ns_user_id = user, ns_name = name,
                    ns_url = ''newsletter://'' @ me_show_uuid e user @ ''/'' @ name,
                    ns_list_unsubscribe = unsubscribe, ns_delivery = how\<rparr>], ms_next := ms_next st + 1\<rparr>)"

definition remember_sender ::
  "mail_env \<Rightarrow> string option \<Rightarrow> string \<Rightarrow> string option \<Rightarrow> string \<Rightarrow> mail_state \<Rightarrow> mail_state" where
  "remember_sender e user sender list_unsubscribe header_to st =
     (case Option.bind (some_text user) (me_read_uuid e) of
        None \<Rightarrow> st
      | Some i \<Rightarrow> ensure_newsletter_source e i sender list_unsubscribe (Some header_to) st)"

subsection \<open>The webhooks\<close>

datatype inbound_reply = Ignored_empty | Ignored_unverified | Ignored_budget inbound | Ignored_plan | Test_received | Stored

text \<open>What both webhooks do with a mail that may come in; only the state of Redis survives an exception.\<close>

definition receive_mail ::
  "mail_env \<Rightarrow> string option \<Rightarrow> int \<Rightarrow> string \<Rightarrow> string \<Rightarrow> string \<Rightarrow> string \<Rightarrow> (mail_state \<Rightarrow> mail_state)
    \<Rightarrow> mail_state \<Rightarrow> (api_error + inbound_reply) \<times> mail_state" where
  "receive_mail e user n sender subject body message_id remember st =
     (if \<not> may_receive_newsletters e user st then (Inr Ignored_unverified, st)
      else
        let (budget, cs) = inbound_allowed (me_abuse e) (\<lambda>_. if me_up e then Up else Incr_fails) user n (me_now e) (ms_inbound st);
            st = st\<lparr>ms_inbound := cs\<rparr>
        in if budget \<noteq> Allowed then (Inr (Ignored_budget budget), st)
           else case (case some_text user of None \<Rightarrow> Inr (True, st) | Some u \<Rightarrow> plan_allows_newsletter e u n st) of
             Inl x \<Rightarrow> (Inl (Raised x), st)
           | Inr (False, st) \<Rightarrow> (Inr Ignored_plan, st)
           | Inr (True, st) \<Rightarrow>
               let (test, st) = record_if_test e user subject st
               in if test then (Inr Test_received, st)
                  else (Inr Stored, remember (process_inbound_email e sender subject body message_id user st)))"

definition recipient_user :: "mail_env \<Rightarrow> string \<Rightarrow> mail_state \<Rightarrow> string option" where
  "recipient_user e recipient st =
     (if recipient = [] then None
      else
        let local_part = hd (split_char CHR ''@'' recipient)
        in if starts_with local_part ''user-'' then Some (drop 5 local_part)
           else Option.bind (recipient_token recipient) (\<lambda>token. map_option (me_show_uuid e) (owner_of_token token st)))"

definition authenticate_mailgun :: "mail_env \<Rightarrow> payload \<Rightarrow> mail_state \<Rightarrow> (api_error + unit) \<times> mail_state" where
  "authenticate_mailgun e p st =
     (let (token, timestamp, signature) = extract_signature_fields p
      in if me_signing_key e = [] then (if me_development e then Inr () else Inl UNAUTHORIZED, st)
         else case verify_mailgun_signature (mb_hmac (me_lib e)) token timestamp signature (me_signing_key e) (me_max_age e) (me_now e) of
           Inl x \<Rightarrow> (Inl (Raised x), st)
         | Inr False \<Rightarrow> (Inl UNAUTHORIZED, st)
         | Inr True \<Rightarrow>
             let (seen, st) = webhook_first_seen e (''mailgun:webhook:token:'' @ token) st
             in (and_then seen (\<lambda>fresh. guard_that fresh CONFLICT), st))"

definition inbound_email :: "mail_env \<Rightarrow> payload \<Rightarrow> mail_state \<Rightarrow> (api_error + inbound_reply) \<times> mail_state" where
  "inbound_email e p st =
     (let f = pa_texts p;
          sender = text_at_or f ''sender'' ''from''; subject = or_default (map_of f ''subject'') ''Newsletter'';
          body = text_at_or f ''body-plain'' ''body''; message_id = text_at_or f ''Message-Id'' ''message_id'';
          recipient = text_at_or f ''recipient'' ''to'';
          (auth, st) = authenticate_mailgun e p st
      in case auth of
           Inl x \<Rightarrow> (Inl x, st)
         | Inr _ \<Rightarrow>
             if body = [] then (Inr Ignored_empty, st)
             else
               let user = recipient_user e recipient st;
                   header_to = or_default (some_text (text_or (map_of f ''To'') (mailgun_header p ''To''))) recipient
               in receive_mail e user (int (length body)) sender subject body message_id
                    (remember_sender e user sender (mailgun_header p ''List-Unsubscribe'') header_to) st)"

definition parse_provider :: "mail_lib \<Rightarrow> string \<Rightarrow> payload \<Rightarrow> parsed_newsletter" where
  "parse_provider lib provider p =
     (if provider = ''postmark'' then parse_postmark lib p
      else if provider = ''resend'' then parse_resend lib p else parse_cloudflare lib p)"

text \<open>\<open>raw\<close> is the body of the request, \<open>p\<close> its JSON object if it is one.\<close>

definition inbound_provider ::
  "mail_env \<Rightarrow> string \<Rightarrow> string \<Rightarrow> string \<Rightarrow> payload option \<Rightarrow> mail_state \<Rightarrow> (api_error + inbound_reply) \<times> mail_state" where
  "inbound_provider e provider raw signature p st =
     (if provider \<notin> {''postmark'', ''resend'', ''cloudflare''} then (Inl NOT_FOUND, st)
      else
        let secret = me_secret e provider;
            auth = (if secret = [] then guard_that (me_development e) UNAUTHORIZED
                    else and_then (raised (verify_body_hmac (mb_hmac (me_lib e)) secret raw signature)) (\<lambda>ok. guard_that ok UNAUTHORIZED))
        in case auth of
             Inl x \<Rightarrow> (Inl x, st)
           | Inr _ \<Rightarrow>
               (case p of
                  None \<Rightarrow> (Inl BAD_REQUEST, st)
                | Some p \<Rightarrow>
                    let n = parse_provider (me_lib e) provider p;
                        (seen, st) = webhook_first_seen e (''newsletter:webhook:'' @ provider @ '':'' @ pn_dedupe_key n) st
                    in case and_then seen (\<lambda>fresh. guard_that fresh CONFLICT) of
                         Inl x \<Rightarrow> (Inl x, st)
                       | Inr _ \<Rightarrow>
                           let owner = Option.bind (recipient_token (pn_recipient n)) (\<lambda>t. owner_of_token t st);
                               remember = (case owner of None \<Rightarrow> id
                                 | Some i \<Rightarrow> ensure_newsletter_source e i (pn_sender n) (pn_list_unsubscribe n) (Some (pn_header_to n)))
                           in receive_mail e (map_option (me_show_uuid e) owner) (int (length raw)) (pn_sender n) (pn_subject n)
                                (pn_text n) (pn_message_id n) remember st))"

subsection \<open>The personal address\<close>

definition address_for :: "mail_env \<Rightarrow> string \<Rightarrow> string" where
  "address_for e token = ''u.'' @ token @ ''@'' @ me_domain e"

definition ensure_token :: "mail_env \<Rightarrow> nat \<Rightarrow> mail_state \<Rightarrow> string \<times> mail_state" where
  "ensure_token e i st =
     (case Option.bind (mail_user_of i st) (\<lambda>u. some_text (mu_newsletter_token u)) of
        Some t \<Rightarrow> (t, st)
      | None \<Rightarrow> (me_draw e, st\<lparr>ms_users := map (\<lambda>u. if ac_id (mu_account u) = i then u\<lparr>mu_newsletter_token := Some (me_draw e)\<rparr> else u)
                                               (ms_users st)\<rparr>))"

definition inbound_configured :: "mail_env \<Rightarrow> bool" where
  "inbound_configured e \<longleftrightarrow> me_domain e \<noteq> ''newsletters.weirling.local''
     \<and> list_ex (\<lambda>s. s \<noteq> []) (me_signing_key e # map (me_secret e) [''postmark'', ''resend'', ''cloudflare''])"

definition start_test :: "mail_env \<Rightarrow> string \<Rightarrow> string \<Rightarrow> mail_state \<Rightarrow> mail_state" where
  "start_test e nonce user st = put_test e user \<lparr>ad_nonce = nonce, ad_sent_at = me_now e, ad_received_at = None\<rparr> st"

datatype test_report = No_test | Test_waiting moment | Test_arrived moment moment

definition test_status :: "mail_env \<Rightarrow> string \<Rightarrow> mail_state \<Rightarrow> test_report" where
  "test_status e user st =
     (case test_of e user st of
        None \<Rightarrow> No_test
      | Some t \<Rightarrow> (case ad_received_at t of None \<Rightarrow> Test_waiting (ad_sent_at t) | Some r \<Rightarrow> Test_arrived (ad_sent_at t) r))"

text \<open>The address, whether mail can arrive, and whether the reader has confirmed the account.\<close>

definition my_newsletter_address :: "mail_env \<Rightarrow> nat \<Rightarrow> mail_state \<Rightarrow> (string \<times> bool \<times> bool) \<times> mail_state" where
  "my_newsletter_address e i st =
     (let (token, st) = ensure_token e i st
      in ((address_for e token, inbound_configured e,
           some_and (mail_user_of i st) (\<lambda>u. may_email (me_verification e) (mu_account u))), st))"

text \<open>One test a minute; \<open>sent\<close> tells whether the mail server took the test. The subject of the test is returned.\<close>

definition send_address_test :: "mail_env \<Rightarrow> string \<Rightarrow> bool \<Rightarrow> nat \<Rightarrow> mail_state \<Rightarrow> (api_error + string \<times> string) \<times> mail_state" where
  "send_address_test e nonce sent i st =
     (let user = me_show_uuid e i; key = ''newsletter-test-sent:'' @ user
      in if \<not> inbound_configured e then (Inl CONFLICT, st)
         else if me_up e \<and> some_and (ms_seen st key) (\<lambda>t. me_now e < t) then (Inl TOO_MANY_REQUESTS, st)
         else
           let st = (if me_up e then st\<lparr>ms_seen := (ms_seen st)(key \<mapsto> me_now e + 60)\<rparr> else st);
               (token, with_token) = ensure_token e i st;
               mail = (address_for e token, TEST_SUBJECT_PREFIX @ nonce)
           in if sent then (Inr mail, start_test e nonce user with_token)
              else (Inl UNAVAILABLE, start_test e nonce user st))"

text \<open>
  C32. Mail to the personal address of a reader finds its owner: the address is read back to the token it was made of, in any
  case of its letters, and the token to the account.
\<close>

theorem address_finds_owner:
  assumes "token \<noteq> []" "lower token = token" "CHR ''@'' \<notin> set token"
    and "mail_user_of i st = Some u" "mu_newsletter_token u = Some token"
    and "\<And>v. v \<in> set (ms_users st) \<Longrightarrow> mu_newsletter_token v = Some token \<Longrightarrow> ac_id (mu_account v) = i"
  shows "recipient_token (address_for e token) = Some token
    \<and> recipient_user e (address_for e token) st = Some (me_show_uuid e i)
    \<and> fst (ensure_token e i st) = token \<and> snd (ensure_token e i st) = st"
proof -
  have sp: "split_char CHR ''@'' (x @ ''@'' @ d) = x # split_char CHR ''@'' d" if "CHR ''@'' \<notin> set x" for x d
    using that by (induction x) auto
  have h: "hd (split_char CHR ''@'' (address_for e token)) = ''u.'' @ token"
    using sp [of "''u.'' @ token" "me_domain e"] assms(3) by (simp add: address_for_def)
  have l: "lower (''u.'' @ token) = ''u.'' @ token" using assms(2) by (simp add: lower_def lower_char_def char_code_def)
  have r: "recipient_token (address_for e token) = Some token"
    using assms(1) unfolding recipient_token_def h l by (simp add: Let_def)
  have "u \<in> set (ms_users st)" using assms(4) by (auto simp: mail_user_of_def find_Some_iff)
  then obtain v where v: "find (\<lambda>u. mu_newsletter_token u = Some token) (ms_users st) = Some v"
    using assms(5) by (cases "find (\<lambda>u. mu_newsletter_token u = Some token) (ms_users st)") (auto simp: find_None_iff)
  then have "v \<in> set (ms_users st)" "mu_newsletter_token v = Some token" by (auto simp: find_Some_iff)
  then have "owner_of_token token st = Some i" using v assms(6) by (simp add: owner_of_token_def)
  moreover have "address_for e token \<noteq> []" by (simp add: address_for_def)
  ultimately have "recipient_user e (address_for e token) st = Some (me_show_uuid e i)"
    using h r by (simp add: recipient_user_def)
  then show ?thesis using r assms(1,4,5) by (simp add: ensure_token_def)
qed

subsection \<open>Only signed mail comes in, and once\<close>

lemma guard_fresh:
  assumes "webhook_first_seen e key st = (Inr True, st')"
  shows "\<not> some_and (ms_seen st key) (\<lambda>t. me_now e < t)" "me_guard_up e"
    "st' = st\<lparr>ms_seen := (ms_seen st)(key \<mapsto> me_now e + of_int (me_max_age e))\<rparr>"
  using assms by (auto simp: webhook_first_seen_def split: if_splits)

definition mail_signed :: "mail_env \<Rightarrow> payload \<Rightarrow> bool" where
  "mail_signed e p \<longleftrightarrow> (let (token, timestamp, signature) = extract_signature_fields p
     in signature = mb_hmac (me_lib e) (me_signing_key e) (timestamp @ token)
        \<and> some_and (int_of_text timestamp) (\<lambda>t. \<bar>me_now e - of_int t\<bar> \<le> of_int (me_max_age e)))"

definition guard_key :: "payload \<Rightarrow> string" where
  "guard_key p = ''mailgun:webhook:token:'' @ fst (extract_signature_fields p)"

lemma authenticated:
  assumes "authenticate_mailgun e p st = (Inr u, st')" "me_signing_key e \<noteq> []"
  shows "mail_signed e p \<and> \<not> some_and (ms_seen st (guard_key p)) (\<lambda>t. me_now e < t)
    \<and> st' = st\<lparr>ms_seen := (ms_seen st)(guard_key p \<mapsto> me_now e + of_int (me_max_age e))\<rparr>"
proof -
  obtain token timestamp signature where f: "extract_signature_fields p = (token, timestamp, signature)" by (rule prod_cases3)
  have v: "verify_mailgun_signature (mb_hmac (me_lib e)) token timestamp signature (me_signing_key e) (me_max_age e) (me_now e) = Inr True"
    using assms f by (auto simp: authenticate_mailgun_def split: sum.splits bool.splits prod.splits)
  then have s: "mail_signed e p"
    using f by (auto simp: verify_mailgun_signature_def mail_signed_def compare_digest_def Let_def split: if_splits option.splits)
  obtain seen st1 where fs: "webhook_first_seen e (''mailgun:webhook:token:'' @ token) st = (seen, st1)"
    by (cases "webhook_first_seen e (''mailgun:webhook:token:'' @ token) st")
  then have "seen = Inr True" "st1 = st'"
    using assms v f by (auto simp: authenticate_mailgun_def and_then_eq_Inr)
  with fs show ?thesis using s f guard_fresh [of e "''mailgun:webhook:token:'' @ token" st st'] by (simp add: guard_key_def)
qed

lemma not_authenticated:
  assumes "authenticate_mailgun e p st = (Inl x, st')"
  shows "st' = st"
proof -
  have "st1 = st" if "webhook_first_seen e key st = (seen, st1)" "and_then seen (\<lambda>fresh. guard_that fresh CONFLICT) = Inl x" for key seen st1
    using that by (auto simp: webhook_first_seen_def guard_that_def split: if_splits)
  then show ?thesis using assms
    by (auto simp: authenticate_mailgun_def Let_def split: prod.splits if_splits sum.splits bool.splits)
qed

lemma receive_keeps_guard:
  assumes "\<And>st. ms_seen (remember st) = ms_seen st"
  shows "ms_seen (snd (receive_mail e user n sender subject body mid remember st)) = ms_seen st"
proof -
  have p: "ms_seen st' = ms_seen st" if "plan_allows_newsletter e u n st = Inr (b, st')" for u b st st'
    using that by (auto simp: plan_allows_newsletter_def split: if_splits option.splits prod.splits)
  have t: "ms_seen (snd (record_if_test e user subject st)) = ms_seen st" for st
    by (simp add: record_if_test_def put_test_def split: option.split)
  have m: "ms_seen (process_inbound_email e sender subject body mid user st) = ms_seen st" for st
    by (simp add: process_inbound_email_def Let_def)
  define plan where "plan s = (case some_text user of None \<Rightarrow> Inr (True, s) | Some u \<Rightarrow> plan_allows_newsletter e u n s)" for s
  have plan: "ms_seen st' = ms_seen s" if "plan s = Inr (b, st')" for s st' b
    using that p [of _ s b st'] by (auto simp: plan_def split: option.splits)
  obtain budget cs where b: "inbound_allowed (me_abuse e) (\<lambda>_. if me_up e then Up else Incr_fails) user n (me_now e) (ms_inbound st) = (budget, cs)"
    by (cases "inbound_allowed (me_abuse e) (\<lambda>_. if me_up e then Up else Incr_fails) user n (me_now e) (ms_inbound st)")
  show ?thesis
  proof (cases "may_receive_newsletters e user st \<and> budget = Allowed")
    case False
    then show ?thesis by (auto simp: receive_mail_def b)
  next
    case True
    show ?thesis
    proof (cases "plan (st\<lparr>ms_inbound := cs\<rparr>)")
      case (Inl x)
      then show ?thesis using True by (simp add: receive_mail_def b plan_def)
    next
      case (Inr v)
      obtain ok st1 where v: "v = (ok, st1)" by (cases v)
      have s1: "ms_seen st1 = ms_seen st" using plan [OF Inr [unfolded v]] by simp
      obtain test st2 where t2: "record_if_test e user subject st1 = (test, st2)" by (cases "record_if_test e user subject st1")
      have "ms_seen st2 = ms_seen st" using t [of st1] t2 s1 by simp
      then show ?thesis using True Inr v t2 s1 m assms by (cases ok) (simp_all add: receive_mail_def b plan_def)
    qed
  qed
qed

lemma remember_keeps_guard:
  "ms_seen (ensure_newsletter_source e i sender lu ht st) = ms_seen st" "ms_seen (remember_sender e user sender lu h st) = ms_seen st"
  by (simp_all add: ensure_newsletter_source_def remember_sender_def Let_def split: option.split)

lemma inbound_guard:
  assumes "me_signing_key e \<noteq> []"
  shows "if fst (authenticate_mailgun e p st) = Inr ()
    then mail_signed e p \<and> \<not> some_and (ms_seen st (guard_key p)) (\<lambda>t. me_now e < t)
      \<and> ms_seen (snd (inbound_email e p st)) = (ms_seen st)(guard_key p \<mapsto> me_now e + of_int (me_max_age e))
    else snd (inbound_email e p st) = st"
proof -
  obtain a st1 where a: "authenticate_mailgun e p st = (a, st1)" by (cases "authenticate_mailgun e p st")
  show ?thesis
  proof (cases a)
    case (Inl x)
    then show ?thesis using not_authenticated [of e p st x st1] a by (simp add: inbound_email_def Let_def)
  next
    case (Inr u)
    note auth = authenticated [OF a [unfolded Inr] assms]
    have "ms_seen (snd (inbound_email e p st)) = ms_seen st1"
      using a Inr by (simp add: inbound_email_def Let_def receive_keeps_guard remember_keeps_guard)
    then show ?thesis using auth a Inr by simp
  qed
qed

text \<open>The tokens of the calls that pass the check and the guard, in a sequence of calls.\<close>

fun honoured :: "(mail_env \<times> payload) list \<Rightarrow> mail_state \<Rightarrow> string list" where
  "honoured [] st = []"
| "honoured ((e, p) # calls) st =
     (let rest = honoured calls (snd (inbound_email e p st))
      in if fst (authenticate_mailgun e p st) = Inr () then fst (extract_signature_fields p) # rest else rest)"

text \<open>A call with the signing key set, whose timestamp is that of its token and is before its receipt.\<close>

definition call_ok :: "(string \<Rightarrow> string) \<Rightarrow> int \<Rightarrow> mail_env \<times> payload \<Rightarrow> bool" where
  "call_ok stamp age c \<longleftrightarrow> (case c of (e, p) \<Rightarrow> me_signing_key e \<noteq> [] \<and> me_max_age e = age
     \<and> fst (snd (extract_signature_fields p)) = stamp (fst (extract_signature_fields p))
     \<and> of_int (or_default (int_of_text (stamp (fst (extract_signature_fields p)))) 0) < me_now e)"


text \<open>
  C8. Outside development mail comes in only with a valid signature: whatever a Mailgun webhook stores, a mail, a source or the
  arrival of a test, it stores only for a fresh timestamp signed with the key, and a token that the guard has not seen.
\<close>

theorem only_signed_mail_comes_in:
  assumes "inbound_email e p st = (r, st')" "st' \<noteq> st" "\<not> me_development e"
  shows "mail_signed e p \<and> me_signing_key e \<noteq> [] \<and> \<not> some_and (ms_seen st (guard_key p)) (\<lambda>t. me_now e < t)"
proof (cases "me_signing_key e = []")
  case True
  then have "authenticate_mailgun e p st = (Inl UNAUTHORIZED, st)"
    using assms(3) by (simp add: authenticate_mailgun_def split: prod.split)
  then show ?thesis using assms(1,2) by (simp add: inbound_email_def Let_def)
next
  case False
  then show ?thesis using inbound_guard [OF False, of p st] assms(1,2) by (auto split: if_splits)
qed

subsection \<open>Examples and limits\<close>

definition mail_payload :: "string \<Rightarrow> string \<Rightarrow> payload" where
  "mail_payload token timestamp = \<lparr>pa_json = False, pa_texts = [(''token'', token), (''timestamp'', timestamp),
     (''signature'', ''k'' @ timestamp @ token), (''sender'', ''news@x.org''), (''body'', ''Hello''), (''recipient'', ''u.ab@m.org'')],
     pa_objects = [], pa_lists = [], pa_headers = None\<rparr>"

definition plain_lib :: mail_lib where
  "plain_lib = \<lparr>mb_hmac = (\<lambda>k m. k @ m), mb_digest = id, mb_clean_html = (\<lambda>h. (h, None)), mb_html_to_text = id\<rparr>"

definition mail_at :: "moment \<Rightarrow> mail_env" where
  "mail_at now = \<lparr>me_lib = plain_lib, me_development = False, me_signing_key = ''k'', me_secret = (\<lambda>_. ''k''), me_max_age = 900,
     me_domain = ''m.org'', me_billing = example_settings\<lparr>bc_hosted := False\<rparr>, me_abuse = (se_abuse small_env)\<lparr>ab_hosted := False\<rparr>,
     me_verification = False, me_guard_up = True, me_up = True, me_now = now, me_draw = ''d'', me_read_uuid = (\<lambda>_. Some 1),
     me_show_uuid = (\<lambda>_. ''1'')\<rparr>"

definition one_address :: mail_state where
  "one_address = \<lparr>ms_seen = (\<lambda>_. None), ms_mails = (\<lambda>_. None), ms_sources = [], ms_tests = (\<lambda>_. None),
     ms_users = [\<lparr>mu_account = example_account, mu_newsletter_token = Some ''ab''\<rparr>], ms_inbound = (\<lambda>_. None), ms_quota = (\<lambda>_. 0),
     ms_next = 0\<rparr>"


lemma example_mail_stored:
  "fst (inbound_email (mail_at 101) (mail_payload ''a'' ''100'') one_address) = Inr Stored
    \<and> map ns_name (ms_sources (snd (inbound_email (mail_at 101) (mail_payload ''a'' ''100'') one_address))) = [''news@x.org'']"
  by code_simp

theorem only_signed_mail_comes_in_witness:
  "mail_signed (mail_at 101) (mail_payload ''a'' ''100'')"
proof -
  have "snd (inbound_email (mail_at 101) (mail_payload ''a'' ''100'') one_address) \<noteq> one_address"
    using example_mail_stored by (auto simp: one_address_def)
  moreover have "\<not> me_development (mail_at 101)" by (simp add: mail_at_def)
  ultimately show ?thesis
    using only_signed_mail_comes_in [of "mail_at 101" "mail_payload ''a'' ''100''" one_address, OF surjective_pairing] by blast
qed

theorem address_finds_owner_witness:
  "recipient_user (mail_at 5) (address_for (mail_at 5) ''ab'') one_address = Some ''1''"
  using address_finds_owner [of "''ab''" 1 one_address "\<lparr>mu_account = example_account, mu_newsletter_token = Some ''ab''\<rparr>" "mail_at 5"]
  by (simp add: one_address_def mail_user_of_def example_account_def lower_def lower_char_def char_code_def mail_at_def)

text \<open>
  The guard lasts for the maximal age from the receipt, but a timestamp may be that far in the future: a webhook that comes
  early is honoured again after the guard is gone.
\<close>

lemma early_webhook_is_replayed:
  "honoured (map (\<lambda>t. (mail_at t, mail_payload ''a'' ''1500'')) [1000, 1200, 1950]) one_address = [''a'', ''a'']"
  by code_simp

text \<open>The other providers sign the body only: the same request is accepted again whenever the guard is gone.\<close>

definition postmark_payload :: payload where
  "postmark_payload = \<lparr>pa_json = True, pa_texts = [(''From'', ''news@x.org''), (''OriginalRecipient'', ''u.ab@m.org''),
     (''MessageID'', ''m1''), (''TextBody'', ''Hello'')], pa_objects = [], pa_lists = [], pa_headers = None\<rparr>"

lemma signed_body_is_replayed:
  "(let call = (\<lambda>t st. inbound_provider (mail_at t) ''postmark'' ''raw'' ''kraw'' (Some postmark_payload) st);
        st1 = snd (call 1000 one_address)
    in fst (call 1000 one_address) = Inr Stored \<and> fst (call 1100 st1) = Inl CONFLICT \<and> fst (call 1000000 st1) = Inr Stored)"
  by code_simp

text \<open>Every new sender is a new source, whatever the plan of the reader allows.\<close>

lemma senders_pass_the_source_limit:
  "(let e = (mail_at 50)\<lparr>me_billing := example_settings\<rparr>;
        st = foldl (\<lambda>st s. ensure_newsletter_source e 1 s None None st) one_address [''a'', ''b'', ''c'']
    in length (ms_sources st) = 3) \<and> limit (se_billing small_env) (se_user small_env) (se_now small_env) Sources = 2"
proof
  show "let e = (mail_at 50)\<lparr>me_billing := example_settings\<rparr>;
        st = foldl (\<lambda>st s. ensure_newsletter_source e 1 s None None st) one_address [''a'', ''b'', ''c'']
    in length (ms_sources st) = 3" by code_simp
qed (rule small_limit)

text \<open>
  A poll of a newsletter source takes every mail of the reader, not only those of its sender: with two sources, the mail of the
  second sender is stored under the first, which is polled first.
\<close>

definition newsletter_row :: "nat \<Rightarrow> string \<Rightarrow> subscription" where
  "newsletter_row i name = (blank_source i 7 (''newsletter://u/'' @ name) 0)\<lparr>so_source_type := ''newsletter'', so_name := Some name\<rparr>"

lemma senders_are_mixed:
  "(case ingest_all_feeds
      ((example_env None 5)\<lparr>ie_mails := (\<lambda>_. [\<lparr>ml_id = ''2'', ml_subject = Some ''B'', ml_sender = Some ''b@y.org'', ml_body = Some ''Hello''\<rparr>])\<rparr>)
      None ((example_state [])\<lparr>ig_sources := empty_sources\<lparr>
        sx_sources := [newsletter_row 0 ''a@x.org'', newsletter_row 1 ''b@y.org''], sx_next := 2\<rparr>\<rparr>) of
      Inl _ \<Rightarrow> False
    | Inr (r, st) \<Rightarrow> map (\<lambda>c. (cr_author c, ci_source_id c)) (ig_items st) = [(Some ''b@y.org'', Some 0)])"
  by code_simp

end
