(* ===== verification/Spec2Isabelle.thy ===== *)
theory Spec2Isabelle
  imports Learning Sections Ssrf Schedule DigestBuild Lifecycle Learner Feedback Throttle Auth
    Suggestions Evaluation Delivery Newsletter
begin

text \<open>
  \<^bold>\<open>Weirling (readprism): a verification library for the backend under \<open>src/backend/\<close>.\<close>

  The program is a personal reading service. It polls the feeds a reader follows, ranks what they
  published with a model that it learns from the reader's behaviour, and composes a daily digest. Around this
  core stand accounts, plans, billing webhooks and the endpoints of the web application. The library models the
  logic of \<open>app/\<close> and of the ranking package \<open>weirling_rank/\<close>, which the repository ships; the web
  frontends, migrations and scripts are outside.

  \<^bold>\<open>How the parts interact.\<close> A poll of a feed (Schedule, on addresses that Ssrf lets through) brings items in. A
  reader follows sources (Subscriptions, offered by Suggestions), within the limits of the plan (Entitlements, Billing)
  and of the instance (Throttle). The digest builder (Builder) gathers candidates, mixes in discoveries and
  what the crowd read (ColdStart), asks the ranker (Ranker, over the interest graph InterestGraph and the signal
  contract Contract), diversifies and interleaves (Diversity, Interleaving), lays the rows out in sections (Sections),
  explores (Learning) and writes the digest with its impressions. What the reader then does (Feedback, through the web
  or the signed links of an email, SignedLinks) changes interactions, trust and interests; once a digest
  has settled, Learner trains the weights that the next build reads. Sessions and Auth decide who may ask for any
  of this; Lifecycle reminds, mails and deletes accounts.

  \<^bold>\<open>Theories and sources.\<close>

  \<^item> Prelude: numbers, optional values, stable descending sort, lists with errors; the lemmas that all components share.
  \<^item> Contract: \<open>weirling_rank/contract.py\<close>, \<open>services/ranking/feedback_map.py\<close>: signals, labels, trust, time scales.
  \<^item> Learning: \<open>services/ranking/learning.py\<close>: simplex projection, pairwise update, exploration, explanations.
  \<^item> Content: the rows of \<open>models/content.py\<close> and the records the other theories read.
  \<^item> Sections: \<open>services/digest/section_builder.py\<close>: capacities, topic cap, creator grouping, all loops of the layout.
  \<^item> Urls, Ssrf: \<open>utils/ssrf.py\<close> and what it needs of \<open>ipaddress\<close> and \<open>urllib.parse\<close>; addresses are \<open>32 word\<close> and
    \<open>128 word\<close>.
  \<^item> Schedule: \<open>services/ingestion/schedule.py\<close>, the state a poll leaves behind (\<open>workers/tasks/ingest_feeds.py\<close>).
  \<^item> InterestGraph: \<open>services/interest_graph/\<close> and the edits of interests in \<open>api/feedback.py\<close>.
  \<^item> Ranker: \<open>weirling_rank/\<close> (clustering, eight signals, assembly) and \<open>services/ranking/ranker.py\<close>, which loads a reader.
  \<^item> Diversity, Interleaving, Stories, Takedown, ColdStart: \<open>services/ranking/interests.py\<close>, \<open>interleaving.py\<close>,
    \<open>services/digest/synthesis.py\<close>, \<open>services/takedown.py\<close>, \<open>services/cold_start/collaborative.py\<close>.
  \<^item> Builder, BuildFacts, DigestBuild: \<open>services/digest/builder.py\<close>; the model, the lemmas on which rows flow where, and
    the properties of a whole build.
  \<^item> Billing, Entitlements, Lifecycle: \<open>services/billing/\<close>, \<open>services/entitlements.py\<close>, the tasks \<open>paused_accounts.py\<close>,
    \<open>trial_emails.py\<close> and \<open>reengagement.py\<close>.
  \<^item> Learner: \<open>services/ranking/learner.py\<close>, \<open>meta_weights.py\<close>: training from settled digests and the weights the ranker reads.
  \<^item> SignedLinks: \<open>utils/signed_links.py\<close>, \<open>utils/unsubscribe.py\<close>.
  \<^item> Web: the answers of an endpoint, an HTTP error or a Python exception that nobody catches (answered 500).
  \<^item> Feedback: \<open>api/feedback.py\<close>, the email actions of \<open>api/digest.py\<close>, the events of \<open>services/product_metrics.py\<close>.
  \<^item> Throttle: \<open>utils/ratelimit.py\<close>, \<open>services/abuse.py\<close>, \<open>services/registration.py\<close>.
  \<^item> Sessions, Auth: \<open>api/auth.py\<close>, \<open>api/session_cookies.py\<close>, \<open>api/tokens.py\<close>, \<open>services/email_verification.py\<close>.
  \<^item> Subscriptions, Suggestions: \<open>api/sources.py\<close>, \<open>services/ingestion/opml_io.py\<close>, \<open>feeds.py\<close>, \<open>utils/xml_safety.py\<close>,
    \<open>workers/tasks/import_jobs.py\<close>, \<open>services/cold_start/discover_sources.py\<close>.
  \<^item> Evaluation: \<open>services/ranking/evaluation.py\<close>.

  \<^bold>\<open>State.\<close> A row of the database is a record with the columns that modelled code reads or writes; a table is the list
  of its rows in insertion order, and a query is a filter, a sort and a take on that list, with the order the SQL
  asks for. An endpoint or task is a function from its arguments and the state to an answer and the new state; an
  exception is a value of a sum type, and the state after it is the one that the code has committed. Redis is a
  store whose commands may fail (an argument says which do). Long runs are lists of calls, or inductive step relations.

  \<^bold>\<open>Numbers and time.\<close> Floats are reals, so statements are about the mathematics of the code and not about rounding;
  where the code asks whether a number is finite, \<open>pyfloat\<close> keeps the other values. Moments are seconds as reals, in UTC.
  UUIDs are naturals; where their text matters, parsing and printing are parameters.

  \<^bold>\<open>What the lemmas show.\<close> Besides the properties, each theory holds the invariants its operations keep (sections and
  topic counts in Sections, node and edge ranges in InterestGraph, dimensions in Ranker, used teams in Interleaving, the store
  that only grows in Auth, unique keys in Feedback, Subscriptions and Suggestions), and, as lemmas after a comment, small
  concrete runs that exhibit what the findings of the manifest describe.

  \<^bold>\<open>Termination and fuel.\<close> Every loop is a total function. The linkage loop of the ranker removes a cluster a turn; the
  MMR loop an item a turn; the draft of two teams runs for as many turns as there are items left; the redirect loop has fuel
  \<open>max_redirects + 1\<close>, which is the bound of the code's own loop; the batches of an import shorten the list by a hundred; the rank
  loop moves its start past a tie group. DigestBuild and Subscriptions state that a build and an import return.

  \<^bold>\<open>Parameters.\<close> Code outside the repository is an argument: the HMAC, the JWT codec, bcrypt and random draws (one record
  \<open>auth_lib\<close>), DNS and the HTTP transport, the text encoder, the briefing writer, mail delivery, the OPML parser and defusedxml,
  feed autodiscovery, the canonical form of a URL. A property that relies on one has the documented behaviour as
  a hypothesis and a witness with a concrete instance.

  \<^bold>\<open>Not modelled.\<close> Parsing of pages and feeds (\<open>rss_parser.py\<close>, \<open>scraper.py\<close>, \<open>extract.py\<close>), language-model summaries, embeddings
  and vector search (calls of numerical libraries), the provider adapters of billing, delivery and rendering of emails and
  push messages, metrics of the instance, importers of other services, the setup pages, database migrations, scripts and the frontends. The manifest
  lists each with its reason.
\<close>

end
